(* ===== verification/Brook_Prelude.thy ===== *)
theory Brook_Prelude
  imports Main "HOL-Library.List_Lexorder" "HOL-Library.Char_ord" "HOL-Library.Multiset"
begin

text \<open>
  The vocabulary every other theory shares: strings as the UTF-8 bytes Rust and SQLite compare
  (a \<open>char\<close> of HOL is a byte, and \<open>List_Lexorder\<close> is the byte-wise order of \<open>str::cmp\<close> and
  of SQLite's BINARY collation), tables as lists of rows with the effect of the SQL statements
  the code runs on them, and the sequence-number guard that the cache's tables share, stated
  as a locale.
\<close>

named_theorems row_simps \<open>what the statements on a table do to its rows\<close>

section \<open>Strings\<close>

definition is_ascii_digit :: "char \<Rightarrow> bool" where
  "is_ascii_digit c \<longleftrightarrow> CHR ''0'' \<le> c \<and> c \<le> CHR ''9''"

definition is_ascii_hexdigit :: "char \<Rightarrow> bool" where
  "is_ascii_hexdigit c \<longleftrightarrow>
     is_ascii_digit c \<or> (CHR ''a'' \<le> c \<and> c \<le> CHR ''f'') \<or> (CHR ''A'' \<le> c \<and> c \<le> CHR ''F'')"

definition ascii_lower :: "char \<Rightarrow> char" where
  "ascii_lower c = (if CHR ''A'' \<le> c \<and> c \<le> CHR ''Z'' then char_of (of_char c + 32 :: nat) else c)"

text \<open>
  A byte that continues a UTF-8 character (\<open>10xxxxxx\<close>), and \<open>s.chars().take(n)\<close>: the first
  \<open>n\<close> characters, each with the bytes that continue it.
\<close>

definition utf8_continues :: "char \<Rightarrow> bool" where
  "utf8_continues c \<longleftrightarrow> 128 \<le> (of_char c :: nat) \<and> (of_char c :: nat) < 192"

fun take_chars :: "nat \<Rightarrow> string \<Rightarrow> string" where
  "take_chars n [] = []"
| "take_chars n (c # cs) =
     (if utf8_continues c then c # take_chars n cs
      else case n of 0 \<Rightarrow> [] | Suc m \<Rightarrow> c # take_chars m cs)"

definition char_count :: "string \<Rightarrow> nat" where
  "char_count s = length (filter (\<lambda>c. \<not> utf8_continues c) s)"

lemma char_count_take_chars: "char_count (take_chars n s) \<le> n"
  by (induction n s rule: take_chars.induct) (auto simp: char_count_def split: nat.splits)

lemma take_chars_id: "char_count s \<le> n \<Longrightarrow> take_chars n s = s"
  by (induction n s rule: take_chars.induct) (auto simp: char_count_def split: nat.splits if_splits)

text \<open>
  \<open>str::trim\<close>: the UTF-8 forms of the characters with Unicode's White\_Space property, removed
  from both ends.
\<close>

definition unicode_whitespace :: "string list" where
  "unicode_whitespace =
     [[CHR 0x09], [CHR 0x0A], [CHR 0x0B], [CHR 0x0C], [CHR 0x0D], [CHR 0x20],
      [CHR 0xC2, CHR 0x85], [CHR 0xC2, CHR 0xA0], [CHR 0xE1, CHR 0x9A, CHR 0x80],
      [CHR 0xE2, CHR 0x80, CHR 0x80], [CHR 0xE2, CHR 0x80, CHR 0x81],
      [CHR 0xE2, CHR 0x80, CHR 0x82], [CHR 0xE2, CHR 0x80, CHR 0x83],
      [CHR 0xE2, CHR 0x80, CHR 0x84], [CHR 0xE2, CHR 0x80, CHR 0x85],
      [CHR 0xE2, CHR 0x80, CHR 0x86], [CHR 0xE2, CHR 0x80, CHR 0x87],
      [CHR 0xE2, CHR 0x80, CHR 0x88], [CHR 0xE2, CHR 0x80, CHR 0x89],
      [CHR 0xE2, CHR 0x80, CHR 0x8A], [CHR 0xE2, CHR 0x80, CHR 0xA8],
      [CHR 0xE2, CHR 0x80, CHR 0xA9], [CHR 0xE2, CHR 0x80, CHR 0xAF],
      [CHR 0xE2, CHR 0x81, CHR 0x9F], [CHR 0xE3, CHR 0x80, CHR 0x80]]"

definition starts_with :: "string \<Rightarrow> string \<Rightarrow> bool" where
  "starts_with s p \<longleftrightarrow> take (length p) s = p"

definition strip_prefix :: "string \<Rightarrow> string \<Rightarrow> string option" where
  "strip_prefix s p = (if starts_with s p then Some (drop (length p) s) else None)"

lemma strip_prefix_append [simp]: "strip_prefix (p @ s) p = Some s"
  by (simp add: strip_prefix_def starts_with_def)

lemma strip_prefix_Some: "strip_prefix s p = Some r \<longleftrightarrow> s = p @ r"
  by (auto simp: strip_prefix_def starts_with_def) (metis append_take_drop_id)

fun trim_front :: "nat \<Rightarrow> string list \<Rightarrow> string \<Rightarrow> string" where
  "trim_front 0 ws s = s"
| "trim_front (Suc n) ws s =
     (case find (starts_with s) ws of None \<Rightarrow> s | Some w \<Rightarrow> trim_front n ws (drop (length w) s))"

definition trim_start :: "string \<Rightarrow> string" where
  "trim_start s = trim_front (length s) unicode_whitespace s"

definition trim_end :: "string \<Rightarrow> string" where
  "trim_end s = rev (trim_front (length s) (map rev unicode_whitespace) (rev s))"

definition trim :: "string \<Rightarrow> string" where
  "trim s = trim_end (trim_start s)"

text \<open>\<open>n.to_string()\<close>: a number in decimal.\<close>

fun dec_digits :: "nat \<Rightarrow> nat \<Rightarrow> string" where
  "dec_digits 0 n = []"
| "dec_digits (Suc k) n =
     (if n < 10 then [char_of (n + 48)] else dec_digits k (n div 10) @ [char_of (n mod 10 + 48)])"

definition dec_string :: "nat \<Rightarrow> string" where
  "dec_string n = dec_digits (Suc n) n"

text \<open>\<open>s.lines()\<close>: cut at each line feed, a carriage return before it dropped.\<close>

fun lines_from :: "string \<Rightarrow> string \<Rightarrow> string list" where
  "lines_from cur [] = (if cur = [] then [] else [rev cur])"
| "lines_from cur (c # cs) =
     (if c = CHR 0x0A
      then rev (case cur of CHR 0x0D # r \<Rightarrow> r | _ \<Rightarrow> cur) # lines_from [] cs
      else lines_from (c # cur) cs)"

definition lines :: "string \<Rightarrow> string list" where
  "lines s = lines_from [] s"

text \<open>\<open>s.split_whitespace().next()\<close>: the first word.\<close>

fun until_space :: "string \<Rightarrow> string" where
  "until_space [] = []"
| "until_space (c # cs) =
     (if (\<exists>w \<in> set unicode_whitespace. starts_with (c # cs) w) then [] else c # until_space cs)"

definition first_word :: "string \<Rightarrow> string option" where
  "first_word s = (let w = until_space (trim_start s) in if w = [] then None else Some w)"

text \<open>\<open>xs.join(sep)\<close>.\<close>

fun join_with :: "string \<Rightarrow> string list \<Rightarrow> string" where
  "join_with sep [] = []"
| "join_with sep [x] = x"
| "join_with sep (x # y # xs) = x @ sep @ join_with sep (y # xs)"

text \<open>Decimal digits: \<open>str::parse\<close> of a string of ASCII digits.\<close>

definition digit_value :: "char \<Rightarrow> int" where
  "digit_value c = int (of_char c) - 48"

definition digits_value :: "string \<Rightarrow> int" where
  "digits_value s = foldl (\<lambda>n c. 10 * n + digit_value c) 0 s"

definition i64_max :: int where "i64_max = 2 ^ 63 - 1"

text \<open>\<open>str::parse::<u64>\<close>, which takes a leading plus sign.\<close>

definition parse_u64 :: "string \<Rightarrow> nat option" where
  "parse_u64 s =
     (let ds = (case s of CHR ''+'' # r \<Rightarrow> r | _ \<Rightarrow> s)
      in if ds \<noteq> [] \<and> list_all is_ascii_digit ds \<and> digits_value ds < 2 ^ 64
         then Some (nat (digits_value ds)) else None)"

text \<open>
  \<open>s.parse::<i64>().unwrap_or(0)\<close> for a string of digits: 0 when it is empty or the value
  does not fit. (A sign is not a digit; every string the code parses this way was checked to
  hold digits only, or is the stored cursor, which is such a string.)
\<close>

definition parse_i64_or_0 :: "string \<Rightarrow> int" where
  "parse_i64_or_0 s =
     (if s \<noteq> [] \<and> list_all is_ascii_digit s \<and> digits_value s \<le> i64_max then digits_value s else 0)"

text \<open>Least and greatest of a list of strings, \<open>None\<close> when it is empty (\<open>Iterator::max\<close>).\<close>

definition list_max :: "'a :: linorder list \<Rightarrow> 'a option" where
  "list_max xs = (if xs = [] then None else Some (Max (set xs)))"

definition list_min :: "'a :: linorder list \<Rightarrow> 'a option" where
  "list_min xs = (if xs = [] then None else Some (Min (set xs)))"

lemma list_max_Nil [simp]: "list_max [] = None"
  and list_min_Nil [simp]: "list_min [] = None"
  by (simp_all add: list_max_def list_min_def)

lemma list_max_Some: "list_max xs = Some m \<longleftrightarrow> m \<in> set xs \<and> (\<forall>x \<in> set xs. x \<le> m)"
  by (auto simp: list_max_def intro!: Max_in Max_eqI split: if_splits)

lemma list_min_Some: "list_min xs = Some m \<longleftrightarrow> m \<in> set xs \<and> (\<forall>x \<in> set xs. m \<le> x)"
  by (auto simp: list_min_def intro!: Min_in Min_eqI split: if_splits)

lemma list_max_None [simp]: "list_max xs = None \<longleftrightarrow> xs = []"
  and list_min_None [simp]: "list_min xs = None \<longleftrightarrow> xs = []"
  by (simp_all add: list_max_def list_min_def)

section \<open>Folds\<close>

text \<open>
  Where each step settles its own item and unsettles none, a fold leaves every item settled; where
  every item is settled, a fold changes nothing.
\<close>

lemma fold_all_settled:
  assumes "\<And>x s. x \<in> A \<Longrightarrow> I s \<Longrightarrow> S x (f x s)"
    and "\<And>x y s. x \<in> A \<Longrightarrow> y \<in> A \<Longrightarrow> I s \<Longrightarrow> S x s \<Longrightarrow> S x (f y s)"
    and "\<And>x s. x \<in> A \<Longrightarrow> I s \<Longrightarrow> I (f x s)"
    and "I s" and "set xs \<subseteq> A"
  shows "I (fold f xs s) \<and> (\<forall>x \<in> A. S x s \<or> x \<in> set xs \<longrightarrow> S x (fold f xs s))"
  using assms(4,5)
proof (induction xs arbitrary: s)
  case (Cons y ys)
  then have "I (f y s)" and sub: "set ys \<subseteq> A" and y: "y \<in> A" using assms(3) by auto
  then have "I (fold f ys (f y s)) \<and> (\<forall>x \<in> A. S x (f y s) \<or> x \<in> set ys \<longrightarrow> S x (fold f ys (f y s)))"
    by (intro Cons.IH)
  then show ?case using assms(1,2) Cons.prems(1) y by auto
qed auto

lemma fold_fst_noop:
  assumes "\<And>x a. x \<in> set xs \<Longrightarrow> fst (f x (d, a)) = d"
  shows "fst (fold f xs (d, a)) = d"
  using assms
proof (induction xs arbitrary: a)
  case (Cons x xs)
  from Cons.prems obtain a' where "f x (d, a) = (d, a')"
    by (metis fst_conv list.set_intros(1) surj_pair)
  with Cons show ?case by simp
qed simp

section \<open>Tables\<close>

text \<open>
  A table is the list of its rows. \<open>sel\<close> reads the row of a primary key, \<open>upsert\<close> is
  \<open>INSERT ... ON CONFLICT DO UPDATE SET ... WHERE ...\<close> and tells whether a row changed (the
  count \<open>execute\<close> returns), \<open>update_row\<close> is \<open>UPDATE ... WHERE <key> AND ...\<close>, \<open>insert_new\<close> is
  \<open>INSERT OR IGNORE\<close>. They act on the first row of a key; a primary key has one at most.
\<close>

fun sel :: "('r \<Rightarrow> 'k) \<Rightarrow> 'k \<Rightarrow> 'r list \<Rightarrow> 'r option" where
  "sel key k [] = None"
| "sel key k (x # xs) = (if key x = k then Some x else sel key k xs)"

fun upsert :: "('r \<Rightarrow> 'k) \<Rightarrow> 'r \<Rightarrow> ('r \<Rightarrow> bool) \<Rightarrow> ('r \<Rightarrow> 'r) \<Rightarrow> 'r list \<Rightarrow> 'r list \<times> bool" where
  "upsert key r p f [] = ([r], True)"
| "upsert key r p f (x # xs) =
     (if key x = key r then if p x then (f x # xs, True) else (x # xs, False)
      else let (ys, c) = upsert key r p f xs in (x # ys, c))"

fun update_row :: "('r \<Rightarrow> 'k) \<Rightarrow> 'k \<Rightarrow> ('r \<Rightarrow> bool) \<Rightarrow> ('r \<Rightarrow> 'r) \<Rightarrow> 'r list \<Rightarrow> 'r list \<times> bool" where
  "update_row key k p f [] = ([], False)"
| "update_row key k p f (x # xs) =
     (if key x = k then if p x then (f x # xs, True) else (x # xs, False)
      else let (ys, c) = update_row key k p f xs in (x # ys, c))"

fun insert_new :: "('r \<Rightarrow> 'k) \<Rightarrow> 'r \<Rightarrow> 'r list \<Rightarrow> 'r list" where
  "insert_new key r [] = [r]"
| "insert_new key r (x # xs) = (if key x = key r then x # xs else x # insert_new key r xs)"

definition insert_replace :: "('r \<Rightarrow> 'k) \<Rightarrow> 'r \<Rightarrow> 'r list \<Rightarrow> 'r list" where
  "insert_replace key r rows = filter (\<lambda>x. key x \<noteq> key r) rows @ [r]"

abbreviation rows_unique :: "('r \<Rightarrow> 'k) \<Rightarrow> 'r list \<Rightarrow> bool" where
  "rows_unique key rows \<equiv> distinct (map key rows)"

lemma sel_Some_in: "sel key k rows = Some r \<Longrightarrow> r \<in> set rows \<and> key r = k"
  by (induction rows) (auto split: if_splits)

lemma sel_None: "sel key k rows = None \<longleftrightarrow> k \<notin> key ` set rows"
  by (induction rows) auto

lemma sel_unique: "rows_unique key rows \<Longrightarrow> r \<in> set rows \<Longrightarrow> sel key (key r) rows = Some r"
  by (induction rows) (auto simp: rev_image_eqI)

lemma sel_upsert [row_simps]:
  assumes "\<And>x. key (f x) = key x"
  shows "sel key k (fst (upsert key r p f rows)) =
    (if k \<noteq> key r then sel key k rows
     else case sel key k rows of None \<Rightarrow> Some r | Some x \<Rightarrow> Some (if p x then f x else x))"
  by (induction rows) (auto simp: assms split: option.splits prod.splits)

lemma upsert_changed [row_simps]:
  "snd (upsert key r p f rows) = (case sel key (key r) rows of None \<Rightarrow> True | Some x \<Rightarrow> p x)"
  by (induction rows) (auto split: prod.splits)

lemma upsert_unchanged: "\<not> snd (upsert key r p f rows) \<Longrightarrow> fst (upsert key r p f rows) = rows"
  by (induction rows) (auto split: prod.splits if_splits)

lemma keys_upsert:
  assumes "\<And>x. key (f x) = key x"
  shows "key ` set (fst (upsert key r p f rows)) = insert (key r) (key ` set rows)"
  by (induction rows) (auto simp: assms split: prod.splits if_splits)

lemma unique_upsert:
  assumes "\<And>x. key (f x) = key x" and "rows_unique key rows"
  shows "rows_unique key (fst (upsert key r p f rows))"
  using assms(2)
proof (induction rows)
  case (Cons x xs)
  have "key ` set (fst (upsert key r p f xs)) = insert (key r) (key ` set xs)"
    by (simp add: keys_upsert assms(1))
  with Cons show ?case by (auto simp: assms(1) split: prod.splits)
qed simp

lemma set_upsert:
  "x \<in> set (fst (upsert key r p f rows)) \<Longrightarrow>
     x \<in> set rows \<or> x = r \<or> (\<exists>y \<in> set rows. key y = key r \<and> p y \<and> x = f y)"
  by (induction rows) (auto split: prod.splits if_splits)

lemma upsert_cong: "p = q \<Longrightarrow> f = g \<Longrightarrow> upsert key r p f rows = upsert key r q g rows"
  by simp

lemma sel_update_row [row_simps]:
  assumes "\<And>x. key (f x) = key x"
  shows "sel key k (fst (update_row key k' p f rows)) =
    (if k \<noteq> k' then sel key k rows else map_option (\<lambda>x. if p x then f x else x) (sel key k rows))"
  by (induction rows) (auto simp: assms split: option.splits prod.splits)

lemma update_row_changed [row_simps]:
  "snd (update_row key k p f rows) = (case sel key k rows of None \<Rightarrow> False | Some x \<Rightarrow> p x)"
  by (induction rows) (auto split: prod.splits)

lemma update_row_present: "snd (update_row key k p f rows) \<Longrightarrow> k \<in> key ` set rows"
  by (induction rows) (auto split: prod.splits if_splits)

lemma update_row_unchanged:
  "\<not> snd (update_row key k p f rows) \<Longrightarrow> fst (update_row key k p f rows) = rows"
  by (induction rows) (auto split: prod.splits if_splits)

lemma keys_update_row:
  assumes "\<And>x. key (f x) = key x"
  shows "map key (fst (update_row key k p f rows)) = map key rows"
  by (induction rows) (auto simp: assms split: prod.splits)

lemma key_set_update_row:
  assumes "\<And>x. key (f x) = key x"
  shows "key ` set (fst (update_row key k p f rows)) = key ` set rows"
  by (induction rows) (auto simp: assms split: prod.splits)

lemma set_update_row:
  "x \<in> set (fst (update_row key k p f rows)) \<Longrightarrow>
     x \<in> set rows \<or> (\<exists>y \<in> set rows. key y = k \<and> p y \<and> x = f y)"
  by (induction rows) (auto split: prod.splits if_splits)

lemma sel_insert_new [row_simps]:
  "sel key k (insert_new key r rows) =
     (case sel key k rows of None \<Rightarrow> if k = key r then Some r else None | Some x \<Rightarrow> Some x)"
  by (induction rows) (auto split: option.splits)

lemma set_insert_new:
  "set (insert_new key r rows) = (if key r \<in> key ` set rows then set rows else insert r (set rows))"
  by (induction rows) auto

lemma keys_insert_new [simp]:
  "key ` set (insert_new key r rows) = insert (key r) (key ` set rows)"
  by (auto simp: set_insert_new)

lemma unique_insert_new: "rows_unique key rows \<Longrightarrow> rows_unique key (insert_new key r rows)"
  by (induction rows) (auto simp: set_insert_new)

lemma insert_new_present: "key r \<in> key ` set rows \<Longrightarrow> insert_new key r rows = rows"
  by (induction rows) auto

lemma sel_filter [row_simps]:
  assumes "\<And>x. key x = k \<Longrightarrow> p x"
  shows "sel key k (filter p rows) = sel key k rows"
  by (induction rows) (auto simp: assms)

lemma sel_filter_out [row_simps]:
  assumes "\<And>x. key x = k \<Longrightarrow> \<not> p x"
  shows "sel key k (filter p rows) = None"
  by (induction rows) (auto simp: assms)

lemma unique_filter: "rows_unique key rows \<Longrightarrow> rows_unique key (filter p rows)"
  by (simp add: distinct_map_filter)

lemma sel_map [row_simps]:
  assumes "\<And>x. key (f x) = key x"
  shows "sel key k (map f rows) = map_option f (sel key k rows)"
  by (induction rows) (auto simp: assms)

lemma sel_insert_replace [row_simps]:
  "sel key k (insert_replace key r rows) = (if k = key r then Some r else sel key k rows)"
  by (induction rows) (auto simp: insert_replace_def)

lemma unique_insert_replace:
  "rows_unique key rows \<Longrightarrow> rows_unique key (insert_replace key r rows)"
  by (auto simp: insert_replace_def distinct_map_filter)

section \<open>The sequence guard\<close>

text \<open>
  What the cache promises of a guarded table (\<open>apply.rs\<close>, rule 3): a row replaces the stored
  one only with a higher sequence number. \<open>seq_of\<close> reads the number stored for a key, \<open>put\<close>
  offers a row. The laws are those of one offer; the lemmas are what they give for any number
  of offers in any order.
\<close>

locale seq_guard =
  fixes seq_of :: "'k \<Rightarrow> 't \<Rightarrow> int option"
    and put :: "'k \<Rightarrow> int \<Rightarrow> 'v \<Rightarrow> 't \<Rightarrow> 't"
  assumes seq_put: "seq_of k' (put k s v t) =
      (if k' = k then Some (case seq_of k t of None \<Rightarrow> s | Some s' \<Rightarrow> max s s') else seq_of k' t)"
    and put_stale: "seq_of k t = Some s' \<Longrightarrow> s \<le> s' \<Longrightarrow> put k s v t = t"
begin

definition offer :: "'k \<times> int \<times> 'v \<Rightarrow> 't \<Rightarrow> 't" where
  "offer r t = (case r of (k, s, v) \<Rightarrow> put k s v t)"

definition settled :: "'k \<times> int \<times> 'v \<Rightarrow> 't \<Rightarrow> bool" where
  "settled r t \<longleftrightarrow> (\<exists>s'. seq_of (fst r) t = Some s' \<and> fst (snd r) \<le> s')"

lemma offer_tuple: "offer (k, s, v) t = put k s v t"
  by (simp add: offer_def)

lemma offer_settles: "settled r (offer r t)"
  by (cases r) (auto simp: settled_def offer_def seq_put split: option.splits)

lemma offer_keeps_settled: "settled r t \<Longrightarrow> settled r (offer r' t)"
  by (cases r') (auto simp: settled_def offer_def seq_put split: option.splits)

lemma offer_noop: "settled r t \<Longrightarrow> offer r t = t"
  by (cases r) (auto simp: settled_def offer_def intro: put_stale)

lemma fold_keeps_settled: "settled r t \<Longrightarrow> settled r (fold offer rs t)"
  by (induction rs arbitrary: t) (auto intro: offer_keeps_settled)

lemma fold_settles: "r \<in> set rs \<Longrightarrow> settled r (fold offer rs t)"
  by (induction rs arbitrary: t) (auto intro: offer_settles fold_keeps_settled)

lemma fold_noop: "\<forall>r \<in> set rs. settled r t \<Longrightarrow> fold offer rs t = t"
  by (induction rs) (auto simp: offer_noop)

lemma replay: "fold offer rs (fold offer rs t) = fold offer rs t"
  by (rule fold_noop) (auto intro: fold_settles)

lemma seq_mono: "seq_of k t = Some s \<Longrightarrow> \<exists>s'. seq_of k (fold offer rs t) = Some s' \<and> s \<le> s'"
proof (induction rs arbitrary: t s)
  case (Cons r rs)
  obtain k' q v where r: "r = (k', q, v)" by (cases r) auto
  with Cons.prems have "seq_of k (offer r t) = Some (if k = k' then max q s else s)"
    by (auto simp: offer_def seq_put)
  from Cons.IH [OF this] obtain s' where "seq_of k (fold offer rs (offer r t)) = Some s'"
    and "(if k = k' then max q s else s) \<le> s'" by blast
  then show ?case by (auto split: if_splits)
qed simp

text \<open>The stored number after any offers is the highest one offered or stored.\<close>

definition seqs_for :: "'k \<Rightarrow> ('k \<times> int \<times> 'v) list \<Rightarrow> int set" where
  "seqs_for k rs = {s. \<exists>v. (k, s, v) \<in> set rs}"

lemma seqs_for_Cons:
  "seqs_for k ((k', s, v) # rs) = (if k' = k then insert s (seqs_for k rs) else seqs_for k rs)"
  by (auto simp: seqs_for_def)

lemma finite_seqs_for [simp]: "finite (seqs_for k rs)"
proof (rule finite_subset)
  show "seqs_for k rs \<subseteq> (fst \<circ> snd) ` set rs" by (force simp: seqs_for_def)
qed simp

lemma seq_fold:
  "seq_of k (fold offer rs t) =
     (let S = seqs_for k rs \<union> set_option (seq_of k t) in if S = {} then None else Some (Max S))"
proof (induction rs arbitrary: t)
  case Nil
  then show ?case by (cases "seq_of k t") (auto simp: seqs_for_def)
next
  case (Cons r rs)
  obtain k' q v where r: "r = (k', q, v)" by (cases r) auto
  have max2: "Max (insert (max a b) A) = max a (Max (insert b A))"
    and max3: "max a (Max (insert b A)) = max b (Max (insert a A))" if "finite A"
    for a b :: int and A
    using that by (cases "A = {}"; auto simp: max.assoc max.commute max.left_commute)+
  show ?case
  proof (cases "k' = k")
    case True
    then show ?thesis
      using max2 [OF finite_seqs_for] max3 [OF finite_seqs_for]
      by (cases "seq_of k t") (simp_all add: Cons.IH r offer_tuple seq_put seqs_for_Cons)
  next
    case False
    then show ?thesis
      by (simp add: Cons.IH r offer_tuple seq_put seqs_for_Cons del: Un_iff)
  qed
qed

lemma order_irrelevant:
  assumes "set rs = set rs'"
  shows "seq_of k (fold offer rs t) = seq_of k (fold offer rs' t)"
  by (simp add: seq_fold seqs_for_def assms)

end

section \<open>Accounts\<close>

text \<open>An optional caller as the multiset of who it accounts for.\<close>

definition opt_mset :: "'a option \<Rightarrow> 'a multiset" where
  "opt_mset x = (case x of None \<Rightarrow> {#} | Some a \<Rightarrow> {#a#})"

lemma opt_mset_simps [simp]: "opt_mset None = {#}" "opt_mset (Some a) = {#a#}"
  by (simp_all add: opt_mset_def)

end
