(* ===== verification/Json_Value.thy ===== *)
theory Json_Value
  imports Brook_Prelude
begin

text \<open>
  JSON as the core handles it: \<open>serde_json::Value\<close> with the accessors the core calls, and the
  SQLite JSON functions its statements use (\<open>json_extract\<close>, \<open>json_type\<close>, \<open>json_set\<close>,
  \<open>json_remove\<close>, \<open>json_each\<close>) at the one- and two-step paths that occur in them. A \<open>json TEXT\<close>
  column holds the value itself: writing it out and parsing it back is the identity.
  A number that is not an integer is kept as the text \<open>serde_json\<close> prints for it.
\<close>

datatype json =
    JNull
  | JBool bool
  | JInt int
  | JFloat string
  | JStr string
  | JArr "json list"
  | JObj "(string \<times> json) list"

section \<open>Reading a value\<close>

fun jget :: "string \<Rightarrow> json \<Rightarrow> json option" where
  "jget k (JObj kvs) = map_of kvs k"
| "jget k _ = None"

fun as_str :: "json \<Rightarrow> string option" where
  "as_str (JStr s) = Some s"
| "as_str _ = None"

fun as_i64 :: "json \<Rightarrow> int option" where
  "as_i64 (JInt n) = (if - (2 ^ 63) \<le> n \<and> n \<le> i64_max then Some n else None)"
| "as_i64 _ = None"

fun as_u64 :: "json \<Rightarrow> nat option" where
  "as_u64 (JInt n) = (if 0 \<le> n \<and> n < 2 ^ 64 then Some (nat n) else None)"
| "as_u64 _ = None"

fun as_bool :: "json \<Rightarrow> bool option" where
  "as_bool (JBool b) = Some b"
| "as_bool _ = None"

fun as_array :: "json \<Rightarrow> json list option" where
  "as_array (JArr xs) = Some xs"
| "as_array _ = None"

definition is_null :: "json \<Rightarrow> bool" where
  "is_null j \<longleftrightarrow> j = JNull"

text \<open>\<open>v.get(k).and_then(Value::as_str)\<close> and its kin.\<close>

definition jget_str :: "string \<Rightarrow> json \<Rightarrow> string option" where
  "jget_str k j = Option.bind (jget k j) as_str"

definition jget_i64 :: "string \<Rightarrow> json \<Rightarrow> int option" where
  "jget_i64 k j = Option.bind (jget k j) as_i64"

definition jget_array :: "string \<Rightarrow> json \<Rightarrow> json list option" where
  "jget_array k j = Option.bind (jget k j) as_array"

text \<open>
  Indexing (\<open>data["k"]\<close>) answers \<open>Null\<close> for a missing key or a value that is no object.
\<close>

definition jindex :: "string \<Rightarrow> json \<Rightarrow> json" where
  "jindex k j = (case jget k j of None \<Rightarrow> JNull | Some v \<Rightarrow> v)"

text \<open>\<open>v.as_str().unwrap_or_default()\<close>.\<close>

definition str_or_empty :: "json \<Rightarrow> string" where
  "str_or_empty v = (case as_str v of Some s \<Rightarrow> s | None \<Rightarrow> [])"

text \<open>
  A serde field of type \<open>Option<String>\<close> (missing and \<open>null\<close> are \<open>None\<close>, anything but a string
  is refused), and one of type \<open>String\<close>.
\<close>

definition field_opt_str :: "string \<Rightarrow> json \<Rightarrow> string option option" where
  "field_opt_str k j = (case jget k j of
       None \<Rightarrow> Some None
     | Some JNull \<Rightarrow> Some None
     | Some (JStr s) \<Rightarrow> Some (Some s)
     | Some _ \<Rightarrow> None)"

definition field_bool :: "string \<Rightarrow> json \<Rightarrow> bool option" where
  "field_bool k j = Option.bind (jget k j) as_bool"

text \<open>\<open>xs.iter().map(f).collect::<Option<Vec<_>>>()\<close>.\<close>

fun traverse :: "('a \<Rightarrow> 'b option) \<Rightarrow> 'a list \<Rightarrow> 'b list option" where
  "traverse f [] = Some []"
| "traverse f (x # xs) =
     (case f x of None \<Rightarrow> None
      | Some y \<Rightarrow> (case traverse f xs of None \<Rightarrow> None | Some ys \<Rightarrow> Some (y # ys)))"

lemma traverse_Some: "traverse f xs = Some ys \<Longrightarrow> list_all2 (\<lambda>x y. f x = Some y) xs ys"
  by (induction xs arbitrary: ys) (auto split: option.splits)

lemma traverse_SomeI: "list_all2 (\<lambda>x y. f x = Some y) xs ys \<Longrightarrow> traverse f xs = Some ys"
  by (induction rule: list_all2_induct) auto

lemma traverse_None: "traverse f xs = None \<longleftrightarrow> (\<exists>x \<in> set xs. f x = None)"
  by (induction xs) (auto split: option.splits)

lemma traverse_all: "(\<And>x. x \<in> set xs \<Longrightarrow> f x = Some (g x)) \<Longrightarrow> traverse f xs = Some (map g xs)"
  by (induction xs) auto

text \<open>A field of type \<open>Option<u32>\<close>, and one of type \<open>Vec<T>\<close> with and without a default.\<close>

definition field_opt_u32 :: "string \<Rightarrow> json \<Rightarrow> nat option option" where
  "field_opt_u32 k j = (case jget k j of
       None \<Rightarrow> Some None
     | Some JNull \<Rightarrow> Some None
     | Some (JInt n) \<Rightarrow> if 0 \<le> n \<and> n < 2 ^ 32 then Some (Some (nat n)) else None
     | Some _ \<Rightarrow> None)"

definition field_list :: "(json \<Rightarrow> 'a option) \<Rightarrow> string \<Rightarrow> json \<Rightarrow> 'a list option" where
  "field_list f k j = Option.bind (jget_array k j) (traverse f)"

definition field_list_or_empty :: "(json \<Rightarrow> 'a option) \<Rightarrow> string \<Rightarrow> json \<Rightarrow> 'a list option" where
  "field_list_or_empty f k j = (if jget k j = None then Some [] else field_list f k j)"

text \<open>Fields with \<open>#[serde(default)]\<close>: missing is the default, \<open>null\<close> and a wrong type are refused.\<close>

definition field_or :: "'a \<Rightarrow> (json \<Rightarrow> 'a option) \<Rightarrow> string \<Rightarrow> json \<Rightarrow> 'a option" where
  "field_or d f k j = (case jget k j of None \<Rightarrow> Some d | Some v \<Rightarrow> f v)"

definition field_opt :: "(json \<Rightarrow> 'a option) \<Rightarrow> string \<Rightarrow> json \<Rightarrow> 'a option option" where
  "field_opt f k j = (case jget k j of
       None \<Rightarrow> Some None
     | Some JNull \<Rightarrow> Some None
     | Some v \<Rightarrow> map_option Some (f v))"

fun as_u32 :: "json \<Rightarrow> nat option" where
  "as_u32 (JInt n) = (if 0 \<le> n \<and> n < 2 ^ 32 then Some (nat n) else None)"
| "as_u32 _ = None"

definition opt_json :: "('a \<Rightarrow> json) \<Rightarrow> 'a option \<Rightarrow> json" where
  "opt_json f x = (case x of None \<Rightarrow> JNull | Some v \<Rightarrow> f v)"

section \<open>SQLite's JSON functions\<close>

text \<open>\<open>json_extract(j, '$.k') = 1\<close>, which \<open>true\<close> and \<open>1.0\<close> satisfy too.\<close>

fun sql_one :: "json \<Rightarrow> bool" where
  "sql_one (JInt n) = (n = 1)"
| "sql_one (JBool b) = b"
| "sql_one (JFloat t) = (t = ''1.0'')"
| "sql_one _ = False"

definition extract_is_one :: "string \<Rightarrow> json \<Rightarrow> bool" where
  "extract_is_one k j = (case jget k j of None \<Rightarrow> False | Some v \<Rightarrow> sql_one v)"

text \<open>\<open>json_type(j, '$.k') = 'object'\<close> and \<open>= 'text'\<close>.\<close>

definition type_is_object :: "string \<Rightarrow> json \<Rightarrow> bool" where
  "type_is_object k j = (case jget k j of Some (JObj _) \<Rightarrow> True | _ \<Rightarrow> False)"

definition type_is_text :: "string \<Rightarrow> json \<Rightarrow> bool" where
  "type_is_text k j = (case jget k j of Some (JStr _) \<Rightarrow> True | _ \<Rightarrow> False)"

text \<open>\<open>json_extract(j, '$.k') = s\<close> for a text \<open>s\<close> (an id: no composite value prints like one).\<close>

definition extract_is_text :: "string \<Rightarrow> string \<Rightarrow> json \<Rightarrow> bool" where
  "extract_is_text k s j \<longleftrightarrow> jget k j = Some (JStr s)"

fun assoc_put :: "string \<Rightarrow> 'v \<Rightarrow> (string \<times> 'v) list \<Rightarrow> (string \<times> 'v) list" where
  "assoc_put k v [] = [(k, v)]"
| "assoc_put k v ((k', v') # kvs) = (if k' = k then (k, v) # kvs else (k', v') # assoc_put k v kvs)"

text \<open>\<open>json_set(j, '$.k', v)\<close>: an object's member is set; anything else is left as it is.\<close>

fun jset :: "string \<Rightarrow> json \<Rightarrow> json \<Rightarrow> json" where
  "jset k v (JObj kvs) = JObj (assoc_put k v kvs)"
| "jset k v j = j"

text \<open>\<open>json_set(j, '$.k.l', v)\<close> where \<open>$.k\<close> is an object (the statements check it first).\<close>

definition jset_in :: "string \<Rightarrow> string \<Rightarrow> json \<Rightarrow> json \<Rightarrow> json" where
  "jset_in k l v j = (case jget k j of Some (JObj kvs) \<Rightarrow> jset k (jset l v (JObj kvs)) j | _ \<Rightarrow> j)"

fun jremove :: "string \<Rightarrow> json \<Rightarrow> json" where
  "jremove k (JObj kvs) = JObj (filter (\<lambda>kv. fst kv \<noteq> k) kvs)"
| "jremove k j = j"

text \<open>The values \<open>json_each(j, '$.k')\<close> yields.\<close>

definition each_value :: "string \<Rightarrow> json \<Rightarrow> json list" where
  "each_value k j = (case jget k j of
       None \<Rightarrow> []
     | Some (JArr xs) \<Rightarrow> xs
     | Some (JObj kvs) \<Rightarrow> map snd kvs
     | Some v \<Rightarrow> [v])"

lemma map_of_assoc_put: "map_of (assoc_put k v kvs) k' = (if k' = k then Some v else map_of kvs k')"
  by (induction kvs) auto

lemma jget_jset: "jget k' (jset k v j) =
    (case j of JObj _ \<Rightarrow> if k' = k then Some v else jget k' j | _ \<Rightarrow> None)"
  by (cases j) (auto simp: map_of_assoc_put)

lemma map_of_filter_key:
  "map_of (filter (\<lambda>kv. fst kv \<noteq> k) kvs) k' = (if k' = k then None else map_of kvs k')"
  by (induction kvs) auto

lemma jget_jset_other [simp]: "k' \<noteq> k \<Longrightarrow> jget k' (jset k v j) = jget k' j"
  by (cases j) (auto simp: map_of_assoc_put)

lemma jget_jremove: "jget k' (jremove k j) = (if k' = k then None else jget k' j)"
  by (cases j) (auto simp: map_of_filter_key)

lemma jget_jset_in_other [simp]: "k' \<noteq> k \<Longrightarrow> jget k' (jset_in k l v j) = jget k' j"
  by (auto simp: jset_in_def split: option.splits json.splits)

lemma jget_Some_obj: "jget k j = Some v \<Longrightarrow> \<exists>kvs. j = JObj kvs"
  by (cases j) auto

lemma jget_jset_in_same:
  assumes "jget k j = Some (JObj kvs)"
  shows "jget k (jset_in k l v j) = Some (JObj (assoc_put l v kvs))"
  using jget_Some_obj [OF assms] assms by (auto simp: jset_in_def map_of_assoc_put)

lemma jset_in_not_object: "\<not> type_is_object k j \<Longrightarrow> jset_in k l v j = j"
  by (auto simp: type_is_object_def jset_in_def split: option.splits json.splits)

lemma type_is_object_jset_in [simp]:
  "type_is_object k (jset_in k' l v j) = type_is_object k j"
  by (cases "k = k'"; cases "jget k' j")
     (auto simp: type_is_object_def jset_in_def jget_jset map_of_assoc_put
       dest: jget_Some_obj split: json.splits)

lemma extract_is_one_other [simp]:
  "k' \<noteq> k \<Longrightarrow> extract_is_one k' (jset_in k l v j) = extract_is_one k' j"
  by (simp add: extract_is_one_def)

lemma assoc_put_idem: "assoc_put k v (assoc_put k v kvs) = assoc_put k v kvs"
  by (induction kvs) auto

lemma assoc_put_same: "map_of kvs k = Some v \<Longrightarrow> assoc_put k v kvs = kvs"
  by (induction kvs) auto

end
