(* ===== verification/Cache_Tables.thy ===== *)
theory Cache_Tables
  imports Json_Value
begin

text \<open>
  The tables of \<open>cache.db\<close> (\<open>CACHE_SCHEMA\<close> in \<open>core/src/store.rs\<close>) as lists of rows, one record
  per table, and the rows the server sends (\<open>Row\<close>, \<open>MemberRow\<close>, \<open>MessageRow\<close>, \<open>Batch\<close>,
  \<open>Applied\<close> in \<open>core/src/apply.rs\<close>). A transaction is a function from the database to the
  database: it commits whole, or (a failing statement) its result is dropped.
\<close>

record row =
  r_id :: string
  r_seq :: int
  r_json :: json

record removed_row =
  rm_channel :: string
  rm_seq :: int
  rm_active :: bool

record member_row =
  mb_channel :: string
  mb_user :: string
  mb_seq :: int
  mb_json :: json

record membership = member_row +
  mb_left :: bool

record message_row =
  m_id :: string
  m_channel :: string
  m_seq :: int
  m_created_at :: string
  m_json :: json

record coverage_row =
  cv_channel :: string
  cv_newest :: "string option"
  cv_oldest :: "string option"
  cv_complete :: bool

record cached_file =
  cf_id :: string
  cf_sha256 :: string
  cf_size :: int
  cf_key :: string
  cf_chunk :: int
  cf_state :: string
  cf_done :: int
  cf_pinned :: bool
  cf_last_used :: "string option"

record message_file =
  mf_file :: string
  mf_message :: string
  mf_channel :: string

record cache_db =
  db_cursor :: string
  db_generation :: int
  db_channels :: "row list"
  db_removed :: "removed_row list"
  db_memberships :: "membership list"
  db_users :: "row list"
  db_messages :: "message_row list"
  db_coverage :: "coverage_row list"
  db_files :: "cached_file list"
  db_message_files :: "message_file list"
  db_deletions :: "string list"

text \<open>A new cache: the defaults of the \<open>meta\<close> row, and no rows.\<close>

definition empty_cache :: cache_db where
  "empty_cache = \<lparr>db_cursor = ''0'', db_generation = 0, db_channels = [], db_removed = [],
     db_memberships = [], db_users = [], db_messages = [], db_coverage = [], db_files = [],
     db_message_files = [], db_deletions = []\<rparr>"

definition mb_key :: "'a member_row_scheme \<Rightarrow> string \<times> string" where
  "mb_key m = (mb_channel m, mb_user m)"

lemma mb_key_simps [simp]:
  "mb_key (m\<lparr>mb_seq := s\<rparr>) = mb_key m" "mb_key (m\<lparr>mb_json := j\<rparr>) = mb_key m"
  by (simp_all add: mb_key_def)

lemma mb_key_left [simp]: "mb_key (m\<lparr>mb_left := b\<rparr>) = mb_key m"
  by (simp add: mb_key_def)

text \<open>Every table's primary key holds: what SQLite enforces at every moment.\<close>

definition keys_ok :: "cache_db \<Rightarrow> bool" where
  "keys_ok db \<longleftrightarrow>
     rows_unique r_id (db_channels db) \<and> rows_unique rm_channel (db_removed db) \<and>
     rows_unique mb_key (db_memberships db) \<and> rows_unique r_id (db_users db) \<and>
     rows_unique m_id (db_messages db) \<and> rows_unique cv_channel (db_coverage db) \<and>
     rows_unique cf_id (db_files db) \<and> rows_unique mf_file (db_message_files db) \<and>
     distinct (db_deletions db)"

section \<open>What a source sends\<close>

record batch =
  b_channels :: "row list"
  b_memberships :: "member_row list"
  b_users :: "row list"
  b_messages :: "message_row list"
  b_removed :: "(string \<times> int) list"
  b_left :: "(string \<times> string \<times> int) list"
  b_history :: bool
  b_history_floors :: "(string \<times> int option) list"
  b_tombstones :: "(string \<times> string \<times> int) list"

definition empty_batch :: batch where
  "empty_batch = \<lparr>b_channels = [], b_memberships = [], b_users = [], b_messages = [],
     b_removed = [], b_left = [], b_history = False, b_history_floors = [], b_tombstones = []\<rparr>"

text \<open>What \<open>apply\<close> changed. The code's hash sets are sets here; the dropped files keep their order.\<close>

record applied =
  a_channels :: "string set"
  a_removed :: "string set"
  a_users :: "string set"
  a_dropped :: "string list"

definition no_change :: applied where
  "no_change = \<lparr>a_channels = {}, a_removed = {}, a_users = {}, a_dropped = []\<rparr>"

text \<open>Adding what one page changed to what the run changed (\<open>run_into\<close>).\<close>

definition applied_add :: "applied \<Rightarrow> applied \<Rightarrow> applied" where
  "applied_add x y = \<lparr>a_channels = a_channels x \<union> a_channels y, a_removed = a_removed x \<union> a_removed y,
     a_users = a_users x \<union> a_users y, a_dropped = a_dropped x @ a_dropped y\<rparr>"

end
