(* ===== verification/File_Rows.thy ===== *)
theory File_Rows
  imports Cache_Tables
begin

text \<open>
  \<open>core/src/file_rows.rs\<close>: which cached file belongs to which cached message. Every function
  runs inside a cache transaction; the files it drops lose their row and have their blob
  journalled in \<open>deletions\<close> by the same transaction.
\<close>

definition blob_path :: "string \<Rightarrow> string" where
  "blob_path file_id = ''files/'' @ file_id"

lemma blob_path_inj [simp]: "blob_path f = blob_path g \<longleftrightarrow> f = g"
  by (simp add: blob_path_def)

text \<open>The ids a message's JSON lists under \<open>attachments\<close>, in order.\<close>

definition listed :: "json \<Rightarrow> string list" where
  "listed j = (case jget_array ''attachments'' j of
      None \<Rightarrow> []
    | Some fs \<Rightarrow> List.map_filter (jget_str ''id'') fs)"

definition insert_path :: "string \<Rightarrow> string list \<Rightarrow> string list" where
  "insert_path p ps = (if p \<in> set ps then ps else ps @ [p])"

definition drop_file :: "string \<Rightarrow> cache_db \<Rightarrow> cache_db" where
  "drop_file f db =
     (if f \<in> cf_id ` set (db_files db)
      then db\<lparr>db_files := filter (\<lambda>r. cf_id r \<noteq> f) (db_files db),
              db_deletions := insert_path (blob_path f) (db_deletions db)\<rparr>
      else db)"

definition drop_files :: "string list \<Rightarrow> cache_db \<Rightarrow> cache_db \<times> string list" where
  "drop_files fs db = (fold drop_file fs db, fs)"

definition ids_by_message :: "string \<Rightarrow> cache_db \<Rightarrow> string list" where
  "ids_by_message m db = map mf_file (filter (\<lambda>r. mf_message r = m) (db_message_files db))"

definition ids_by_channel :: "string \<Rightarrow> cache_db \<Rightarrow> string list" where
  "ids_by_channel c db = map mf_file (filter (\<lambda>r. mf_channel r = c) (db_message_files db))"

definition index_message ::
  "string \<Rightarrow> string \<Rightarrow> string list \<Rightarrow> cache_db \<Rightarrow> cache_db \<times> string list" where
  "index_message message_id channel_id now db =
     (let before = ids_by_message message_id db;
          gone = filter (\<lambda>f. f \<notin> set now) before;
          cleared = filter (\<lambda>r. mf_message r \<noteq> message_id) (db_message_files db);
          indexed = fold (\<lambda>f. insert_replace mf_file
                             \<lparr>mf_file = f, mf_message = message_id, mf_channel = channel_id\<rparr>)
                         now cleared
      in drop_files gone (db\<lparr>db_message_files := indexed\<rparr>))"

definition drop_message :: "string \<Rightarrow> cache_db \<Rightarrow> cache_db \<times> string list" where
  "drop_message message_id db =
     (let gone = ids_by_message message_id db
      in drop_files gone
           (db\<lparr>db_message_files := filter (\<lambda>r. mf_message r \<noteq> message_id) (db_message_files db)\<rparr>))"

definition drop_channel :: "string \<Rightarrow> cache_db \<Rightarrow> cache_db \<times> string list" where
  "drop_channel channel_id db =
     (let gone = ids_by_channel channel_id db
      in drop_files gone
           (db\<lparr>db_message_files := filter (\<lambda>r. mf_channel r \<noteq> channel_id) (db_message_files db)\<rparr>))"

definition drop_all :: "cache_db \<Rightarrow> cache_db \<times> string list" where
  "drop_all db =
     (let indexed = map mf_file (db_message_files db);
          gone = fold (\<lambda>f g. if f \<in> set g then g else g @ [f]) (map cf_id (db_files db)) indexed
      in drop_files gone (db\<lparr>db_message_files := []\<rparr>))"

section \<open>What dropping does\<close>

lemma insert_path_set [simp]: "set (insert_path p ps) = insert p (set ps)"
  by (auto simp: insert_path_def)

lemma insert_path_distinct [simp]: "distinct (insert_path p ps) = distinct ps"
  by (auto simp: insert_path_def)

lemma drop_file_frame [simp]:
  "db_cursor (drop_file f db) = db_cursor db" "db_generation (drop_file f db) = db_generation db"
  "db_channels (drop_file f db) = db_channels db" "db_removed (drop_file f db) = db_removed db"
  "db_memberships (drop_file f db) = db_memberships db" "db_users (drop_file f db) = db_users db"
  "db_messages (drop_file f db) = db_messages db" "db_coverage (drop_file f db) = db_coverage db"
  "db_message_files (drop_file f db) = db_message_files db"
  by (simp_all add: drop_file_def)

lemma drop_files_frame [simp]:
  "db_cursor (fst (drop_files fs db)) = db_cursor db"
  "db_generation (fst (drop_files fs db)) = db_generation db"
  "db_channels (fst (drop_files fs db)) = db_channels db"
  "db_removed (fst (drop_files fs db)) = db_removed db"
  "db_memberships (fst (drop_files fs db)) = db_memberships db"
  "db_users (fst (drop_files fs db)) = db_users db"
  "db_messages (fst (drop_files fs db)) = db_messages db"
  "db_coverage (fst (drop_files fs db)) = db_coverage db"
  "db_message_files (fst (drop_files fs db)) = db_message_files db"
  by (induction fs arbitrary: db) (simp_all add: drop_files_def)

lemma drop_files_snd [simp]: "snd (drop_files fs db) = fs"
  by (simp add: drop_files_def)

lemma db_files_drop_file: "db_files (drop_file f db) = filter (\<lambda>r. cf_id r \<noteq> f) (db_files db)"
  by (auto simp: drop_file_def intro!: filter_True [symmetric])

lemma db_files_drop_files:
  "db_files (fst (drop_files fs db)) = filter (\<lambda>r. cf_id r \<notin> set fs) (db_files db)"
proof (induction fs arbitrary: db)
  case (Cons f fs)
  then show ?case
    by (simp add: drop_files_def db_files_drop_file conj_commute)
qed (simp add: drop_files_def)

lemma deletions_drop_file:
  "set (db_deletions (drop_file f db)) =
     set (db_deletions db) \<union> (if f \<in> cf_id ` set (db_files db) then {blob_path f} else {})"
  by (simp add: drop_file_def)

text \<open>Every dropped file that was cached is journalled, and nothing else is.\<close>

lemma deletions_drop_files:
  "set (db_deletions (fst (drop_files fs db))) =
     set (db_deletions db) \<union> blob_path ` (set fs \<inter> cf_id ` set (db_files db))"
proof (induction fs arbitrary: db)
  case (Cons f fs)
  have "set (db_deletions (fst (drop_files (f # fs) db))) =
      set (db_deletions (drop_file f db)) \<union>
      blob_path ` (set fs \<inter> cf_id ` set (filter (\<lambda>r. cf_id r \<noteq> f) (db_files db)))"
    using Cons [of "drop_file f db"] by (simp add: drop_files_def db_files_drop_file)
  then show ?case by (auto simp: deletions_drop_file)
qed (simp add: drop_files_def)

lemma distinct_deletions_drop_files:
  "distinct (db_deletions db) \<Longrightarrow> distinct (db_deletions (fst (drop_files fs db)))"
  by (induction fs arbitrary: db) (auto simp: drop_files_def drop_file_def)

lemma index_message_frame [simp]:
  "db_cursor (fst (index_message m c now db)) = db_cursor db"
  "db_generation (fst (index_message m c now db)) = db_generation db"
  "db_channels (fst (index_message m c now db)) = db_channels db"
  "db_removed (fst (index_message m c now db)) = db_removed db"
  "db_memberships (fst (index_message m c now db)) = db_memberships db"
  "db_users (fst (index_message m c now db)) = db_users db"
  "db_messages (fst (index_message m c now db)) = db_messages db"
  "db_coverage (fst (index_message m c now db)) = db_coverage db"
  by (simp_all add: index_message_def Let_def)

lemma drop_message_frame [simp]:
  "db_cursor (fst (drop_message m db)) = db_cursor db"
  "db_generation (fst (drop_message m db)) = db_generation db"
  "db_channels (fst (drop_message m db)) = db_channels db"
  "db_removed (fst (drop_message m db)) = db_removed db"
  "db_memberships (fst (drop_message m db)) = db_memberships db"
  "db_users (fst (drop_message m db)) = db_users db"
  "db_messages (fst (drop_message m db)) = db_messages db"
  "db_coverage (fst (drop_message m db)) = db_coverage db"
  by (simp_all add: drop_message_def Let_def)

lemma drop_channel_frame [simp]:
  "db_cursor (fst (drop_channel c db)) = db_cursor db"
  "db_generation (fst (drop_channel c db)) = db_generation db"
  "db_channels (fst (drop_channel c db)) = db_channels db"
  "db_removed (fst (drop_channel c db)) = db_removed db"
  "db_memberships (fst (drop_channel c db)) = db_memberships db"
  "db_users (fst (drop_channel c db)) = db_users db"
  "db_messages (fst (drop_channel c db)) = db_messages db"
  "db_coverage (fst (drop_channel c db)) = db_coverage db"
  by (simp_all add: drop_channel_def Let_def)

lemma drop_message_index [simp]:
  "db_message_files (fst (drop_message m db)) =
     filter (\<lambda>r. mf_message r \<noteq> m) (db_message_files db)"
  by (simp add: drop_message_def Let_def)

lemma drop_channel_index [simp]:
  "db_message_files (fst (drop_channel c db)) =
     filter (\<lambda>r. mf_channel r \<noteq> c) (db_message_files db)"
  by (simp add: drop_channel_def Let_def)

section \<open>The index of a message\<close>

lemma set_fold_insert_replace:
  "x \<in> set (fold (\<lambda>f. insert_replace key (mk f)) fs rows) \<Longrightarrow> x \<in> set rows \<or> x \<in> mk ` set fs"
  by (induction fs arbitrary: rows) (auto simp: insert_replace_def, fastforce)

lemma unique_fold_insert_replace:
  "rows_unique key rows \<Longrightarrow> rows_unique key (fold (\<lambda>f. insert_replace key (mk f)) fs rows)"
  by (induction fs arbitrary: rows) (auto intro: unique_insert_replace)

lemma index_message_entries:
  assumes "r \<in> set (db_message_files (fst (index_message m c now db)))"
  shows "r \<in> set (db_message_files db) \<and> mf_message r \<noteq> m \<or>
     mf_message r = m \<and> mf_channel r = c \<and> mf_file r \<in> set now"
  using assms by (auto simp: index_message_def Let_def dest!: set_fold_insert_replace)

lemma unique_index_message:
  "rows_unique mf_file (db_message_files db) \<Longrightarrow>
     rows_unique mf_file (db_message_files (fst (index_message m c now db)))"
  by (simp add: index_message_def Let_def unique_fold_insert_replace unique_filter)

lemma sel_fold_insert_replace:
  "sel mf_file k (fold (\<lambda>f. insert_replace mf_file \<lparr>mf_file = f, mf_message = m, mf_channel = c\<rparr>) fs rows) =
     (if k \<in> set fs then Some \<lparr>mf_file = k, mf_message = m, mf_channel = c\<rparr> else sel mf_file k rows)"
  by (induction fs arbitrary: rows) (auto simp: sel_insert_replace)

text \<open>After indexing, the files listed now all belong to the message.\<close>

lemma index_message_lists:
  "f \<in> set now \<Longrightarrow> sel mf_file f (db_message_files (fst (index_message m c now db))) =
     Some \<lparr>mf_file = f, mf_message = m, mf_channel = c\<rparr>"
  by (simp add: index_message_def Let_def sel_fold_insert_replace)

section \<open>No file outlives its message\<close>

text \<open>
  The invariant of the file cache: every cached file is listed by a message the cache indexes.
\<close>

definition files_indexed :: "cache_db \<Rightarrow> bool" where
  "files_indexed db \<longleftrightarrow> cf_id ` set (db_files db) \<subseteq> mf_file ` set (db_message_files db)"

lemma sel_in_keys: "sel key k rows = Some r \<Longrightarrow> k \<in> key ` set rows"
  by (auto dest: sel_Some_in)

lemma keys_fold_insert_replace:
  "mf_file ` set (fold (\<lambda>f. insert_replace mf_file \<lparr>mf_file = f, mf_message = m, mf_channel = c\<rparr>) fs rows) =
     set fs \<union> mf_file ` set rows"
  by (induction fs arbitrary: rows) (auto simp: insert_replace_def image_iff)

lemma files_indexed_index_message:
  "files_indexed db \<Longrightarrow> files_indexed (fst (index_message m c now db))"
  by (force simp: files_indexed_def index_message_def Let_def db_files_drop_files
      keys_fold_insert_replace ids_by_message_def)

lemma files_indexed_drop_message: "files_indexed db \<Longrightarrow> files_indexed (fst (drop_message m db))"
  by (force simp: files_indexed_def drop_message_def Let_def db_files_drop_files ids_by_message_def)

lemma files_indexed_drop_channel: "files_indexed db \<Longrightarrow> files_indexed (fst (drop_channel c db))"
  by (force simp: files_indexed_def drop_channel_def Let_def db_files_drop_files ids_by_channel_def)

lemma set_append_new:
  "set (fold (\<lambda>f g. if f \<in> set g then g else g @ [f]) fs gs) = set gs \<union> set fs"
  by (induction fs arbitrary: gs) auto

lemma drop_all_empties:
  "db_files (fst (drop_all db)) = [] \<and> db_message_files (fst (drop_all db)) = [] \<and>
   set (db_deletions (fst (drop_all db))) = set (db_deletions db) \<union> blob_path ` cf_id ` set (db_files db)"
  by (auto simp: drop_all_def Let_def db_files_drop_files deletions_drop_files set_append_new
      filter_empty_conv)

end
