(* ===== verification/Coverage.thy ===== *)
theory Coverage
  imports File_Rows
begin

text \<open>
  \<open>core/src/coverage.rs\<close>: per channel, the contiguous range of messages the cache holds, and
  what that range promises about the server's history. Message ids are UUIDv7 strings, so the
  order of strings is the order of creation.
\<close>

section \<open>The operations\<close>

definition range_of :: "string \<Rightarrow> cache_db \<Rightarrow> coverage_row option" where
  "range_of channel_id db = sel cv_channel channel_id (db_coverage db)"

definition text_or_empty :: "string option \<Rightarrow> string" where
  "text_or_empty t = (case t of None \<Rightarrow> '''' | Some s \<Rightarrow> s)"

definition record_head_empty :: "string \<Rightarrow> cache_db \<Rightarrow> cache_db" where
  "record_head_empty channel_id db =
     db\<lparr>db_coverage := fst (upsert cv_channel
          \<lparr>cv_channel = channel_id, cv_newest = None, cv_oldest = None, cv_complete = True\<rparr>
          (\<lambda>r. cv_newest r = None) (\<lambda>r. r\<lparr>cv_complete := True\<rparr>) (db_coverage db))\<rparr>"

definition record_head :: "string \<Rightarrow> string list \<Rightarrow> nat \<Rightarrow> cache_db \<Rightarrow> cache_db" where
  "record_head channel_id ids limit db =
     (let complete = length ids < limit in
      case (list_max ids, list_min ids) of
        (Some newest, Some oldest) \<Rightarrow>
          (let existing = range_of channel_id db in
           if (case Option.bind existing cv_oldest of
                 None \<Rightarrow> False | Some held_oldest \<Rightarrow> newest < held_oldest)
           then db
           else
             (let (oldest', complete') =
                (case existing of
                   None \<Rightarrow> (oldest, complete)
                 | Some r \<Rightarrow>
                     (case (cv_newest r, cv_oldest r) of
                        (Some held_newest, Some held_oldest) \<Rightarrow>
                          if oldest \<le> held_newest \<and> held_oldest \<le> newest
                          then (min held_oldest oldest, cv_complete r \<or> complete)
                          else (oldest, complete)
                      | _ \<Rightarrow> (oldest, complete)))
              in db\<lparr>db_coverage := fst (upsert cv_channel
                   \<lparr>cv_channel = channel_id, cv_newest = Some newest, cv_oldest = Some oldest',
                    cv_complete = complete'\<rparr>
                   (\<lambda>r. True)
                   (\<lambda>r. r\<lparr>cv_newest := Some (max (text_or_empty (cv_newest r)) newest),
                         cv_oldest := Some oldest', cv_complete := complete'\<rparr>)
                   (db_coverage db))\<rparr>))
      | _ \<Rightarrow> record_head_empty channel_id db)"

definition record_older ::
  "string \<Rightarrow> string \<Rightarrow> string list \<Rightarrow> nat \<Rightarrow> cache_db \<Rightarrow> cache_db" where
  "record_older channel_id before ids limit db =
     (case range_of channel_id db of
        None \<Rightarrow> db
      | Some r \<Rightarrow>
          if cv_oldest r \<noteq> Some before then db
          else
            (let oldest = (case list_min ids of None \<Rightarrow> cv_oldest r | Some o' \<Rightarrow> Some o')
             in db\<lparr>db_coverage := fst (update_row cv_channel channel_id (\<lambda>_. True)
                  (\<lambda>x. x\<lparr>cv_oldest := oldest,
                        cv_complete := cv_complete r \<or> length ids < limit\<rparr>)
                  (db_coverage db))\<rparr>))"

text \<open>The ids of a channel's rows that a sync snapshot accounts for: \<open>0 < seq <= cursor\<close>.\<close>

definition settled_ids :: "string \<Rightarrow> int \<Rightarrow> cache_db \<Rightarrow> string list" where
  "settled_ids channel_id cursor db =
     map m_id (filter (\<lambda>m. m_channel m = channel_id \<and> 0 < m_seq m \<and> m_seq m \<le> cursor)
                 (db_messages db))"

definition settles :: "int \<Rightarrow> cache_db \<Rightarrow> coverage_row \<Rightarrow> bool" where
  "settles cursor db r =
     (case list_max (settled_ids (cv_channel r) cursor db) of
        None \<Rightarrow> False
      | Some t \<Rightarrow> text_or_empty (cv_newest r) < t)"

definition settle_row :: "int \<Rightarrow> cache_db \<Rightarrow> coverage_row \<Rightarrow> coverage_row" where
  "settle_row cursor db r =
     (if settles cursor db r
      then r\<lparr>cv_newest := list_max (settled_ids (cv_channel r) cursor db),
             cv_oldest := (case cv_oldest r of
                 Some o' \<Rightarrow> Some o'
               | None \<Rightarrow> list_min (settled_ids (cv_channel r) cursor db))\<rparr>
      else r)"

definition settle_tops :: "int \<Rightarrow> cache_db \<Rightarrow> cache_db \<times> string list" where
  "settle_tops cursor db =
     (db\<lparr>db_coverage := map (settle_row cursor db) (db_coverage db)\<rparr>,
      map cv_channel (filter (settles cursor db) (db_coverage db)))"

section \<open>What a range promises\<close>

text \<open>
  A range is well formed when both ends are known or neither is, and they are in order.
\<close>

definition range_wf :: "coverage_row \<Rightarrow> bool" where
  "range_wf r = (case (cv_oldest r, cv_newest r) of
       (None, None) \<Rightarrow> True
     | (Some o', Some n) \<Rightarrow> o' \<le> n
     | _ \<Rightarrow> False)"

text \<open>
  The promise, for the ids \<open>H\<close> of the channel's messages on the server and the ids \<open>C\<close> the
  cache holds: every message of \<open>H\<close> between the ends is cached, and a range complete to the
  start has nothing below it.
\<close>

definition covers :: "string set \<Rightarrow> string set \<Rightarrow> coverage_row \<Rightarrow> bool" where
  "covers H C r = (case (cv_oldest r, cv_newest r) of
       (Some o', Some n) \<Rightarrow>
         (\<forall>h \<in> H. o' \<le> h \<and> h \<le> n \<longrightarrow> h \<in> C) \<and>
         (cv_complete r \<longrightarrow> (\<forall>h \<in> H. h \<le> n \<longrightarrow> o' \<le> h))
     | _ \<Rightarrow> True)"

definition range_ok :: "string set \<Rightarrow> string set \<Rightarrow> coverage_row \<Rightarrow> bool" where
  "range_ok H C r \<longleftrightarrow> range_wf r \<and> covers H C r"

definition covered :: "(string \<Rightarrow> string set) \<Rightarrow> (string \<Rightarrow> string set) \<Rightarrow> cache_db \<Rightarrow> bool" where
  "covered H C db \<longleftrightarrow> (\<forall>c r. range_of c db = Some r \<longrightarrow> range_ok (H c) (C c) r)"

text \<open>
  A head page: at the time it was read the history was \<open>H0\<close>, what came later is newer than all
  of it, and the page holds the newest \<open>limit\<close> messages of \<open>H0\<close> (all of them if it is short).
\<close>

definition head_page :: "string set \<Rightarrow> string set \<Rightarrow> string list \<Rightarrow> nat \<Rightarrow> bool" where
  "head_page H H0 ids limit \<longleftrightarrow>
     set ids \<subseteq> H0 \<and> (\<forall>h \<in> H - H0. \<forall>i \<in> H0. i < h) \<and>
     (\<forall>h \<in> H0. \<forall>i \<in> set ids. i \<le> h \<longrightarrow> h \<in> set ids) \<and>
     (length ids < limit \<longrightarrow> H0 \<subseteq> set ids)"

text \<open>A page below \<open>before\<close>: the newest \<open>limit\<close> messages older than it.\<close>

definition older_page :: "string set \<Rightarrow> string \<Rightarrow> string list \<Rightarrow> nat \<Rightarrow> bool" where
  "older_page H before ids limit \<longleftrightarrow>
     (\<forall>i \<in> set ids. i < before) \<and>
     (\<forall>h \<in> H. h < before \<and> (\<exists>i \<in> set ids. i \<le> h) \<longrightarrow> h \<in> set ids) \<and>
     (length ids < limit \<longrightarrow> (\<forall>h \<in> H. h < before \<longrightarrow> h \<in> set ids))"

section \<open>The promise is kept\<close>

lemma covers_mono: "covers H C r \<Longrightarrow> C \<subseteq> C' \<Longrightarrow> covers H C' r"
  by (auto simp: covers_def split: option.splits)

lemma covered_mono: "covered H C db \<Longrightarrow> (\<And>c. C c \<subseteq> C' c) \<Longrightarrow> covered H C' db"
  unfolding covered_def range_ok_def by (meson covers_mono)

text \<open>The row \<open>record_head\<close> leaves for the channel.\<close>

lemma record_head_frame [simp]:
  "db_cursor (record_head c ids l db) = db_cursor db"
  "db_generation (record_head c ids l db) = db_generation db"
  "db_channels (record_head c ids l db) = db_channels db"
  "db_removed (record_head c ids l db) = db_removed db"
  "db_memberships (record_head c ids l db) = db_memberships db"
  "db_users (record_head c ids l db) = db_users db"
  "db_messages (record_head c ids l db) = db_messages db"
  "db_files (record_head c ids l db) = db_files db"
  "db_message_files (record_head c ids l db) = db_message_files db"
  "db_deletions (record_head c ids l db) = db_deletions db"
  by (auto simp: record_head_def record_head_empty_def Let_def split: option.splits prod.splits)

lemma record_older_frame [simp]:
  "db_cursor (record_older c b ids l db) = db_cursor db"
  "db_generation (record_older c b ids l db) = db_generation db"
  "db_channels (record_older c b ids l db) = db_channels db"
  "db_removed (record_older c b ids l db) = db_removed db"
  "db_memberships (record_older c b ids l db) = db_memberships db"
  "db_users (record_older c b ids l db) = db_users db"
  "db_messages (record_older c b ids l db) = db_messages db"
  "db_files (record_older c b ids l db) = db_files db"
  "db_message_files (record_older c b ids l db) = db_message_files db"
  "db_deletions (record_older c b ids l db) = db_deletions db"
  by (auto simp: record_older_def Let_def split: option.splits)

lemma settle_row_channel [simp]: "cv_channel (settle_row cursor db r) = cv_channel r"
  by (simp add: settle_row_def)

lemma settle_tops_frame [simp]:
  "db_cursor (fst (settle_tops n db)) = db_cursor db"
  "db_generation (fst (settle_tops n db)) = db_generation db"
  "db_channels (fst (settle_tops n db)) = db_channels db"
  "db_removed (fst (settle_tops n db)) = db_removed db"
  "db_memberships (fst (settle_tops n db)) = db_memberships db"
  "db_users (fst (settle_tops n db)) = db_users db"
  "db_messages (fst (settle_tops n db)) = db_messages db"
  "db_files (fst (settle_tops n db)) = db_files db"
  "db_message_files (fst (settle_tops n db)) = db_message_files db"
  "db_deletions (fst (settle_tops n db)) = db_deletions db"
  by (simp_all add: settle_tops_def)

lemma empty_le [simp]: "([] :: string) \<le> s"
  by (cases s) simp_all

lemma text_or_empty_simps [simp]: "text_or_empty None = []" "text_or_empty (Some s) = s"
  by (simp_all add: text_or_empty_def)

text \<open>A page's own range.\<close>

lemma head_page_range:
  assumes "head_page H H0 ids limit" "set ids \<subseteq> C" "list_max ids = Some n" "list_min ids = Some o'"
  shows "o' \<le> n"
    and "\<And>h. h \<in> H \<Longrightarrow> o' \<le> h \<Longrightarrow> h \<le> n \<Longrightarrow> h \<in> C"
    and "\<And>h. h \<in> H \<Longrightarrow> length ids < limit \<Longrightarrow> h \<le> n \<Longrightarrow> o' \<le> h"
proof -
  have mem: "n \<in> set ids" "o' \<in> set ids" and lo: "\<forall>x \<in> set ids. o' \<le> x"
    using assms(3,4) by (auto simp: list_max_Some list_min_Some)
  then show "o' \<le> n" by blast
  have old: "h \<in> H0" if "h \<in> H" "h \<le> n" for h
  proof (rule ccontr)
    assume "h \<notin> H0"
    moreover have "n \<in> H0" using assms(1) mem(1) by (auto simp: head_page_def)
    ultimately have "n < h" using assms(1) that(1) by (simp add: head_page_def)
    with that(2) show False by simp
  qed
  show "h \<in> C" if "h \<in> H" "o' \<le> h" "h \<le> n" for h
    using assms(1,2) old [OF that(1,3)] mem(2) that(2) by (auto simp: head_page_def)
  show "o' \<le> h" if "h \<in> H" "length ids < limit" "h \<le> n" for h
    using assms(1) old [OF that(1,3)] that(2) lo by (auto simp: head_page_def)
qed

text \<open>Merging an overlapping page into the held range: the union is still contiguous.\<close>

lemma covers_union:
  assumes "covers H C r" and "range_wf r"
    and "cv_newest r = Some hn" and "cv_oldest r = Some ho"
    and "o' \<le> n" and "o' \<le> hn" and "ho \<le> n"
    and page: "\<And>h. h \<in> H \<Longrightarrow> o' \<le> h \<Longrightarrow> h \<le> n \<Longrightarrow> h \<in> C"
    and start: "\<And>h. h \<in> H \<Longrightarrow> cp \<Longrightarrow> h \<le> n \<Longrightarrow> o' \<le> h"
  shows "covers H C (r\<lparr>cv_newest := Some (max hn n), cv_oldest := Some (min ho o'),
           cv_complete := cv_complete r \<or> cp\<rparr>)"
proof -
  have held: "h \<in> C" if "h \<in> H" "ho \<le> h" "h \<le> hn" for h
    using assms(1,3,4) that by (auto simp: covers_def)
  have heldc: "ho \<le> h" if "h \<in> H" "cv_complete r" "h \<le> hn" for h
    using assms(1,3,4) that by (auto simp: covers_def)
  have in_C: "h \<in> C" if h: "h \<in> H" "min ho o' \<le> h" "h \<le> max hn n" for h
  proof (cases "ho \<le> h \<and> h \<le> hn")
    case True
    then show ?thesis using held h(1) by blast
  next
    case False
    then have "o' \<le> h \<and> h \<le> n"
      using h assms(5-7) by (auto simp: min_le_iff_disj le_max_iff_disj not_le)
    then show ?thesis using page h(1) by blast
  qed
  have bottom: "min ho o' \<le> h" if "h \<in> H" "cv_complete r \<or> cp" "h \<le> max hn n" for h
  proof -
    have "ho \<le> hn" using assms(2-4) by (simp add: range_wf_def)
    from that(2) show ?thesis
    proof
      assume "cv_complete r"
      then have "ho \<le> h" using heldc [OF that(1)] \<open>ho \<le> hn\<close> by (cases "h \<le> hn") auto
      then show ?thesis by (simp add: min_le_iff_disj)
    next
      assume cp
      then have "o' \<le> h" using start [OF that(1)] assms(5) by (cases "h \<le> n") auto
      then show ?thesis by (simp add: min_le_iff_disj)
    qed
  qed
  show ?thesis using in_C bottom by (auto simp: covers_def)
qed

lemma range_of_record_head:
  "range_of c' (record_head c ids limit db) =
     (if c' \<noteq> c then range_of c' db else
      case (list_max ids, list_min ids) of
        (Some n, Some o') \<Rightarrow>
          (case range_of c db of
             None \<Rightarrow> Some \<lparr>cv_channel = c, cv_newest = Some n, cv_oldest = Some o',
                           cv_complete = length ids < limit\<rparr>
           | Some r \<Rightarrow>
               (case (cv_newest r, cv_oldest r) of
                  (Some hn, Some ho) \<Rightarrow>
                    if n < ho then Some r
                    else if o' \<le> hn
                    then Some (r\<lparr>cv_newest := Some (max hn n), cv_oldest := Some (min ho o'),
                                 cv_complete := cv_complete r \<or> length ids < limit\<rparr>)
                    else Some (r\<lparr>cv_newest := Some (max hn n), cv_oldest := Some o',
                                 cv_complete := length ids < limit\<rparr>)
                | (None, Some ho) \<Rightarrow>
                    if n < ho then Some r
                    else Some (r\<lparr>cv_newest := Some (max [] n), cv_oldest := Some o',
                                 cv_complete := length ids < limit\<rparr>)
                | (hn, None) \<Rightarrow> Some (r\<lparr>cv_newest := Some (max (text_or_empty hn) n),
                                 cv_oldest := Some o', cv_complete := length ids < limit\<rparr>)))
      | _ \<Rightarrow>
          (case range_of c db of
             None \<Rightarrow> Some \<lparr>cv_channel = c, cv_newest = None, cv_oldest = None, cv_complete = True\<rparr>
           | Some r \<Rightarrow> Some (if cv_newest r = None then r\<lparr>cv_complete := True\<rparr> else r)))"
  by (simp add: record_head_def record_head_empty_def Let_def range_of_def sel_upsert not_less
      split: option.splits prod.splits)

lemma record_head_covered:
  assumes "covered H C db" and "head_page (H c) H0 ids limit" and "set ids \<subseteq> C c"
  shows "covered H C (record_head c ids limit db)"
proof -
  have held: "range_ok (H c) (C c) r" if "range_of c db = Some r" for r
    using assms(1) that by (simp add: covered_def)
  have "range_ok (H c) (C c) q" if q: "range_of c (record_head c ids limit db) = Some q" for q
  proof (cases "ids = []")
    case True
    then show ?thesis
      using q held by (auto simp: range_of_record_head range_ok_def range_wf_def covers_def
          split: option.splits if_splits)
  next
    case False
    then obtain n o' where n: "list_max ids = Some n" and o: "list_min ids = Some o'"
      by (metis list_max_None list_min_None not_Some_eq)
    note page = head_page_range [OF assms(2,3) n o]
    have fresh: "range_ok (H c) (C c) x"
      if "cv_newest x = Some n" "cv_oldest x = Some o'" "cv_complete x = (length ids < limit)" for x
      using that page by (auto simp: range_ok_def range_wf_def covers_def)
    show ?thesis
    proof (cases "range_of c db")
      case None
      with q n o show ?thesis by (auto simp: range_of_record_head intro: fresh)
    next
      case (Some r)
      note r = held [OF Some]
      show ?thesis
      proof (cases "cv_newest r")
        case None
        with r have "cv_oldest r = None" by (auto simp: range_ok_def range_wf_def split: option.splits)
        with None q n o Some show ?thesis
          by (auto simp: range_of_record_head max_def intro!: fresh)
      next
        case hn: (Some hn)
        with r obtain ho where ho: "cv_oldest r = Some ho" and le: "ho \<le> hn"
          by (auto simp: range_ok_def range_wf_def split: option.splits)
        consider "n < ho" | "ho \<le> n" "o' \<le> hn" | "ho \<le> n" "hn < o'" by fastforce
        then show ?thesis
        proof cases
          case 1
          with q n o Some hn ho r show ?thesis by (simp add: range_of_record_head)
        next
          case 2
          then have "\<not> n < ho" by (simp add: not_less)
          with 2 q n o Some hn ho have "q = r\<lparr>cv_newest := Some (max hn n), cv_oldest := Some (min ho o'),
              cv_complete := cv_complete r \<or> length ids < limit\<rparr>"
            by (simp add: range_of_record_head)
          moreover have "covers (H c) (C c) (r\<lparr>cv_newest := Some (max hn n),
              cv_oldest := Some (min ho o'), cv_complete := cv_complete r \<or> length ids < limit\<rparr>)"
            using 2 r hn ho page by (intro covers_union) (auto simp: range_ok_def)
          ultimately show ?thesis
            using le by (simp add: range_ok_def range_wf_def min_le_iff_disj le_max_iff_disj)
        next
          case 3
          then have "\<not> n < ho" and "\<not> o' \<le> hn" and "hn \<le> n"
            using page(1) by order+
          then have "max hn n = n" by (simp add: max_def)
          with \<open>\<not> n < ho\<close> \<open>\<not> o' \<le> hn\<close> q n o Some hn ho show ?thesis
            by (auto simp: range_of_record_head intro!: fresh)
        qed
      qed
    qed
  qed
  then show ?thesis
    using assms(1) by (auto simp: covered_def range_of_record_head split: if_splits)
qed

lemma range_of_record_older:
  "range_of c' (record_older c b ids limit db) =
     (case range_of c' db of None \<Rightarrow> None
      | Some r \<Rightarrow>
          Some (if c' = c \<and> cv_oldest r = Some b
                then r\<lparr>cv_oldest := (case list_min ids of None \<Rightarrow> Some b | Some o' \<Rightarrow> Some o'),
                       cv_complete := cv_complete r \<or> length ids < limit\<rparr>
                else r))"
  by (auto simp: record_older_def Let_def range_of_def sel_update_row split: option.splits)

lemma record_older_covered:
  assumes "covered H C db" and "older_page (H c) before ids limit" and "set ids \<subseteq> C c"
  shows "covered H C (record_older c before ids limit db)"
proof -
  have "range_ok (H c) (C c) (r\<lparr>cv_oldest := (case list_min ids of None \<Rightarrow> Some before | Some o' \<Rightarrow> Some o'),
            cv_complete := cv_complete r \<or> length ids < limit\<rparr>)"
    if r: "range_of c db = Some r" and b: "cv_oldest r = Some before" for r
  proof -
    have ok: "range_ok (H c) (C c) r" using assms(1) r by (simp add: covered_def)
    with b obtain n where n: "cv_newest r = Some n" and bn: "before \<le> n"
      by (auto simp: range_ok_def range_wf_def split: option.splits)
    have held: "h \<in> C c" if "h \<in> H c" "before \<le> h" "h \<le> n" for h
      using ok b n that by (auto simp: range_ok_def covers_def)
    have heldc: "before \<le> h" if "h \<in> H c" "cv_complete r" "h \<le> n" for h
      using ok b n that by (auto simp: range_ok_def covers_def)
    show ?thesis
    proof (cases "list_min ids")
      case None
      then have "ids = []" by simp
      moreover have "before \<le> h" if "h \<in> H c" "length ids < limit" for h
      proof (rule ccontr)
        assume "\<not> before \<le> h"
        then have "h < before" by order
        then have "h \<in> set ids" using assms(2) that unfolding older_page_def by blast
        then show False using \<open>ids = []\<close> by simp
      qed
      ultimately have "(cv_complete r \<or> length ids < limit) \<longrightarrow> (\<forall>h \<in> H c. h \<le> n \<longrightarrow> before \<le> h)"
        using heldc by blast
      moreover have "\<forall>h \<in> H c. before \<le> h \<and> h \<le> n \<longrightarrow> h \<in> C c"
        using held by blast
      ultimately show ?thesis
        using None n bn by (simp add: range_ok_def range_wf_def covers_def)
    next
      case (Some o')
      then have mem: "o' \<in> set ids" and lo: "\<forall>x \<in> set ids. o' \<le> x" by (auto simp: list_min_Some)
      then have ob: "o' < before" using assms(2) by (auto simp: older_page_def)
      have in_C: "h \<in> C c" if "h \<in> H c" "o' \<le> h" "h \<le> n" for h
      proof (cases "before \<le> h")
        case False
        then have "h < before" by order
        then have "h \<in> set ids" using assms(2) mem that unfolding older_page_def by blast
        then show ?thesis using assms(3) by blast
      qed (use held that in blast)
      have bot: "o' \<le> h" if "h \<in> H c" "cv_complete r \<or> length ids < limit" "h \<le> n" for h
      proof (cases "before \<le> h")
        case False
        then have "h < before" by order
        then have "length ids < limit \<Longrightarrow> h \<in> set ids"
          using assms(2) that unfolding older_page_def by blast
        then show ?thesis using False lo heldc [OF that(1)] that(2,3) by blast
      qed (use ob in order)
      have "o' \<le> n" using ob bn by order
      moreover have "\<forall>h \<in> H c. o' \<le> h \<and> h \<le> n \<longrightarrow> h \<in> C c" using in_C by blast
      moreover have "(cv_complete r \<or> length ids < limit) \<longrightarrow> (\<forall>h \<in> H c. h \<le> n \<longrightarrow> o' \<le> h)"
        using bot by blast
      ultimately show ?thesis
        using Some n by (simp add: range_ok_def range_wf_def covers_def)
    qed
  qed
  then show ?thesis
    using assms(1) by (auto simp: covered_def range_of_record_older split: option.splits)
qed

text \<open>
  A caught-up sync: every message of the channel created since the range's top is among the rows
  the snapshot accounts for.
\<close>

definition caught_up :: "string set \<Rightarrow> int \<Rightarrow> cache_db \<Rightarrow> coverage_row \<Rightarrow> bool" where
  "caught_up H cursor db r \<longleftrightarrow>
     (\<forall>h \<in> H. text_or_empty (cv_newest r) < h \<longrightarrow>
        (\<forall>t. list_max (settled_ids (cv_channel r) cursor db) = Some t \<and> h \<le> t \<longrightarrow>
           h \<in> set (settled_ids (cv_channel r) cursor db)))"

lemma range_of_settle_tops:
  "range_of c (fst (settle_tops cursor db)) = map_option (settle_row cursor db) (range_of c db)"
  by (simp add: settle_tops_def range_of_def sel_map)

lemma settle_tops_covered:
  assumes "covered H C db"
    and "\<And>c r. range_of c db = Some r \<Longrightarrow> caught_up (H c) cursor db r"
    and "\<And>c. set (settled_ids c cursor db) \<subseteq> C c"
    and "\<And>c. [] \<notin> H c"
  shows "covered H C (fst (settle_tops cursor db))"
proof -
  have "range_ok (H c) (C c) (settle_row cursor db r)" if r: "range_of c db = Some r" for c r
  proof (cases "settles cursor db r")
    case False
    then show ?thesis using assms(1) r by (simp add: covered_def settle_row_def)
  next
    case True
    have ch: "cv_channel r = c" using r by (auto simp: range_of_def dest: sel_Some_in)
    let ?ids = "settled_ids c cursor db"
    from True ch obtain t where t: "list_max ?ids = Some t" and lt: "text_or_empty (cv_newest r) < t"
      by (auto simp: settles_def split: option.splits)
    then obtain l where l: "list_min ?ids = Some l"
      by (metis list_max_None list_min_None not_Some_eq)
    have lb: "l \<in> set ?ids" "\<forall>x \<in> set ?ids. l \<le> x" and tb: "t \<in> set ?ids"
      using l t by (auto simp: list_min_Some list_max_Some)
    have new: "h \<in> set ?ids" if "h \<in> H c" "text_or_empty (cv_newest r) < h" "h \<le> t" for h
      using assms(2) [OF r] t that ch by (auto simp: caught_up_def)
    have ok: "range_ok (H c) (C c) r" using assms(1) r by (simp add: covered_def)
    show ?thesis
    proof (cases "cv_newest r")
      case None
      with ok have no: "cv_oldest r = None" by (auto simp: range_ok_def range_wf_def split: option.splits)
      have "h \<in> set ?ids" if "h \<in> H c" "h \<le> t" for h
      proof -
        have "h \<noteq> []" using that(1) assms(4) by metis
        then have "[] < h" by (cases h) simp_all
        then show ?thesis using new [OF that(1)] that(2) None by simp
      qed
      then have "h \<in> C c \<and> l \<le> h" if "h \<in> H c" "h \<le> t" for h
        using that assms(3) [of c] lb by blast
      moreover have "l \<le> t" using lb tb by blast
      ultimately show ?thesis
        using True None no t l ch
        by (simp add: settle_row_def range_ok_def range_wf_def covers_def)
    next
      case (Some n)
      with ok obtain ol where ol: "cv_oldest r = Some ol" and "ol \<le> n"
        by (auto simp: range_ok_def range_wf_def split: option.splits)
      have held: "\<forall>h \<in> H c. ol \<le> h \<and> h \<le> n \<longrightarrow> h \<in> C c"
        and heldc: "cv_complete r \<longrightarrow> (\<forall>h \<in> H c. h \<le> n \<longrightarrow> ol \<le> h)"
        using ok Some ol by (simp_all add: range_ok_def covers_def)
      have "h \<in> C c" if "h \<in> H c" "ol \<le> h" "h \<le> t" for h
      proof (cases "h \<le> n")
        case False
        then have "h \<in> set ?ids" using new [OF that(1) _ that(3)] Some by (simp add: not_le)
        then show ?thesis using assms(3) [of c] by blast
      qed (use held that in blast)
      moreover have "ol \<le> h" if "h \<in> H c" "cv_complete r" for h
        using heldc that \<open>ol \<le> n\<close> by (cases "h \<le> n") (blast, order)
      moreover have "ol \<le> t" using lt Some \<open>ol \<le> n\<close> by simp
      ultimately show ?thesis
        using True Some ol t ch
        by (simp add: settle_row_def range_ok_def range_wf_def covers_def)
    qed
  qed
  then show ?thesis by (auto simp: covered_def range_of_settle_tops)
qed

end
