(* ===== verification/Apply.thy ===== *)
theory Apply
  imports Coverage
begin

text \<open>
  \<open>core/src/apply.rs\<close>: the one way rows enter the cache. Each statement of \<open>apply\<close> is one step
  function here, in the order the code runs them; \<open>apply_batch\<close> folds them over the batch. The
  whole runs in one transaction: a failing statement drops the result.
\<close>

section \<open>Fences and floors\<close>

definition fence_of :: "string \<Rightarrow> cache_db \<Rightarrow> int option" where
  "fence_of channel_id db = (case sel rm_channel channel_id (db_removed db) of
       None \<Rightarrow> None
     | Some r \<Rightarrow> if rm_active r then Some (rm_seq r) else None)"

definition floor_of :: "string \<Rightarrow> cache_db \<Rightarrow> int option" where
  "floor_of channel_id db = map_option rm_seq (sel rm_channel channel_id (db_removed db))"

definition at_or_below :: "int \<Rightarrow> int option \<Rightarrow> bool" where
  "at_or_below seq f = (case f of None \<Rightarrow> False | Some s \<Rightarrow> seq \<le> s)"

definition fenced_at_or_above :: "string \<Rightarrow> int \<Rightarrow> cache_db \<Rightarrow> bool" where
  "fenced_at_or_above channel_id seq db = at_or_below seq (fence_of channel_id db)"

definition channel_present :: "string \<Rightarrow> cache_db \<Rightarrow> bool" where
  "channel_present channel_id db \<longleftrightarrow> sel r_id channel_id (db_channels db) \<noteq> None"

definition message_may_land :: "string \<Rightarrow> int \<Rightarrow> bool \<Rightarrow> cache_db \<Rightarrow> bool" where
  "message_may_land channel_id seq history db =
     (if \<not> channel_present channel_id db \<or> fenced_at_or_above channel_id seq db then False
      else history \<or> \<not> at_or_below seq (floor_of channel_id db))"

section \<open>The guard\<close>

definition guarded_upsert :: "row \<Rightarrow> row list \<Rightarrow> row list \<times> bool" where
  "guarded_upsert r rows = upsert r_id r (\<lambda>x. r_seq x < r_seq r)
     (\<lambda>x. x\<lparr>r_seq := r_seq r, r_json := r_json r\<rparr>) rows"

definition upsert_membership :: "member_row \<Rightarrow> membership list \<Rightarrow> membership list \<times> bool" where
  "upsert_membership m rows = upsert mb_key
     \<lparr>mb_channel = mb_channel m, mb_user = mb_user m, mb_seq = mb_seq m, mb_json = mb_json m,
      mb_left = False\<rparr>
     (\<lambda>x. mb_seq x < mb_seq m) (\<lambda>x. x\<lparr>mb_seq := mb_seq m, mb_left := False, mb_json := mb_json m\<rparr>)
     rows"

section \<open>Quotes\<close>

text \<open>The quote of a deleted message, as the server's excerpt of one reads.\<close>

definition quote_deleted :: "json \<Rightarrow> json" where
  "quote_deleted j =
     jset_in ''reply_to'' ''attachments'' (JInt 0)
       (jset_in ''reply_to'' ''deleted'' (JBool True)
         (jset_in ''reply_to'' ''body'' (JStr ''(deleted)'') j))"

definition quotes :: "string \<Rightarrow> json \<Rightarrow> bool" where
  "quotes target j \<longleftrightarrow> extract_is_text ''reply_to_id'' target j \<and> type_is_object ''reply_to'' j"

definition refresh_excerpts :: "string \<Rightarrow> string option \<Rightarrow> cache_db \<Rightarrow> cache_db" where
  "refresh_excerpts target body db =
     (case body of
        Some b \<Rightarrow>
          (let excerpt = take_chars 140 b
           in db\<lparr>db_messages := map (\<lambda>m. if quotes target (m_json m)
                  then m\<lparr>m_json := jset_in ''reply_to'' ''body'' (JStr excerpt) (m_json m)\<rparr> else m)
                (db_messages db)\<rparr>)
      | None \<Rightarrow>
          db\<lparr>db_messages := map (\<lambda>m. if quotes target (m_json m)
                  then m\<lparr>m_json := quote_deleted (m_json m)\<rparr> else m)
                (db_messages db)\<rparr>)"

text \<open>What the statements take for a deleted message: \<open>$.deleted = 1\<close> or a text \<open>$.deleted_at\<close>.\<close>

definition row_deleted :: "json \<Rightarrow> bool" where
  "row_deleted j \<longleftrightarrow> extract_is_one ''deleted'' j \<or> type_is_text ''deleted_at'' j"

definition target_deleted :: "json \<Rightarrow> cache_db \<Rightarrow> bool" where
  "target_deleted j db =
     list_ex (\<lambda>t. extract_is_text ''reply_to_id'' (m_id t) j \<and> row_deleted (m_json t))
       (db_messages db)"

definition mark_deleted_target :: "string \<Rightarrow> cache_db \<Rightarrow> cache_db" where
  "mark_deleted_target mid db =
     db\<lparr>db_messages := fst (update_row m_id mid
          (\<lambda>m. type_is_object ''reply_to'' (m_json m) \<and> target_deleted (m_json m) db)
          (\<lambda>m. m\<lparr>m_json := quote_deleted (m_json m)\<rparr>) (db_messages db))\<rparr>"

section \<open>The steps\<close>

type_synonym apply_state = "cache_db \<times> applied"

definition touch_channel :: "string \<Rightarrow> applied \<Rightarrow> applied" where
  "touch_channel c a = a\<lparr>a_channels := insert c (a_channels a)\<rparr>"

text \<open>1. The caller's own membership: above an active fence it clears the fence.\<close>

definition apply_own :: "member_row \<Rightarrow> apply_state \<Rightarrow> apply_state" where
  "apply_own m s = (case s of (db, a) \<Rightarrow>
     let fence = fence_of (mb_channel m) db in
     if at_or_below (mb_seq m) fence then (db, a)
     else
       (let (rows, changed) = upsert_membership m (db_memberships db) in
        if changed
        then (let db = db\<lparr>db_memberships := rows\<rparr>; a = touch_channel (mb_channel m) a in
              (if fence \<noteq> None
               then db\<lparr>db_removed := fst (update_row rm_channel (mb_channel m) (\<lambda>_. True)
                      (\<lambda>r. r\<lparr>rm_active := False\<rparr>) (db_removed db))\<rparr>
               else db, a))
        else (db, a)))"

text \<open>2. A removal, only above the caller's own membership and above the last removal.\<close>

definition own_seq :: "string \<Rightarrow> string \<Rightarrow> cache_db \<Rightarrow> int option" where
  "own_seq me channel_id db = (case sel mb_key (channel_id, me) (db_memberships db) of
       None \<Rightarrow> None
     | Some m \<Rightarrow> if mb_left m then None else Some (mb_seq m))"

definition remove_channel_rows :: "string \<Rightarrow> cache_db \<Rightarrow> cache_db \<times> string list" where
  "remove_channel_rows channel_id db =
     (let (db, dropped) = drop_channel channel_id db
      in (db\<lparr>db_messages := filter (\<lambda>m. m_channel m \<noteq> channel_id) (db_messages db),
             db_memberships := filter (\<lambda>m. mb_channel m \<noteq> channel_id) (db_memberships db),
             db_coverage := filter (\<lambda>r. cv_channel r \<noteq> channel_id) (db_coverage db),
             db_channels := filter (\<lambda>r. r_id r \<noteq> channel_id) (db_channels db)\<rparr>, dropped))"

definition apply_removed :: "string \<Rightarrow> string \<times> int \<Rightarrow> apply_state \<Rightarrow> apply_state" where
  "apply_removed me r s = (case (r, s) of ((channel_id, seq), (db, a)) \<Rightarrow>
     if at_or_below seq (own_seq me channel_id db) then (db, a)
     else if at_or_below seq (floor_of channel_id db) then (db, a)
     else
       (let db = db\<lparr>db_removed := fst (upsert rm_channel
              \<lparr>rm_channel = channel_id, rm_seq = seq, rm_active = True\<rparr> (\<lambda>_. True)
              (\<lambda>x. x\<lparr>rm_seq := seq, rm_active := True\<rparr>) (db_removed db))\<rparr>;
            (db, dropped) = remove_channel_rows channel_id db
        in (db, a\<lparr>a_dropped := a_dropped a @ dropped,
                  a_removed := insert channel_id (a_removed a),
                  a_channels := a_channels a - {channel_id}\<rparr>)))"

text \<open>3. Everything else through the guard.\<close>

definition apply_channel :: "row \<Rightarrow> apply_state \<Rightarrow> apply_state" where
  "apply_channel c s = (case s of (db, a) \<Rightarrow>
     if fenced_at_or_above (r_id c) (r_seq c) db then (db, a)
     else (let (rows, changed) = guarded_upsert c (db_channels db) in
           if changed then (db\<lparr>db_channels := rows\<rparr>, touch_channel (r_id c) a) else (db, a)))"

definition apply_member :: "member_row \<Rightarrow> apply_state \<Rightarrow> apply_state" where
  "apply_member m s = (case s of (db, a) \<Rightarrow>
     if fenced_at_or_above (mb_channel m) (mb_seq m) db then (db, a)
     else (let (rows, changed) = upsert_membership m (db_memberships db) in
           if changed then (db\<lparr>db_memberships := rows\<rparr>, touch_channel (mb_channel m) a)
           else (db, a)))"

definition apply_left :: "string \<times> string \<times> int \<Rightarrow> apply_state \<Rightarrow> apply_state" where
  "apply_left l s = (case (l, s) of ((channel_id, user_id, seq), (db, a)) \<Rightarrow>
     let (rows, changed) = update_row mb_key (channel_id, user_id) (\<lambda>x. mb_seq x < seq)
           (\<lambda>x. x\<lparr>mb_left := True, mb_seq := seq\<rparr>) (db_memberships db) in
     if changed then (db\<lparr>db_memberships := rows\<rparr>, touch_channel channel_id a)
     else (db\<lparr>db_memberships := insert_new mb_key
              \<lparr>mb_channel = channel_id, mb_user = user_id, mb_seq = seq, mb_json = JNull,
               mb_left = True\<rparr> rows\<rparr>, a))"

definition apply_user :: "row \<Rightarrow> apply_state \<Rightarrow> apply_state" where
  "apply_user u s = (case s of (db, a) \<Rightarrow>
     let (rows, changed) = guarded_upsert u (db_users db) in
     if changed then (db\<lparr>db_users := rows\<rparr>, a\<lparr>a_users := insert (r_id u) (a_users a)\<rparr>)
     else (db, a))"

text \<open>4. Messages.\<close>

definition asked_floor :: "(string \<times> int option) list \<Rightarrow> string \<Rightarrow> int option" where
  "asked_floor floors channel_id =
     (case map_of floors channel_id of None \<Rightarrow> None | Some f \<Rightarrow> f)"

definition sent_deleted :: "json \<Rightarrow> bool" where
  "sent_deleted j = (case jget ''deleted_at'' j of None \<Rightarrow> False | Some v \<Rightarrow> \<not> is_null v)"

definition sent_body :: "json \<Rightarrow> string" where
  "sent_body j = (case jget_str ''body'' j of None \<Rightarrow> [] | Some b \<Rightarrow> b)"

definition replaces :: "message_row \<Rightarrow> message_row \<Rightarrow> bool" where
  "replaces m x \<longleftrightarrow> m_seq x < m_seq m \<or>
     (m_seq m = m_seq x \<and> extract_is_one ''_partial'' (m_json x))"

definition upsert_message :: "message_row \<Rightarrow> message_row list \<Rightarrow> message_row list \<times> bool" where
  "upsert_message m rows = upsert m_id m (replaces m)
     (\<lambda>x. x\<lparr>m_seq := m_seq m, m_json := m_json m, m_created_at := m_created_at m\<rparr>) rows"

definition apply_message ::
  "bool \<Rightarrow> (string \<times> int option) list \<Rightarrow> message_row \<Rightarrow> apply_state \<Rightarrow> apply_state" where
  "apply_message history floors m s = (case s of (db, a) \<Rightarrow>
     if history \<and> asked_floor floors (m_channel m) \<noteq> floor_of (m_channel m) db then (db, a)
     else if \<not> message_may_land (m_channel m) (m_seq m) history db then (db, a)
     else
       (let (rows, changed) = upsert_message m (db_messages db) in
        if changed
        then (let (db, dropped) = index_message (m_id m) (m_channel m) (listed (m_json m))
                                    (db\<lparr>db_messages := rows\<rparr>);
                  a = touch_channel (m_channel m) a;
                  a = a\<lparr>a_dropped := a_dropped a @ dropped\<rparr>;
                  deleted = sent_deleted (m_json m);
                  db = (if deleted \<or> \<not> history
                        then refresh_excerpts (m_id m)
                               (if deleted then None else Some (sent_body (m_json m))) db
                        else db)
              in (mark_deleted_target (m_id m) db, a))
        else (db, a)))"

definition tombstone_patch :: "int \<Rightarrow> json \<Rightarrow> json" where
  "tombstone_patch seq j =
     jset ''attachments'' (JArr []) (jset ''reactions'' (JArr []) (jset ''_partial'' (JInt 1)
       (jset ''deleted'' (JBool True) (jset ''seq'' (JInt seq) (jset ''body'' (JStr [])
         (jremove ''reply_to'' (jremove ''mention_everyone'' (jremove ''mentions'' j))))))))"

definition partial_tombstone :: "string \<Rightarrow> string \<Rightarrow> int \<Rightarrow> json" where
  "partial_tombstone mid channel_id seq =
     JObj [(''id'', JStr mid), (''channel_id'', JStr channel_id), (''body'', JStr []),
           (''seq'', JInt seq), (''deleted'', JBool True), (''_partial'', JInt 1),
           (''reactions'', JArr []), (''attachments'', JArr [])]"

definition apply_tombstone :: "string \<times> string \<times> int \<Rightarrow> apply_state \<Rightarrow> apply_state" where
  "apply_tombstone t s = (case (t, s) of ((mid, channel_id, seq), (db, a)) \<Rightarrow>
     if \<not> message_may_land channel_id seq False db then (db, a)
     else
       (let (rows, patched) = update_row m_id mid (\<lambda>x. m_seq x < seq)
              (\<lambda>x. x\<lparr>m_seq := seq, m_json := tombstone_patch seq (m_json x)\<rparr>) (db_messages db);
            rows = (if patched then rows
                    else insert_new m_id
                      \<lparr>m_id = mid, m_channel = channel_id, m_seq = seq, m_created_at = [],
                       m_json = partial_tombstone mid channel_id seq\<rparr> rows);
            db = refresh_excerpts mid None (db\<lparr>db_messages := rows\<rparr>);
            (db, dropped) = drop_message mid db
        in (db, touch_channel channel_id (a\<lparr>a_dropped := a_dropped a @ dropped\<rparr>))))"

definition apply_batch :: "string \<Rightarrow> batch \<Rightarrow> cache_db \<Rightarrow> apply_state" where
  "apply_batch me b db =
     fold apply_tombstone (b_tombstones b)
       (fold (apply_message (b_history b) (b_history_floors b)) (b_messages b)
         (fold apply_user (b_users b)
           (fold apply_left (b_left b)
             (fold apply_member (filter (\<lambda>m. mb_user m \<noteq> me) (b_memberships b))
               (fold apply_channel (b_channels b)
                 (fold (apply_removed me) (b_removed b)
                   (fold apply_own (filter (\<lambda>m. mb_user m = me) (b_memberships b))
                     (db, no_change))))))))"

end
