(* ===== verification/Apply_Facts.thy ===== *)
theory Apply_Facts
  imports Apply
begin

text \<open>
  What holds of \<open>apply\<close>: the sequence guard as interpretations of \<open>seq_guard\<close>, the frame of
  every step, and the invariants every step keeps (keys, fences, deleted words, file index).
\<close>

section \<open>The guard, as the locale\<close>

definition rows_seq :: "string \<Rightarrow> row list \<Rightarrow> int option" where
  "rows_seq k rows = map_option r_seq (sel r_id k rows)"

definition rows_put :: "string \<Rightarrow> int \<Rightarrow> json \<Rightarrow> row list \<Rightarrow> row list" where
  "rows_put k s v rows = fst (guarded_upsert \<lparr>r_id = k, r_seq = s, r_json = v\<rparr> rows)"

interpretation guarded_rows: seq_guard rows_seq rows_put
proof unfold_locales
  show "rows_seq k' (rows_put k s v t) =
      (if k' = k then Some (case rows_seq k t of None \<Rightarrow> s | Some s' \<Rightarrow> max s s')
       else rows_seq k' t)" for k' k s v t
    by (auto simp: rows_seq_def rows_put_def guarded_upsert_def sel_upsert max_def split: option.splits)
  show "rows_put k s v t = t" if "rows_seq k t = Some s'" "s \<le> s'" for k s v t s'
    using that by (auto simp: rows_seq_def rows_put_def guarded_upsert_def upsert_changed
        intro!: upsert_unchanged)
qed

definition members_seq :: "string \<times> string \<Rightarrow> membership list \<Rightarrow> int option" where
  "members_seq k rows = map_option mb_seq (sel mb_key k rows)"

definition members_put ::
  "string \<times> string \<Rightarrow> int \<Rightarrow> json \<Rightarrow> membership list \<Rightarrow> membership list" where
  "members_put k s v rows = fst (upsert_membership
     \<lparr>mb_channel = fst k, mb_user = snd k, mb_seq = s, mb_json = v\<rparr> rows)"

interpretation guarded_members: seq_guard members_seq members_put
proof unfold_locales
  show "members_seq k' (members_put k s v t) =
      (if k' = k then Some (case members_seq k t of None \<Rightarrow> s | Some s' \<Rightarrow> max s s')
       else members_seq k' t)" for k' k s v t
    by (cases k) (auto simp: members_seq_def members_put_def upsert_membership_def sel_upsert
        mb_key_def max_def split: option.splits)
  show "members_put k s v t = t" if "members_seq k t = Some s'" "s \<le> s'" for k s v t s'
    using that by (cases k) (auto simp: members_seq_def members_put_def upsert_membership_def
        upsert_changed mb_key_def intro!: upsert_unchanged)
qed

section \<open>Frames\<close>

lemma refresh_excerpts_frame [simp]:
  "db_cursor (refresh_excerpts t b db) = db_cursor db"
  "db_generation (refresh_excerpts t b db) = db_generation db"
  "db_channels (refresh_excerpts t b db) = db_channels db"
  "db_removed (refresh_excerpts t b db) = db_removed db"
  "db_memberships (refresh_excerpts t b db) = db_memberships db"
  "db_users (refresh_excerpts t b db) = db_users db"
  "db_coverage (refresh_excerpts t b db) = db_coverage db"
  "db_files (refresh_excerpts t b db) = db_files db"
  "db_message_files (refresh_excerpts t b db) = db_message_files db"
  "db_deletions (refresh_excerpts t b db) = db_deletions db"
  by (simp_all add: refresh_excerpts_def Let_def split: option.splits)

lemma mark_deleted_target_frame [simp]:
  "db_cursor (mark_deleted_target t db) = db_cursor db"
  "db_generation (mark_deleted_target t db) = db_generation db"
  "db_channels (mark_deleted_target t db) = db_channels db"
  "db_removed (mark_deleted_target t db) = db_removed db"
  "db_memberships (mark_deleted_target t db) = db_memberships db"
  "db_users (mark_deleted_target t db) = db_users db"
  "db_coverage (mark_deleted_target t db) = db_coverage db"
  "db_files (mark_deleted_target t db) = db_files db"
  "db_message_files (mark_deleted_target t db) = db_message_files db"
  "db_deletions (mark_deleted_target t db) = db_deletions db"
  by (simp_all add: mark_deleted_target_def)

lemma apply_own_frame [simp]:
  "db_cursor (fst (apply_own m s)) = db_cursor (fst s)"
  "db_generation (fst (apply_own m s)) = db_generation (fst s)"
  "db_channels (fst (apply_own m s)) = db_channels (fst s)"
  "db_users (fst (apply_own m s)) = db_users (fst s)"
  "db_messages (fst (apply_own m s)) = db_messages (fst s)"
  "db_coverage (fst (apply_own m s)) = db_coverage (fst s)"
  "db_files (fst (apply_own m s)) = db_files (fst s)"
  "db_message_files (fst (apply_own m s)) = db_message_files (fst s)"
  "db_deletions (fst (apply_own m s)) = db_deletions (fst s)"
  "a_removed (snd (apply_own m s)) = a_removed (snd s)"
  "a_users (snd (apply_own m s)) = a_users (snd s)"
  by (auto simp: apply_own_def touch_channel_def Let_def split: prod.splits)

lemma remove_channel_rows_frame [simp]:
  "db_cursor (fst (remove_channel_rows c db)) = db_cursor db"
  "db_generation (fst (remove_channel_rows c db)) = db_generation db"
  "db_removed (fst (remove_channel_rows c db)) = db_removed db"
  "db_users (fst (remove_channel_rows c db)) = db_users db"
  "db_channels (fst (remove_channel_rows c db)) = filter (\<lambda>r. r_id r \<noteq> c) (db_channels db)"
  "db_memberships (fst (remove_channel_rows c db)) =
     filter (\<lambda>m. mb_channel m \<noteq> c) (db_memberships db)"
  "db_messages (fst (remove_channel_rows c db)) = filter (\<lambda>m. m_channel m \<noteq> c) (db_messages db)"
  "db_coverage (fst (remove_channel_rows c db)) = filter (\<lambda>r. cv_channel r \<noteq> c) (db_coverage db)"
  "db_message_files (fst (remove_channel_rows c db)) =
     filter (\<lambda>r. mf_channel r \<noteq> c) (db_message_files db)"
  "db_files (fst (remove_channel_rows c db)) = db_files (fst (drop_channel c db))"
  "db_deletions (fst (remove_channel_rows c db)) = db_deletions (fst (drop_channel c db))"
  by (simp_all add: remove_channel_rows_def split_def Let_def)

definition removal_applies :: "string \<Rightarrow> string \<times> int \<Rightarrow> cache_db \<Rightarrow> bool" where
  "removal_applies me r db \<longleftrightarrow> \<not> at_or_below (snd r) (own_seq me (fst r) db) \<and>
     \<not> at_or_below (snd r) (floor_of (fst r) db)"

definition fence_up :: "string \<times> int \<Rightarrow> cache_db \<Rightarrow> cache_db" where
  "fence_up r db = db\<lparr>db_removed := fst (upsert rm_channel
     \<lparr>rm_channel = fst r, rm_seq = snd r, rm_active = True\<rparr> (\<lambda>_. True)
     (\<lambda>x. x\<lparr>rm_seq := snd r, rm_active := True\<rparr>) (db_removed db))\<rparr>"

lemma apply_removed_db:
  "fst (apply_removed me r s) =
     (if removal_applies me r (fst s) then fst (remove_channel_rows (fst r) (fence_up r (fst s)))
      else fst s)"
  by (cases r; cases s) (simp add: apply_removed_def removal_applies_def fence_up_def Let_def split_def)

lemma apply_removed_removed:
  "a_removed (snd (apply_removed me r s)) =
     (if removal_applies me r (fst s) then insert (fst r) (a_removed (snd s)) else a_removed (snd s))"
  by (cases r; cases s) (simp add: apply_removed_def removal_applies_def Let_def split_def)

lemma apply_removed_frame [simp]:
  "db_cursor (fst (apply_removed me r s)) = db_cursor (fst s)"
  "db_generation (fst (apply_removed me r s)) = db_generation (fst s)"
  "db_users (fst (apply_removed me r s)) = db_users (fst s)"
  by (simp_all add: apply_removed_db fence_up_def)

lemma apply_channel_frame [simp]:
  "db_cursor (fst (apply_channel c s)) = db_cursor (fst s)"
  "db_generation (fst (apply_channel c s)) = db_generation (fst s)"
  "db_removed (fst (apply_channel c s)) = db_removed (fst s)"
  "db_memberships (fst (apply_channel c s)) = db_memberships (fst s)"
  "db_users (fst (apply_channel c s)) = db_users (fst s)"
  "db_messages (fst (apply_channel c s)) = db_messages (fst s)"
  "db_coverage (fst (apply_channel c s)) = db_coverage (fst s)"
  "db_files (fst (apply_channel c s)) = db_files (fst s)"
  "db_message_files (fst (apply_channel c s)) = db_message_files (fst s)"
  "db_deletions (fst (apply_channel c s)) = db_deletions (fst s)"
  "a_removed (snd (apply_channel c s)) = a_removed (snd s)"
  by (auto simp: apply_channel_def touch_channel_def Let_def split: prod.splits)

lemma apply_member_frame [simp]:
  "db_cursor (fst (apply_member m s)) = db_cursor (fst s)"
  "db_generation (fst (apply_member m s)) = db_generation (fst s)"
  "db_removed (fst (apply_member m s)) = db_removed (fst s)"
  "db_channels (fst (apply_member m s)) = db_channels (fst s)"
  "db_users (fst (apply_member m s)) = db_users (fst s)"
  "db_messages (fst (apply_member m s)) = db_messages (fst s)"
  "db_coverage (fst (apply_member m s)) = db_coverage (fst s)"
  "db_files (fst (apply_member m s)) = db_files (fst s)"
  "db_message_files (fst (apply_member m s)) = db_message_files (fst s)"
  "db_deletions (fst (apply_member m s)) = db_deletions (fst s)"
  "a_removed (snd (apply_member m s)) = a_removed (snd s)"
  by (auto simp: apply_member_def touch_channel_def Let_def split: prod.splits)

lemma apply_left_frame [simp]:
  "db_cursor (fst (apply_left l s)) = db_cursor (fst s)"
  "db_generation (fst (apply_left l s)) = db_generation (fst s)"
  "db_removed (fst (apply_left l s)) = db_removed (fst s)"
  "db_channels (fst (apply_left l s)) = db_channels (fst s)"
  "db_users (fst (apply_left l s)) = db_users (fst s)"
  "db_messages (fst (apply_left l s)) = db_messages (fst s)"
  "db_coverage (fst (apply_left l s)) = db_coverage (fst s)"
  "db_files (fst (apply_left l s)) = db_files (fst s)"
  "db_message_files (fst (apply_left l s)) = db_message_files (fst s)"
  "db_deletions (fst (apply_left l s)) = db_deletions (fst s)"
  "a_removed (snd (apply_left l s)) = a_removed (snd s)"
  by (auto simp: apply_left_def touch_channel_def Let_def split: prod.splits)

lemma apply_user_frame [simp]:
  "db_cursor (fst (apply_user u s)) = db_cursor (fst s)"
  "db_generation (fst (apply_user u s)) = db_generation (fst s)"
  "db_removed (fst (apply_user u s)) = db_removed (fst s)"
  "db_channels (fst (apply_user u s)) = db_channels (fst s)"
  "db_memberships (fst (apply_user u s)) = db_memberships (fst s)"
  "db_messages (fst (apply_user u s)) = db_messages (fst s)"
  "db_coverage (fst (apply_user u s)) = db_coverage (fst s)"
  "db_files (fst (apply_user u s)) = db_files (fst s)"
  "db_message_files (fst (apply_user u s)) = db_message_files (fst s)"
  "db_deletions (fst (apply_user u s)) = db_deletions (fst s)"
  "a_removed (snd (apply_user u s)) = a_removed (snd s)"
  by (auto simp: apply_user_def Let_def split: prod.splits)

text \<open>The message steps: what a landing message and a landing tombstone leave.\<close>

lemma split_index: "(case index_message i c fs d of (x, y) \<Rightarrow> f x y) =
    f (fst (index_message i c fs d)) (snd (index_message i c fs d))"
  by (simp add: split_def)

lemma split_drop_message: "(case drop_message i d of (x, y) \<Rightarrow> f x y) =
    f (fst (drop_message i d)) (snd (drop_message i d))"
  by (simp add: split_def)

definition message_lands :: "bool \<Rightarrow> (string \<times> int option) list \<Rightarrow> message_row \<Rightarrow> cache_db \<Rightarrow> bool" where
  "message_lands h fl m db \<longleftrightarrow>
     \<not> (h \<and> asked_floor fl (m_channel m) \<noteq> floor_of (m_channel m) db) \<and>
     message_may_land (m_channel m) (m_seq m) h db \<and> snd (upsert_message m (db_messages db))"

definition landed :: "bool \<Rightarrow> message_row \<Rightarrow> cache_db \<Rightarrow> cache_db" where
  "landed h m db =
     (let d = fst (index_message (m_id m) (m_channel m) (listed (m_json m))
                     (db\<lparr>db_messages := fst (upsert_message m (db_messages db))\<rparr>))
      in mark_deleted_target (m_id m)
           (if sent_deleted (m_json m) \<or> \<not> h
            then refresh_excerpts (m_id m)
                   (if sent_deleted (m_json m) then None else Some (sent_body (m_json m))) d
            else d))"

lemma apply_message_db:
  "fst (apply_message h fl m s) = (if message_lands h fl m (fst s) then landed h m (fst s) else fst s)"
  by (cases s) (auto simp: apply_message_def message_lands_def landed_def Let_def split_def)

lemma apply_message_frame [simp]:
  "db_cursor (fst (apply_message h fl m s)) = db_cursor (fst s)"
  "db_generation (fst (apply_message h fl m s)) = db_generation (fst s)"
  "db_removed (fst (apply_message h fl m s)) = db_removed (fst s)"
  "db_channels (fst (apply_message h fl m s)) = db_channels (fst s)"
  "db_memberships (fst (apply_message h fl m s)) = db_memberships (fst s)"
  "db_users (fst (apply_message h fl m s)) = db_users (fst s)"
  "db_coverage (fst (apply_message h fl m s)) = db_coverage (fst s)"
  by (simp_all add: apply_message_db landed_def Let_def)

lemma apply_message_removed [simp]:
  "a_removed (snd (apply_message h fl m s)) = a_removed (snd s)"
  by (cases s) (simp add: apply_message_def Let_def split_def touch_channel_def)

definition tombstone_rows :: "string \<Rightarrow> string \<Rightarrow> int \<Rightarrow> message_row list \<Rightarrow> message_row list" where
  "tombstone_rows i c q rows =
     (let (rows', patched) = update_row m_id i (\<lambda>x. m_seq x < q)
            (\<lambda>x. x\<lparr>m_seq := q, m_json := tombstone_patch q (m_json x)\<rparr>) rows
      in if patched then rows'
         else insert_new m_id \<lparr>m_id = i, m_channel = c, m_seq = q, m_created_at = [],
                m_json = partial_tombstone i c q\<rparr> rows')"

definition buried :: "string \<Rightarrow> string \<Rightarrow> int \<Rightarrow> cache_db \<Rightarrow> cache_db" where
  "buried i c q db = fst (drop_message i (refresh_excerpts i None
     (db\<lparr>db_messages := tombstone_rows i c q (db_messages db)\<rparr>)))"

lemma apply_tombstone_db:
  "fst (apply_tombstone (i, c, q) s) =
     (if message_may_land c q False (fst s) then buried i c q (fst s) else fst s)"
  by (cases s) (simp add: apply_tombstone_def buried_def tombstone_rows_def Let_def split_def)

lemma apply_tombstone_frame [simp]:
  "db_cursor (fst (apply_tombstone t s)) = db_cursor (fst s)"
  "db_generation (fst (apply_tombstone t s)) = db_generation (fst s)"
  "db_removed (fst (apply_tombstone t s)) = db_removed (fst s)"
  "db_channels (fst (apply_tombstone t s)) = db_channels (fst s)"
  "db_memberships (fst (apply_tombstone t s)) = db_memberships (fst s)"
  "db_users (fst (apply_tombstone t s)) = db_users (fst s)"
  "db_coverage (fst (apply_tombstone t s)) = db_coverage (fst s)"
  by (cases t; simp add: apply_tombstone_db buried_def)+

lemma apply_tombstone_removed [simp]:
  "a_removed (snd (apply_tombstone t s)) = a_removed (snd s)"
  by (cases t; cases s) (simp add: apply_tombstone_def Let_def split_def touch_channel_def)

section \<open>Invariants of a whole batch\<close>

text \<open>A property every step keeps holds after the batch.\<close>

lemma apply_batch_invariant:
  assumes "P (db, no_change)"
    and "\<And>m s. m \<in> set (b_memberships b) \<Longrightarrow> mb_user m = me \<Longrightarrow> P s \<Longrightarrow> P (apply_own m s)"
    and "\<And>r s. r \<in> set (b_removed b) \<Longrightarrow> P s \<Longrightarrow> P (apply_removed me r s)"
    and "\<And>c s. c \<in> set (b_channels b) \<Longrightarrow> P s \<Longrightarrow> P (apply_channel c s)"
    and "\<And>m s. m \<in> set (b_memberships b) \<Longrightarrow> mb_user m \<noteq> me \<Longrightarrow> P s \<Longrightarrow> P (apply_member m s)"
    and "\<And>l s. l \<in> set (b_left b) \<Longrightarrow> P s \<Longrightarrow> P (apply_left l s)"
    and "\<And>u s. u \<in> set (b_users b) \<Longrightarrow> P s \<Longrightarrow> P (apply_user u s)"
    and "\<And>m s. m \<in> set (b_messages b) \<Longrightarrow> P s \<Longrightarrow>
      P (apply_message (b_history b) (b_history_floors b) m s)"
    and "\<And>t s. t \<in> set (b_tombstones b) \<Longrightarrow> P s \<Longrightarrow> P (apply_tombstone t s)"
  shows "P (apply_batch me b db)"
  unfolding apply_batch_def
  by (intro fold_invariant [where Q = "\<lambda>x. x \<in> set (b_tombstones b)" and P = P]
      fold_invariant [where Q = "\<lambda>x. x \<in> set (b_messages b)" and P = P]
      fold_invariant [where Q = "\<lambda>x. x \<in> set (b_users b)" and P = P]
      fold_invariant [where Q = "\<lambda>x. x \<in> set (b_left b)" and P = P]
      fold_invariant [where Q = "\<lambda>x. x \<in> set (b_memberships b) \<and> mb_user x \<noteq> me" and P = P]
      fold_invariant [where Q = "\<lambda>x. x \<in> set (b_channels b)" and P = P]
      fold_invariant [where Q = "\<lambda>x. x \<in> set (b_removed b)" and P = P]
      fold_invariant [where Q = "\<lambda>x. x \<in> set (b_memberships b) \<and> mb_user x = me" and P = P])
    (auto simp: assms)

end
