(* ===== verification/Apply_Invariants.thy ===== *)
theory Apply_Invariants
  imports Apply_Facts
begin

text \<open>
  The invariants of the cache that \<open>apply\<close> keeps: primary keys, removal fences, sequence
  numbers that never go back, deleted words that never survive in a quote, and files that never
  outlive their message.
\<close>

section \<open>Message rows under the rewriting statements\<close>

text \<open>
  The statements that rewrite quotes change only the JSON of a row, and there only the members
  of \<open>reply_to\<close>.
\<close>

definition same_but_quote :: "message_row \<Rightarrow> message_row \<Rightarrow> bool" where
  "same_but_quote x y \<longleftrightarrow> m_id x = m_id y \<and> m_channel x = m_channel y \<and> m_seq x = m_seq y \<and>
     m_created_at x = m_created_at y \<and>
     (\<forall>k. k \<noteq> ''reply_to'' \<longrightarrow> jget k (m_json x) = jget k (m_json y)) \<and>
     type_is_object ''reply_to'' (m_json x) = type_is_object ''reply_to'' (m_json y)"

lemma same_but_quote_refl [simp]: "same_but_quote x x"
  by (simp add: same_but_quote_def)

lemma quote_deleted_other [simp]: "k \<noteq> ''reply_to'' \<Longrightarrow> jget k (quote_deleted j) = jget k j"
  by (simp add: quote_deleted_def)

lemma type_is_object_quote_deleted [simp]:
  "type_is_object k (quote_deleted j) = type_is_object k j"
  by (simp add: quote_deleted_def)

lemma list_all2_map1: "(\<And>x. x \<in> set xs \<Longrightarrow> P x (f x)) \<Longrightarrow> list_all2 P xs (map f xs)"
  by (induction xs) auto

lemma list_all2_update_row:
  "(\<And>x. P x x) \<Longrightarrow> (\<And>x. P x (f x)) \<Longrightarrow> list_all2 P xs (fst (update_row key k p f xs))"
  by (induction xs) (auto simp: list_all2_refl split: prod.splits)

lemma refresh_excerpts_rows:
  "list_all2 same_but_quote (db_messages db) (db_messages (refresh_excerpts t b db))"
  by (auto simp: refresh_excerpts_def Let_def same_but_quote_def split: option.splits
      intro!: list_all2_map1)

lemma mark_deleted_target_rows:
  "list_all2 same_but_quote (db_messages db) (db_messages (mark_deleted_target t db))"
  by (auto simp: mark_deleted_target_def same_but_quote_def intro!: list_all2_update_row)

lemma same_but_quote_sel:
  assumes "list_all2 same_but_quote xs ys"
  shows "rel_option same_but_quote (sel m_id k xs) (sel m_id k ys)"
  using assms by (induction rule: list_all2_induct) (auto simp: same_but_quote_def)

lemma same_but_quote_keys: "list_all2 same_but_quote xs ys \<Longrightarrow> map m_id ys = map m_id xs"
  by (induction rule: list_all2_induct) (auto simp: same_but_quote_def)

lemma same_but_quote_trans:
  "same_but_quote x y \<Longrightarrow> same_but_quote y z \<Longrightarrow> same_but_quote x z"
  by (simp add: same_but_quote_def)

lemma same_but_quote_list_trans:
  "list_all2 same_but_quote xs ys \<Longrightarrow> list_all2 same_but_quote ys zs \<Longrightarrow>
     list_all2 same_but_quote xs zs"
  by (rule list_all2_trans [OF same_but_quote_trans])

lemma same_but_quote_in:
  "list_all2 same_but_quote xs ys \<Longrightarrow> y \<in> set ys \<Longrightarrow> \<exists>x \<in> set xs. same_but_quote x y"
  by (induction rule: list_all2_induct) auto

lemma landed_rows:
  "list_all2 same_but_quote (fst (upsert_message m (db_messages db))) (db_messages (landed h m db))"
proof -
  let ?d = "fst (index_message (m_id m) (m_channel m) (listed (m_json m))
                     (db\<lparr>db_messages := fst (upsert_message m (db_messages db))\<rparr>))"
  let ?e = "if sent_deleted (m_json m) \<or> \<not> h
            then refresh_excerpts (m_id m)
                   (if sent_deleted (m_json m) then None else Some (sent_body (m_json m))) ?d
            else ?d"
  have "list_all2 same_but_quote (db_messages ?d) (db_messages ?e)"
    using refresh_excerpts_rows [of ?d] by (simp add: list_all2_refl)
  moreover have "list_all2 same_but_quote (db_messages ?e) (db_messages (mark_deleted_target (m_id m) ?e))"
    by (rule mark_deleted_target_rows)
  ultimately have "list_all2 same_but_quote (db_messages ?d) (db_messages (mark_deleted_target (m_id m) ?e))"
    by (rule same_but_quote_list_trans)
  then show ?thesis by (simp add: landed_def Let_def)
qed

lemma buried_rows:
  "list_all2 same_but_quote (tombstone_rows i c q (db_messages db)) (db_messages (buried i c q db))"
  using refresh_excerpts_rows [of "db\<lparr>db_messages := tombstone_rows i c q (db_messages db)\<rparr>" i None]
  by (simp add: buried_def)

lemma set_upsert_message:
  assumes "x \<in> set (fst (upsert_message m rows))"
  shows "x \<in> set rows \<or> x = m \<or>
    (\<exists>y \<in> set rows. m_id y = m_id m \<and> m_id x = m_id m \<and> m_channel x = m_channel y \<and>
       m_seq x = m_seq m \<and> m_seq y \<le> m_seq m \<and> m_json x = m_json m)"
  using assms by (fastforce simp: upsert_message_def replaces_def dest!: set_upsert)

lemma set_tombstone_rows:
  assumes "x \<in> set (tombstone_rows i c q rows)"
  shows "x \<in> set rows \<or>
    (m_id x = i \<and> m_channel x = c \<and> m_seq x = q \<and> m_json x = partial_tombstone i c q) \<or>
    (\<exists>y \<in> set rows. m_id y = i \<and> m_id x = i \<and> m_channel x = m_channel y \<and> m_seq x = q \<and> m_seq y < q \<and>
       m_json x = tombstone_patch q (m_json y))"
proof -
  let ?u = "update_row m_id i (\<lambda>x. m_seq x < q)
            (\<lambda>x. x\<lparr>m_seq := q, m_json := tombstone_patch q (m_json x)\<rparr>) rows"
  have u: "z \<in> set rows \<or> (\<exists>y \<in> set rows. m_id y = i \<and> m_seq y < q \<and>
      z = y\<lparr>m_seq := q, m_json := tombstone_patch q (m_json y)\<rparr>)" if "z \<in> set (fst ?u)" for z
    using set_update_row [OF that] by blast
  show ?thesis
  proof (cases "snd ?u")
    case True
    then show ?thesis using u [of x] assms by (auto simp: tombstone_rows_def Let_def split_def)
  next
    case False
    then have "fst ?u = rows" by (rule update_row_unchanged)
    then show ?thesis
      using assms False
      by (auto simp: tombstone_rows_def Let_def split_def set_insert_new split: if_splits)
  qed
qed

section \<open>Primary keys\<close>

lemma unique_upsert_membership:
  "rows_unique mb_key rows \<Longrightarrow> rows_unique mb_key (fst (upsert_membership m rows))"
  unfolding upsert_membership_def by (rule unique_upsert) (simp_all add: mb_key_def)

lemma unique_guarded_upsert:
  "rows_unique r_id rows \<Longrightarrow> rows_unique r_id (fst (guarded_upsert r rows))"
  unfolding guarded_upsert_def by (rule unique_upsert) simp_all

lemma unique_upsert_message:
  "rows_unique m_id rows \<Longrightarrow> rows_unique m_id (fst (upsert_message m rows))"
  unfolding upsert_message_def by (rule unique_upsert) simp_all

lemma unique_tombstone_rows:
  "rows_unique m_id rows \<Longrightarrow> rows_unique m_id (tombstone_rows i c q rows)"
  by (auto simp: tombstone_rows_def Let_def split_def keys_update_row intro!: unique_insert_new)

lemma keys_ok_drop_files: "keys_ok db \<Longrightarrow> keys_ok (fst (drop_files fs db))"
  by (simp add: keys_ok_def db_files_drop_files unique_filter distinct_deletions_drop_files)

lemma keys_ok_index_message: "keys_ok db \<Longrightarrow> keys_ok (fst (index_message m c now db))"
  by (simp add: keys_ok_def index_message_def Let_def db_files_drop_files unique_filter
      distinct_deletions_drop_files unique_fold_insert_replace)

lemma keys_ok_drop_message: "keys_ok db \<Longrightarrow> keys_ok (fst (drop_message m db))"
  by (simp add: keys_ok_def drop_message_def Let_def db_files_drop_files unique_filter
      distinct_deletions_drop_files)

lemma keys_ok_drop_channel: "keys_ok db \<Longrightarrow> keys_ok (fst (drop_channel m db))"
  by (simp add: keys_ok_def drop_channel_def Let_def db_files_drop_files unique_filter
      distinct_deletions_drop_files)

lemma keys_ok_messages:
  "keys_ok db \<Longrightarrow> rows_unique m_id rows \<Longrightarrow> keys_ok (db\<lparr>db_messages := rows\<rparr>)"
  by (simp add: keys_ok_def)

lemma keys_ok_refresh: "keys_ok db \<Longrightarrow> keys_ok (refresh_excerpts t b db)"
  using same_but_quote_keys [OF refresh_excerpts_rows [of db t b]] by (simp add: keys_ok_def)

lemma keys_ok_mark: "keys_ok db \<Longrightarrow> keys_ok (mark_deleted_target t db)"
  using same_but_quote_keys [OF mark_deleted_target_rows [of db t]] by (simp add: keys_ok_def)

lemma keys_ok_remove_channel_rows: "keys_ok db \<Longrightarrow> keys_ok (fst (remove_channel_rows c db))"
  using keys_ok_drop_channel [of db c] by (simp add: keys_ok_def unique_filter)

lemma keys_ok_fence_up: "keys_ok db \<Longrightarrow> keys_ok (fence_up r db)"
  by (auto simp: keys_ok_def fence_up_def intro!: unique_upsert)

lemma keys_ok_steps:
  assumes "keys_ok (fst s)"
  shows "keys_ok (fst (apply_own m s))" and "keys_ok (fst (apply_removed me r s))"
    and "keys_ok (fst (apply_channel c s))" and "keys_ok (fst (apply_member m s))"
    and "keys_ok (fst (apply_left l s))" and "keys_ok (fst (apply_user u s))"
    and "keys_ok (fst (apply_message h fl x s))" and "keys_ok (fst (apply_tombstone t s))"
proof -
  show "keys_ok (fst (apply_own m s))"
    using assms unique_upsert_membership [of "db_memberships (fst s)" m]
    by (cases s) (auto simp: apply_own_def Let_def split_def keys_ok_def keys_update_row)
  show "keys_ok (fst (apply_removed me r s))"
    using assms by (simp add: apply_removed_db keys_ok_remove_channel_rows keys_ok_fence_up)
  show "keys_ok (fst (apply_channel c s))"
    using assms unique_guarded_upsert [of "db_channels (fst s)" c]
    by (cases s) (auto simp: apply_channel_def Let_def split_def keys_ok_def)
  show "keys_ok (fst (apply_member m s))"
    using assms unique_upsert_membership [of "db_memberships (fst s)" m]
    by (cases s) (auto simp: apply_member_def Let_def split_def keys_ok_def)
  show "keys_ok (fst (apply_left l s))"
    using assms by (cases s; cases l)
      (auto simp: apply_left_def Let_def split_def keys_ok_def keys_update_row intro!: unique_insert_new)
  show "keys_ok (fst (apply_user u s))"
    using assms unique_guarded_upsert [of "db_users (fst s)" u]
    by (cases s) (auto simp: apply_user_def Let_def split_def keys_ok_def)
  have "keys_ok (landed h x db)" if "keys_ok db" for db
    using that
    by (auto simp: landed_def Let_def keys_ok_def [of db]
        intro!: keys_ok_mark keys_ok_refresh keys_ok_index_message keys_ok_messages unique_upsert_message)
  then show "keys_ok (fst (apply_message h fl x s))"
    using assms by (simp add: apply_message_db)
  have "keys_ok (buried i c q db)" if "keys_ok db" for db i c q
    using that
    by (auto simp: buried_def keys_ok_def [of db]
        intro!: keys_ok_refresh keys_ok_drop_message keys_ok_messages unique_tombstone_rows)
  then show "keys_ok (fst (apply_tombstone t s))"
    using assms by (cases t) (simp add: apply_tombstone_db)
qed

lemma keys_ok_apply_batch: "keys_ok db \<Longrightarrow> keys_ok (fst (apply_batch me b db))"
  by (rule apply_batch_invariant [where P = "\<lambda>s. keys_ok (fst s)"]) (simp_all add: keys_ok_steps)

section \<open>Fences\<close>

text \<open>
  While a channel is fenced (the caller is out), every row the cache holds for it is newer than
  the removal: nothing from before it comes back.
\<close>

definition fences_hold :: "cache_db \<Rightarrow> bool" where
  "fences_hold db \<longleftrightarrow> (\<forall>c f. fence_of c db = Some f \<longrightarrow>
     (\<forall>r \<in> set (db_channels db). r_id r = c \<longrightarrow> f < r_seq r) \<and>
     (\<forall>x \<in> set (db_messages db). m_channel x = c \<longrightarrow> f < m_seq x) \<and>
     (\<forall>m \<in> set (db_memberships db). mb_channel m = c \<and> \<not> mb_left m \<longrightarrow> f < mb_seq m))"

lemma fence_of_cong: "db_removed d = db_removed d' \<Longrightarrow> fence_of c d = fence_of c d'"
  by (simp add: fence_of_def)

lemma fence_of_fence_up:
  "fence_of c (fence_up r db) = (if c = fst r then Some (snd r) else fence_of c db)"
  by (auto simp: fence_of_def fence_up_def sel_upsert split: option.splits)

lemma set_upsert_membership:
  "x \<in> set (fst (upsert_membership m rows)) \<Longrightarrow> x \<in> set rows \<or>
     (mb_channel x = mb_channel m \<and> mb_user x = mb_user m \<and> mb_seq x = mb_seq m)"
  by (auto simp: upsert_membership_def mb_key_def dest!: set_upsert)

lemma set_guarded_upsert:
  "x \<in> set (fst (guarded_upsert r rows)) \<Longrightarrow> x \<in> set rows \<or> (r_id x = r_id r \<and> r_seq x = r_seq r)"
  by (auto simp: guarded_upsert_def dest!: set_upsert)

lemma not_at_or_below: "\<not> at_or_below q f \<Longrightarrow> f = Some s \<Longrightarrow> s < q"
  by (simp add: at_or_below_def)

lemma fences_hold_own:
  assumes "fences_hold (fst s)"
  shows "fences_hold (fst (apply_own m s))"
proof (cases s)
  case (Pair db a)
  let ?up = "upsert_membership m (db_memberships db)"
  let ?d = "fst (apply_own m s)"
  show ?thesis
  proof (cases "\<not> at_or_below (mb_seq m) (fence_of (mb_channel m) db) \<and> snd ?up")
    case False
    then have "?d = db" by (auto simp: Pair apply_own_def Let_def split_def)
    then show ?thesis using assms Pair by simp
  next
    case True
    have mem: "db_memberships ?d = fst ?up"
      using True by (auto simp: Pair apply_own_def Let_def split_def)
    have fence: "fence_of c ?d = (if c = mb_channel m then None else fence_of c db)" for c
      using True by (auto simp: Pair apply_own_def Let_def split_def fence_of_def sel_update_row
          split: option.splits)
    show ?thesis
      using assms unfolding fences_hold_def fence mem
      by (auto simp: Pair dest!: set_upsert_membership)
  qed
qed

lemma fences_hold_removed: "fences_hold (fst s) \<Longrightarrow> fences_hold (fst (apply_removed me r s))"
  by (auto simp: apply_removed_db fences_hold_def fence_of_fence_up
      fence_of_cong [OF remove_channel_rows_frame(3)] fence_up_def [THEN arg_cong [where f = db_channels]]
      fence_up_def [THEN arg_cong [where f = db_messages]]
      fence_up_def [THEN arg_cong [where f = db_memberships]])

lemma fences_hold_channel: "fences_hold (fst s) \<Longrightarrow> fences_hold (fst (apply_channel c s))"
proof (cases s)
  case (Pair db a)
  assume ok: "fences_hold (fst s)"
  have "fences_hold (db\<lparr>db_channels := fst (guarded_upsert c (db_channels db))\<rparr>)"
    if "\<not> fenced_at_or_above (r_id c) (r_seq c) db"
    using ok that not_at_or_below
    by (auto simp: Pair fences_hold_def fenced_at_or_above_def fence_of_def [of _ "_\<lparr>db_channels := _\<rparr>"]
        fence_of_def [symmetric] dest!: set_guarded_upsert)
  then show ?thesis using ok by (auto simp: Pair apply_channel_def Let_def split_def)
qed

lemma fences_hold_member: "fences_hold (fst s) \<Longrightarrow> fences_hold (fst (apply_member m s))"
proof (cases s)
  case (Pair db a)
  assume ok: "fences_hold (fst s)"
  have "fences_hold (db\<lparr>db_memberships := fst (upsert_membership m (db_memberships db))\<rparr>)"
    if "\<not> fenced_at_or_above (mb_channel m) (mb_seq m) db"
    using ok that not_at_or_below
    by (auto simp: Pair fences_hold_def fenced_at_or_above_def fence_of_def [of _ "_\<lparr>db_memberships := _\<rparr>"]
        fence_of_def [symmetric] dest!: set_upsert_membership)
  then show ?thesis using ok by (auto simp: Pair apply_member_def Let_def split_def)
qed

lemma fences_hold_left: "fences_hold (fst s) \<Longrightarrow> fences_hold (fst (apply_left l s))"
proof (cases s; cases l)
  fix db a c u q
  assume s: "s = (db, a)" and l: "l = (c, u, q)" and ok: "fences_hold (fst s)"
  have "mb_left x \<or> x \<in> set (db_memberships db)"
    if "x \<in> set (db_memberships (fst (apply_left l s)))" for x
    using that by (auto simp: s l apply_left_def Let_def split_def set_insert_new
        dest!: set_update_row split: if_splits)
  then show ?thesis
    using ok unfolding fences_hold_def fence_of_cong [OF apply_left_frame(3) [of l s]]
    by (simp add: s l) blast
qed

lemma fences_hold_messages:
  assumes "fences_hold db" and "db_removed d = db_removed db" and "db_channels d = db_channels db"
    and "db_memberships d = db_memberships db"
    and "\<And>x c f. x \<in> set (db_messages d) \<Longrightarrow> fence_of (m_channel x) db = Some f \<Longrightarrow> f < m_seq x"
  shows "fences_hold d"
  using assms unfolding fences_hold_def fence_of_cong [OF assms(2)] by simp

lemma fences_hold_message: "fences_hold (fst s) \<Longrightarrow> fences_hold (fst (apply_message h fl m s))"
proof -
  assume ok: "fences_hold (fst s)"
  have "fences_hold (landed h m (fst s))" if lands: "message_lands h fl m (fst s)"
  proof (rule fences_hold_messages [OF ok])
    fix x f
    assume x: "x \<in> set (db_messages (landed h m (fst s)))" and f: "fence_of (m_channel x) (fst s) = Some f"
    then obtain y where y: "y \<in> set (fst (upsert_message m (db_messages (fst s))))"
      "m_channel y = m_channel x" "m_seq y = m_seq x"
      using same_but_quote_in [OF landed_rows x] by (auto simp: same_but_quote_def)
    have above: "f' < m_seq m" if "fence_of (m_channel m) (fst s) = Some f'" for f'
      using lands that not_at_or_below
      by (auto simp: message_lands_def message_may_land_def fenced_at_or_above_def split: if_splits)
    have held: "f < m_seq z" if "z \<in> set (db_messages (fst s))" "m_channel z = m_channel x" for z
      using ok f that by (auto simp: fences_hold_def)
    from set_upsert_message [OF y(1)] show "f < m_seq x"
      using above held y(2,3) f by fastforce
  qed (simp_all add: landed_def Let_def)
  then show ?thesis using ok by (simp add: apply_message_db)
qed

lemma fences_hold_tombstone: "fences_hold (fst s) \<Longrightarrow> fences_hold (fst (apply_tombstone t s))"
proof (cases t)
  fix i c q
  assume ok: "fences_hold (fst s)" and t: "t = (i, c, q)"
  have "fences_hold (buried i c q (fst s))" if lands: "message_may_land c q False (fst s)"
  proof (rule fences_hold_messages [OF ok])
    fix x f
    assume x: "x \<in> set (db_messages (buried i c q (fst s)))" and f: "fence_of (m_channel x) (fst s) = Some f"
    then obtain y where y: "y \<in> set (tombstone_rows i c q (db_messages (fst s)))"
      "m_channel y = m_channel x" "m_seq y = m_seq x"
      using same_but_quote_in [OF buried_rows x] by (auto simp: same_but_quote_def)
    have above: "f' < q" if "fence_of c (fst s) = Some f'" for f'
      using lands that not_at_or_below
      by (auto simp: message_may_land_def fenced_at_or_above_def split: if_splits)
    have held: "f < m_seq z" if "z \<in> set (db_messages (fst s))" "m_channel z = m_channel x" for z
      using ok f that by (auto simp: fences_hold_def)
    from set_tombstone_rows [OF y(1)] show "f < m_seq x"
      using above held y(2,3) f by fastforce
  qed (simp_all add: buried_def)
  then show ?thesis using ok t by (simp add: apply_tombstone_db)
qed

lemma fences_hold_user: "fences_hold (fst s) \<Longrightarrow> fences_hold (fst (apply_user u s))"
  by (simp add: fences_hold_def fence_of_def)

lemma fences_hold_apply_batch: "fences_hold db \<Longrightarrow> fences_hold (fst (apply_batch me b db))"
  by (rule apply_batch_invariant [where P = "\<lambda>s. fences_hold (fst s)"])
    (simp_all add: fences_hold_own fences_hold_removed fences_hold_channel fences_hold_member
      fences_hold_left fences_hold_user fences_hold_message fences_hold_tombstone)

end
