(* ===== verification/Apply_Content.thy ===== *)
theory Apply_Content
  imports Apply_Invariants
begin

text \<open>
  What \<open>apply\<close> keeps of the messages' content: the words of a deleted message survive in no
  quote, and every cached file belongs to a message the cache holds.
\<close>

section \<open>Deleted words\<close>

definition quote_body :: "json \<Rightarrow> json option" where
  "quote_body j = (case jget ''reply_to'' j of Some (JObj kvs) \<Rightarrow> map_of kvs ''body'' | _ \<Rightarrow> None)"

text \<open>The quote of \<open>t\<close> in \<open>x\<close>, if it has one and \<open>t\<close> is deleted, reads \<open>(deleted)\<close>.\<close>

definition quote_clean :: "message_row \<Rightarrow> message_row \<Rightarrow> bool" where
  "quote_clean x t \<longleftrightarrow> (quotes (m_id t) (m_json x) \<and> row_deleted (m_json t) \<longrightarrow>
     quote_body (m_json x) = Some (JStr ''(deleted)''))"

definition words_gone :: "cache_db \<Rightarrow> bool" where
  "words_gone db \<longleftrightarrow> (\<forall>x \<in> set (db_messages db). \<forall>t \<in> set (db_messages db). quote_clean x t)"

text \<open>
  What a server's row may say: it is marked \<open>deleted\<close> only together with a \<open>deleted_at\<close>.
\<close>

definition sent_row_ok :: "message_row \<Rightarrow> bool" where
  "sent_row_ok m \<longleftrightarrow> (row_deleted (m_json m) \<longrightarrow> sent_deleted (m_json m))"

lemma quote_body_jset_in_other:
  "l \<noteq> ''body'' \<Longrightarrow> quote_body (jset_in ''reply_to'' l v j) = quote_body j"
  by (cases j) (auto simp: quote_body_def jset_in_def map_of_assoc_put split: option.splits json.splits)

lemma quote_body_set:
  "type_is_object ''reply_to'' j \<Longrightarrow> quote_body (jset_in ''reply_to'' ''body'' v j) = Some v"
  by (cases j) (auto simp: quote_body_def jset_in_def type_is_object_def map_of_assoc_put
      split: option.splits json.splits)

lemma quote_body_quote_deleted:
  "type_is_object ''reply_to'' j \<Longrightarrow> quote_body (quote_deleted j) = Some (JStr ''(deleted)'')"
  by (simp add: quote_deleted_def quote_body_jset_in_other quote_body_set)

lemma quotes_same: "same_but_quote x y \<Longrightarrow> quotes t (m_json x) = quotes t (m_json y)"
  by (simp add: same_but_quote_def quotes_def extract_is_text_def)

lemma row_deleted_same: "same_but_quote x y \<Longrightarrow> row_deleted (m_json x) = row_deleted (m_json y)"
  by (simp add: same_but_quote_def row_deleted_def extract_is_one_def type_is_text_def)

text \<open>
  Refreshing the quotes of \<open>t\<close> cleans those of \<open>t\<close> and keeps the others; a refresh with a body
  touches only quotes of a message that is not deleted.
\<close>

lemma refresh_none_rows:
  assumes "y \<in> set (db_messages (refresh_excerpts i None db))"
  shows "\<exists>x \<in> set (db_messages db). same_but_quote x y \<and>
    (quotes i (m_json x) \<longrightarrow> quote_body (m_json y) = Some (JStr ''(deleted)'')) \<and>
    (\<not> quotes i (m_json x) \<longrightarrow> y = x)"
proof -
  from assms obtain x where "x \<in> set (db_messages db)"
    and "y = (if quotes i (m_json x) then x\<lparr>m_json := quote_deleted (m_json x)\<rparr> else x)"
    by (auto simp: refresh_excerpts_def)
  then show ?thesis
    by (intro bexI [of _ x]) (auto simp: same_but_quote_def quotes_def quote_body_quote_deleted)
qed

lemma refresh_some_rows:
  assumes "y \<in> set (db_messages (refresh_excerpts i (Some b) db))"
  shows "\<exists>x \<in> set (db_messages db). same_but_quote x y \<and> (\<not> quotes i (m_json x) \<longrightarrow> y = x)"
proof -
  from assms obtain x where "x \<in> set (db_messages db)"
    and "y = (if quotes i (m_json x)
      then x\<lparr>m_json := jset_in ''reply_to'' ''body'' (JStr (take_chars 140 b)) (m_json x)\<rparr> else x)"
    by (auto simp: refresh_excerpts_def Let_def)
  then show ?thesis by (intro bexI [of _ x]) (auto simp: same_but_quote_def)
qed

lemma quotes_unique: "quotes i j \<Longrightarrow> quotes i' j \<Longrightarrow> i = i'"
  by (simp add: quotes_def extract_is_text_def)

text \<open>All pairs are clean but those whose quoting row is \<open>e\<close> and those that quote \<open>q\<close>.\<close>

definition clean_but :: "string set \<Rightarrow> string set \<Rightarrow> message_row list \<Rightarrow> bool" where
  "clean_but E Q rows \<longleftrightarrow> (\<forall>x \<in> set rows. \<forall>t \<in> set rows.
     m_id x \<notin> E \<longrightarrow> m_id t \<notin> Q \<longrightarrow> quote_clean x t)"

lemma words_gone_clean: "words_gone db \<longleftrightarrow> clean_but {} {} (db_messages db)"
  by (simp add: words_gone_def clean_but_def)

lemma clean_refresh_none:
  assumes "clean_but E {i} (db_messages db)"
  shows "clean_but E {} (db_messages (refresh_excerpts i None db))"
  unfolding clean_but_def
proof (intro ballI impI)
  fix y u
  assume y: "y \<in> set (db_messages (refresh_excerpts i None db))"
    and u: "u \<in> set (db_messages (refresh_excerpts i None db))" and e: "m_id y \<notin> E"
  from y obtain x where x: "x \<in> set (db_messages db)" "same_but_quote x y"
    and dirty: "quotes i (m_json x) \<Longrightarrow> quote_body (m_json y) = Some (JStr ''(deleted)'')"
    and clean: "\<not> quotes i (m_json x) \<Longrightarrow> y = x"
    by (blast dest: refresh_none_rows)
  from u obtain t where t: "t \<in> set (db_messages db)" "same_but_quote t u"
    by (blast dest: refresh_none_rows)
  show "quote_clean y u"
  proof (cases "quotes i (m_json x)")
    case True
    then show ?thesis by (simp add: quote_clean_def dirty)
  next
    case False
    note yx = clean [OF False]
    have "quote_clean x t" if "m_id t \<noteq> i"
      using assms x t that e yx by (simp add: clean_but_def)
    then show ?thesis
      using False yx t(2) row_deleted_same [OF t(2)]
      by (auto simp: quote_clean_def same_but_quote_def)
  qed
qed

lemma clean_refresh_some:
  assumes "clean_but E {i} (db_messages db)"
    and alive: "\<And>t. t \<in> set (db_messages db) \<Longrightarrow> m_id t = i \<Longrightarrow> \<not> row_deleted (m_json t)"
  shows "clean_but E {} (db_messages (refresh_excerpts i (Some b) db))"
  unfolding clean_but_def
proof (intro ballI impI)
  fix y u
  assume y: "y \<in> set (db_messages (refresh_excerpts i (Some b) db))"
    and u: "u \<in> set (db_messages (refresh_excerpts i (Some b) db))" and e: "m_id y \<notin> E"
  from y obtain x where x: "x \<in> set (db_messages db)" "same_but_quote x y"
    and clean: "\<not> quotes i (m_json x) \<Longrightarrow> y = x"
    by (blast dest: refresh_some_rows)
  from u obtain t where t: "t \<in> set (db_messages db)" "same_but_quote t u"
    by (blast dest: refresh_some_rows)
  have same: "m_id u = m_id t" "row_deleted (m_json u) = row_deleted (m_json t)"
    using t(2) row_deleted_same [OF t(2)] by (auto simp: same_but_quote_def)
  show "quote_clean y u"
  proof (cases "m_id t = i")
    case True
    then show ?thesis using alive [OF t(1)] same by (simp add: quote_clean_def)
  next
    case False
    show ?thesis
    proof (cases "quotes i (m_json x)")
      case True
      then have "\<not> quotes (m_id u) (m_json y)"
        using False same quotes_unique quotes_same [OF x(2)] by metis
      then show ?thesis by (simp add: quote_clean_def)
    next
      case no: False
      then show ?thesis
        using assms(1) x(1) t(1) False e clean [OF no] same
        by (auto simp: clean_but_def quote_clean_def)
    qed
  qed
qed

lemma clean_alive:
  assumes "clean_but E {i} rows"
    and "\<And>t. t \<in> set rows \<Longrightarrow> m_id t = i \<Longrightarrow> \<not> row_deleted (m_json t)"
  shows "clean_but E {} rows"
  using assms by (auto simp: clean_but_def quote_clean_def)

lemma clean_mark:
  assumes "clean_but {i} {} (db_messages db)" and uniq: "rows_unique m_id (db_messages db)"
  shows "clean_but {} {} (db_messages (mark_deleted_target i db))"
  unfolding clean_but_def
proof (intro ballI impI)
  let ?p = "\<lambda>m. type_is_object ''reply_to'' (m_json m) \<and> target_deleted (m_json m) db"
  let ?f = "\<lambda>m. m\<lparr>m_json := quote_deleted (m_json m)\<rparr>"
  let ?rows = "fst (update_row m_id i ?p ?f (db_messages db))"
  fix y u
  assume y: "y \<in> set (db_messages (mark_deleted_target i db))"
    and u: "u \<in> set (db_messages (mark_deleted_target i db))"
  obtain t where t: "t \<in> set (db_messages db)" "same_but_quote t u"
    using same_but_quote_in [OF mark_deleted_target_rows u] by blast
  have same: "m_id u = m_id t" "row_deleted (m_json u) = row_deleted (m_json t)"
    using t(2) row_deleted_same [OF t(2)] by (auto simp: same_but_quote_def)
  have u1: "rows_unique m_id ?rows" using uniq by (simp add: keys_update_row)
  have sel: "sel m_id (m_id y) ?rows = Some y"
    using y u1 by (intro sel_unique) (simp_all add: mark_deleted_target_def)
  show "quote_clean y u"
  proof (cases "m_id y = i")
    case False
    with sel have "sel m_id (m_id y) (db_messages db) = Some y" by (simp add: sel_update_row)
    then have "y \<in> set (db_messages db)" by (auto dest: sel_Some_in)
    then show ?thesis
      using assms(1) t(1) False same by (auto simp: clean_but_def quote_clean_def)
  next
    case True
    with sel obtain x where x: "sel m_id i (db_messages db) = Some x" and yx: "y = (if ?p x then ?f x else x)"
      by (auto simp: sel_update_row)
    show ?thesis
    proof (cases "?p x")
      case True
      with yx show ?thesis by (simp add: quote_clean_def quote_body_quote_deleted)
    next
      case False
      with yx have "y = x" by auto
      moreover have "\<not> (quotes (m_id t) (m_json x) \<and> row_deleted (m_json t))"
        using False t(1) by (auto simp: quotes_def target_deleted_def list_ex_iff)
      ultimately show ?thesis using same by (auto simp: quote_clean_def)
    qed
  qed
qed

lemma upsert_message_other:
  "x \<in> set (fst (upsert_message m rows)) \<Longrightarrow> m_id x \<noteq> m_id m \<Longrightarrow> x \<in> set rows"
  by (auto simp: upsert_message_def dest!: set_upsert)

lemma upsert_message_own:
  assumes "rows_unique m_id rows" and "snd (upsert_message m rows)"
    and "x \<in> set (fst (upsert_message m rows))" and "m_id x = m_id m"
  shows "m_json x = m_json m"
proof -
  have "rows_unique m_id (fst (upsert_message m rows))"
    using assms(1) by (rule unique_upsert_message)
  then have "sel m_id (m_id m) (fst (upsert_message m rows)) = Some x"
    using assms(3,4) by (metis sel_unique)
  then show ?thesis
    using assms(2) by (auto simp: upsert_message_def sel_upsert upsert_changed split: option.splits)
qed

lemma words_gone_landed:
  assumes "words_gone db" and "keys_ok db" and "sent_row_ok m"
    and changed: "snd (upsert_message m (db_messages db))"
  shows "words_gone (landed h m db)"
proof -
  let ?rows = "fst (upsert_message m (db_messages db))"
  let ?d = "fst (index_message (m_id m) (m_channel m) (listed (m_json m)) (db\<lparr>db_messages := ?rows\<rparr>))"
  let ?b = "if sent_deleted (m_json m) then None else Some (sent_body (m_json m))"
  let ?e = "if sent_deleted (m_json m) \<or> \<not> h then refresh_excerpts (m_id m) ?b ?d else ?d"
  have uniq: "rows_unique m_id (db_messages db)" using assms(2) by (simp add: keys_ok_def)
  have d: "db_messages ?d = ?rows" by simp
  have "clean_but {m_id m} {m_id m} ?rows"
    using assms(1) upsert_message_other by (auto simp: words_gone_def clean_but_def)
  then have start: "clean_but {m_id m} {m_id m} (db_messages ?d)" by simp
  have alive: "\<not> row_deleted (m_json t)"
    if "t \<in> set (db_messages ?d)" "m_id t = m_id m" "\<not> sent_deleted (m_json m)" for t
    using upsert_message_own [OF uniq changed, of t] that assms(3) by (auto simp: sent_row_ok_def)
  have "clean_but {m_id m} {} (db_messages ?e)"
  proof (cases "sent_deleted (m_json m)")
    case True
    then show ?thesis using clean_refresh_none [OF start] by simp
  next
    case False
    then show ?thesis
      using clean_refresh_some [OF start] clean_alive [OF start] alive by auto
  qed
  moreover have "rows_unique m_id (db_messages ?e)"
    using unique_upsert_message [OF uniq, of m] same_but_quote_keys [OF refresh_excerpts_rows [of ?d "m_id m" ?b]]
    by simp
  ultimately have "clean_but {} {} (db_messages (mark_deleted_target (m_id m) ?e))"
    by (rule clean_mark)
  then show ?thesis by (simp add: words_gone_clean landed_def Let_def)
qed

lemma no_quote_tombstone_patch: "\<not> quotes t (tombstone_patch q j)"
proof -
  have "jget ''reply_to'' (tombstone_patch q j) = None"
    by (simp add: tombstone_patch_def jget_jremove)
  then show ?thesis by (simp add: quotes_def type_is_object_def)
qed

lemma no_quote_partial: "\<not> quotes t (partial_tombstone i c q)"
  by (simp add: quotes_def type_is_object_def partial_tombstone_def)

lemma words_gone_buried: "words_gone db \<Longrightarrow> words_gone (buried i c q db)"
proof -
  assume ok: "words_gone db"
  let ?d = "db\<lparr>db_messages := tombstone_rows i c q (db_messages db)\<rparr>"
  have "clean_but {} {i} (tombstone_rows i c q (db_messages db))"
    unfolding clean_but_def
  proof (intro ballI impI)
    fix x t
    assume x: "x \<in> set (tombstone_rows i c q (db_messages db))"
      and t: "t \<in> set (tombstone_rows i c q (db_messages db))" and "m_id t \<notin> {i}"
    then have t': "t \<in> set (db_messages db)" using set_tombstone_rows [OF t] by auto
    from set_tombstone_rows [OF x] show "quote_clean x t"
    proof (elim disjE)
      assume "x \<in> set (db_messages db)"
      then show ?thesis using ok t' by (simp add: words_gone_def)
    qed (auto simp: quote_clean_def no_quote_partial no_quote_tombstone_patch)
  qed
  then have "clean_but {} {} (db_messages (refresh_excerpts i None ?d))"
    by (intro clean_refresh_none) simp
  then show ?thesis by (simp add: words_gone_clean buried_def)
qed

lemma words_gone_subset:
  "words_gone db \<Longrightarrow> set (db_messages d) \<subseteq> set (db_messages db) \<Longrightarrow> words_gone d"
  by (auto simp: words_gone_def)

lemma words_gone_apply_batch:
  assumes "words_gone db" and "keys_ok db" and "\<And>m. m \<in> set (b_messages b) \<Longrightarrow> sent_row_ok m"
  shows "words_gone (fst (apply_batch me b db))"
proof -
  let ?P = "\<lambda>s :: apply_state. words_gone (fst s) \<and> keys_ok (fst s)"
  have "?P (apply_batch me b db)"
  proof (rule apply_batch_invariant [where P = ?P])
    fix r s assume "?P s"
    moreover from this have "words_gone (fst (apply_removed me r s))"
      by (auto simp: apply_removed_db fence_up_def elim: words_gone_subset)
    ultimately show "?P (apply_removed me r s)" by (simp add: keys_ok_steps)
  next
    fix m s assume "?P s" and "m \<in> set (b_messages b)"
    moreover from this have "words_gone (fst (apply_message (b_history b) (b_history_floors b) m s))"
      using assms(3) by (simp add: apply_message_db message_lands_def words_gone_landed)
    ultimately show "?P (apply_message (b_history b) (b_history_floors b) m s)"
      by (simp add: keys_ok_steps)
  next
    fix t s assume "?P s"
    moreover from this have "words_gone (fst (apply_tombstone t s))"
      by (cases t) (simp add: apply_tombstone_db words_gone_buried)
    ultimately show "?P (apply_tombstone t s)" by (simp add: keys_ok_steps)
  qed (insert assms(1,2), auto simp: keys_ok_steps words_gone_clean)
  then show ?thesis by simp
qed

section \<open>Files belong to messages\<close>

text \<open>
  A message never moves: \<open>home\<close> names the channel of each message id. Every indexed file then
  belongs to a stored message of its channel, and every cached file is indexed.
\<close>

definition files_owned :: "(string \<Rightarrow> string) \<Rightarrow> cache_db \<Rightarrow> bool" where
  "files_owned home db \<longleftrightarrow>
     (\<forall>x \<in> set (db_messages db). m_channel x = home (m_id x)) \<and>
     (\<forall>r \<in> set (db_message_files db). mf_channel r = home (mf_message r) \<and>
        mf_message r \<in> m_id ` set (db_messages db)) \<and>
     files_indexed db"

lemma same_but_quote_homes:
  assumes "list_all2 same_but_quote xs ys"
  shows "m_id ` set ys = m_id ` set xs"
    and "(\<forall>y \<in> set ys. m_channel y = home (m_id y)) \<longleftrightarrow> (\<forall>x \<in> set xs. m_channel x = home (m_id x))"
proof -
  show "m_id ` set ys = m_id ` set xs"
    using same_but_quote_keys [OF assms] by (metis list.set_map)
  show "(\<forall>y \<in> set ys. m_channel y = home (m_id y)) \<longleftrightarrow> (\<forall>x \<in> set xs. m_channel x = home (m_id x))"
    using assms by (induction rule: list_all2_induct) (auto simp: same_but_quote_def)
qed

lemma files_owned_cong [simp]:
  "files_owned home (fst (apply_own m s)) = files_owned home (fst s)"
  "files_owned home (fst (apply_channel c s)) = files_owned home (fst s)"
  "files_owned home (fst (apply_member m s)) = files_owned home (fst s)"
  "files_owned home (fst (apply_left l s)) = files_owned home (fst s)"
  "files_owned home (fst (apply_user u s)) = files_owned home (fst s)"
  by (simp_all add: files_owned_def files_indexed_def)

lemma files_owned_landed:
  assumes ok: "files_owned home db" and home: "m_channel m = home (m_id m)"
  shows "files_owned home (landed h m db)"
proof -
  let ?rows = "fst (upsert_message m (db_messages db))"
  let ?d = "fst (index_message (m_id m) (m_channel m) (listed (m_json m)) (db\<lparr>db_messages := ?rows\<rparr>))"
  have files: "db_message_files (landed h m db) = db_message_files ?d" "db_files (landed h m db) = db_files ?d"
    by (simp_all add: landed_def Let_def)
  have ids: "m_id ` set ?rows = insert (m_id m) (m_id ` set (db_messages db))"
    unfolding upsert_message_def by (simp add: keys_upsert)
  have "m_channel x = home (m_id x)" if "x \<in> set ?rows" for x
    using set_upsert_message [OF that] ok home by (auto simp: files_owned_def)
  moreover have "mf_channel r = home (mf_message r) \<and> mf_message r \<in> m_id ` set ?rows"
    if "r \<in> set (db_message_files ?d)" for r
    using index_message_entries [OF that] ok home ids by (auto simp: files_owned_def)
  moreover have "files_indexed ?d"
    using ok by (intro files_indexed_index_message) (simp add: files_owned_def files_indexed_def)
  ultimately show ?thesis
    using same_but_quote_homes [OF landed_rows [of m db h]] files
    unfolding files_owned_def files_indexed_def by simp
qed

lemma files_owned_buried:
  assumes ok: "files_owned home db" and home: "c = home i"
  shows "files_owned home (buried i c q db)"
proof -
  let ?rows = "tombstone_rows i c q (db_messages db)"
  have ids: "insert i (m_id ` set (db_messages db)) \<subseteq> m_id ` set ?rows"
  proof -
    let ?u = "update_row m_id i (\<lambda>x. m_seq x < q)
            (\<lambda>x. x\<lparr>m_seq := q, m_json := tombstone_patch q (m_json x)\<rparr>) (db_messages db)"
    have keys: "m_id ` set (fst ?u) = m_id ` set (db_messages db)"
      by (simp add: key_set_update_row)
    have "snd ?u \<Longrightarrow> i \<in> m_id ` set (db_messages db)"
      by (rule update_row_present)
    then show ?thesis
      by (cases "snd ?u") (simp_all add: tombstone_rows_def Let_def split_def keys)
  qed
  have "m_channel x = home (m_id x)" if "x \<in> set ?rows" for x
    using set_tombstone_rows [OF that] ok home by (auto simp: files_owned_def)
  moreover have "files_indexed (buried i c q db)"
    using ok unfolding buried_def
    by (intro files_indexed_drop_message) (simp add: files_owned_def files_indexed_def)
  moreover have "mf_channel r = home (mf_message r) \<and> mf_message r \<in> m_id ` set ?rows"
    if "r \<in> set (db_message_files (buried i c q db))" for r
    using that ok ids by (auto simp: buried_def files_owned_def)
  ultimately show ?thesis
    using same_but_quote_homes [OF buried_rows [of i c q db]]
    unfolding files_owned_def by simp
qed

lemma files_owned_removed:
  assumes "files_owned home db"
  shows "files_owned home (fst (remove_channel_rows c (fence_up r db)))"
proof -
  have "files_indexed (fst (drop_channel c (fence_up r db)))"
    using assms by (intro files_indexed_drop_channel) (simp add: files_owned_def files_indexed_def fence_up_def)
  then show ?thesis
    using assms by (auto simp: files_owned_def files_indexed_def fence_up_def)
qed

lemma files_owned_apply_batch:
  assumes "files_owned home db"
    and "\<And>m. m \<in> set (b_messages b) \<Longrightarrow> m_channel m = home (m_id m)"
    and "\<And>i c q. (i, c, q) \<in> set (b_tombstones b) \<Longrightarrow> c = home i"
  shows "files_owned home (fst (apply_batch me b db))"
proof (rule apply_batch_invariant [where P = "\<lambda>s. files_owned home (fst s)"])
  fix m and s :: apply_state assume "m \<in> set (b_messages b)" and "files_owned home (fst s)"
  then show "files_owned home (fst (apply_message (b_history b) (b_history_floors b) m s))"
    using assms(2) by (simp add: apply_message_db files_owned_landed)
next
  fix t and s :: apply_state assume "t \<in> set (b_tombstones b)" and "files_owned home (fst s)"
  then show "files_owned home (fst (apply_tombstone t s))"
  proof -
    obtain i c q where fields: "t = (i, c, q)" by (cases t)
    with assms(3) \<open>t \<in> set (b_tombstones b)\<close> have "c = home i" by blast
    with fields \<open>files_owned home (fst s)\<close> show ?thesis
      by (simp add: apply_tombstone_db files_owned_buried)
  qed
qed (simp_all add: assms apply_removed_db files_owned_removed files_owned_cong)

end
