(* ===== verification/Apply_Replay.thy ===== *)
theory Apply_Replay
  imports Apply_Content
begin

text \<open>
  Order and repetition: sequence numbers never go back, and applying a page a second time (the
  replay after a crash between a page and its cursor) changes nothing.
\<close>

section \<open>Departures through the guard\<close>

definition left_put ::
  "string \<times> string \<Rightarrow> int \<Rightarrow> unit \<Rightarrow> membership list \<Rightarrow> membership list" where
  "left_put k s v rows =
     db_memberships (fst (apply_left (fst k, snd k, s) (empty_cache\<lparr>db_memberships := rows\<rparr>, no_change)))"

lemma apply_left_rows:
  "db_memberships (fst (apply_left (c, u, q) s)) = left_put (c, u) q () (db_memberships (fst s))"
  by (cases s) (simp add: left_put_def apply_left_def Let_def split_def)

interpretation guarded_left: seq_guard members_seq left_put
proof unfold_locales
  have put: "left_put (c, u) q () rows =
      (let r = update_row mb_key (c, u) (\<lambda>x. mb_seq x < q) (\<lambda>x. x\<lparr>mb_left := True, mb_seq := q\<rparr>) rows
       in if snd r then fst r else insert_new mb_key
            \<lparr>mb_channel = c, mb_user = u, mb_seq = q, mb_json = JNull, mb_left = True\<rparr> (fst r))"
    for c u q rows
    by (simp add: left_put_def apply_left_def Let_def split_def empty_cache_def)
  show "members_seq k' (left_put k s v t) =
      (if k' = k then Some (case members_seq k t of None \<Rightarrow> s | Some s' \<Rightarrow> max s s')
       else members_seq k' t)" for k' k s v t
    by (cases k) (auto simp: put Let_def members_seq_def sel_update_row update_row_changed
        sel_insert_new mb_key_def max_def split: option.splits)
  show "left_put k s v t = t" if "members_seq k t = Some s'" "s \<le> s'" for k s v t s'
  proof (cases k)
    case (Pair c u)
    from that(1) obtain x where x: "sel mb_key (c, u) t = Some x" "mb_seq x = s'"
      by (auto simp: members_seq_def Pair)
    then have "\<not> snd (update_row mb_key (c, u) (\<lambda>x. mb_seq x < s)
        (\<lambda>x. x\<lparr>mb_left := True, mb_seq := s\<rparr>) t)"
      using that(2) by (simp add: update_row_changed)
    moreover have "(c, u) \<in> mb_key ` set t" using x(1) by (rule sel_in_keys)
    ultimately show ?thesis
      by (simp add: Pair put Let_def update_row_unchanged insert_new_present mb_key_def)
  qed
qed

section \<open>What each step does to the stored numbers\<close>

lemma members_offer:
  "fst (upsert_membership m rows) =
     members_put (mb_channel m, mb_user m) (mb_seq m) (mb_json m) rows"
  by (cases m) (simp add: members_put_def)

lemma rows_offer: "fst (guarded_upsert c rows) = rows_put (r_id c) (r_seq c) (r_json c) rows"
  by (cases c) (simp add: rows_put_def)

lemma apply_user_rows:
  "db_users (fst (apply_user u s)) = rows_put (r_id u) (r_seq u) (r_json u) (db_users (fst s))"
proof (cases s)
  case (Pair db a)
  have "\<not> snd (guarded_upsert u (db_users db)) \<Longrightarrow> fst (guarded_upsert u (db_users db)) = db_users db"
    unfolding guarded_upsert_def by (rule upsert_unchanged)
  then show ?thesis by (auto simp: Pair apply_user_def Let_def split_def rows_offer [symmetric])
qed

lemma apply_channel_rows:
  "db_channels (fst (apply_channel c s)) =
     (if fenced_at_or_above (r_id c) (r_seq c) (fst s) then db_channels (fst s)
      else rows_put (r_id c) (r_seq c) (r_json c) (db_channels (fst s)))"
proof (cases s)
  case (Pair db a)
  have "\<not> snd (guarded_upsert c (db_channels db)) \<Longrightarrow>
      fst (guarded_upsert c (db_channels db)) = db_channels db"
    unfolding guarded_upsert_def by (rule upsert_unchanged)
  then show ?thesis by (auto simp: Pair apply_channel_def Let_def split_def rows_offer [symmetric])
qed

lemma apply_member_rows:
  "db_memberships (fst (apply_member m s)) =
     (if fenced_at_or_above (mb_channel m) (mb_seq m) (fst s) then db_memberships (fst s)
      else members_put (mb_channel m, mb_user m) (mb_seq m) (mb_json m) (db_memberships (fst s)))"
proof (cases s)
  case (Pair db a)
  have "\<not> snd (upsert_membership m (db_memberships db)) \<Longrightarrow>
      fst (upsert_membership m (db_memberships db)) = db_memberships db"
    unfolding upsert_membership_def by (rule upsert_unchanged)
  then show ?thesis by (auto simp: Pair apply_member_def Let_def split_def members_offer [symmetric])
qed

lemma upsert_membership_unchanged:
  "\<not> snd (upsert_membership m rows) \<Longrightarrow> fst (upsert_membership m rows) = rows"
  unfolding upsert_membership_def by (rule upsert_unchanged)

lemma apply_own_rows:
  "db_memberships (fst (apply_own m s)) =
     (if at_or_below (mb_seq m) (fence_of (mb_channel m) (fst s)) then db_memberships (fst s)
      else members_put (mb_channel m, mb_user m) (mb_seq m) (mb_json m) (db_memberships (fst s)))"
  using upsert_membership_unchanged [of m "db_memberships (fst s)"]
  by (cases s) (auto simp: apply_own_def Let_def split_def members_offer [symmetric])

lemma fence_of_apply_own:
  "fence_of c (fst (apply_own m s)) =
     (if c = mb_channel m \<and> \<not> at_or_below (mb_seq m) (fence_of c (fst s)) \<and>
         snd (upsert_membership m (db_memberships (fst s)))
      then None else fence_of c (fst s))"
  by (cases s) (auto simp: apply_own_def Let_def split_def fence_of_def sel_update_row
      split: option.splits)

lemma floor_of_apply_own [simp]: "floor_of c (fst (apply_own m s)) = floor_of c (fst s)"
  by (cases s) (auto simp: apply_own_def Let_def split_def floor_of_def sel_update_row
      option.map_comp comp_def split: option.splits)

lemma fence_le_floor: "fence_of c db = Some f \<Longrightarrow> floor_of c db = Some f"
  by (auto simp: fence_of_def floor_of_def split: option.splits if_splits)

lemma upsert_membership_changed:
  "snd (upsert_membership m rows) \<longleftrightarrow>
     (case members_seq (mb_channel m, mb_user m) rows of None \<Rightarrow> True | Some q \<Rightarrow> q < mb_seq m)"
  by (auto simp: upsert_membership_def upsert_changed members_seq_def mb_key_def split: option.splits)

section \<open>Numbers never go back\<close>

text \<open>
  Against an earlier state: every stored number is kept or raised, unless its channel was removed
  meanwhile.
\<close>

definition message_seq :: "string \<Rightarrow> cache_db \<Rightarrow> (string \<times> int) option" where
  "message_seq i db = map_option (\<lambda>x. (m_channel x, m_seq x)) (sel m_id i (db_messages db))"

definition numbers_kept :: "cache_db \<Rightarrow> apply_state \<Rightarrow> bool" where
  "numbers_kept db0 s \<longleftrightarrow>
     (\<forall>k q. rows_seq k (db_users db0) = Some q \<longrightarrow>
        (\<exists>q'\<ge>q. rows_seq k (db_users (fst s)) = Some q')) \<and>
     (\<forall>c q. rows_seq c (db_channels db0) = Some q \<longrightarrow>
        c \<in> a_removed (snd s) \<or> (\<exists>q'\<ge>q. rows_seq c (db_channels (fst s)) = Some q')) \<and>
     (\<forall>c u q. members_seq (c, u) (db_memberships db0) = Some q \<longrightarrow>
        c \<in> a_removed (snd s) \<or> (\<exists>q'\<ge>q. members_seq (c, u) (db_memberships (fst s)) = Some q')) \<and>
     (\<forall>i c q. message_seq i db0 = Some (c, q) \<longrightarrow>
        c \<in> a_removed (snd s) \<or> (\<exists>q'\<ge>q. message_seq i (fst s) = Some (c, q'))) \<and>
     (\<forall>c f. floor_of c db0 = Some f \<longrightarrow> (\<exists>f'\<ge>f. floor_of c (fst s) = Some f'))"

lemma message_seq_cong: "db_messages d = db_messages d' \<Longrightarrow> message_seq i d = message_seq i d'"
  by (simp add: message_seq_def)

lemma floor_of_cong: "db_removed d = db_removed d' \<Longrightarrow> floor_of i d = floor_of i d'"
  by (simp add: floor_of_def)

lemma numbers_kept_refl: "numbers_kept db (db, a)"
  unfolding numbers_kept_def by auto

lemma numbers_kept_step:
  assumes "numbers_kept db0 s" and "a_removed (snd s) \<subseteq> a_removed (snd s')"
    and "\<And>k q. rows_seq k (db_users (fst s)) = Some q \<Longrightarrow> \<exists>q'\<ge>q. rows_seq k (db_users (fst s')) = Some q'"
    and "\<And>k q. rows_seq k (db_channels (fst s)) = Some q \<Longrightarrow>
      k \<in> a_removed (snd s') \<or> (\<exists>q'\<ge>q. rows_seq k (db_channels (fst s')) = Some q')"
    and "\<And>c u q. members_seq (c, u) (db_memberships (fst s)) = Some q \<Longrightarrow>
      c \<in> a_removed (snd s') \<or> (\<exists>q'\<ge>q. members_seq (c, u) (db_memberships (fst s')) = Some q')"
    and "\<And>i c q. message_seq i (fst s) = Some (c, q) \<Longrightarrow>
      c \<in> a_removed (snd s') \<or> (\<exists>q'\<ge>q. message_seq i (fst s') = Some (c, q'))"
    and "\<And>c f. floor_of c (fst s) = Some f \<Longrightarrow> \<exists>f'\<ge>f. floor_of c (fst s') = Some f'"
  shows "numbers_kept db0 s'"
proof -
  have users: "\<exists>q'\<ge>q. rows_seq k (db_users (fst s')) = Some q'" if "rows_seq k (db_users db0) = Some q" for k q
    using assms(1) that assms(3) unfolding numbers_kept_def by (meson order_trans)
  have chans: "c \<in> a_removed (snd s') \<or> (\<exists>q'\<ge>q. rows_seq c (db_channels (fst s')) = Some q')"
    if "rows_seq c (db_channels db0) = Some q" for c q
    using assms(1,2) that assms(4) unfolding numbers_kept_def by (meson order_trans subsetD)
  have mems: "c \<in> a_removed (snd s') \<or> (\<exists>q'\<ge>q. members_seq (c, u) (db_memberships (fst s')) = Some q')"
    if "members_seq (c, u) (db_memberships db0) = Some q" for c u q
    using assms(1,2) that assms(5) unfolding numbers_kept_def by (meson order_trans subsetD)
  have msgs: "c \<in> a_removed (snd s') \<or> (\<exists>q'\<ge>q. message_seq i (fst s') = Some (c, q'))"
    if "message_seq i db0 = Some (c, q)" for i c q
    using assms(1,2) that assms(6) unfolding numbers_kept_def by (meson order_trans subsetD)
  have floors: "\<exists>f'\<ge>f. floor_of c (fst s') = Some f'" if "floor_of c db0 = Some f" for c f
    using assms(1) that assms(7) unfolding numbers_kept_def by (meson order_trans)
  show ?thesis unfolding numbers_kept_def using users chans mems msgs floors by blast
qed

lemma message_seq_same:
  assumes "list_all2 same_but_quote rows (db_messages d)"
  shows "message_seq i d = map_option (\<lambda>x. (m_channel x, m_seq x)) (sel m_id i rows)"
  using same_but_quote_sel [OF assms, of i]
  by (cases "sel m_id i rows"; cases "sel m_id i (db_messages d)")
     (auto simp: message_seq_def same_but_quote_def)

lemma numbers_kept_message:
  assumes "numbers_kept db0 s"
  shows "numbers_kept db0 (apply_message h fl m s)"
proof (rule numbers_kept_step [OF assms])
  fix i c q
  assume i: "message_seq i (fst s) = Some (c, q)"
  have "\<exists>q'\<ge>q. message_seq i (landed h m (fst s)) = Some (c, q')"
    using i unfolding message_seq_same [OF landed_rows]
    by (auto simp: message_seq_def upsert_message_def sel_upsert replaces_def split: option.splits)
  then show "c \<in> a_removed (snd (apply_message h fl m s)) \<or>
      (\<exists>q'\<ge>q. message_seq i (fst (apply_message h fl m s)) = Some (c, q'))"
    using i by (simp add: apply_message_db)
qed (auto simp: floor_of_cong [OF apply_message_frame(3)])

lemma buried_frame [simp]:
  "db_channels (buried i c q db) = db_channels db" "db_users (buried i c q db) = db_users db"
  "db_memberships (buried i c q db) = db_memberships db" "db_removed (buried i c q db) = db_removed db"
  by (simp_all add: buried_def)

lemma numbers_kept_tombstone:
  assumes "numbers_kept db0 s"
  shows "numbers_kept db0 (apply_tombstone t s)"
proof -
  obtain i c0 q0 where t: "t = (i, c0, q0)" by (cases t)
  have rows: "\<exists>q'\<ge>q. \<exists>y. sel m_id k (tombstone_rows i c0 q0 rows) = Some y \<and> m_channel y = c \<and> m_seq y = q'"
    if z: "sel m_id k rows = Some z" "m_channel z = c" "m_seq z = q" for k c q z and rows
    using z by (cases "k = i")
      (auto simp: tombstone_rows_def Let_def split_def sel_insert_new sel_update_row update_row_changed)
  have kept: "\<exists>q'\<ge>q. message_seq k (buried i c0 q0 (fst s)) = Some (c, q')"
    if k: "message_seq k (fst s) = Some (c, q)" for k c q
  proof -
    from k obtain z where "sel m_id k (db_messages (fst s)) = Some z" "m_channel z = c" "m_seq z = q"
      by (auto simp: message_seq_def)
    from rows [OF this] show ?thesis
      unfolding message_seq_same [OF buried_rows] by auto
  qed
  show ?thesis
    by (rule numbers_kept_step [OF assms])
      (use kept in \<open>auto simp: t apply_tombstone_db floor_of_def\<close>)
qed

lemma seq_kept_put:
  assumes "seq_guard sq pt" and "sq k t = Some q"
  shows "\<exists>q'\<ge>q. sq k (pt k' s v t) = Some q'"
  using assms(2) seq_guard.seq_put [OF assms(1), of k k' s v t] by auto

lemmas members_kept_put = seq_kept_put [OF guarded_members.seq_guard_axioms]
  and rows_kept_put = seq_kept_put [OF guarded_rows.seq_guard_axioms]
  and left_kept_put = seq_kept_put [OF guarded_left.seq_guard_axioms]

lemma sel_filter_kept: "sel key k rows = Some x \<Longrightarrow> p x \<Longrightarrow> sel key k (filter p rows) = Some x"
  by (induction rows) (auto split: if_splits)

lemma numbers_kept_removed:
  assumes "numbers_kept db0 s"
  shows "numbers_kept db0 (apply_removed me r s)"
proof (rule numbers_kept_step [OF assms])
  let ?s = "apply_removed me r s"
  show "a_removed (snd s) \<subseteq> a_removed (snd ?s)" by (auto simp: apply_removed_removed)
  show "k \<in> a_removed (snd ?s) \<or> (\<exists>q'\<ge>q. rows_seq k (db_channels (fst ?s)) = Some q')"
    if "rows_seq k (db_channels (fst s)) = Some q" for k q
    using that by (cases "k = fst r")
      (auto simp: apply_removed_db apply_removed_removed fence_up_def rows_seq_def sel_filter)
  show "c \<in> a_removed (snd ?s) \<or> (\<exists>q'\<ge>q. members_seq (c, u) (db_memberships (fst ?s)) = Some q')"
    if "members_seq (c, u) (db_memberships (fst s)) = Some q" for c u q
  proof (cases "c = fst r \<and> removal_applies me r (fst s)")
    case False
    have "sel mb_key (c, u) (filter (\<lambda>m. mb_channel m \<noteq> fst r) rows) = sel mb_key (c, u) rows"
      if "c \<noteq> fst r" for rows :: "membership list"
      by (rule sel_filter) (use that in \<open>auto simp: mb_key_def\<close>)
    with that False show ?thesis by (auto simp: apply_removed_db fence_up_def members_seq_def)
  qed (simp add: apply_removed_removed)
  show "c \<in> a_removed (snd ?s) \<or> (\<exists>q'\<ge>q. message_seq i (fst ?s) = Some (c, q'))"
    if i: "message_seq i (fst s) = Some (c, q)" for i c q
  proof (cases "c = fst r \<and> removal_applies me r (fst s)")
    case False
    then have "\<not> removal_applies me r (fst s) \<or> c \<noteq> fst r" by blast
    with i show ?thesis
      using sel_filter_kept [of m_id i "db_messages (fst s)" _ "\<lambda>m. m_channel m \<noteq> fst r"]
      by (cases "removal_applies me r (fst s)") (auto simp: apply_removed_db fence_up_def message_seq_def)
  qed (simp add: apply_removed_removed)
  show "\<exists>f'\<ge>f. floor_of c (fst ?s) = Some f'" if "floor_of c (fst s) = Some f" for c f
    using that
    by (auto simp: apply_removed_db floor_of_def fence_up_def sel_upsert removal_applies_def
        at_or_below_def split: option.splits)
qed simp

lemma numbers_kept_apply_batch: "numbers_kept db (apply_batch me b db)"
proof (rule apply_batch_invariant [where P = "numbers_kept db"])
  show "numbers_kept db (apply_own m s)" if "numbers_kept db s" for m and s :: apply_state
    by (rule numbers_kept_step [OF that])
      (auto simp: apply_own_rows message_seq_cong [OF apply_own_frame(5)] intro: members_kept_put)
  show "numbers_kept db (apply_channel c s)" if "numbers_kept db s" for c and s :: apply_state
    by (rule numbers_kept_step [OF that])
      (auto simp: apply_channel_rows message_seq_cong [OF apply_channel_frame(6)]
        floor_of_cong [OF apply_channel_frame(3)] intro: rows_kept_put)
  show "numbers_kept db (apply_member m s)" if "numbers_kept db s" for m and s :: apply_state
    by (rule numbers_kept_step [OF that])
      (auto simp: apply_member_rows message_seq_cong [OF apply_member_frame(6)]
        floor_of_cong [OF apply_member_frame(3)] intro: members_kept_put)
  show "numbers_kept db (apply_left l s)" if "numbers_kept db s" for l and s :: apply_state
    by (cases l, rule numbers_kept_step [OF that])
      (auto simp: apply_left_rows message_seq_cong [OF apply_left_frame(6)]
        floor_of_cong [OF apply_left_frame(3)] intro: left_kept_put)
  show "numbers_kept db (apply_user u s)" if "numbers_kept db s" for u and s :: apply_state
    by (rule numbers_kept_step [OF that])
      (auto simp: apply_user_rows message_seq_cong [OF apply_user_frame(6)]
        floor_of_cong [OF apply_user_frame(3)] intro: rows_kept_put)
qed (auto intro: numbers_kept_refl numbers_kept_removed numbers_kept_message numbers_kept_tombstone)

section \<open>Replaying a page\<close>

text \<open>The caller's own membership rows are never departures.\<close>

definition own_active :: "string \<Rightarrow> cache_db \<Rightarrow> bool" where
  "own_active me db \<longleftrightarrow> (\<forall>x \<in> set (db_memberships db). mb_user x = me \<longrightarrow> \<not> mb_left x)"

text \<open>
  A \<open>/sync\<close> page: no live delete, no history, no departure of the caller, and no row carrying
  the cache's private \<open>_partial\<close> mark.
\<close>

definition sync_page :: "string \<Rightarrow> batch \<Rightarrow> bool" where
  "sync_page me b \<longleftrightarrow> b_tombstones b = [] \<and> \<not> b_history b \<and>
     (\<forall>l \<in> set (b_left b). fst (snd l) \<noteq> me) \<and>
     (\<forall>m \<in> set (b_messages b). \<not> extract_is_one ''_partial'' (m_json m))"

text \<open>When each kind of row has nothing left to do.\<close>

definition own_settled :: "member_row \<Rightarrow> cache_db \<Rightarrow> bool" where
  "own_settled m db \<longleftrightarrow> at_or_below (mb_seq m) (fence_of (mb_channel m) db) \<or>
     at_or_below (mb_seq m) (members_seq (mb_channel m, mb_user m) (db_memberships db))"

definition removed_settled :: "string \<Rightarrow> string \<times> int \<Rightarrow> cache_db \<Rightarrow> bool" where
  "removed_settled me r db \<longleftrightarrow> \<not> removal_applies me r db"

definition channel_settled :: "row \<Rightarrow> cache_db \<Rightarrow> bool" where
  "channel_settled c db \<longleftrightarrow> fenced_at_or_above (r_id c) (r_seq c) db \<or>
     at_or_below (r_seq c) (rows_seq (r_id c) (db_channels db))"

definition member_settled :: "member_row \<Rightarrow> cache_db \<Rightarrow> bool" where
  "member_settled m db \<longleftrightarrow> fenced_at_or_above (mb_channel m) (mb_seq m) db \<or>
     at_or_below (mb_seq m) (members_seq (mb_channel m, mb_user m) (db_memberships db))"

definition left_settled :: "string \<times> string \<times> int \<Rightarrow> cache_db \<Rightarrow> bool" where
  "left_settled l db \<longleftrightarrow> at_or_below (snd (snd l)) (members_seq (fst l, fst (snd l)) (db_memberships db))"

definition user_settled :: "row \<Rightarrow> cache_db \<Rightarrow> bool" where
  "user_settled u db \<longleftrightarrow> at_or_below (r_seq u) (rows_seq (r_id u) (db_users db))"

definition message_settled :: "message_row \<Rightarrow> cache_db \<Rightarrow> bool" where
  "message_settled m db \<longleftrightarrow> \<not> message_may_land (m_channel m) (m_seq m) False db \<or>
     \<not> snd (upsert_message m (db_messages db))"

lemma own_settled_noop: "own_settled m (fst s) \<Longrightarrow> apply_own m s = s"
  by (cases s) (auto simp: own_settled_def apply_own_def Let_def split_def upsert_membership_changed
      at_or_below_def split: option.splits)

lemma removed_settled_noop: "removed_settled me r (fst s) \<Longrightarrow> fst (apply_removed me r s) = fst s"
  by (simp add: removed_settled_def apply_removed_db)

lemma guarded_upsert_changed:
  "snd (guarded_upsert c rows) \<longleftrightarrow>
     (case rows_seq (r_id c) rows of None \<Rightarrow> True | Some q \<Rightarrow> q < r_seq c)"
  by (auto simp: guarded_upsert_def upsert_changed rows_seq_def split: option.splits)

lemma channel_settled_noop: "channel_settled c (fst s) \<Longrightarrow> apply_channel c s = s"
  by (cases s) (auto simp: channel_settled_def apply_channel_def Let_def split_def
      guarded_upsert_changed at_or_below_def split: option.splits)

lemma user_settled_noop: "user_settled c (fst s) \<Longrightarrow> apply_user c s = s"
  by (cases s) (auto simp: user_settled_def apply_user_def Let_def split_def
      guarded_upsert_changed at_or_below_def split: option.splits)

lemma member_settled_noop: "member_settled m (fst s) \<Longrightarrow> apply_member m s = s"
  by (cases s) (auto simp: member_settled_def apply_member_def Let_def split_def
      upsert_membership_changed at_or_below_def split: option.splits)

lemma left_settled_noop: "left_settled l (fst s) \<Longrightarrow> fst (apply_left l s) = fst s"
proof -
  obtain c u q where l: "l = (c, u, q)" by (cases l)
  assume "left_settled l (fst s)"
  then obtain q' where "members_seq (c, u) (db_memberships (fst s)) = Some q'" "q \<le> q'"
    by (auto simp: left_settled_def l at_or_below_def split: option.splits)
  then have "db_memberships (fst (apply_left l s)) = db_memberships (fst s)"
    by (simp add: l apply_left_rows guarded_left.put_stale)
  then show ?thesis by (intro cache_db.equality) simp_all
qed

lemma message_settled_noop:
  "message_settled m (fst s) \<Longrightarrow> fst (apply_message False fl m s) = fst s"
  by (auto simp: message_settled_def apply_message_db message_lands_def)

subsection \<open>Every step settles its row and unsettles none\<close>

lemma at_or_below_mono:
  "at_or_below q f \<Longrightarrow> (\<And>x. f = Some x \<Longrightarrow> \<exists>y\<ge>x. g = Some y) \<Longrightarrow> at_or_below q g"
  by (fastforce simp: at_or_below_def split: option.splits)

lemma members_put_settles: "at_or_below q (members_seq k (members_put k q v t))"
  by (auto simp: at_or_below_def guarded_members.seq_put split: option.splits)

lemma own_step_settles: "own_settled m (fst (apply_own m s))"
  by (auto simp: own_settled_def apply_own_rows members_put_settles fence_of_apply_own)

lemma own_step_keeps:
  assumes "own_settled m (fst s)" and "mb_user m = me" "mb_user m' = me"
  shows "own_settled m (fst (apply_own m' s))"
proof (cases "at_or_below (mb_seq m) (fence_of (mb_channel m) (fst s))")
  case True
  then show ?thesis
    using assms(2,3) members_put_settles [of "mb_seq m'" "(mb_channel m', mb_user m')" "mb_json m'"
        "db_memberships (fst s)"]
    by (auto simp: own_settled_def fence_of_apply_own apply_own_rows at_or_below_def split: option.splits)
next
  case False
  with assms(1) have "at_or_below (mb_seq m) (members_seq (mb_channel m, mb_user m) (db_memberships (fst s)))"
    by (simp add: own_settled_def)
  then have "at_or_below (mb_seq m)
      (members_seq (mb_channel m, mb_user m) (db_memberships (fst (apply_own m' s))))"
    by (rule at_or_below_mono) (auto simp: apply_own_rows intro: members_kept_put)
  then show ?thesis by (simp add: own_settled_def)
qed

lemma own_active_step: "own_active me (fst s) \<Longrightarrow> own_active me (fst (apply_own m s))"
  by (auto simp: own_active_def apply_own_rows members_put_def upsert_membership_def
      dest!: set_upsert)

lemma own_active_removed: "own_active me (fst s) \<Longrightarrow> own_active me (fst (apply_removed me r s))"
  by (auto simp: own_active_def apply_removed_db fence_up_def)

lemma own_seq_active:
  "own_active me db \<Longrightarrow> own_seq me c db = members_seq (c, me) (db_memberships db)"
  by (auto simp: own_active_def own_seq_def members_seq_def mb_key_def split: option.splits
      dest!: sel_Some_in)

lemma floor_fence_up: "floor_of c (fence_up r db) = (if c = fst r then Some (snd r) else floor_of c db)"
  by (auto simp: fence_up_def floor_of_def sel_upsert split: option.splits)

lemma fence_fence_up: "fence_of c (fence_up r db) = (if c = fst r then Some (snd r) else fence_of c db)"
  by (auto simp: fence_up_def fence_of_def sel_upsert split: option.splits)

lemma fence_up_memberships [simp]: "db_memberships (fence_up r db) = db_memberships db"
  by (simp add: fence_up_def)

lemma members_filter:
  "members_seq (c, u) (filter (\<lambda>m. mb_channel m \<noteq> d) rows) =
     (if c = d then None else members_seq (c, u) rows)"
proof (cases "c = d")
  case True
  then have "sel mb_key (c, u) (filter (\<lambda>m. mb_channel m \<noteq> d) rows) = None"
    by (intro sel_filter_out) (auto simp: mb_key_def)
  with True show ?thesis by (simp add: members_seq_def)
next
  case False
  then have "sel mb_key (c, u) (filter (\<lambda>m. mb_channel m \<noteq> d) rows) = sel mb_key (c, u) rows"
    by (intro sel_filter) (auto simp: mb_key_def)
  with False show ?thesis by (simp add: members_seq_def)
qed

lemma floor_of_removed_rows [simp]: "floor_of c (fst (remove_channel_rows d db)) = floor_of c db"
  and fence_of_removed_rows [simp]: "fence_of c (fst (remove_channel_rows d db)) = fence_of c db"
  by (simp_all add: floor_of_def fence_of_def)

lemma removed_step_settles: "removed_settled me r (fst (apply_removed me r s))"
  by (auto simp: removed_settled_def apply_removed_db removal_applies_def floor_fence_up at_or_below_def)

lemma removed_step_keeps:
  assumes "own_active me (fst s)" and "removed_settled me r (fst s)"
  shows "removed_settled me r (fst (apply_removed me r' s))"
proof (cases "removal_applies me r' (fst s)")
  case True
  have "own_active me (fst (apply_removed me r' s))" using assms(1) by (rule own_active_removed)
  then show ?thesis
    using True assms
    by (auto simp: removed_settled_def apply_removed_db removal_applies_def floor_fence_up own_seq_active
        members_filter at_or_below_def split: option.splits if_splits)
qed (use assms in \<open>simp add: apply_removed_db\<close>)

lemma removed_keeps_own:
  assumes "own_active me (fst s)" and "own_settled m (fst s)" and "mb_user m = me"
  shows "own_settled m (fst (apply_removed me r s))"
proof (cases "removal_applies me r (fst s)")
  case True
  show ?thesis
  proof (cases "mb_channel m = fst r")
    case same: True
    have "at_or_below (mb_seq m) (Some (snd r))"
      using True assms fence_le_floor [of "fst r" "fst s"] same
      by (auto simp: own_settled_def removal_applies_def own_seq_active at_or_below_def split: option.splits)
    with True same show ?thesis
      by (simp add: own_settled_def apply_removed_db fence_fence_up)
  next
    case False
    then show ?thesis
      using True assms(2) by (auto simp: own_settled_def apply_removed_db fence_fence_up members_filter)
  qed
qed (use assms in \<open>simp add: apply_removed_db\<close>)

lemma removed_cong:
  "db_removed d = db_removed d' \<Longrightarrow> fence_of c d = fence_of c d' \<and> floor_of c d = floor_of c d'"
  by (simp add: fence_of_def floor_of_def)

lemma channel_step_settles: "channel_settled c (fst (apply_channel c s))"
proof -
  have "fence_of (r_id c) (fst (apply_channel c s)) = fence_of (r_id c) (fst s)"
    using removed_cong [OF apply_channel_frame(3)] by blast
  then show ?thesis
    by (auto simp: channel_settled_def apply_channel_rows fenced_at_or_above_def guarded_rows.seq_put
        at_or_below_def split: option.splits)
qed

lemma channel_step_keeps:
  assumes "channel_settled c (fst s)"
  shows "channel_settled c (fst (apply_channel c' s))"
proof (cases "fenced_at_or_above (r_id c) (r_seq c) (fst s)")
  case True
  with removed_cong [OF apply_channel_frame(3), of "r_id c" c' s] show ?thesis
    by (simp add: channel_settled_def fenced_at_or_above_def)
next
  case False
  with assms have "at_or_below (r_seq c) (rows_seq (r_id c) (db_channels (fst s)))"
    by (simp add: channel_settled_def)
  then have "at_or_below (r_seq c) (rows_seq (r_id c) (db_channels (fst (apply_channel c' s))))"
    by (rule at_or_below_mono) (auto simp: apply_channel_rows intro: rows_kept_put)
  then show ?thesis by (simp add: channel_settled_def)
qed

lemma member_step_settles: "member_settled m (fst (apply_member m s))"
  unfolding member_settled_def fenced_at_or_above_def
  using removed_cong [OF apply_member_frame(3), of "mb_channel m" m s]
  by (auto simp: apply_member_rows members_put_settles fenced_at_or_above_def)

lemma member_kept:
  assumes "member_settled m d" and "db_removed d' = db_removed d"
    and "\<And>q. members_seq (mb_channel m, mb_user m) (db_memberships d) = Some q \<Longrightarrow>
      \<exists>q'\<ge>q. members_seq (mb_channel m, mb_user m) (db_memberships d') = Some q'"
  shows "member_settled m d'"
proof (cases "fenced_at_or_above (mb_channel m) (mb_seq m) d")
  case True
  with removed_cong [OF assms(2)] show ?thesis by (simp add: member_settled_def fenced_at_or_above_def)
next
  case False
  with assms(1) have "at_or_below (mb_seq m) (members_seq (mb_channel m, mb_user m) (db_memberships d))"
    by (simp add: member_settled_def)
  from at_or_below_mono [OF this assms(3)] show ?thesis by (simp add: member_settled_def)
qed

lemma member_step_keeps: "member_settled m (fst s) \<Longrightarrow> member_settled m (fst (apply_member m' s))"
  by (erule member_kept) (auto simp: apply_member_rows intro: members_kept_put)

lemma left_keeps_member: "member_settled m (fst s) \<Longrightarrow> member_settled m (fst (apply_left l s))"
  by (cases l, erule member_kept) (auto simp: apply_left_rows intro: left_kept_put)

lemma left_step_settles: "left_settled l (fst (apply_left l s))"
  by (cases l) (auto simp: left_settled_def apply_left_rows guarded_left.seq_put at_or_below_def
      split: option.splits)

lemma left_step_keeps: "left_settled l (fst s) \<Longrightarrow> left_settled l (fst (apply_left l' s))"
  unfolding left_settled_def
  by (erule at_or_below_mono, cases l') (auto simp: apply_left_rows intro: left_kept_put)

lemma user_step_settles: "user_settled u (fst (apply_user u s))"
  by (auto simp: user_settled_def apply_user_rows guarded_rows.seq_put at_or_below_def split: option.splits)

lemma user_step_keeps: "user_settled u (fst s) \<Longrightarrow> user_settled u (fst (apply_user u' s))"
  unfolding user_settled_def
  by (erule at_or_below_mono) (auto simp: apply_user_rows intro: rows_kept_put)

text \<open>A message is settled by the row it left, and quotes do not unsettle it.\<close>

lemma message_settled_row:
  "message_settled m db \<longleftrightarrow> \<not> message_may_land (m_channel m) (m_seq m) False db \<or>
     (\<exists>x. sel m_id (m_id m) (db_messages db) = Some x \<and> \<not> replaces m x)"
  by (auto simp: message_settled_def upsert_message_def upsert_changed split: option.splits)

lemma replaces_same: "same_but_quote x y \<Longrightarrow> replaces m x = replaces m y"
  by (auto simp: same_but_quote_def replaces_def extract_is_one_def)

lemma message_may_land_step [simp]:
  "message_may_land c q h (fst (apply_message h' fl m s)) = message_may_land c q h (fst s)"
  by (simp add: message_may_land_def channel_present_def fenced_at_or_above_def fence_of_def floor_of_def)

lemma landed_sel:
  "sel m_id i (db_messages (landed h m db)) = Some y \<Longrightarrow>
     \<exists>x. sel m_id i (fst (upsert_message m (db_messages db))) = Some x \<and> same_but_quote x y"
  using same_but_quote_sel [OF landed_rows, of i m db h] by (auto simp: option_rel_Some2)

lemma landed_row:
  "sel m_id i (fst (upsert_message m (db_messages db))) = Some x \<Longrightarrow>
     \<exists>y. sel m_id i (db_messages (landed h m db)) = Some y \<and> same_but_quote x y"
  using same_but_quote_sel [OF landed_rows, of i m db h] by (auto simp: option_rel_Some1)

lemma not_replaces_self: "\<not> extract_is_one ''_partial'' (m_json m) \<Longrightarrow> \<not> replaces m m"
  by (simp add: replaces_def)

lemma message_step_settles:
  assumes "\<not> extract_is_one ''_partial'' (m_json m)"
  shows "message_settled m (fst (apply_message False fl m s))"
proof (cases "message_lands False fl m (fst s)")
  case True
  have "\<exists>x. sel m_id (m_id m) (fst (upsert_message m (db_messages (fst s)))) = Some x \<and> \<not> replaces m x"
    using assms by (auto simp: upsert_message_def sel_upsert replaces_def split: option.splits)
  with True show ?thesis
    using landed_row [of "m_id m" m "fst s" _ False] replaces_same
    by (fastforce simp: message_settled_row apply_message_db)
qed (auto simp: message_settled_def apply_message_db message_lands_def)

lemma message_step_keeps:
  assumes "message_settled m (fst s)" and "\<not> extract_is_one ''_partial'' (m_json m')"
  shows "message_settled m (fst (apply_message False fl m' s))"
proof (cases "message_lands False fl m' (fst s) \<and> message_may_land (m_channel m) (m_seq m) False (fst s)")
  case True
  with assms(1) obtain x where x: "sel m_id (m_id m) (db_messages (fst s)) = Some x" "\<not> replaces m x"
    by (auto simp: message_settled_row)
  have "\<exists>y. sel m_id (m_id m) (fst (upsert_message m' (db_messages (fst s)))) = Some y \<and> \<not> replaces m y"
    using x assms(2) by (auto simp: upsert_message_def sel_upsert replaces_def)
  with True show ?thesis
    using landed_row [of "m_id m" m' "fst s" _ False] replaces_same
    by (fastforce simp: message_settled_row apply_message_db)
next
  case False
  then show ?thesis
  proof (cases "message_lands False fl m' (fst s)")
    case True
    with False have "\<not> message_may_land (m_channel m) (m_seq m) False (fst (apply_message False fl m' s))"
      by simp
    then show ?thesis by (simp add: message_settled_def)
  qed (use assms in \<open>simp add: apply_message_db\<close>)
qed

subsection \<open>The stages of a page\<close>

abbreviation own_rows :: "string \<Rightarrow> batch \<Rightarrow> member_row list" where
  "own_rows me b \<equiv> filter (\<lambda>m. mb_user m = me) (b_memberships b)"

abbreviation other_rows :: "string \<Rightarrow> batch \<Rightarrow> member_row list" where
  "other_rows me b \<equiv> filter (\<lambda>m. mb_user m \<noteq> me) (b_memberships b)"

definition fences_settled :: "string \<Rightarrow> batch \<Rightarrow> cache_db \<Rightarrow> bool" where
  "fences_settled me b db \<longleftrightarrow> own_active me db \<and> (\<forall>m \<in> set (own_rows me b). own_settled m db) \<and>
     (\<forall>r \<in> set (b_removed b). removed_settled me r db)"

definition rows_settled :: "string \<Rightarrow> batch \<Rightarrow> cache_db \<Rightarrow> bool" where
  "rows_settled me b db \<longleftrightarrow> fences_settled me b db \<and> (\<forall>c \<in> set (b_channels b). channel_settled c db) \<and>
     (\<forall>m \<in> set (other_rows me b). member_settled m db) \<and>
     (\<forall>l \<in> set (b_left b). left_settled l db) \<and> (\<forall>u \<in> set (b_users b). user_settled u db)"

lemma fold_settled:
  assumes "\<And>x s. x \<in> set xs \<Longrightarrow> I s \<Longrightarrow> S x (f x s)"
    and "\<And>x y s. x \<in> set xs \<Longrightarrow> y \<in> set xs \<Longrightarrow> I s \<Longrightarrow> S x s \<Longrightarrow> S x (f y s)"
    and "\<And>x s. x \<in> set xs \<Longrightarrow> I s \<Longrightarrow> I (f x s)" and "I s"
  shows "I (fold f xs s) \<and> (\<forall>x \<in> set xs. S x (fold f xs s))"
  using fold_all_settled [of "set xs" I S f s xs] assms by blast

lemma own_seq_other:
  assumes "\<And>c. members_seq (c, me) (db_memberships d') = members_seq (c, me) (db_memberships d)"
    and "db_removed d' = db_removed d" and "own_active me d" and "own_active me d'"
    and "fences_settled me b d"
  shows "fences_settled me b d'"
  using assms removed_cong [OF assms(2)]
  by (auto simp: fences_settled_def own_settled_def removed_settled_def removal_applies_def own_seq_active)

lemma own_active_other:
  assumes "own_active me (fst s)"
  shows "mb_user m \<noteq> me \<Longrightarrow> own_active me (fst (apply_member m s))"
    and "fst (snd l) \<noteq> me \<Longrightarrow> own_active me (fst (apply_left l s))"
proof -
  show "own_active me (fst (apply_member m s))" if "mb_user m \<noteq> me"
    using assms that by (auto simp: own_active_def apply_member_rows members_put_def upsert_membership_def
        mb_key_def dest!: set_upsert)
  obtain c u q where l: "l = (c, u, q)" by (cases l)
  show "own_active me (fst (apply_left l s))" if "fst (snd l) \<noteq> me"
    using assms that by (cases s) (auto simp: own_active_def apply_left_def l Let_def split_def set_insert_new
        mb_key_def split: if_splits dest!: set_update_row)
qed

lemma members_seq_other:
  "mb_user m \<noteq> me \<Longrightarrow>
     members_seq (c, me) (db_memberships (fst (apply_member m s))) = members_seq (c, me) (db_memberships (fst s))"
  "fst (snd l) \<noteq> me \<Longrightarrow>
     members_seq (c, me) (db_memberships (fst (apply_left l s))) = members_seq (c, me) (db_memberships (fst s))"
  by (auto simp: apply_member_rows guarded_members.seq_put) (cases l, simp add: apply_left_rows guarded_left.seq_put)

lemma fences_settled_frame:
  "db_memberships d' = db_memberships d \<Longrightarrow> db_removed d' = db_removed d \<Longrightarrow>
     fences_settled me b d' = fences_settled me b d"
  by (auto simp: fences_settled_def own_settled_def removed_settled_def removal_applies_def own_active_def
      own_seq_def fence_of_def floor_of_def)

lemma fences_settled_stages:
  assumes "own_active me (fst s)"
  shows "fences_settled me b (fst (fold (apply_removed me) (b_removed b) (fold apply_own (own_rows me b) s)))"
proof -
  let ?s = "fold apply_own (own_rows me b) s"
  have own: "own_active me (fst ?s) \<and> (\<forall>m \<in> set (own_rows me b). own_settled m (fst ?s))"
    by (rule fold_settled [where I = "\<lambda>s. own_active me (fst s)"])
      (auto simp: assms own_step_settles own_active_step intro: own_step_keeps)
  have "(own_active me (fst s) \<and> (\<forall>m \<in> set (own_rows me b). own_settled m (fst s))) \<and>
      (\<forall>r \<in> set (b_removed b). removed_settled me r (fst s))"
    if "s = fold (apply_removed me) (b_removed b) ?s" for s
    unfolding that
    by (rule fold_settled [where I = "\<lambda>s. own_active me (fst s) \<and> (\<forall>m \<in> set (own_rows me b). own_settled m (fst s))"])
      (auto simp: own [simplified] removed_step_settles own_active_removed removed_step_keeps intro: removed_keeps_own)
  then show ?thesis by (auto simp: fences_settled_def)
qed

lemma fences_settled_steps:
  assumes "fences_settled me b (fst s)"
  shows "fences_settled me b (fst (apply_channel c s))"
    and "mb_user m \<noteq> me \<Longrightarrow> fences_settled me b (fst (apply_member m s))"
    and "fst (snd l) \<noteq> me \<Longrightarrow> fences_settled me b (fst (apply_left l s))"
    and "fences_settled me b (fst (apply_user u s))"
    and "fences_settled me b (fst (apply_message h fl x s))"
proof -
  have active: "own_active me (fst s)" using assms by (simp add: fences_settled_def)
  show "mb_user m \<noteq> me \<Longrightarrow> fences_settled me b (fst (apply_member m s))"
    by (rule own_seq_other [OF _ _ active _ assms]) (simp_all add: members_seq_other own_active_other active)
  show "fst (snd l) \<noteq> me \<Longrightarrow> fences_settled me b (fst (apply_left l s))"
    by (rule own_seq_other [OF _ _ active _ assms]) (simp_all add: members_seq_other own_active_other active)
qed (use assms in \<open>simp_all add: fences_settled_frame [of "fst (apply_channel c s)" "fst s"]
    fences_settled_frame [of "fst (apply_user u s)" "fst s"]
    fences_settled_frame [of "fst (apply_message h fl x s)" "fst s"]\<close>)

lemma channel_settled_cong:
  "db_channels d' = db_channels d \<Longrightarrow> db_removed d' = db_removed d \<Longrightarrow>
     channel_settled c d' = channel_settled c d"
  by (simp add: channel_settled_def fenced_at_or_above_def fence_of_def)

lemma rows_settled_stages:
  assumes "fences_settled me b (fst s)" and left: "\<forall>l \<in> set (b_left b). fst (snd l) \<noteq> me"
  shows "rows_settled me b (fst (fold apply_user (b_users b) (fold apply_left (b_left b)
     (fold apply_member (other_rows me b) (fold apply_channel (b_channels b) s)))))"
proof -
  let ?chans = "\<lambda>d. \<forall>c \<in> set (b_channels b). channel_settled c d"
  let ?mems = "\<lambda>d. \<forall>m \<in> set (other_rows me b). member_settled m d"
  let ?lefts = "\<lambda>d. \<forall>l \<in> set (b_left b). left_settled l d"
  let ?s1 = "fold apply_channel (b_channels b) s"
  let ?s2 = "fold apply_member (other_rows me b) ?s1"
  let ?s3 = "fold apply_left (b_left b) ?s2"
  have 1: "fences_settled me b (fst ?s1) \<and> (\<forall>c \<in> set (b_channels b). channel_settled c (fst ?s1))"
    by (rule fold_settled [where I = "\<lambda>s. fences_settled me b (fst s)"])
      (auto simp: assms(1) channel_step_settles channel_step_keeps fences_settled_steps)
  have 2: "(fences_settled me b (fst ?s2) \<and> ?chans (fst ?s2)) \<and>
      (\<forall>m \<in> set (other_rows me b). member_settled m (fst ?s2))"
    by (rule fold_settled [where I = "\<lambda>s. fences_settled me b (fst s) \<and> ?chans (fst s)"])
      (auto simp: 1 member_step_settles member_step_keeps fences_settled_steps
        channel_settled_cong [OF apply_member_frame(4) apply_member_frame(3)])
  have 3: "(fences_settled me b (fst ?s3) \<and> ?chans (fst ?s3) \<and> ?mems (fst ?s3)) \<and>
      (\<forall>l \<in> set (b_left b). left_settled l (fst ?s3))"
    by (rule fold_settled [where I = "\<lambda>s. fences_settled me b (fst s) \<and> ?chans (fst s) \<and> ?mems (fst s)"])
      (use 2 left in \<open>auto simp: left_step_settles left_step_keeps left_keeps_member fences_settled_steps
        channel_settled_cong [OF apply_left_frame(4) apply_left_frame(3)]\<close>)
  have kept: "member_settled m (fst s) \<Longrightarrow> member_settled m (fst (apply_user u s))"
    "left_settled l (fst s) \<Longrightarrow> left_settled l (fst (apply_user u s))" for m l u and s :: apply_state
    by (auto simp: member_settled_def left_settled_def fenced_at_or_above_def fence_of_def)
  have "(fences_settled me b (fst s') \<and> ?chans (fst s') \<and> ?mems (fst s') \<and> ?lefts (fst s')) \<and>
      (\<forall>u \<in> set (b_users b). user_settled u (fst s'))" if "s' = fold apply_user (b_users b) ?s3" for s'
    unfolding that
    by (rule fold_settled [where I = "\<lambda>s. fences_settled me b (fst s) \<and> ?chans (fst s) \<and> ?mems (fst s) \<and> ?lefts (fst s)"])
      (use 3 in \<open>auto simp: user_step_settles user_step_keeps fences_settled_steps kept
        channel_settled_cong [OF apply_user_frame(4) apply_user_frame(3)]\<close>)
  then show ?thesis by (simp add: rows_settled_def)
qed

lemma rows_settled_message:
  assumes "rows_settled me b (fst s)"
  shows "rows_settled me b (fst (apply_message h fl x s))"
proof -
  have "channel_settled c (fst (apply_message h fl x s)) = channel_settled c (fst s)"
    "member_settled m (fst (apply_message h fl x s)) = member_settled m (fst s)"
    "left_settled l (fst (apply_message h fl x s)) = left_settled l (fst s)"
    "user_settled u (fst (apply_message h fl x s)) = user_settled u (fst s)" for c m l u
    by (simp_all add: channel_settled_def member_settled_def left_settled_def user_settled_def
        fenced_at_or_above_def fence_of_def)
  with assms fences_settled_steps(5) [of me b s] show ?thesis by (simp add: rows_settled_def)
qed

lemma page_settled:
  assumes "own_active me db" and "sync_page me b"
  shows "rows_settled me b (fst (apply_batch me b db)) \<and>
     (\<forall>m \<in> set (b_messages b). message_settled m (fst (apply_batch me b db)))"
proof -
  let ?s = "fold apply_user (b_users b) (fold apply_left (b_left b)
     (fold apply_member (other_rows me b) (fold apply_channel (b_channels b)
       (fold (apply_removed me) (b_removed b) (fold apply_own (own_rows me b) (db, no_change))))))"
  have "fences_settled me b (fst (fold (apply_removed me) (b_removed b)
      (fold apply_own (own_rows me b) (db, no_change))))"
    by (rule fences_settled_stages) (simp add: assms(1))
  then have "rows_settled me b (fst ?s)"
    by (rule rows_settled_stages) (use assms(2) in \<open>simp add: sync_page_def\<close>)
  then have "rows_settled me b (fst (fold (apply_message False (b_history_floors b)) (b_messages b) ?s)) \<and>
      (\<forall>m \<in> set (b_messages b). message_settled m (fst (fold (apply_message False (b_history_floors b)) (b_messages b) ?s)))"
    using assms(2)
    by (intro fold_settled [where I = "\<lambda>s. rows_settled me b (fst s)"])
      (auto simp: sync_page_def rows_settled_message intro: message_step_settles message_step_keeps)
  then show ?thesis using assms(2) by (simp add: apply_batch_def sync_page_def)
qed

lemma settled_page_noop:
  assumes "rows_settled me b db" and "\<forall>m \<in> set (b_messages b). message_settled m db" and "sync_page me b"
  shows "fst (apply_batch me b db) = db"
proof -
  note settled = assms(1) [unfolded rows_settled_def fences_settled_def]
  have noop: "\<exists>a'. fold f xs (db, a) = (db, a')"
    if "\<And>x a. x \<in> set xs \<Longrightarrow> fst (f x (db, a)) = db" for f :: "'x \<Rightarrow> apply_state \<Rightarrow> apply_state" and xs a
    using fold_fst_noop [of xs f db a] that by (metis prod.collapse)
  from noop [of "own_rows me b" apply_own no_change] settled own_settled_noop
  obtain a1 where 1: "fold apply_own (own_rows me b) (db, no_change) = (db, a1)" by fastforce
  from noop [of "b_removed b" "apply_removed me" a1] settled removed_settled_noop
  obtain a2 where 2: "fold (apply_removed me) (b_removed b) (db, a1) = (db, a2)" by fastforce
  from noop [of "b_channels b" apply_channel a2] settled channel_settled_noop
  obtain a3 where 3: "fold apply_channel (b_channels b) (db, a2) = (db, a3)" by fastforce
  from noop [of "other_rows me b" apply_member a3] settled member_settled_noop
  obtain a4 where 4: "fold apply_member (other_rows me b) (db, a3) = (db, a4)" by fastforce
  from noop [of "b_left b" apply_left a4] settled left_settled_noop
  obtain a5 where 5: "fold apply_left (b_left b) (db, a4) = (db, a5)" by fastforce
  from noop [of "b_users b" apply_user a5] settled user_settled_noop
  obtain a6 where 6: "fold apply_user (b_users b) (db, a5) = (db, a6)" by fastforce
  from noop [of "b_messages b" "apply_message False (b_history_floors b)" a6] assms(2) message_settled_noop
  obtain a7 where 7: "fold (apply_message False (b_history_floors b)) (b_messages b) (db, a6) = (db, a7)"
    by fastforce
  show ?thesis using assms(3) by (simp add: apply_batch_def sync_page_def 1 2 3 4 5 6 7)
qed

lemma replay_apply_batch:
  assumes "own_active me db" and "sync_page me b"
  shows "fst (apply_batch me b (fst (apply_batch me b db))) = fst (apply_batch me b db)"
  using page_settled [OF assms] assms(2) by (blast intro: settled_page_noop)

lemma own_active_apply_batch:
  assumes "own_active me db" and "sync_page me b"
  shows "own_active me (fst (apply_batch me b db))"
  using page_settled [OF assms] by (simp add: rows_settled_def fences_settled_def)

end
