(* ===== verification/Core_Types.thy ===== *)
theory Core_Types
  imports Cache_Tables
begin

text \<open>
  The types the operations share: errors (\<open>error.rs\<close>, \<open>store.rs\<close>, \<open>ws.rs\<close>), the session and
  the sign-in state (\<open>session.rs\<close>, \<open>state.rs\<close>), and the chat types (\<open>chat.rs\<close>). A result
  \<open>Result<T, E>\<close> is \<open>E + T\<close>.
\<close>

section \<open>Errors\<close>

text \<open>Payloads that belong to other crates (\<open>reqwest\<close>, \<open>url\<close>, \<open>tungstenite\<close>) are their texts.\<close>

datatype core_error =
    Http string
  | Url string
  | MissingHost
  | InsecureServerUrl
  | Api string string
  | UnexpectedResponse
  | NotAuthenticated
  | ChallengeSuperseded
  | WebSocket string
  | Disconnected
  | Timeout
  | CallEnded
  | Busy
  | TooLarge

datatype command_error =
    NotSent
  | Unknown
  | CmdTimeout
  | Rejected string string
  | UnexpectedReply
  | CmdTooLarge
  | CmdBusy

fun of_command_error :: "command_error \<Rightarrow> core_error" where
  "of_command_error NotSent = Disconnected"
| "of_command_error Unknown = Disconnected"
| "of_command_error CmdTimeout = Timeout"
| "of_command_error (Rejected code message) = Api code message"
| "of_command_error UnexpectedReply = UnexpectedResponse"
| "of_command_error CmdTooLarge = TooLarge"
| "of_command_error CmdBusy = Busy"

text \<open>
  The socket as the command layer sees it (\<open>Conn\<close>), a frame routed to a call (\<open>CallFrame\<close>) and a
  successful reply (\<open>Reply\<close>). Generations and sequence numbers are \<open>u64\<close> counters that only
  ever grow by one; they are natural numbers here.
\<close>

record conn =
  cn_generation :: nat
  cn_ready :: bool

record call_frame =
  cf_ty :: string
  cf_data :: json

record cmd_reply =
  cr_ty :: string
  cr_data :: json

datatype store_error = AlreadyOpen | Io | Sql | Closed

section \<open>Session\<close>

record user =
  u_id :: string
  u_handle :: string
  u_display_name :: string
  u_global_role :: string
  u_status_text :: "string option"

definition empty_as_none :: "string option \<Rightarrow> string option" where
  "empty_as_none s = Option.bind s (\<lambda>t. if t = [] then None else Some t)"

text \<open>\<open>UserOut\<close> as serde reads it.\<close>

definition parse_user :: "json \<Rightarrow> user option" where
  "parse_user j =
     (case (jget_str ''id'' j, jget_str ''handle'' j, jget_str ''display_name'' j,
            jget_str ''global_role'' j, field_opt_str ''status_text'' j) of
        (Some i, Some h, Some d, Some g, Some t) \<Rightarrow>
          Some \<lparr>u_id = i, u_handle = h, u_display_name = d, u_global_role = g,
                u_status_text = empty_as_none t\<rparr>
      | _ \<Rightarrow> None)"

record session =
  s_access_token :: string
  s_refresh_token :: string
  s_user :: user

text \<open>The fields \<open>Debug\<close> prints: tokens never leak into logs.\<close>

definition session_debug :: "session \<Rightarrow> (string \<times> (string + user)) list" where
  "session_debug s =
     [(''access_token'', Inl ''<redacted>''), (''refresh_token'', Inl ''<redacted>''),
      (''user'', Inr (s_user s))]"

datatype auth_state = LoggedOut | Authenticating | LoggedIn user | Failed string

section \<open>Chat\<close>

record channel_member =
  cm_id :: string
  cm_handle :: string
  cm_display_name :: string
  cm_role :: "string option"

record owner_offer =
  oo_user_id :: string
  oo_offered_by :: string
  oo_created_at :: string

record channel =
  ch_id :: string
  ch_kind :: string
  ch_name :: "string option"
  ch_topic :: "string option"
  ch_members :: "channel_member list"
  ch_unread_count :: int
  ch_unread_mentions :: int
  ch_public :: bool
  ch_archived :: bool
  ch_owner_offers :: "owner_offer list"
  ch_last_message_id :: "string option"

definition parse_channel_member :: "json \<Rightarrow> channel_member option" where
  "parse_channel_member j =
     (case (jget_str ''id'' j, jget_str ''handle'' j, jget_str ''display_name'' j,
            field_opt_str ''role'' j) of
        (Some i, Some h, Some d, Some r) \<Rightarrow>
          Some \<lparr>cm_id = i, cm_handle = h, cm_display_name = d, cm_role = r\<rparr>
      | _ \<Rightarrow> None)"

definition owner_offer_for :: "string \<Rightarrow> channel \<Rightarrow> owner_offer option" where
  "owner_offer_for user_id c = find (\<lambda>off. oo_user_id off = user_id) (ch_owner_offers c)"

definition is_dm :: "channel \<Rightarrow> bool" where
  "is_dm c \<longleftrightarrow> ch_kind c = ''dm''"

definition title :: "string \<Rightarrow> channel \<Rightarrow> string" where
  "title self_user_id c =
     (case ch_name c of
        Some (n # ns) \<Rightarrow> n # ns
      | _ \<Rightarrow>
          (case (if is_dm c then find (\<lambda>m. cm_id m \<noteq> self_user_id) (ch_members c) else None) of
             Some other \<Rightarrow> cm_display_name other
           | None \<Rightarrow> join_with '', '' (map cm_display_name (ch_members c))))"

record reaction_summary =
  rs_emoji :: string
  rs_count :: int
  rs_me :: bool

record reply_excerpt =
  re_id :: string
  re_author_handle :: "string option"
  re_author_display_name :: "string option"
  re_body :: string
  re_deleted :: bool
  re_attachments :: nat

record file_info =
  fi_id :: string
  fi_channel_id :: string
  fi_uploader_id :: string
  fi_filename :: string
  fi_original_name :: string
  fi_size :: nat
  fi_content_type :: string
  fi_status :: string
  fi_sha256 :: "string option"

record message =
  msg_id :: string
  msg_channel_id :: string
  msg_author_id :: string
  msg_author_handle :: "string option"
  msg_author_display_name :: "string option"
  msg_body :: string
  msg_created_at :: string
  msg_edited_at :: "string option"
  msg_reply_to_id :: "string option"
  msg_reply_to :: "reply_excerpt option"
  msg_reactions :: "reaction_summary list"
  msg_mentions :: "string list"
  msg_mention_everyone :: bool
  msg_attachments :: "file_info list"
  msg_client_id :: "string option"
  msg_deleted_at :: "string option"
  msg_deleted :: bool

definition is_deleted :: "message \<Rightarrow> bool" where
  "is_deleted m \<longleftrightarrow> msg_deleted m \<or> msg_deleted_at m \<noteq> None"

section \<open>Facts\<close>

lemma session_debug_hides:
  "s_user s = s_user t \<Longrightarrow> session_debug s = session_debug t"
  by (simp add: session_debug_def)

lemma parse_channel_member_id: "parse_channel_member j = Some m \<Longrightarrow> jget_str ''id'' j = Some (cm_id m)"
  by (auto simp: parse_channel_member_def split: option.splits)

lemma parse_user_status: "parse_user j = Some u \<Longrightarrow> u_status_text u \<noteq> Some []"
  by (auto simp: parse_user_def empty_as_none_def Option.bind_eq_Some_conv split: option.splits if_splits)

end
