(* ===== verification/Sync_Loop.thy ===== *)
theory Sync_Loop
  imports Apply_Replay Core_Types
begin

text \<open>
  \<open>core/src/sync.rs\<close>: rows out of JSON, the pages of \<open>GET /sync\<close>, and the loop that applies
  them. A page's rows and its cursor are one transaction. What the loop does not decide (the
  server's answers, the disk's failures, what other tasks commit while a request is out) is
  its script: one \<open>round\<close> per turn.
\<close>

section \<open>Rows\<close>

definition seq_field :: "json \<Rightarrow> int option" where
  "seq_field v = jget_i64 ''seq'' v"

definition channel_row :: "json \<Rightarrow> row option" where
  "channel_row v = (case (jget_str ''id'' v, seq_field v) of
       (Some i, Some q) \<Rightarrow> Some \<lparr>r_id = i, r_seq = q, r_json = v\<rparr>
     | _ \<Rightarrow> None)"

text \<open>(The code's debug assertion on lowercase ids is not part of a release build.)\<close>

definition message_row_of :: "json \<Rightarrow> message_row option" where
  "message_row_of v =
     (case (jget_str ''id'' v, jget_str ''channel_id'' v, seq_field v, jget_str ''created_at'' v) of
        (Some i, Some c, Some q, Some t) \<Rightarrow>
          Some \<lparr>m_id = i, m_channel = c, m_seq = q, m_created_at = t, m_json = v\<rparr>
      | _ \<Rightarrow> None)"

definition member_row_of :: "json \<Rightarrow> member_row option" where
  "member_row_of v = (case (jget_str ''channel_id'' v, jget_str ''user_id'' v, seq_field v) of
       (Some c, Some u, Some q) \<Rightarrow>
         Some \<lparr>mb_channel = c, mb_user = u, mb_seq = q, mb_json = v\<rparr>
     | _ \<Rightarrow> None)"

definition removed_of :: "json \<Rightarrow> (string \<times> int) option" where
  "removed_of v = (case (jget_str ''channel_id'' v, seq_field v) of
       (Some c, Some q) \<Rightarrow> Some (c, q)
     | _ \<Rightarrow> None)"

definition left_of :: "json \<Rightarrow> (string \<times> string \<times> int) option" where
  "left_of v = (case (jget_str ''channel_id'' v, jget_str ''user_id'' v, seq_field v) of
       (Some c, Some u, Some q) \<Rightarrow> Some (c, u, q)
     | _ \<Rightarrow> None)"

section \<open>A page\<close>

definition all_of :: "string \<Rightarrow> (json \<Rightarrow> 'a option) \<Rightarrow> json \<Rightarrow> 'a list option" where
  "all_of k f page = Option.bind (jget_array k page) (traverse f)"

definition cursor_digits :: "string \<Rightarrow> bool" where
  "cursor_digits c \<longleftrightarrow> c \<noteq> [] \<and> list_all is_ascii_digit c"

definition parse_page :: "json \<Rightarrow> (batch \<times> string \<times> bool) option" where
  "parse_page page =
     (case (all_of ''channels'' channel_row page, all_of ''users'' channel_row page,
            all_of ''memberships'' member_row_of page, all_of ''messages'' message_row_of page,
            all_of ''removed_channels'' removed_of page, all_of ''left_members'' left_of page) of
        (Some channels, Some users, Some memberships, Some messages, Some removed, Some left) \<Rightarrow>
          (case jget_str ''next'' page of
             None \<Rightarrow> None
           | Some next_cursor \<Rightarrow>
               if \<not> cursor_digits next_cursor then None
               else (case field_bool ''more'' page of
                  None \<Rightarrow> None
                | Some more_left \<Rightarrow>
                    Some (\<lparr>b_channels = channels, b_memberships = memberships, b_users = users,
                           b_messages = messages, b_removed = removed, b_left = left,
                           b_history = False, b_history_floors = [], b_tombstones = []\<rparr>,
                          next_cursor, more_left)))
      | _ \<Rightarrow> None)"

text \<open>A live event as a batch, if it carries rows.\<close>

definition event_batch :: "string \<Rightarrow> json \<Rightarrow> batch option" where
  "event_batch kind data =
     (if kind = ''message.new'' \<or> kind = ''message.update''
      then map_option (\<lambda>m. empty_batch\<lparr>b_messages := [m]\<rparr>) (message_row_of data)
      else if kind = ''channel.update''
      then map_option (\<lambda>c. empty_batch\<lparr>b_channels := [c]\<rparr>) (channel_row data)
      else if kind = ''message.delete''
      then (case (jget_str ''id'' data, jget_str ''channel_id'' data, seq_field data) of
              (Some i, Some c, Some q) \<Rightarrow> Some (empty_batch\<lparr>b_tombstones := [(i, c, q)]\<rparr>)
            | _ \<Rightarrow> None)
      else if kind = ''channel.delete''
      then (case (jget_str ''id'' data, seq_field data) of
              (Some i, Some q) \<Rightarrow> Some (empty_batch\<lparr>b_removed := [(i, q)]\<rparr>)
            | _ \<Rightarrow> None)
      else None)"

section \<open>The loop\<close>

datatype page = Rows json | PageReset

datatype sync_error = StoreErr store_error | Net core_error | Malformed

datatype synced = SyncDone | SyncReset

text \<open>
  One turn of the loop as the outside decides it: the read of the cursor may fail, the server
  answers the cursor it is sent, other tasks may write meanwhile, and the commit may fail.
\<close>

record round =
  rd_read :: "store_error option"
  rd_answer :: "string \<Rightarrow> core_error + page"
  rd_others :: "cache_db \<Rightarrow> cache_db"
  rd_commit :: "store_error option"

text \<open>The transaction of one page: the rows, the cursor, and (caught up) the ranges' tops.\<close>

definition commit_page :: "string \<Rightarrow> batch \<times> string \<times> bool \<Rightarrow> cache_db \<Rightarrow> cache_db \<times> applied" where
  "commit_page me p db = (case p of (batch, next_cursor, more_left) \<Rightarrow>
     let (db, a) = apply_batch me batch db;
         db = db\<lparr>db_cursor := next_cursor\<rparr>
     in if more_left then (db, a)
        else (let (db, grown) = settle_tops (parse_i64_or_0 next_cursor) db
              in (db, a\<lparr>a_channels := a_channels a \<union> set grown\<rparr>)))"

text \<open>
  \<open>run_into\<close>: \<open>None\<close> when the script ends before the loop does. The second component adds up
  what the committed pages changed, whatever comes after them.
\<close>

fun run_into ::
  "string \<Rightarrow> round list \<Rightarrow> cache_db \<Rightarrow> applied \<Rightarrow> cache_db \<times> applied \<times> (sync_error + synced) option"
where
  "run_into me [] db changed = (db, changed, None)"
| "run_into me (r # rs) db changed =
     (case rd_read r of
        Some e \<Rightarrow> (db, changed, Some (Inl (StoreErr e)))
      | None \<Rightarrow>
          (let answer = rd_answer r (db_cursor db); db = rd_others r db in
           case answer of
             Inl e \<Rightarrow> (db, changed, Some (Inl (Net e)))
           | Inr PageReset \<Rightarrow> (db, changed, Some (Inr SyncReset))
           | Inr (Rows v) \<Rightarrow>
               (case parse_page v of
                  None \<Rightarrow> (db, changed, Some (Inl Malformed))
                | Some p \<Rightarrow>
                    (case rd_commit r of
                       Some e \<Rightarrow> (db, changed, Some (Inl (StoreErr e)))
                     | None \<Rightarrow>
                         (let (db, a) = commit_page me p db;
                              changed = applied_add changed a
                          in if snd (snd p) then run_into me rs db changed
                             else (db, changed, Some (Inr SyncDone)))))))"

section \<open>What a page holds\<close>

lemma all_of_Some:
  "all_of k f page = Some ys \<Longrightarrow> \<exists>xs. jget_array k page = Some xs \<and> traverse f xs = Some ys"
  by (auto simp: all_of_def Option.bind_eq_Some_conv)

lemma traverse_in: "traverse f xs = Some ys \<Longrightarrow> y \<in> set ys \<Longrightarrow> \<exists>x \<in> set xs. f x = Some y"
  by (induction xs arbitrary: ys) (auto split: option.splits)

lemma traverse_length: "traverse f xs = Some ys \<Longrightarrow> length ys = length xs"
  by (induction xs arbitrary: ys) (auto split: option.splits)

lemma parse_page_cursor: "parse_page v = Some (b, next_cursor, more_left) \<Longrightarrow> cursor_digits next_cursor"
  by (auto simp: parse_page_def split: option.splits if_splits)

lemma parse_page_batch:
  assumes "parse_page v = Some (b, next_cursor, more_left)"
  shows "b_tombstones b = []" "\<not> b_history b" "b_history_floors b = []"
    and "all_of ''messages'' message_row_of v = Some (b_messages b)"
    and "all_of ''channels'' channel_row v = Some (b_channels b)"
    and "all_of ''left_members'' left_of v = Some (b_left b)"
  using assms by (auto simp: parse_page_def split: option.splits if_splits)

lemma message_row_of_fields:
  "message_row_of v = Some m \<Longrightarrow>
     m_json m = v \<and> jget_str ''id'' v = Some (m_id m) \<and> jget_str ''channel_id'' v = Some (m_channel m)"
  by (auto simp: message_row_of_def split: option.splits)

text \<open>Any malformed row, in any of the six lists, fails the whole page.\<close>

definition bad_row :: "string \<Rightarrow> (json \<Rightarrow> 'a option) \<Rightarrow> json \<Rightarrow> bool" where
  "bad_row k f page \<longleftrightarrow> (\<exists>xs. jget_array k page = Some xs \<and> list_ex (\<lambda>x. f x = None) xs)"

definition has_bad_row :: "json \<Rightarrow> bool" where
  "has_bad_row page \<longleftrightarrow>
     bad_row ''channels'' channel_row page \<or> bad_row ''users'' channel_row page \<or>
     bad_row ''memberships'' member_row_of page \<or> bad_row ''messages'' message_row_of page \<or>
     bad_row ''removed_channels'' removed_of page \<or> bad_row ''left_members'' left_of page"

lemma bad_row_refuses: "bad_row k f page \<Longrightarrow> all_of k f page = None"
  by (auto simp: bad_row_def all_of_def traverse_None list_ex_iff)

lemma parse_page_refuses: "has_bad_row page \<Longrightarrow> parse_page page = None"
  by (auto simp: has_bad_row_def parse_page_def dest!: bad_row_refuses split: option.splits)

section \<open>What the loop commits\<close>

text \<open>
  The specification: from one database to the next, either another task's write or one whole
  page. Whatever the outcome, the loop leaves a database such steps reach, and reports what
  the pages changed.
\<close>

inductive pages_to ::
  "string \<Rightarrow> (cache_db \<Rightarrow> cache_db) set \<Rightarrow> cache_db \<times> applied \<Rightarrow> cache_db \<times> applied \<Rightarrow> bool"
  for me others
where
  refl: "pages_to me others s s"
| other: "pages_to me others s (db, a) \<Longrightarrow> f \<in> others \<Longrightarrow> pages_to me others s (f db, a)"
| page: "pages_to me others s (db, a) \<Longrightarrow> parse_page v = Some p \<Longrightarrow>
    pages_to me others s (fst (commit_page me p db), applied_add a (snd (commit_page me p db)))"

lemma pages_to_trans: "pages_to me fs t u \<Longrightarrow> pages_to me fs s t \<Longrightarrow> pages_to me fs s u"
  by (induction rule: pages_to.induct) (auto intro: pages_to.intros)

lemma run_into_pages:
  assumes "run_into me rs db changed = (db', changed', res)"
  shows "pages_to me (rd_others ` set rs) (db, changed) (db', changed')"
  using assms
proof (induction rs arbitrary: db changed)
  case Nil
  then show ?case by (auto intro: pages_to.intros)
next
  case (Cons r rs)
  have mono: "pages_to me (rd_others ` set rs) s t \<Longrightarrow> pages_to me (rd_others ` set (r # rs)) s t" for s t
    by (induction rule: pages_to.induct) (auto intro: pages_to.intros)
  have other: "pages_to me (rd_others ` set (r # rs)) (db, changed) (rd_others r db, changed)"
    by (rule pages_to.other [OF pages_to.refl]) simp
  show ?case
  proof (cases "rd_read r")
    case None
    note read = this
    show ?thesis
    proof (cases "\<exists>v p. rd_answer r (db_cursor db) = Inr (Rows v) \<and> parse_page v = Some p \<and> rd_commit r = None")
      case True
      then obtain v p where vp: "rd_answer r (db_cursor db) = Inr (Rows v)" "parse_page v = Some p"
        "rd_commit r = None" by blast
      let ?c = "commit_page me p (rd_others r db)"
      have step: "pages_to me (rd_others ` set (r # rs)) (db, changed) (fst ?c, applied_add changed (snd ?c))"
        by (rule pages_to.page [OF other vp(2)])
      show ?thesis
      proof (cases "snd (snd p)")
        case True
        with Cons.prems read vp have "run_into me rs (fst ?c) (applied_add changed (snd ?c)) = (db', changed', res)"
          by (simp add: Let_def split_def)
        from pages_to_trans [OF mono [OF Cons.IH [OF this]] step] show ?thesis .
      next
        case False
        with Cons.prems read vp step show ?thesis by (simp add: Let_def split_def)
      qed
    next
      case False
      with Cons.prems read have "db' = rd_others r db \<and> changed' = changed"
        by (auto simp: Let_def split: sum.splits page.splits option.splits prod.splits)
      with other show ?thesis by simp
    qed
  qed (use Cons.prems in \<open>auto intro: pages_to.intros\<close>)
qed

text \<open>So an invariant of pages and of the other writers is one of the loop.\<close>

lemma pages_to_invariant:
  assumes "pages_to me fs s t" and "P (fst s)"
    and "\<And>db f. f \<in> fs \<Longrightarrow> P db \<Longrightarrow> P (f db)"
    and "\<And>db p v. parse_page v = Some p \<Longrightarrow> P db \<Longrightarrow> P (fst (commit_page me p db))"
  shows "P (fst t)"
  using assms by (induction rule: pages_to.induct) auto

lemma commit_page_db:
  "fst (commit_page me (b, c, more_left) db) =
     (let d = (fst (apply_batch me b db))\<lparr>db_cursor := c\<rparr>
      in if more_left then d else fst (settle_tops (parse_i64_or_0 c) d))"
  by (simp add: commit_page_def Let_def split_def)

lemma commit_page_cursor [simp]: "db_cursor (fst (commit_page me (b, c, more_left) db)) = c"
  by (simp add: commit_page_db Let_def settle_tops_def)

lemma cursor_digits_run:
  assumes "run_into me rs db changed = (db', changed', res)" and "cursor_digits (db_cursor db)"
    and "\<And>r d. r \<in> set rs \<Longrightarrow> db_cursor (rd_others r d) = db_cursor d"
  shows "cursor_digits (db_cursor db')"
proof -
  have "cursor_digits (db_cursor (fst (db', changed')))"
    by (rule pages_to_invariant [OF run_into_pages [OF assms(1)]])
      (use assms(2,3) in \<open>auto dest: parse_page_cursor\<close>)
  then show ?thesis by simp
qed

section \<open>The walk from cursor to cursor\<close>

text \<open>
  What a run is to the server: the pages it took in are the answers to the cursors, the first to
  the stored one and each further to the \<open>next\<close> of the page before, and only a last page has
  nothing more after it.
\<close>

fun linked :: "round list \<Rightarrow> string \<Rightarrow> (batch \<times> string \<times> bool) list \<Rightarrow> bool" where
  "linked rs c [] \<longleftrightarrow> True"
| "linked [] c (p # ps) \<longleftrightarrow> False"
| "linked (r # rs) c (p # ps) \<longleftrightarrow>
     rd_read r = None \<and> rd_commit r = None
     \<and> (case rd_answer r c of Inr (Rows v) \<Rightarrow> parse_page v = Some p | _ \<Rightarrow> False)
     \<and> (ps \<noteq> [] \<longrightarrow> snd (snd p)) \<and> linked rs (fst (snd p)) ps"

definition end_cursor :: "string \<Rightarrow> (batch \<times> string \<times> bool) list \<Rightarrow> string" where
  "end_cursor c ps = (if ps = [] then c else fst (snd (last ps)))"

text \<open>The pages committed once each, in order, each after what other tasks wrote in its round.\<close>

fun committed ::
  "string \<Rightarrow> round list \<Rightarrow> (batch \<times> string \<times> bool) list \<Rightarrow> cache_db \<times> applied \<Rightarrow> cache_db \<times> applied" where
  "committed me (r # rs) (p # ps) (db, a) =
     committed me rs ps
       (fst (commit_page me p (rd_others r db)), applied_add a (snd (commit_page me p (rd_others r db))))"
| "committed me rs ps s = s"

lemma committed_Nil [simp]: "committed me rs [] s = s"
  by (cases s) simp

definition run_shape ::
  "string \<Rightarrow> round list \<Rightarrow> cache_db \<Rightarrow> applied \<Rightarrow> cache_db \<Rightarrow> applied \<Rightarrow> (sync_error + synced) option \<Rightarrow>
     (batch \<times> string \<times> bool) list \<Rightarrow> bool" where
  "run_shape me rs db changed db' changed' res ps \<longleftrightarrow>
     linked rs (db_cursor db) ps \<and> db_cursor db' = end_cursor (db_cursor db) ps
     \<and> (res = Some (Inr SyncDone) \<longleftrightarrow> ps \<noteq> [] \<and> \<not> snd (snd (last ps)))
     \<and> (res = None \<longrightarrow> length ps = length rs)
     \<and> changed' = snd (committed me rs ps (db, changed))
     \<and> (db' = fst (committed me rs ps (db, changed))
        \<or> res \<noteq> Some (Inr SyncDone) \<and> length ps < length rs
          \<and> db' = rd_others (rs ! length ps) (fst (committed me rs ps (db, changed))))"

lemma run_shape_first:
  assumes "run_shape me rs (fst (commit_page me p (rd_others r db)))
      (applied_add changed (snd (commit_page me p (rd_others r db)))) db' changed' res ps"
    and "rd_read r = None" "rd_commit r = None" "rd_answer r (db_cursor db) = Inr (Rows v)" "parse_page v = Some p"
    and "snd (snd p)"
  shows "run_shape me (r # rs) db changed db' changed' res (p # ps)"
proof -
  have c: "db_cursor (fst (commit_page me p (rd_others r db))) = fst (snd p)" by (cases p) simp
  show ?thesis using assms unfolding run_shape_def c by (auto simp: end_cursor_def)
qed

lemma run_into_shape:
  assumes "run_into me rs db changed = (db', changed', res)"
    and "\<And>r d. r \<in> set rs \<Longrightarrow> db_cursor (rd_others r d) = db_cursor d"
  shows "\<exists>ps. run_shape me rs db changed db' changed' res ps"
  using assms
proof (induction rs arbitrary: db changed)
  case Nil
  then show ?case by (intro exI[of _ "[]"]) (simp add: run_shape_def end_cursor_def)
next
  case (Cons r rs)
  have keep: "db_cursor (rd_others r d) = db_cursor d" for d using Cons.prems(2) by simp
  show ?case
  proof (cases "\<exists>v p. rd_read r = None \<and> rd_answer r (db_cursor db) = Inr (Rows v) \<and> parse_page v = Some p \<and> rd_commit r = None")
    case True
    then obtain v p where vp: "rd_read r = None" "rd_answer r (db_cursor db) = Inr (Rows v)" "parse_page v = Some p"
      "rd_commit r = None" by blast
    let ?c = "commit_page me p (rd_others r db)"
    show ?thesis
    proof (cases "snd (snd p)")
      case True
      with Cons.prems(1) vp have "run_into me rs (fst ?c) (applied_add changed (snd ?c)) = (db', changed', res)"
        by (simp add: Let_def split_def)
      then obtain ps where "run_shape me rs (fst ?c) (applied_add changed (snd ?c)) db' changed' res ps"
        using Cons.IH Cons.prems(2) by (metis list.set_intros(2))
      from run_shape_first[OF this vp(1,4,2,3) True] show ?thesis by blast
    next
      case False
      with Cons.prems(1) vp have e: "db' = fst ?c" "changed' = applied_add changed (snd ?c)" "res = Some (Inr SyncDone)"
        by (simp_all add: Let_def split_def)
      have "db_cursor (fst ?c) = fst (snd p)" by (cases p) simp
      then show ?thesis using e vp False
        by (intro exI[of _ "[p]"]) (simp add: run_shape_def end_cursor_def)
    qed
  next
    case False
    then have "changed' = changed \<and> (db' = db \<or> db' = rd_others r db) \<and> res \<noteq> Some (Inr SyncDone) \<and> res \<noteq> None"
      using Cons.prems(1)
      by (auto simp: Let_def split: sum.splits page.splits option.splits prod.splits)
    then show ?thesis using keep
      by (intro exI[of _ "[]"]) (auto simp: run_shape_def end_cursor_def)
  qed
qed

text \<open>What the loop reports only grows.\<close>

lemma pages_to_changed:
  assumes "pages_to me fs s t"
  shows "a_channels (snd s) \<subseteq> a_channels (snd t) \<and> a_removed (snd s) \<subseteq> a_removed (snd t) \<and>
    a_users (snd s) \<subseteq> a_users (snd t)"
  using assms by (induction rule: pages_to.induct) (auto simp: applied_add_def)


section \<open>What one page keeps\<close>

lemma settle_row_idem: "settle_row cursor d (settle_row cursor d r) = settle_row cursor d r"
  by (auto simp: settle_row_def settles_def split: option.splits)

lemma settle_row_cong:
  assumes "db_messages d = db_messages d'"
  shows "settle_row cursor d = settle_row cursor d'"
proof -
  have "settled_ids c cursor d = settled_ids c cursor d'" for c by (simp add: settled_ids_def assms)
  then show ?thesis by (auto simp: settle_row_def settles_def fun_eq_iff split: option.splits)
qed

lemma settle_tops_idem:
  "fst (settle_tops cursor (fst (settle_tops cursor db))) = fst (settle_tops cursor db)"
proof -
  have "settle_row cursor (fst (settle_tops cursor db)) = settle_row cursor db"
    by (rule settle_row_cong) (simp add: settle_tops_def)
  then show ?thesis by (simp add: settle_tops_def settle_row_idem)
qed

lemma settle_tops_other [simp]:
  "db_cursor (fst (settle_tops cursor db)) = db_cursor db"
  "db_memberships (fst (settle_tops cursor db)) = db_memberships db"
  "db_messages (fst (settle_tops cursor db)) = db_messages db"
  "db_removed (fst (settle_tops cursor db)) = db_removed db"
  by (simp_all add: settle_tops_def)

lemma settle_tops_settled:
  "fences_settled me b (fst (settle_tops q db)) = fences_settled me b db"
  "rows_settled me b (fst (settle_tops q db)) = rows_settled me b db"
  "message_settled m (fst (settle_tops q db)) = message_settled m db"
  by (auto simp: settle_tops_def fences_settled_def rows_settled_def own_active_def own_settled_def
      removed_settled_def removal_applies_def own_seq_def fence_of_def floor_of_def channel_settled_def
      member_settled_def left_settled_def user_settled_def fenced_at_or_above_def message_settled_def
      message_may_land_def channel_present_def)

lemma cursor_settled:
  "fences_settled me b (d\<lparr>db_cursor := c\<rparr>) = fences_settled me b d"
  "rows_settled me b (d\<lparr>db_cursor := c\<rparr>) = rows_settled me b d"
  "message_settled m (d\<lparr>db_cursor := c\<rparr>) = message_settled m d"
  by (auto simp: fences_settled_def rows_settled_def own_active_def own_settled_def
      removed_settled_def removal_applies_def own_seq_def fence_of_def floor_of_def channel_settled_def
      member_settled_def left_settled_def user_settled_def fenced_at_or_above_def message_settled_def
      message_may_land_def channel_present_def)

text \<open>The whole transaction again, its cursor and ranges included, changes nothing.\<close>

lemma commit_page_replay:
  assumes "own_active me db" and "sync_page me (fst p)"
  shows "fst (commit_page me p (fst (commit_page me p db))) = fst (commit_page me p db)"
proof -
  obtain b c m where p: "p = (b, c, m)" by (cases p)
  let ?d = "fst (commit_page me p db)"
  note settled = page_settled [OF assms(1), of b]
  have "rows_settled me b ?d \<and> (\<forall>x \<in> set (b_messages b). message_settled x ?d)"
    using settled assms(2) by (simp add: p commit_page_db Let_def settle_tops_settled cursor_settled)
  then have again: "fst (apply_batch me b ?d) = ?d"
    using assms(2) p by (intro settled_page_noop) auto
  have cursor: "?d\<lparr>db_cursor := c\<rparr> = ?d" by (simp add: p commit_page_db Let_def settle_tops_def)
  have "fst (commit_page me p ?d) = (if m then ?d else fst (settle_tops (parse_i64_or_0 c) ?d))"
    using commit_page_db [of me b c m ?d] by (simp add: p [symmetric] again cursor)
  also have "\<dots> = ?d"
    using settle_tops_idem by (auto simp: p commit_page_db Let_def)
  finally show ?thesis .
qed

lemma commit_page_invariant:
  assumes "P (fst (apply_batch me b db))" and "\<And>d c. P d \<Longrightarrow> P (d\<lparr>db_cursor := c\<rparr>)"
    and "\<And>d q. P d \<Longrightarrow> P (fst (settle_tops q d))"
  shows "P (fst (commit_page me (b, c, m) db))"
  using assms by (simp add: commit_page_db Let_def)

lemma keys_ok_commit:
  assumes "keys_ok db"
  shows "keys_ok (fst (commit_page me p db))"
proof -
  obtain b c m where p: "p = (b, c, m)" by (cases p)
  have "keys_ok (d\<lparr>db_cursor := q\<rparr>) = keys_ok d" "keys_ok (fst (settle_tops n d)) = keys_ok d" for d q n
    by (simp_all add: keys_ok_def settle_tops_def comp_def)
  then show ?thesis using keys_ok_apply_batch [OF assms]
    unfolding p by (intro commit_page_invariant [where P = keys_ok]) simp_all
qed

lemma fences_hold_commit:
  assumes "fences_hold db"
  shows "fences_hold (fst (commit_page me p db))"
proof -
  obtain b c m where p: "p = (b, c, m)" by (cases p)
  have "fences_hold (d\<lparr>db_cursor := q\<rparr>) = fences_hold d"
    "fences_hold (fst (settle_tops n d)) = fences_hold d" for d q n
    by (simp_all add: fences_hold_def settle_tops_def fence_of_def)
  then show ?thesis using fences_hold_apply_batch [OF assms]
    unfolding p by (intro commit_page_invariant [where P = fences_hold]) simp_all
qed

text \<open>The loop ends by itself: it goes on only from a well-formed page that says there is more.\<close>

definition goes_on :: "round \<Rightarrow> string \<Rightarrow> bool" where
  "goes_on r since \<longleftrightarrow> rd_read r = None \<and> rd_commit r = None \<and>
     (\<exists>v b c. rd_answer r since = Inr (Rows v) \<and> parse_page v = Some (b, c, True))"

lemma run_into_ends:
  assumes "run_into me rs db changed = (db', changed', None)" and "r \<in> set rs"
  shows "\<exists>since. goes_on r since"
  using assms
proof (induction rs arbitrary: db changed)
  case (Cons x xs)
  from Cons.prems(1) obtain v b c where
    x: "rd_read x = None" "rd_commit x = None" "rd_answer x (db_cursor db) = Inr (Rows v)"
      "parse_page v = Some (b, c, True)"
    by (auto simp: Let_def split: option.splits sum.splits page.splits prod.splits if_splits)
  then have "goes_on x (db_cursor db)" by (auto simp: goes_on_def)
  moreover have "\<exists>d ch. run_into me xs d ch = (db', changed', None)"
    using Cons.prems(1) x by (auto simp: Let_def split_def)
  ultimately show ?case using Cons by auto
qed simp

end
