(* ===== verification/Cache_Front.thy ===== *)
theory Cache_Front
  imports Sync_Loop "HOL-Library.Word"
begin

text \<open>
  \<open>core/src/cache.rs\<close>, what the apps call: reads of the cache (\<open>cached_channels\<close>,
  \<open>cached_messages\<close>, \<open>cached_users\<close>), the history pages (\<open>load_head\<close>, \<open>load_older\<close>), live
  events and acknowledgements, and the notices. When and how often a sync runs is in
  \<open>Cache_Syncing\<close>.
\<close>

section \<open>State and notices\<close>

datatype cache_event =
    EvChannels "string list"
  | EvRemoved "string list"
  | EvUsers "string list"
  | EvFiles "string list"
  | EvReset
  | EvOutbox string
  | EvOutboxLost

record cache_state =
  cs_syncing :: bool
  cs_last_synced :: "nat option"
  cs_offline :: bool

text \<open>
  The cache object: its database, the published state, the flags of \<open>Cache\<close>, and what it sent
  out: notices, wake-ups of the file cache, and the timers it started.
\<close>

datatype timer = RetryTimer nat | DebounceTimer

record cache =
  c_db :: cache_db
  c_me :: string
  c_state :: cache_state
  c_events :: "cache_event list"
  c_again :: bool
  c_scheduled :: bool
  c_closed :: bool
  c_retry_scheduled :: bool
  c_retry_ms :: "64 word"
  c_retry_start :: "64 word"
  c_retry_cap :: "64 word"
  c_timers :: "timer list"
  c_files_dropped :: nat

definition new_cache :: "cache_db \<Rightarrow> string \<Rightarrow> cache" where
  "new_cache db me = \<lparr>c_db = db, c_me = me,
     c_state = \<lparr>cs_syncing = False, cs_last_synced = None, cs_offline = False\<rparr>, c_events = [],
     c_again = False, c_scheduled = False, c_closed = False, c_retry_scheduled = False,
     c_retry_ms = 0, c_retry_start = 2000, c_retry_cap = 30000, c_timers = [], c_files_dropped = 0\<rparr>"

definition announce :: "cache_event \<Rightarrow> cache \<Rightarrow> cache" where
  "announce e c = c\<lparr>c_events := c_events c @ [e]\<rparr>"

definition wake_files :: "cache \<Rightarrow> cache" where
  "wake_files c = c\<lparr>c_files_dropped := Suc (c_files_dropped c)\<rparr>"

definition notices :: "applied \<Rightarrow> cache_event list" where
  "notices a =
     (if a_removed a = {} then [] else [EvRemoved (sorted_list_of_set (a_removed a))]) @
     (if a_channels a = {} then [] else [EvChannels (sorted_list_of_set (a_channels a))]) @
     (if a_users a = {} then [] else [EvUsers (sorted_list_of_set (a_users a))]) @
     (if a_dropped a = [] then [] else [EvFiles (a_dropped a)])"

definition notify :: "applied \<Rightarrow> cache \<Rightarrow> cache" where
  "notify a c =
     (let c = c\<lparr>c_events := c_events c @ notices a\<rparr>
      in if a_dropped a = [] then c else wake_files c)"

section \<open>Live events and acknowledgements\<close>

definition cursor_of :: "cache_db \<Rightarrow> int" where
  "cursor_of db = parse_i64_or_0 (db_cursor db)"

definition schedule_sync :: "cache \<Rightarrow> cache" where
  "schedule_sync c =
     (if c_closed c \<or> c_scheduled c then c
      else c\<lparr>c_scheduled := True, c_timers := c_timers c @ [DebounceTimer]\<rparr>)"

text \<open>\<open>fault\<close>: the read or the transaction on the store fails.\<close>

definition hint :: "store_error option \<Rightarrow> int \<Rightarrow> cache \<Rightarrow> cache" where
  "hint fault seq c =
     (if fault = None \<and> seq \<le> cursor_of (c_db c) then c else schedule_sync c)"

definition live_event :: "store_error option \<Rightarrow> string \<Rightarrow> json \<Rightarrow> cache \<Rightarrow> cache" where
  "live_event fault kind data c =
     (case event_batch kind data of
        Some batch \<Rightarrow>
          (case fault of
             Some _ \<Rightarrow> c
           | None \<Rightarrow>
               (let (db, a) = apply_batch (c_me c) batch (c_db c) in notify a (c\<lparr>c_db := db\<rparr>)))
      | None \<Rightarrow>
          (case jget_i64 ''seq'' data of
             Some seq \<Rightarrow> hint fault seq c
           | None \<Rightarrow> c))"

definition apply_ack ::
  "store_error option \<Rightarrow> json \<Rightarrow> cache \<Rightarrow> cache \<times> (store_error + unit)" where
  "apply_ack fault message c =
     (case message_row_of message of
        None \<Rightarrow> (c, Inl Sql)
      | Some row \<Rightarrow>
          (case fault of
             Some e \<Rightarrow> (c, Inl e)
           | None \<Rightarrow>
               (let (db, a) = apply_batch (c_me c) (empty_batch\<lparr>b_messages := [row]\<rparr>) (c_db c)
                in (notify a (c\<lparr>c_db := db\<rparr>), Inr ()))))"

section \<open>Channels and unread counts\<close>

record cached_channel =
  cc_json :: json
  cc_unread :: nat
  cc_unread_mentions :: nat
  cc_last_message_id :: "string option"

text \<open>
  \<open>coalesce(json_extract(j, '$.k'), '')\<close>; \<open>print\<close> is how SQLite writes out a value that is not
  a text (a number, an array, an object).
\<close>

definition text_of :: "(json \<Rightarrow> string) \<Rightarrow> string \<Rightarrow> json \<Rightarrow> string" where
  "text_of print k j = (case jget k j of
       None \<Rightarrow> []
     | Some JNull \<Rightarrow> []
     | Some (JStr s) \<Rightarrow> s
     | Some v \<Rightarrow> print v)"

definition unread_rule ::
  "(json \<Rightarrow> string) \<Rightarrow> string \<Rightarrow> json \<Rightarrow> string \<Rightarrow> message_row \<Rightarrow> bool" where
  "unread_rule print me my_json channel_id m \<longleftrightarrow>
     m_channel m = channel_id \<and> text_of print ''last_read_message_id'' my_json < m_id m \<and>
     text_of print ''author_id'' (m_json m) \<noteq> me \<and> \<not> row_deleted (m_json m)"

definition mentions_me :: "string \<Rightarrow> json \<Rightarrow> bool" where
  "mentions_me me j \<longleftrightarrow>
     extract_is_one ''mention_everyone'' j \<or> JStr me \<in> set (each_value ''mentions'' j)"

definition cached_channel_of ::
  "(json \<Rightarrow> string) \<Rightarrow> string \<Rightarrow> cache_db \<Rightarrow> row \<Rightarrow> json \<Rightarrow> cached_channel" where
  "cached_channel_of print me db ch my_json =
     (let unread = filter (unread_rule print me my_json (r_id ch)) (db_messages db)
      in \<lparr>cc_json = r_json ch, cc_unread = length unread,
          cc_unread_mentions = length (filter (\<lambda>m. mentions_me me (m_json m)) unread),
          cc_last_message_id =
            list_max (map m_id (filter (\<lambda>m. m_channel m = r_id ch) (db_messages db)))\<rparr>)"

definition cached_channels :: "(json \<Rightarrow> string) \<Rightarrow> string \<Rightarrow> cache_db \<Rightarrow> cached_channel list" where
  "cached_channels print me db =
     List.map_filter (\<lambda>ch. case sel mb_key (r_id ch, me) (db_memberships db) of
         None \<Rightarrow> None
       | Some my \<Rightarrow>
           if mb_left my then None else Some (cached_channel_of print me db ch (mb_json my)))
       (sort_key r_id (db_channels db))"

text \<open>Cached profiles by id, in the order asked.\<close>

definition users_by_id :: "string list \<Rightarrow> cache_db \<Rightarrow> channel_member list" where
  "users_by_id ids db =
     List.map_filter (\<lambda>i. Option.bind (sel r_id i (db_users db))
                            (\<lambda>u. parse_channel_member (r_json u))) ids"

section \<open>A page of messages\<close>

record messages_page =
  mp_messages :: "json list"
  mp_needs_network :: bool

text \<open>\<open>... WHERE channel_id = ? AND (before IS NULL OR id < before) ORDER BY id DESC LIMIT ?\<close>\<close>

definition page_rows :: "string \<Rightarrow> string option \<Rightarrow> nat \<Rightarrow> cache_db \<Rightarrow> message_row list" where
  "page_rows channel_id before limit db =
     take limit (rev (sort_key m_id
       (filter (\<lambda>m. m_channel m = channel_id \<and> (case before of None \<Rightarrow> True | Some b \<Rightarrow> m_id m < b))
         (db_messages db))))"

definition shown_deleted :: "json \<Rightarrow> bool" where
  "shown_deleted m \<longleftrightarrow> Option.bind (jget ''deleted'' m) as_bool = Some True \<or> sent_deleted m"

definition page_needs_network ::
  "coverage_row option \<Rightarrow> string option \<Rightarrow> nat \<Rightarrow> json list \<Rightarrow> bool" where
  "page_needs_network rng before limit messages =
     (case rng of
        None \<Rightarrow> True
      | Some r \<Rightarrow>
          (let edge = (case before of
                  Some b \<Rightarrow> Some b
                | None \<Rightarrow> Option.bind (find (\<lambda>m. \<not> shown_deleted m) messages) (jget_str ''id''));
               top_ok = (case edge of
                  None \<Rightarrow> True
                | Some e \<Rightarrow> (case cv_newest r of None \<Rightarrow> False | Some t \<Rightarrow> e \<le> t));
               bottom_ok = (cv_complete r \<or>
                  (limit \<le> length messages \<and> messages \<noteq> [] \<and>
                   (case (jget_str ''id'' (last messages), cv_oldest r) of
                      (Some l, Some oldest) \<Rightarrow> oldest \<le> l
                    | _ \<Rightarrow> False)))
           in \<not> (top_ok \<and> bottom_ok)))"

definition cached_messages :: "string \<Rightarrow> string option \<Rightarrow> nat \<Rightarrow> cache_db \<Rightarrow> messages_page" where
  "cached_messages channel_id before limit db =
     (let messages = map m_json (page_rows channel_id before limit db)
      in \<lparr>mp_messages = messages,
          mp_needs_network =
            page_needs_network (range_of channel_id db) before limit messages\<rparr>)"

section \<open>History\<close>

definition history_max :: nat where "history_max = 100"

definition clamp_limit :: "nat \<Rightarrow> nat" where
  "clamp_limit limit = max 1 (min limit history_max)"

text \<open>The transaction a history page lands in.\<close>

definition load_land ::
  "string \<Rightarrow> string \<Rightarrow> string option \<Rightarrow> nat \<Rightarrow> int option \<Rightarrow> int \<Rightarrow> json list \<Rightarrow> cache_db \<Rightarrow>
     cache_db \<times> applied" where
  "load_land me channel_id before limit fl asked_at rows db =
     (if db_generation db \<noteq> asked_at then (db, no_change)
      else
        (let messages = List.map_filter message_row_of rows;
             ids = map m_id messages;
             unchanged_floor = (floor_of channel_id db = fl \<and> channel_present channel_id db \<and>
                                fence_of channel_id db = None);
             (db, a) = apply_batch me (empty_batch\<lparr>b_messages := messages, b_history := True,
                          b_history_floors := [(channel_id, fl)]\<rparr>) db;
             db = (if unchanged_floor
                   then (case before of
                           None \<Rightarrow> record_head channel_id ids limit db
                         | Some b \<Rightarrow> record_older channel_id b ids limit db)
                   else db)
         in (db, a)))"

text \<open>
  \<open>load\<close>: the floor and the generation are read, the page is asked for, other tasks write
  meanwhile (\<open>others\<close>), and the answer lands. A failing read or commit is an
  \<open>UnexpectedResponse\<close>.
\<close>

record load_script =
  ld_read :: "store_error option"
  ld_answer :: "core_error + json list"
  ld_others :: "cache \<Rightarrow> cache"
  ld_commit :: "store_error option"

definition load ::
  "string \<Rightarrow> string option \<Rightarrow> nat \<Rightarrow> load_script \<Rightarrow> cache \<Rightarrow> cache \<times> (core_error + unit)" where
  "load channel_id before limit sc c =
     (case ld_read sc of
        Some _ \<Rightarrow> (c, Inl UnexpectedResponse)
      | None \<Rightarrow>
          (let fl = floor_of channel_id (c_db c);
               asked_at = db_generation (c_db c);
               limit = clamp_limit limit;
               c = ld_others sc c
           in case ld_answer sc of
                Inl e \<Rightarrow> (c, Inl e)
              | Inr rows \<Rightarrow>
                  (case ld_commit sc of
                     Some _ \<Rightarrow> (c, Inl UnexpectedResponse)
                   | None \<Rightarrow>
                       (let (db, a) = load_land (c_me c) channel_id before limit fl asked_at rows (c_db c);
                            a = a\<lparr>a_channels := insert channel_id (a_channels a)\<rparr>
                        in (notify a (c\<lparr>c_db := db\<rparr>), Inr ())))))"

definition load_head :: "string \<Rightarrow> nat \<Rightarrow> load_script \<Rightarrow> cache \<Rightarrow> cache \<times> (core_error + unit)" where
  "load_head channel_id limit sc c = load channel_id None limit sc c"

text \<open>\<open>between\<close>: what other tasks write between the read of the range and the load's own read.\<close>

definition load_older ::
  "string \<Rightarrow> nat \<Rightarrow> store_error option \<Rightarrow> (cache \<Rightarrow> cache) \<Rightarrow> load_script \<Rightarrow> cache \<Rightarrow>
     cache \<times> (core_error + unit)" where
  "load_older channel_id limit fault between sc c =
     (case fault of
        Some _ \<Rightarrow> (c, Inl UnexpectedResponse)
      | None \<Rightarrow>
          load channel_id (Option.bind (range_of channel_id (c_db c)) cv_oldest) limit sc (between c))"

end
