(* ===== verification/Cache_Front_Facts.thy ===== *)
theory Cache_Front_Facts
  imports Cache_Front
begin

text \<open>
  What the reads and the history pages give: a page that needs no network has no gap, a history
  page extends coverage only with what it proved, and a stale answer lands nothing.
\<close>

section \<open>The rows of a page\<close>

lemma sorted_rev_take:
  assumes "x \<in> set xs" and "n \<le> length xs \<Longrightarrow> n \<noteq> 0 \<and> f (last (take n (rev (sort_key f xs)))) \<le> f x"
  shows "f x \<in> f ` set (take n (rev (sort_key f xs)))"
proof -
  let ?ys = "rev (sort_key f xs)"
  have len: "length ?ys = length xs" by simp
  have desc: "f (?ys ! j) \<le> f (?ys ! i)" if "i \<le> j" "j < length xs" for i j
    using sorted_nth_mono [OF sorted_sort_key [of f xs], of "length xs - Suc j" "length xs - Suc i"] that
    by (simp add: rev_nth)
  from assms(1) obtain k where k: "k < length xs" "?ys ! k = x"
    by (metis in_set_conv_nth len set_rev set_sort)
  show ?thesis
  proof (cases "k < n")
    case True
    with k len have "x \<in> set (take n ?ys)" by (auto simp: in_set_conv_nth intro!: exI [of _ k])
    then show ?thesis by blast
  next
    case False
    then have n: "n \<le> length xs" "n \<le> k" using k by simp_all
    with assms(2) have n0: "n \<noteq> 0" and le: "f (last (take n ?ys)) \<le> f x" by simp_all
    have ln: "length (take n ?ys) = n" using n by simp
    then have ne: "take n ?ys \<noteq> []" using n0 by (metis list.size(3))
    have last: "last (take n ?ys) = ?ys ! (n - 1)"
      using last_conv_nth [OF ne] ln n0 by simp
    have "f x \<le> f (?ys ! (n - 1))" using desc [of "n - 1" k] n k by simp
    with le last have "f x = f (last (take n ?ys))" by simp
    moreover have "last (take n ?ys) \<in> set (take n ?ys)"
      by (rule last_in_set [OF ne])
    ultimately show ?thesis by auto
  qed
qed

lemma page_rows_in:
  "m \<in> set (page_rows c before limit db) \<Longrightarrow>
     m \<in> set (db_messages db) \<and> m_channel m = c \<and> (\<forall>b. before = Some b \<longrightarrow> m_id m < b)"
  unfolding page_rows_def by (drule in_set_takeD) (auto split: option.splits)

lemma page_rows_length: "length (page_rows c before limit db) \<le> limit"
  by (simp add: page_rows_def)

lemma page_rows_desc: "sorted_wrt (\<lambda>x y. m_id y \<le> m_id x) (page_rows c before limit db)"
proof -
  have "sorted_wrt (\<lambda>x y. f x \<le> f y) (sort_key f xs)" for f :: "message_row \<Rightarrow> string" and xs
    using sorted_sort_key [of f xs] by (simp add: sorted_wrt_map)
  then show ?thesis by (simp add: page_rows_def sorted_wrt_take sorted_wrt_rev)
qed

text \<open>Every row's JSON says the row's id: what \<open>message_row\<close> makes, and no statement changes.\<close>

definition rows_named :: "cache_db \<Rightarrow> bool" where
  "rows_named db \<longleftrightarrow> (\<forall>m \<in> set (db_messages db). jget_str ''id'' (m_json m) = Some (m_id m))"

lemma rows_named_same:
  assumes "list_all2 same_but_quote xs ys"
  shows "(\<forall>m \<in> set xs. jget_str ''id'' (m_json m) = Some (m_id m)) =
    (\<forall>m \<in> set ys. jget_str ''id'' (m_json m) = Some (m_id m))"
  using assms by (induction rule: list_all2_induct) (auto simp: same_but_quote_def jget_str_def)

lemma rows_named_landed:
  assumes "rows_named db" and "jget_str ''id'' (m_json m) = Some (m_id m)"
  shows "rows_named (landed h m db)"
  using assms rows_named_same [OF landed_rows, of m db h]
  by (auto simp: rows_named_def upsert_message_def dest!: set_upsert)

lemma rows_named_buried:
  assumes "rows_named db"
  shows "rows_named (buried i c q db)"
proof -
  have "jget_str ''id'' (tombstone_patch q j) = jget_str ''id'' j" for j
    by (simp add: jget_str_def tombstone_patch_def jget_jremove)
  moreover have "jget_str ''id'' (partial_tombstone i c q) = Some i"
    by (simp add: jget_str_def partial_tombstone_def)
  ultimately have "\<forall>m \<in> set (tombstone_rows i c q (db_messages db)). jget_str ''id'' (m_json m) = Some (m_id m)"
    using assms by (auto simp: rows_named_def dest!: set_tombstone_rows)
  then show ?thesis unfolding rows_named_def using rows_named_same [OF buried_rows, of i c q db] by blast
qed

lemma rows_named_cong: "db_messages d = db_messages d' \<Longrightarrow> rows_named d = rows_named d'"
  by (simp add: rows_named_def)

lemma rows_named_apply_batch:
  assumes "rows_named db" and "\<And>m. m \<in> set (b_messages b) \<Longrightarrow> jget_str ''id'' (m_json m) = Some (m_id m)"
  shows "rows_named (fst (apply_batch me b db))"
proof (rule apply_batch_invariant [where P = "\<lambda>s. rows_named (fst s)"])
  show "rows_named (fst (apply_tombstone t s))" if "rows_named (fst s)" for t and s :: apply_state
    using that by (cases t) (auto simp: apply_tombstone_db rows_named_buried)
  show "rows_named (fst (apply_removed me r s))" if "rows_named (fst s)" for r and s :: apply_state
    using that by (auto simp: apply_removed_db rows_named_def fence_up_def)
qed (auto simp: assms apply_message_db rows_named_landed rows_named_cong [OF apply_own_frame(5)]
    rows_named_cong [OF apply_channel_frame(6)] rows_named_cong [OF apply_member_frame(6)]
    rows_named_cong [OF apply_left_frame(6)] rows_named_cong [OF apply_user_frame(6)])

section \<open>A page that needs no network\<close>

definition cached_ids :: "cache_db \<Rightarrow> string \<Rightarrow> string set" where
  "cached_ids db c = {i. \<exists>q. message_seq i db = Some (c, q)}"

lemma cached_ids_row: "i \<in> cached_ids db c \<Longrightarrow> \<exists>m \<in> set (db_messages db). m_id m = i \<and> m_channel m = c"
  by (auto simp: cached_ids_def message_seq_def dest: sel_Some_in)

lemma cached_page_complete:
  assumes cov: "covered H (cached_ids db) db" and named: "rows_named db"
    and net: "\<not> mp_needs_network (cached_messages c before limit db)"
    and r: "range_of c db = Some r" "cv_newest r = Some t"
    and h: "h \<in> H c" "h \<le> t" "\<And>b. before = Some b \<Longrightarrow> h < b"
    and full: "length (page_rows c before limit db) = limit \<Longrightarrow>
      limit \<noteq> 0 \<and> m_id (last (page_rows c before limit db)) \<le> h"
  shows "h \<in> m_id ` set (page_rows c before limit db)"
proof -
  let ?p = "page_rows c before limit db"
  let ?all = "filter (\<lambda>m. m_channel m = c \<and> (case before of None \<Rightarrow> True | Some b \<Rightarrow> m_id m < b)) (db_messages db)"
  have bottom: "cv_complete r \<or> (limit \<le> length ?p \<and> ?p \<noteq> [] \<and>
      (\<exists>l o'. jget_str ''id'' (m_json (last ?p)) = Some l \<and> cv_oldest r = Some o' \<and> o' \<le> l))"
    using net r by (auto simp: cached_messages_def page_needs_network_def Let_def last_map split: option.splits)
  have named_last: "?p \<noteq> [] \<Longrightarrow> jget_str ''id'' (m_json (last ?p)) = Some (m_id (last ?p))"
    using named page_rows_in [OF last_in_set, of c before limit db] by (auto simp: rows_named_def)
  have ok: "range_ok (H c) (cached_ids db c) r" using cov r(1) by (simp add: covered_def)
  then obtain o' where o': "cv_oldest r = Some o'" using r(2)
    by (auto simp: range_ok_def range_wf_def split: option.splits)
  have "o' \<le> h"
  proof (cases "cv_complete r")
    case True
    then show ?thesis using ok o' r(2) h by (auto simp: range_ok_def covers_def)
  next
    case False
    with bottom named_last o' have "limit \<le> length ?p" "o' \<le> m_id (last ?p)" by auto
    with full page_rows_length [of c before limit db] show ?thesis by (metis le_antisym order_trans)
  qed
  then have "h \<in> cached_ids db c" using ok o' r(2) h by (auto simp: range_ok_def covers_def)
  then obtain m where m: "m \<in> set (db_messages db)" "m_id m = h" "m_channel m = c"
    using cached_ids_row by blast
  then have "m \<in> set ?all" using h(3) by (auto split: option.splits)
  then have "m_id m \<in> m_id ` set (take limit (rev (sort_key m_id ?all)))"
  proof (rule sorted_rev_take)
    assume "limit \<le> length ?all"
    then have "length ?p = limit" by (simp add: page_rows_def)
    with full m(2) show "limit \<noteq> 0 \<and> m_id (last (take limit (rev (sort_key m_id ?all)))) \<le> m_id m"
      by (simp add: page_rows_def)
  qed
  then show ?thesis by (simp add: page_rows_def m(2))
qed

text \<open>
  The span of a page: below the row it was asked before; for the newest page, up to the top of the
  channel's range, and up to every row of the page that is not deleted.
\<close>

definition in_page_span :: "string \<Rightarrow> string option \<Rightarrow> nat \<Rightarrow> cache_db \<Rightarrow> string \<Rightarrow> bool" where
  "in_page_span c before limit db h \<longleftrightarrow>
     (case before of
        Some b \<Rightarrow> h < b
      | None \<Rightarrow>
          (case Option.bind (range_of c db) cv_newest of Some t \<Rightarrow> h \<le> t | None \<Rightarrow> False)
          \<or> list_ex (\<lambda>m. \<not> shown_deleted (m_json m) \<and> h \<le> m_id m) (page_rows c None limit db))"

lemma first_shown:
  assumes "sorted_wrt (\<lambda>x y. m_id y \<le> m_id x) ms" "x \<in> set ms" "\<not> shown_deleted (m_json x)"
    and "\<And>m. m \<in> set ms \<Longrightarrow> jget_str ''id'' (m_json m) = Some (m_id m)"
  shows "\<exists>e. Option.bind (find (\<lambda>j. \<not> shown_deleted j) (map m_json ms)) (jget_str ''id'') = Some e \<and> m_id x \<le> e"
  using assms
proof (induction ms)
  case (Cons m ms)
  show ?case
  proof (cases "shown_deleted (m_json m)")
    case False
    have "m_id x \<le> m_id m" using Cons.prems(1,2) by auto
    then show ?thesis using False Cons.prems(4)[of m] by simp
  next
    case True
    then show ?thesis using Cons by auto
  qed
qed simp

text \<open>The check of the top is what makes the span end at the range's top.\<close>

lemma page_span_below_top:
  assumes named: "rows_named db" and net: "\<not> mp_needs_network (cached_messages c before limit db)"
    and span: "in_page_span c before limit db h"
  shows "\<exists>r t. range_of c db = Some r \<and> cv_newest r = Some t \<and> h \<le> t"
proof -
  obtain r where r: "range_of c db = Some r"
    using net by (cases "range_of c db") (simp_all add: cached_messages_def page_needs_network_def)
  let ?ms = "map m_json (page_rows c before limit db)"
  let ?edge = "case before of Some b \<Rightarrow> Some b
    | None \<Rightarrow> Option.bind (find (\<lambda>m. \<not> shown_deleted m) ?ms) (jget_str ''id'')"
  have top: "\<exists>t. cv_newest r = Some t \<and> e \<le> t" if "?edge = Some e" for e
    using net r that by (auto simp: cached_messages_def page_needs_network_def Let_def split: option.splits)
  show ?thesis
  proof (cases before)
    case (Some b)
    then have "h < b" using span by (simp add: in_page_span_def)
    then show ?thesis using top[of b] Some r by (auto intro: less_imp_le order_trans)
  next
    case None
    show ?thesis
    proof (cases "\<exists>m \<in> set (page_rows c None limit db). \<not> shown_deleted (m_json m) \<and> h \<le> m_id m")
      case True
      then obtain m where m: "m \<in> set (page_rows c None limit db)" "\<not> shown_deleted (m_json m)" "h \<le> m_id m" by blast
      have "jget_str ''id'' (m_json x) = Some (m_id x)" if "x \<in> set (page_rows c None limit db)" for x
        using named page_rows_in[OF that] by (auto simp: rows_named_def)
      then obtain e where e: "?edge = Some e" "m_id m \<le> e"
        using first_shown[OF page_rows_desc m(1,2)] None by auto
      then show ?thesis using top[OF e(1)] m(3) r by (auto intro: order_trans)
    next
      case False
      then show ?thesis using span None r by (auto simp: in_page_span_def list_ex_iff split: option.splits)
    qed
  qed
qed

lemma cached_page_whole:
  assumes "covered H (cached_ids db) db" and "rows_named db"
    and "\<not> mp_needs_network (cached_messages c before limit db)"
    and "h \<in> H c" and "in_page_span c before limit db h"
    and "length (page_rows c before limit db) = limit \<Longrightarrow>
      limit \<noteq> 0 \<and> m_id (last (page_rows c before limit db)) \<le> h"
  shows "h \<in> m_id ` set (page_rows c before limit db)"
proof -
  obtain r t where r: "range_of c db = Some r" "cv_newest r = Some t" "h \<le> t"
    using page_span_below_top[OF assms(2,3,5)] by blast
  have "before = Some b \<Longrightarrow> h < b" for b using assms(5) by (simp add: in_page_span_def)
  then show ?thesis using cached_page_complete[OF assms(1-3) r(1,2) assms(4) r(3) _ assms(6)] by blast
qed


section \<open>A history page\<close>

text \<open>Which messages a step leaves findable, and where.\<close>

lemma message_seq_landed:
  "message_seq i (landed h m db) =
     map_option (\<lambda>x. (m_channel x, m_seq x)) (sel m_id i (fst (upsert_message m (db_messages db))))"
  by (rule message_seq_same [OF landed_rows])

lemma message_seq_upsert:
  "map_option (\<lambda>x. (m_channel x, m_seq x)) (sel m_id i (fst (upsert_message m (db_messages db)))) =
     (if i \<noteq> m_id m then message_seq i db
      else case message_seq i db of None \<Rightarrow> Some (m_channel m, m_seq m)
           | Some (c, q) \<Rightarrow> Some (c, max q (m_seq m)))"
  by (auto simp: message_seq_def upsert_message_def sel_upsert replaces_def max_def split: option.splits)

lemma cached_ids_message:
  "cached_ids (fst s) c \<subseteq> cached_ids (fst (apply_message h fl m s)) c"
  by (auto simp: cached_ids_def apply_message_db message_seq_landed message_seq_upsert split: option.splits)

text \<open>A message never moves: a cached id is cached in the channel it arrives for.\<close>

definition unmoved :: "message_row list \<Rightarrow> string \<Rightarrow> cache_db \<Rightarrow> bool" where
  "unmoved ms c db \<longleftrightarrow>
     (\<forall>m \<in> set ms. m_channel m = c \<and> (\<forall>c' q. message_seq (m_id m) db = Some (c', q) \<longrightarrow> c' = c))"

lemma unmoved_message:
  assumes "unmoved ms c (fst s)" and "m \<in> set ms"
  shows "unmoved ms c (fst (apply_message h fl m s))"
  using assms
  by (fastforce simp: unmoved_def apply_message_db message_seq_landed message_seq_upsert split: option.splits)

definition ready :: "string \<Rightarrow> int option \<Rightarrow> cache_db \<Rightarrow> bool" where
  "ready c fl db \<longleftrightarrow> floor_of c db = fl \<and> channel_present c db \<and> fence_of c db = None"

lemma ready_message [simp]: "ready c fl (fst (apply_message h fls m s)) = ready c fl (fst s)"
  by (simp add: ready_def floor_of_def fence_of_def channel_present_def)

lemma history_message_lands:
  assumes "ready c fl (fst s)" and "unmoved ms c (fst s)" and "m \<in> set ms"
  shows "m_id m \<in> cached_ids (fst (apply_message True [(c, fl)] m s)) c"
proof -
  have c: "m_channel m = c" using assms(2,3) by (auto simp: unmoved_def)
  have may: "message_may_land c (m_seq m) True (fst s)" and asked: "asked_floor [(c, fl)] c = floor_of c (fst s)"
    using assms(1) by (simp_all add: ready_def message_may_land_def fenced_at_or_above_def at_or_below_def
        asked_floor_def)
  show ?thesis
  proof (cases "message_lands True [(c, fl)] m (fst s)")
    case True
    then show ?thesis
      using assms(2,3) c by (auto simp: cached_ids_def apply_message_db message_seq_landed message_seq_upsert
          unmoved_def split: option.splits)
  next
    case False
    with may asked c have "\<not> snd (upsert_message m (db_messages (fst s)))"
      by (simp add: message_lands_def)
    then obtain x where "sel m_id (m_id m) (db_messages (fst s)) = Some x"
      by (auto simp: upsert_message_def upsert_changed split: option.splits)
    then have "message_seq (m_id m) (fst s) = Some (m_channel x, m_seq x)" by (simp add: message_seq_def)
    moreover from this assms(2,3) have "m_channel x = c" by (auto simp: unmoved_def)
    ultimately show ?thesis using False by (simp add: cached_ids_def apply_message_db)
  qed
qed

lemma history_batch:
  "apply_batch me (empty_batch\<lparr>b_messages := ms, b_history := True, b_history_floors := fl\<rparr>) db =
     fold (apply_message True fl) ms (db, no_change)"
  by (simp add: apply_batch_def empty_batch_def)

lemma history_lands:
  assumes "ready c fl db" and "unmoved ms c db"
  defines "d \<equiv> fst (fold (apply_message True [(c, fl)]) ms (db, no_change))"
  shows "m_id ` set ms \<subseteq> cached_ids d c" and "\<And>c'. cached_ids db c' \<subseteq> cached_ids d c'"
    and "db_coverage d = db_coverage db"
proof -
  let ?f = "apply_message True [(c, fl)]"
  have "(ready c fl (fst s) \<and> unmoved ms c (fst s)) \<and> (\<forall>m \<in> set ms. m_id m \<in> cached_ids (fst s) c)"
    if "s = fold ?f ms (db, no_change)" for s
    unfolding that
    by (rule fold_settled [where I = "\<lambda>s. ready c fl (fst s) \<and> unmoved ms c (fst s)"])
      (auto simp: assms(1,2) history_message_lands unmoved_message intro: subsetD [OF cached_ids_message])
  then show "m_id ` set ms \<subseteq> cached_ids d c" by (auto simp: d_def)
  show "cached_ids db c' \<subseteq> cached_ids d c'" for c'
    unfolding d_def by (rule fold_invariant [where Q = "\<lambda>_. True" and P = "\<lambda>s. cached_ids db c' \<subseteq> cached_ids (fst s) c'"])
      (auto intro: subsetD [OF cached_ids_message])
  show "db_coverage d = db_coverage db"
    unfolding d_def by (rule fold_invariant [where Q = "\<lambda>_. True" and P = "\<lambda>s. db_coverage (fst s) = db_coverage db"])
      auto
qed

lemma load_land_db:
  "fst (load_land me c before limit fl asked_at rows db) =
     (if db_generation db \<noteq> asked_at then db
      else let ms = List.map_filter message_row_of rows;
               d = fst (fold (apply_message True [(c, fl)]) ms (db, no_change))
           in if ready c fl db
              then (case before of None \<Rightarrow> record_head c (map m_id ms) limit d
                    | Some b \<Rightarrow> record_older c b (map m_id ms) limit d)
              else d)"
  by (auto simp: load_land_def ready_def history_batch Let_def split_def split: option.splits)

lemma load_land_covered:
  assumes cov: "covered H (cached_ids db) db"
    and moved: "unmoved (List.map_filter message_row_of rows) c db"
    and head: "before = None \<Longrightarrow> head_page (H c) H0 (map m_id (List.map_filter message_row_of rows)) limit"
    and older: "\<And>b. before = Some b \<Longrightarrow> older_page (H c) b (map m_id (List.map_filter message_row_of rows)) limit"
  shows "covered H (cached_ids (fst (load_land me c before limit fl asked_at rows db)))
     (fst (load_land me c before limit fl asked_at rows db))"
proof (cases "db_generation db = asked_at")
  case True
  let ?ms = "List.map_filter message_row_of rows"
  let ?d = "fst (fold (apply_message True [(c, fl)]) ?ms (db, no_change))"
  have ids: "\<And>c'. cached_ids db c' \<subseteq> cached_ids ?d c'" and cover: "db_coverage ?d = db_coverage db"
  proof -
    show "cached_ids db c' \<subseteq> cached_ids ?d c'" for c'
      by (rule fold_invariant [where Q = "\<lambda>_. True" and P = "\<lambda>s. cached_ids db c' \<subseteq> cached_ids (fst s) c'"])
        (auto intro: subsetD [OF cached_ids_message])
    show "db_coverage ?d = db_coverage db"
      by (rule fold_invariant [where Q = "\<lambda>_. True" and P = "\<lambda>s. db_coverage (fst s) = db_coverage db"])
        auto
  qed
  have "covered H (cached_ids ?d) db" by (rule covered_mono [OF cov ids])
  then have kept: "covered H (cached_ids ?d) ?d" by (simp add: covered_def range_of_def cover)
  show ?thesis
  proof (cases "ready c fl db")
    case False
    with True kept show ?thesis by (simp add: load_land_db Let_def)
  next
    case ready: True
    have set: "set (map m_id ?ms) \<subseteq> cached_ids ?d c"
      using history_lands(1) [OF ready moved] by simp
    show ?thesis
    proof (cases before)
      case None
      have "cached_ids (record_head c x l ?d) = cached_ids ?d" for x l
        by (simp add: cached_ids_def message_seq_def fun_eq_iff)
      then show ?thesis
        using record_head_covered [OF kept head [OF None] set] True ready None
        by (simp add: load_land_db Let_def)
    next
      case (Some b)
      have "cached_ids (record_older c b x l ?d) = cached_ids ?d" for x l
        by (simp add: cached_ids_def message_seq_def fun_eq_iff)
      then show ?thesis
        using record_older_covered [OF kept older [OF Some] set] True ready Some
        by (simp add: load_land_db Let_def)
    qed
  qed
qed (use cov in \<open>simp add: load_land_db\<close>)

text \<open>An answer asked for before a reset, or before a removal of the channel, lands nothing.\<close>

lemma load_land_stale_generation:
  "db_generation db \<noteq> asked_at \<Longrightarrow> load_land me c before limit fl asked_at rows db = (db, no_change)"
  by (simp add: load_land_def)

lemma load_land_stale_floor:
  assumes "floor_of c db \<noteq> fl" and "\<And>v m. v \<in> set rows \<Longrightarrow> message_row_of v = Some m \<Longrightarrow> m_channel m = c"
  shows "fst (load_land me c before limit fl asked_at rows db) = db"
proof -
  have "m_channel m = c" if "m \<in> set (List.map_filter message_row_of rows)" for m
    using that assms(2) by (auto simp: List.map_filter_def)
  then have "fst (fold (apply_message True [(c, fl)]) (List.map_filter message_row_of rows) (db, no_change)) = db"
    using assms(1) by (intro fold_fst_noop) (auto simp: apply_message_db message_lands_def asked_floor_def)
  then show ?thesis using assms(1) by (simp add: load_land_db ready_def Let_def)
qed

text \<open>
  The count a page is measured by is that of its readable rows: one unreadable row in a full page
  makes it short, and the range then claims to reach the start.
\<close>

lemma load_land_unreadable:
  assumes "db_generation db = asked_at" and "ready c fl db" and "range_of c db = None"
    and "length (List.map_filter message_row_of rows) < limit"
  shows "\<exists>r. range_of c (fst (load_land me c None limit fl asked_at rows db)) = Some r \<and> cv_complete r"
proof -
  let ?ms = "List.map_filter message_row_of rows"
  have "db_coverage (fst (fold (apply_message True [(c, fl)]) ?ms (db, no_change))) = db_coverage db"
    by (rule fold_invariant [where Q = "\<lambda>_. True" and P = "\<lambda>s. db_coverage (fst s) = db_coverage db"]) auto
  then have "range_of c (fst (fold (apply_message True [(c, fl)]) ?ms (db, no_change))) = None"
    using assms(3) by (simp add: range_of_def)
  then show ?thesis
    using assms(1,2,4) by (auto simp: load_land_db Let_def range_of_record_head split: option.splits)
qed

end
