(* ===== verification/Cache_Syncing.thy ===== *)
theory Cache_Syncing
  imports Cache_Front_Facts
begin

text \<open>
  \<open>core/src/cache.rs\<close>, the triggers: \<open>sync_now\<close> and its single flight, one run and its outcome,
  the reset, the retry and debounce timers, and closing. A run is driven by a script, as the
  sync loop is; the flags several callers race on are a step relation of their own.
\<close>

section \<open>Waiting\<close>

text \<open>\<open>u64\<close>: the doubling wraps in a release build; the cap keeps it far from that.\<close>

definition retry_delay :: "64 word \<Rightarrow> 64 word \<Rightarrow> 64 word \<Rightarrow> 64 word" where
  "retry_delay last_wait start cap = (if last_wait = 0 then start else min (last_wait * 2) cap)"

fun is_network_failure :: "sync_error \<Rightarrow> bool" where
  "is_network_failure (Net (Http _)) = True"
| "is_network_failure (Net Timeout) = True"
| "is_network_failure (Net Disconnected) = True"
| "is_network_failure _ = False"

definition schedule_retry :: "cache \<Rightarrow> cache" where
  "schedule_retry c =
     (if c_closed c \<or> c_retry_scheduled c then c
      else (let wait = retry_delay (c_retry_ms c) (c_retry_start c) (c_retry_cap c)
            in c\<lparr>c_retry_scheduled := True, c_retry_ms := wait,
                 c_timers := c_timers c @ [RetryTimer (unat wait)]\<rparr>))"

section \<open>One run\<close>

definition reset_db :: "cache_db \<Rightarrow> cache_db" where
  "reset_db db =
     (let db = fst (drop_all db)
      in db\<lparr>db_channels := [], db_removed := [], db_memberships := [], db_users := [],
            db_messages := [], db_coverage := [], db_cursor := ''0'',
            db_generation := db_generation db + 1\<rparr>)"

definition reset_rows :: "store_error option \<Rightarrow> cache \<Rightarrow> cache \<times> (store_error + string)" where
  "reset_rows fault c =
     (case fault of
        Some e \<Rightarrow> (c, Inl e)
      | None \<Rightarrow> (wake_files (c\<lparr>c_db := reset_db (c_db c)\<rparr>), Inr (db_cursor (c_db c))))"

record run_script =
  run_rounds :: "round list"
  run_reset :: "store_error option"
  run_now :: nat
  run_asked :: bool

definition set_syncing :: "bool \<Rightarrow> cache \<Rightarrow> cache" where
  "set_syncing b c = c\<lparr>c_state := (c_state c)\<lparr>cs_syncing := b\<rparr>\<rparr>"

definition network_failure :: "sync_error + 'a \<Rightarrow> bool" where
  "network_failure r = (case r of Inl e \<Rightarrow> is_network_failure e | Inr _ \<Rightarrow> False)"

text \<open>The published state after a run: offline only when the server could not be reached.\<close>

definition after_run :: "nat \<Rightarrow> sync_error + synced \<Rightarrow> cache \<Rightarrow> cache" where
  "after_run now result c =
     (let st = (c_state c)\<lparr>cs_offline := network_failure result\<rparr>
      in if isl result then c\<lparr>c_state := st\<rparr>
         else c\<lparr>c_state := st\<lparr>cs_last_synced := Some now\<rparr>, c_retry_ms := 0\<rparr>)"

text \<open>
  \<open>run_once\<close>: what the committed pages changed is announced however the run ends, before the
  outcome's own event; \<open>syncing\<close> goes back to false however it ends. \<open>None\<close>: still fetching when
  the script ends (a run cancelled there announces the same).
\<close>

definition run_once :: "run_script \<Rightarrow> cache \<Rightarrow> cache \<times> (sync_error + unit) option" where
  "run_once sc c =
     (let c = set_syncing True c;
          (db, changed, result) = run_into (c_me c) (run_rounds sc) (c_db c) no_change;
          c = c\<lparr>c_db := db\<rparr>
      in case result of
           None \<Rightarrow> (set_syncing False (notify changed c), None)
         | Some res \<Rightarrow>
             (let c = notify changed (after_run (run_now sc) res c)
              in case res of
                   Inl e \<Rightarrow> (set_syncing False c, Some (Inl e))
                 | Inr SyncDone \<Rightarrow> (set_syncing False c, Some (Inr ()))
                 | Inr SyncReset \<Rightarrow>
                     (case reset_rows (run_reset sc) c of
                        (c, Inl e) \<Rightarrow> (set_syncing False c, Some (Inl (StoreErr e)))
                      | (c, Inr was) \<Rightarrow>
                          (let c = announce EvReset c;
                               c = (if was \<noteq> ''0'' then c\<lparr>c_again := True\<rparr> else c)
                           in (set_syncing False c, Some (Inr ()))))))"

section \<open>Sync until caught up\<close>

text \<open>
  The owner of the lock: it runs while it is asked to, and checks once more after letting go.
  \<open>run_asked\<close> is a request that arrived during that run.
\<close>

fun owner_loop :: "run_script list \<Rightarrow> cache \<Rightarrow> sync_error + unit \<Rightarrow> cache \<times> (sync_error + unit) option"
where
  "owner_loop [] c result = (if c_again c then (c, None) else (c, Some result))"
| "owner_loop (sc # scs) c result =
     (if \<not> c_again c then (c, Some result)
      else (case run_once sc (c\<lparr>c_again := False\<rparr>) of
              (c, None) \<Rightarrow> (c, None)
            | (c, Some r) \<Rightarrow> owner_loop scs (c\<lparr>c_again := c_again c \<or> run_asked sc\<rparr>) r))"

definition sync_now :: "run_script list \<Rightarrow> cache \<Rightarrow> cache \<times> (sync_error + unit) option" where
  "sync_now scs c =
     (if c_closed c then (c, Some (Inr ()))
      else (case owner_loop scs (c\<lparr>c_again := True\<rparr>) (Inr ()) of
              (c, None) \<Rightarrow> (c, None)
            | (c, Some r) \<Rightarrow> (if network_failure r then schedule_retry c else c, Some r)))"

text \<open>The two timers.\<close>

definition retry_fires :: "run_script list \<Rightarrow> cache \<Rightarrow> cache" where
  "retry_fires scs c =
     (let c = c\<lparr>c_retry_scheduled := False\<rparr>
      in if cs_offline (c_state c) then fst (sync_now scs c) else c)"

definition debounce_fires :: "run_script list \<Rightarrow> cache \<Rightarrow> cache" where
  "debounce_fires scs c = fst (sync_now scs (c\<lparr>c_scheduled := False\<rparr>))"

text \<open>\<open>close\<close>: the timers are aborted; from then on nothing is scheduled and nothing runs.\<close>

definition close_cache :: "cache \<Rightarrow> cache" where
  "close_cache c = c\<lparr>c_closed := True, c_timers := []\<rparr>"

section \<open>Facts of one run\<close>

lemma retry_delay_capped:
  assumes "start \<le> cap" and "last_wait \<le> cap"
  shows "retry_delay last_wait start cap \<le> cap"
  using assms by (simp add: retry_delay_def)

text \<open>
  Without the wrap (the cap is below \<open>2^63\<close> ms) a wait doubles until it is the cap: it never
  shrinks while failures last.
\<close>

lemma retry_delay_grows:
  assumes "last_wait \<noteq> 0" and "last_wait \<le> cap" and "cap < 2 ^ 63"
  shows "unat (retry_delay last_wait start cap) = min (2 * unat last_wait) (unat cap)"
    and "last_wait \<le> retry_delay last_wait start cap"
proof -
  have cap: "unat cap < 2 ^ 63" using assms(3) by (simp add: word_less_nat_alt)
  have le: "unat last_wait \<le> unat cap" using assms(2) by (simp add: word_le_nat_alt)
  have dbl: "unat (last_wait * 2) = 2 * unat last_wait"
    using cap le by (simp add: unat_word_ariths)
  show *: "unat (retry_delay last_wait start cap) = min (2 * unat last_wait) (unat cap)"
    using assms(1) dbl by (auto simp: retry_delay_def min_def word_le_nat_alt)
  show "last_wait \<le> retry_delay last_wait start cap"
    using le by (simp add: word_le_nat_alt *)
qed

lemma notify_frame [simp]:
  "c_db (notify a c) = c_db c" "c_state (notify a c) = c_state c" "c_again (notify a c) = c_again c"
  "c_retry_ms (notify a c) = c_retry_ms c" "c_closed (notify a c) = c_closed c"
  "c_me (notify a c) = c_me c" "c_timers (notify a c) = c_timers c"
  "c_retry_start (notify a c) = c_retry_start c" "c_retry_cap (notify a c) = c_retry_cap c"
  "c_events (notify a c) = c_events c @ notices a"
  by (simp_all add: notify_def wake_files_def Let_def)

lemma reset_db_fields [simp]:
  "db_channels (reset_db db) = []" "db_removed (reset_db db) = []" "db_memberships (reset_db db) = []"
  "db_users (reset_db db) = []" "db_messages (reset_db db) = []" "db_coverage (reset_db db) = []"
  "db_message_files (reset_db db) = []" "db_cursor (reset_db db) = ''0''"
  "db_generation (reset_db db) = db_generation db + 1"
  by (simp_all add: reset_db_def Let_def drop_all_def)

lemma run_once_not_syncing: "\<not> cs_syncing (c_state (fst (run_once sc c)))"
  by (auto simp: run_once_def set_syncing_def Let_def split_def split: option.splits sum.splits synced.splits)

lemma run_once_offline:
  assumes "run_into (c_me c) (run_rounds sc) (c_db c) no_change = (db, changed, Some res)"
  shows "cs_offline (c_state (fst (run_once sc c))) = network_failure res"
  using assms
  by (auto simp: run_once_def set_syncing_def after_run_def reset_rows_def announce_def wake_files_def
      Let_def split_def split: option.splits sum.splits synced.splits)

lemma run_once_events:
  assumes "run_into (c_me c) (run_rounds sc) (c_db c) no_change = (db, changed, r)"
  shows "\<exists>es. c_events (fst (run_once sc c)) = c_events c @ notices changed @ es \<and> set es \<subseteq> {EvReset}"
  using assms
  by (auto simp: run_once_def set_syncing_def after_run_def reset_rows_def announce_def wake_files_def
      Let_def split_def split: option.splits sum.splits synced.splits)

text \<open>A reset: the rows go, a history page asked for earlier is stale, and the sync starts over.\<close>

lemma run_once_reset:
  assumes "run_into (c_me c) (run_rounds sc) (c_db c) no_change = (db, changed, Some (Inr SyncReset))"
    and "run_reset sc = None"
  shows "c_db (fst (run_once sc c)) = reset_db db"
    and "c_again (fst (run_once sc c)) = (c_again c \<or> db_cursor db \<noteq> ''0'')"
    and "snd (run_once sc c) = Some (Inr ())"
  using assms
  by (auto simp: run_once_def set_syncing_def after_run_def reset_rows_def announce_def wake_files_def
      Let_def split_def)

text \<open>A run leaves alone what it does not own.\<close>

lemma run_once_frame [simp]:
  "c_closed (fst (run_once sc c)) = c_closed c" "c_retry_start (fst (run_once sc c)) = c_retry_start c"
  "c_retry_cap (fst (run_once sc c)) = c_retry_cap c" "c_timers (fst (run_once sc c)) = c_timers c"
  "c_retry_scheduled (fst (run_once sc c)) = c_retry_scheduled c" "c_me (fst (run_once sc c)) = c_me c"
  by (auto simp: run_once_def set_syncing_def after_run_def reset_rows_def announce_def wake_files_def
      notify_def Let_def split_def split: option.splits sum.splits synced.splits)

lemma closed_stays_quiet:
  "c_closed c \<Longrightarrow> sync_now scs c = (c, Some (Inr ()))"
  "c_closed c \<Longrightarrow> schedule_retry c = c"
  "c_closed c \<Longrightarrow> schedule_sync c = c"
  by (simp_all add: sync_now_def schedule_retry_def schedule_sync_def)

text \<open>A sync that returned left no request behind.\<close>

lemma owner_loop_serves:
  "owner_loop scs c r = (c', Some r') \<Longrightarrow> \<not> c_again c'"
  by (induction scs c r rule: owner_loop.induct) (auto split: if_splits prod.splits option.splits)

lemma schedule_retry_again [simp]: "c_again (schedule_retry c) = c_again c"
  by (simp add: schedule_retry_def Let_def)

lemma sync_now_serves: "\<not> c_closed c \<Longrightarrow> sync_now scs c = (c', Some r) \<Longrightarrow> \<not> c_again c'"
  by (auto simp: sync_now_def dest: owner_loop_serves split: prod.splits option.splits if_splits)

end
