(* ===== verification/Single_Flight.thy ===== *)
theory Single_Flight
  imports Cache_Syncing
begin

text \<open>
  \<open>Cache::sync_now\<close> under concurrency: any number of tasks call it, each statement that touches
  the shared flags (\<open>again\<close>, the \<open>running\<close> lock, \<open>closed\<close>) is one atomic step, and the steps of
  different tasks interleave freely. What must hold is single flight (one run at a time) and
  that no request is lost: whoever asked, a run starts after the request.
\<close>

text \<open>Where a task is in \<open>sync_now\<close>.\<close>

datatype place =
    Outside      \<comment> \<open>before the call\<close>
  | Recording    \<comment> \<open>not closed: about to store \<open>again\<close>\<close>
  | Trying       \<comment> \<open>about to \<open>try_lock\<close>\<close>
  | Swapping     \<comment> \<open>holds the lock: about to swap \<open>again\<close>\<close>
  | Running      \<comment> \<open>holds the lock: in \<open>run_once\<close>\<close>
  | Releasing    \<comment> \<open>holds the lock: about to drop it\<close>
  | Rechecking   \<comment> \<open>let go: about to load \<open>again\<close>\<close>
  | Returned
  | Aborted      \<comment> \<open>its task was ended by \<open>close\<close>\<close>

datatype closing = NotClosing | AwaitsLock | HoldsLock | LetGo

record flight =
  fl_again :: bool
  fl_lock :: "nat option"
  fl_closed :: bool
  fl_closing :: closing
  fl_at :: "nat \<Rightarrow> place"
  fl_unserved :: "nat set" \<comment> \<open>ghost: requests recorded since the last run started\<close>

definition at_rest :: flight where
  "at_rest = \<lparr>fl_again = False, fl_lock = None, fl_closed = False, fl_closing = NotClosing, fl_at = (\<lambda>_. Outside),
     fl_unserved = {}\<rparr>"

definition move :: "nat \<Rightarrow> place \<Rightarrow> flight \<Rightarrow> flight" where
  "move t p s = s\<lparr>fl_at := (fl_at s)(t := p)\<rparr>"

inductive flight_step :: "flight \<Rightarrow> flight \<Rightarrow> bool" where
  enter: "fl_at s t = Outside \<Longrightarrow>
    flight_step s (move t (if fl_closed s then Returned else Recording) s)"
| record_request: "fl_at s t = Recording \<Longrightarrow>
    flight_step s (move t Trying (s\<lparr>fl_again := True, fl_unserved := insert t (fl_unserved s)\<rparr>))"
| locked: "fl_at s t = Trying \<Longrightarrow> fl_lock s = None \<Longrightarrow> fl_closing s \<noteq> HoldsLock \<Longrightarrow>
    flight_step s (move t Swapping (s\<lparr>fl_lock := Some t\<rparr>))"
| busy: "fl_at s t = Trying \<Longrightarrow> fl_lock s \<noteq> None \<or> fl_closing s = HoldsLock \<Longrightarrow> flight_step s (move t Returned s)"
| swap_set: "fl_at s t = Swapping \<Longrightarrow> fl_again s \<Longrightarrow>
    flight_step s (move t Running (s\<lparr>fl_again := False, fl_unserved := {}\<rparr>))"
| swap_clear: "fl_at s t = Swapping \<Longrightarrow> \<not> fl_again s \<Longrightarrow> flight_step s (move t Releasing s)"
| run_ok: "fl_at s t = Running \<Longrightarrow>
    flight_step s (move t Swapping (s\<lparr>fl_again := fl_again s \<or> was_reset\<rparr>))"
| run_failed: "fl_at s t = Running \<Longrightarrow> flight_step s (move t Releasing s)"
| release: "fl_at s t = Releasing \<Longrightarrow> flight_step s (move t Rechecking (s\<lparr>fl_lock := None\<rparr>))"
| recheck_set: "fl_at s t = Rechecking \<Longrightarrow> fl_again s \<Longrightarrow> flight_step s (move t Trying s)"
| recheck_clear: "fl_at s t = Rechecking \<Longrightarrow> \<not> fl_again s \<Longrightarrow> flight_step s (move t Returned s)"
| close_begins: "fl_closing s = NotClosing \<Longrightarrow>
    flight_step s (s\<lparr>fl_closed := True, fl_closing := AwaitsLock\<rparr>)"
| aborted: "fl_closing s \<noteq> NotClosing \<Longrightarrow> fl_at s t = Outside \<or> fl_at s t = Running \<Longrightarrow>
    flight_step s (move t Aborted (if fl_at s t = Running then s\<lparr>fl_lock := None\<rparr> else s))"
| close_locks: "fl_closing s = AwaitsLock \<Longrightarrow> fl_lock s = None \<Longrightarrow>
    flight_step s (s\<lparr>fl_closing := HoldsLock\<rparr>)"
| close_lets_go: "fl_closing s = HoldsLock \<Longrightarrow> flight_step s (s\<lparr>fl_closing := LetGo\<rparr>)"

inductive_cases flight_stepE: "flight_step s s'"

inductive flights :: "flight \<Rightarrow> bool" where
  start: "flights at_rest"
| step: "flights s \<Longrightarrow> flight_step s s' \<Longrightarrow> flights s'"

definition holds_lock :: "place \<Rightarrow> bool" where
  "holds_lock p \<longleftrightarrow> p \<in> {Swapping, Running, Releasing}"

text \<open>A place from which a task still looks at \<open>again\<close>, or was turned away by one that does.\<close>

definition will_look :: "place \<Rightarrow> bool" where
  "will_look p \<longleftrightarrow> p \<in> {Trying, Swapping, Running, Releasing, Rechecking}"

definition flight_ok :: "flight \<Rightarrow> bool" where
  "flight_ok s \<longleftrightarrow>
     (\<forall>t. holds_lock (fl_at s t) \<longleftrightarrow> fl_lock s = Some t) \<and>
     (fl_again s \<longrightarrow> fl_closed s \<or> (\<exists>t. will_look (fl_at s t))) \<and>
     (fl_closed s \<longleftrightarrow> fl_closing s \<noteq> NotClosing) \<and>
     (fl_unserved s \<noteq> {} \<longrightarrow> fl_again s)"

lemma move_simps [simp]:
  "fl_again (move t p s) = fl_again s" "fl_lock (move t p s) = fl_lock s"
  "fl_closed (move t p s) = fl_closed s" "fl_closing (move t p s) = fl_closing s" "fl_unserved (move t p s) = fl_unserved s"
  "fl_at (move t p s) = (fl_at s)(t := p)"
  by (simp_all add: move_def)

lemma holds_lock_simps [simp]:
  "holds_lock Swapping" "holds_lock Running" "holds_lock Releasing" "\<not> holds_lock Outside"
  "\<not> holds_lock Recording" "\<not> holds_lock Trying" "\<not> holds_lock Rechecking" "\<not> holds_lock Returned"
  "\<not> holds_lock Aborted"
  by (simp_all add: holds_lock_def)

lemma flight_ok_start: "flight_ok at_rest"
  by (simp add: flight_ok_def at_rest_def holds_lock_def)

text \<open>A task that stays a looker carries the duty; one that leaves found \<open>again\<close> clear or the lock held.\<close>

lemma look_kept: "will_look p \<Longrightarrow> \<exists>t'. will_look ((f(t := p)) t')"
  by (rule exI [of _ t]) simp

lemma flight_ok_step:
  assumes "flight_step s s'" and "flight_ok s"
  shows "flight_ok s'"
proof -
  have lock: "\<And>t. holds_lock (fl_at s t) \<longleftrightarrow> fl_lock s = Some t"
    and look: "fl_again s \<Longrightarrow> \<not> fl_closed s \<Longrightarrow> \<exists>t. will_look (fl_at s t)"
    and shut: "fl_closed s \<longleftrightarrow> fl_closing s \<noteq> NotClosing"
    and unserved: "fl_unserved s \<noteq> {} \<Longrightarrow> fl_again s"
    using assms(2) by (auto simp: flight_ok_def)
  have free: "\<not> holds_lock (fl_at s t)" if "fl_lock s = None" for t using lock that by simp
  have own: "fl_lock s = Some t" if "fl_at s t \<in> {Swapping, Running, Releasing}" for t
    using lock [of t] that by auto
  have held: "fl_at s t \<in> {Swapping, Running, Releasing}" if "fl_lock s = Some t" for t
    using lock [of t] that by (simp add: holds_lock_def)
  have lock': "\<forall>t. holds_lock (fl_at s' t) \<longleftrightarrow> fl_lock s' = Some t"
    using assms(1)
  proof cases
    case (release t)
    with own [of t] show ?thesis by (auto simp: lock)
  next
    case (aborted t)
    with own [of t] held [of t] show ?thesis by (auto simp: lock)
  qed (auto simp: lock own dest: own held free)
  have look': "fl_again s' \<longrightarrow> fl_closed s' \<or> (\<exists>t. will_look (fl_at s' t))"
    using assms(1)
  proof cases
    case (enter t)
    have "\<exists>t'. will_look (fl_at s' t')" if "fl_again s" "\<not> fl_closed s"
    proof -
      from look [OF that] obtain t' where t': "will_look (fl_at s t')" by blast
      with enter have "t' \<noteq> t" by (auto simp: will_look_def)
      with enter t' show ?thesis by (intro exI [of _ t']) simp
    qed
    then show ?thesis using enter by simp
  next
    case (busy t)
    show ?thesis
    proof (cases "fl_lock s")
      case None
      then show ?thesis using busy shut by simp
    next
      case (Some t')
      with lock have "holds_lock (fl_at s t')" by blast
      with busy have "t' \<noteq> t" "will_look (fl_at s t')" by (auto simp: holds_lock_def will_look_def)
      then show ?thesis using busy by (auto intro!: exI [of _ t'])
    qed
  next
    case close_locks
    then show ?thesis using shut by simp
  next
    case close_lets_go
    then show ?thesis using shut by simp
  next
    case (aborted t)
    then show ?thesis using shut by simp
  qed (auto simp: will_look_def intro: look_kept)
  have "fl_unserved s' \<noteq> {} \<longrightarrow> fl_again s'"
    using assms(1) unserved by cases auto
  moreover have "fl_closed s' \<longleftrightarrow> fl_closing s' \<noteq> NotClosing" using assms(1) shut by cases auto
  ultimately show ?thesis using lock' look' unfolding flight_ok_def by blast
qed

lemma flights_ok: "flights s \<Longrightarrow> flight_ok s"
  by (induction rule: flights.induct) (auto intro: flight_ok_start flight_ok_step)

lemma single_flight: "flights s \<Longrightarrow> fl_at s t = Running \<Longrightarrow> fl_at s t' = Running \<Longrightarrow> t = t'"
proof -
  assume "flights s" and run: "fl_at s t = Running" "fl_at s t' = Running"
  then have "holds_lock (fl_at s t) \<longleftrightarrow> fl_lock s = Some t" "holds_lock (fl_at s t') \<longleftrightarrow> fl_lock s = Some t'"
    using flights_ok unfolding flight_ok_def by blast+
  with run show "t = t'" by simp
qed

text \<open>When every call is over and no close has begun, every request was followed by the start of a run.\<close>

lemma no_request_lost:
  assumes "flights s" and "\<not> fl_closed s" and "\<And>t. fl_at s t \<in> {Outside, Returned}"
  shows "fl_unserved s = {} \<and> \<not> fl_again s \<and> fl_lock s = None"
proof -
  have ok: "flight_ok s" using assms(1) by (rule flights_ok)
  have "\<not> will_look (fl_at s t)" "\<not> holds_lock (fl_at s t)" for t
    using assms(3) [of t] by (auto simp: will_look_def holds_lock_def)
  with ok assms(2) show ?thesis by (auto simp: flight_ok_def)
qed

end
