(* ===== verification/Sync_Properties.thy ===== *)
theory Sync_Properties
  imports Sync_Loop Cache_Front_Facts Single_Flight
begin

text \<open>
  The properties of the cache and of its synchronisation, each over the model's own definitions,
  with a witness at a concrete input where it has hypotheses.
\<close>

section \<open>A small account\<close>

text \<open>A channel, its members and two messages, as one page of the sync endpoint.\<close>

definition sample_message :: "string \<Rightarrow> int \<Rightarrow> json" where
  "sample_message i q = JObj [(''id'', JStr i), (''channel_id'', JStr ''c1''), (''seq'', JInt q),
     (''created_at'', JStr ''t''), (''body'', JStr ''hello'')]"

definition sample_page :: json where
  "sample_page = JObj
     [(''channels'', JArr [JObj [(''id'', JStr ''c1''), (''seq'', JInt 3)]]),
      (''users'', JArr [JObj [(''id'', JStr ''me''), (''seq'', JInt 1)]]),
      (''memberships'', JArr [JObj [(''channel_id'', JStr ''c1''), (''user_id'', JStr ''me''), (''seq'', JInt 2)]]),
      (''messages'', JArr [sample_message ''m1'' 4, sample_message ''m2'' 5]),
      (''removed_channels'', JArr []), (''left_members'', JArr []),
      (''next'', JStr ''5''), (''more'', JBool False)]"

definition sample_batch :: batch where
  "sample_batch = empty_batch\<lparr>
     b_channels := [\<lparr>r_id = ''c1'', r_seq = 3, r_json = JObj [(''id'', JStr ''c1''), (''seq'', JInt 3)]\<rparr>],
     b_users := [\<lparr>r_id = ''me'', r_seq = 1, r_json = JObj [(''id'', JStr ''me''), (''seq'', JInt 1)]\<rparr>],
     b_memberships := [\<lparr>mb_channel = ''c1'', mb_user = ''me'', mb_seq = 2,
        mb_json = JObj [(''channel_id'', JStr ''c1''), (''user_id'', JStr ''me''), (''seq'', JInt 2)]\<rparr>],
     b_messages := [\<lparr>m_id = ''m1'', m_channel = ''c1'', m_seq = 4, m_created_at = ''t'',
                     m_json = sample_message ''m1'' 4\<rparr>,
                    \<lparr>m_id = ''m2'', m_channel = ''c1'', m_seq = 5, m_created_at = ''t'',
                     m_json = sample_message ''m2'' 5\<rparr>]\<rparr>"

definition quiet_round :: "json \<Rightarrow> round" where
  "quiet_round v = \<lparr>rd_read = None, rd_answer = (\<lambda>_. Inr (Rows v)), rd_others = (\<lambda>db. db), rd_commit = None\<rparr>"

lemma sample_parses: "parse_page sample_page = Some (sample_batch, ''5'', False)"
  by code_simp

lemma sample_json:
  "jget_array ''messages'' sample_page = Some [sample_message ''m1'' 4, sample_message ''m2'' 5]"
  by code_simp

definition sample_cache :: cache_db where
  "sample_cache = fst (commit_page ''me'' (sample_batch, ''5'', False) empty_cache)"

lemma empty_cache_ok:
  "keys_ok empty_cache" "fences_hold empty_cache" "words_gone empty_cache" "own_active me empty_cache"
  "cursor_digits (db_cursor empty_cache)" "covered H C empty_cache" "rows_named empty_cache"
  by (simp_all add: keys_ok_def fences_hold_def words_gone_def own_active_def empty_cache_def
      cursor_digits_def is_ascii_digit_def covered_def range_of_def rows_named_def)

lemma sample_sync_page: "sync_page me sample_batch"
  unfolding sync_page_def sample_batch_def empty_batch_def by simp code_simp

section \<open>Applying a page\<close>

text \<open>
  C3. A page may be applied twice (a crash after the commit, a run that restarts from the
  same cursor): the second commit leaves the whole database as it is. The hypotheses say that the
  account's own memberships are not marked left, and that the page has the shape the sync
  endpoint sends.
\<close>

theorem page_commit_replays:
  assumes "own_active me db" and "sync_page me (fst p)"
  shows "fst (commit_page me p (fst (commit_page me p db))) = fst (commit_page me p db)"
  using assms by (rule commit_page_replay)

theorem page_commit_replays_witness:
  "fst (commit_page ''me'' (sample_batch, ''5'', False) sample_cache) = sample_cache \<and>
   length (db_messages sample_cache) = 2"
proof
  show "fst (commit_page ''me'' (sample_batch, ''5'', False) sample_cache) = sample_cache"
    unfolding sample_cache_def
    by (rule page_commit_replays) (simp_all add: empty_cache_ok sample_sync_page)
  show "length (db_messages sample_cache) = 2" by code_simp
qed

text \<open>
  C21. Whatever a batch holds and in whatever order it arrives: no row's version number goes
  down and no floor is lowered, and a row only goes with its whole channel, which is then reported
  as removed.
\<close>

theorem versions_never_go_back: "numbers_kept db (apply_batch me b db)"
  by (rule numbers_kept_apply_batch)

text \<open>
  C20. A channel that was removed stays removed against late rows: after any sync run, with any
  answers, faults and concurrent writers (which keep it themselves), every channel row, message
  and active membership of a fenced channel is newer than the fence.
\<close>

theorem sync_run_keeps_fences:
  assumes "run_into me rs db changed = (db', changed', res)" and "fences_hold db"
    and "\<And>r d. r \<in> set rs \<Longrightarrow> fences_hold d \<Longrightarrow> fences_hold (rd_others r d)"
  shows "fences_hold db'"
  using pages_to_invariant [OF run_into_pages [OF assms(1)], of fences_hold] assms(2,3)
  by (auto intro: fences_hold_commit)

text \<open>The channel is removed, and a late page brings its rows again.\<close>

definition fenced_cache :: cache_db where
  "fenced_cache = fst (apply_batch ''me'' (empty_batch\<lparr>b_removed := [(''c1'', 9)]\<rparr>) sample_cache)"

lemma fenced_cache_fits: "fences_hold fenced_cache"
proof -
  have "fences_hold sample_cache"
    unfolding sample_cache_def by (rule fences_hold_commit) (simp add: empty_cache_ok)
  then show ?thesis unfolding fenced_cache_def by (rule fences_hold_apply_batch)
qed

theorem sync_run_keeps_fences_witness:
  "\<exists>db' ch res. run_into ''me'' [quiet_round sample_page] fenced_cache no_change = (db', ch, res) \<and> fences_hold db'
     \<and> fence_of ''c1'' db' = Some 9 \<and> db_messages db' = []"
proof -
  obtain db' ch res where r: "run_into ''me'' [quiet_round sample_page] fenced_cache no_change = (db', ch, res)"
    by (metis prod_cases3)
  have h: "fences_hold db'"
    by (rule sync_run_keeps_fences [OF r]) (auto simp: fenced_cache_fits quiet_round_def)
  have "db' = fst (commit_page ''me'' (sample_batch, ''5'', False) fenced_cache)"
    using r by (simp add: quiet_round_def sample_parses Let_def split_def)
  moreover have "fence_of ''c1'' (fst (commit_page ''me'' (sample_batch, ''5'', False) fenced_cache)) = Some 9"
    "db_messages (fst (commit_page ''me'' (sample_batch, ''5'', False) fenced_cache)) = []" by code_simp+
  ultimately show ?thesis using h r by blast
qed

text \<open>
  C30. Every table's primary key holds after any sync run: no row is doubled, whatever the server
  repeats within a page or across pages.
\<close>

theorem sync_run_keeps_keys:
  assumes "run_into me rs db changed = (db', changed', res)" and "keys_ok db"
    and "\<And>r d. r \<in> set rs \<Longrightarrow> keys_ok d \<Longrightarrow> keys_ok (rd_others r d)"
  shows "keys_ok db'"
  using pages_to_invariant [OF run_into_pages [OF assms(1)], of keys_ok] assms(2,3)
  by (auto intro: keys_ok_commit)

theorem sync_run_keeps_keys_witness:
  "\<exists>db' ch res. run_into ''me'' [quiet_round sample_page] empty_cache no_change = (db', ch, res) \<and> keys_ok db'"
proof -
  obtain db' ch res where r: "run_into ''me'' [quiet_round sample_page] empty_cache no_change = (db', ch, res)"
    by (metis prod_cases3)
  have "keys_ok db'"
    by (rule sync_run_keeps_keys [OF r]) (auto simp: empty_cache_ok quiet_round_def)
  with r show ?thesis by blast
qed

text \<open>
  C24. The words of a deleted message are nowhere in the cache: after any batch, a row that quotes
  a deleted message carries the placeholder and not its text. The rows the server sends as deleted
  are marked as the server marks them.
\<close>

theorem deleted_words_go:
  assumes "words_gone db" and "keys_ok db" and "\<And>m. m \<in> set (b_messages b) \<Longrightarrow> sent_row_ok m"
  shows "words_gone (fst (apply_batch me b db))"
  using assms by (rule words_gone_apply_batch)

text \<open>A message quotes another with its words; then a page brings the other one deleted.\<close>

definition quoting :: message_row where
  "quoting = \<lparr>m_id = ''m2'', m_channel = ''c1'', m_seq = 5, m_created_at = ''t'',
     m_json = JObj [(''id'', JStr ''m2''), (''reply_to_id'', JStr ''m1''),
        (''reply_to'', JObj [(''id'', JStr ''m1''), (''body'', JStr ''hello'')])]\<rparr>"

definition deleted_m1 :: message_row where
  "deleted_m1 = \<lparr>m_id = ''m1'', m_channel = ''c1'', m_seq = 6, m_created_at = ''t'',
     m_json = JObj [(''id'', JStr ''m1''), (''deleted_at'', JStr ''t''), (''body'', JNull)]\<rparr>"

definition quoted_cache :: cache_db where
  "quoted_cache = empty_cache\<lparr>db_channels := [\<lparr>r_id = ''c1'', r_seq = 3, r_json = JNull\<rparr>], db_messages :=
     [\<lparr>m_id = ''m1'', m_channel = ''c1'', m_seq = 4, m_created_at = ''t'', m_json = sample_message ''m1'' 4\<rparr>, quoting]\<rparr>"

theorem deleted_words_go_witness:
  "words_gone (fst (apply_batch ''me'' (empty_batch\<lparr>b_messages := [deleted_m1]\<rparr>) quoted_cache)) \<and>
   list_ex (\<lambda>m. row_deleted (m_json m)) (db_messages (fst (apply_batch ''me'' (empty_batch\<lparr>b_messages := [deleted_m1]\<rparr>) quoted_cache))) \<and>
   map quote_body (map m_json (db_messages (fst (apply_batch ''me'' (empty_batch\<lparr>b_messages := [deleted_m1]\<rparr>) quoted_cache))))
     = [None, Some (JStr ''(deleted)'')]"
proof (intro conjI)
  show "words_gone (fst (apply_batch ''me'' (empty_batch\<lparr>b_messages := [deleted_m1]\<rparr>) quoted_cache))"
  proof (rule deleted_words_go)
    show "words_gone quoted_cache" unfolding words_gone_def by code_simp
    show "keys_ok quoted_cache" by (simp add: keys_ok_def quoted_cache_def quoting_def empty_cache_def)
    show "sent_row_ok m" if "m \<in> set (b_messages (empty_batch\<lparr>b_messages := [deleted_m1]\<rparr>))" for m
    proof -
      have "sent_row_ok deleted_m1" by code_simp
      then show ?thesis using that by simp
    qed
  qed
qed code_simp+

text \<open>
  Every cached file of a message belongs to a message the cache holds, in that message's
  channel: deleting messages, channels and files never leaves an entry behind. A message's id has
  one channel for good (\<open>home\<close>).
\<close>

theorem cached_files_have_owners:
  assumes "files_owned home db"
    and "\<And>m. m \<in> set (b_messages b) \<Longrightarrow> m_channel m = home (m_id m)"
    and "\<And>i c q. (i, c, q) \<in> set (b_tombstones b) \<Longrightarrow> c = home i"
  shows "files_owned home (fst (apply_batch me b db))"
  using assms by (rule files_owned_apply_batch)

theorem cached_files_have_owners_witness:
  "files_owned (\<lambda>_. ''c1'') (fst (apply_batch ''me'' sample_batch empty_cache))"
  by (rule cached_files_have_owners)
    (auto simp: files_owned_def files_indexed_def empty_cache_def sample_batch_def empty_batch_def)

section \<open>A sync run\<close>

text \<open>
  C4. The loop refines a walk over the server's pages. Whatever the server answers and wherever it
  fails, there is a list of pages, the first the answer to the stored cursor and each further the
  answer to the \<open>next\<close> of the one before, none but the last without more to come, and the run has
  committed each of them once and in this order, between other tasks' writes, and nothing else; the
  stored cursor is the last one's \<open>next\<close>, what is announced is what they changed, and the run ends
  well exactly if the last page had nothing after it. Other tasks do not touch the cursor.
\<close>

theorem sync_run_refines_walk:
  assumes "run_into me rs db changed = (db', changed', res)"
    and "\<And>r d. r \<in> set rs \<Longrightarrow> db_cursor (rd_others r d) = db_cursor d"
  shows "\<exists>ps. linked rs (db_cursor db) ps \<and> db_cursor db' = end_cursor (db_cursor db) ps
    \<and> (res = Some (Inr SyncDone) \<longleftrightarrow> ps \<noteq> [] \<and> \<not> snd (snd (last ps)))
    \<and> (res = None \<longrightarrow> length ps = length rs)
    \<and> changed' = snd (committed me rs ps (db, changed))
    \<and> (db' = fst (committed me rs ps (db, changed))
       \<or> res \<noteq> Some (Inr SyncDone) \<and> length ps < length rs
         \<and> db' = rd_others (rs ! length ps) (fst (committed me rs ps (db, changed))))"
  using run_into_shape [OF assms] unfolding run_shape_def .

text \<open>Two pages: the second is the answer to the cursor of the first.\<close>

definition first_page :: json where
  "first_page = JObj [(''channels'', JArr []), (''users'', JArr []), (''memberships'', JArr []),
     (''messages'', JArr []), (''removed_channels'', JArr []), (''left_members'', JArr []),
     (''next'', JStr ''2''), (''more'', JBool True)]"

definition two_rounds :: "round list" where
  "two_rounds = [(quiet_round first_page)\<lparr>rd_answer := (\<lambda>c. if c = ''0'' then Inr (Rows first_page) else Inr PageReset)\<rparr>,
     (quiet_round sample_page)\<lparr>rd_answer := (\<lambda>c. if c = ''2'' then Inr (Rows sample_page) else Inr PageReset)\<rparr>]"

theorem sync_run_refines_walk_witness:
  "\<exists>db' ch ps. run_into ''me'' two_rounds empty_cache no_change = (db', ch, Some (Inr SyncDone)) \<and>
     linked two_rounds ''0'' ps \<and> length ps = 2 \<and> db_cursor db' = ''5''"
proof -
  obtain db' ch res where r: "run_into ''me'' two_rounds empty_cache no_change = (db', ch, res)"
    by (metis prod_cases3)
  have f: "parse_page first_page = Some (empty_batch, ''2'', True)" by code_simp
  have e: "db_cursor empty_cache = ''0''" by (simp add: empty_cache_def)
  have c: "db_cursor (fst (commit_page ''me'' (empty_batch, ''2'', True) empty_cache)) = ''2''" by simp
  have "res = Some (Inr SyncDone) \<and> db_cursor db' = ''5''"
    using r c by (auto simp: two_rounds_def quiet_round_def f sample_parses e Let_def split_def)
  moreover have keep: "db_cursor (rd_others q d) = db_cursor d" if "q \<in> set two_rounds" for q d
    using that by (auto simp: two_rounds_def quiet_round_def)
  moreover obtain ps where ps: "linked two_rounds ''0'' ps" "res = Some (Inr SyncDone) \<longleftrightarrow> ps \<noteq> [] \<and> \<not> snd (snd (last ps))"
    using sync_run_refines_walk [OF r keep] unfolding e by blast
  moreover have "length ps = 2"
  proof -
    have more: "snd (snd p)" if "linked two_rounds ''0'' [p]" for p
      using that f by (auto simp: two_rounds_def quiet_round_def)
    have "length ps \<le> 2" using ps(1) by (cases ps; cases "tl ps") (auto simp: two_rounds_def neq_Nil_conv elim: linked.elims)
    then consider "ps = []" | p where "ps = [p]" | "length ps = 2"
      by (cases ps; cases "tl ps") auto
    then show ?thesis using ps calculation(1) more by cases auto
  qed
  ultimately show ?thesis using r by blast
qed

text \<open>
  The cursor the client stores, and sends back in a URL, is a string of digits whatever the
  server sent as \<open>next\<close>.
\<close>

theorem stored_cursor_is_digits:
  assumes "run_into me rs db changed = (db', changed', res)" and "cursor_digits (db_cursor db)"
    and "\<And>r d. r \<in> set rs \<Longrightarrow> db_cursor (rd_others r d) = db_cursor d"
  shows "cursor_digits (db_cursor db')"
  using assms by (rule cursor_digits_run)

text \<open>
  C29. A page is applied whole or not at all: one unreadable channel, user, membership, message,
  removal or departure refuses the page, and the run then ends with that error and the database as
  the last whole page (or another writer) left it, the cursor included.
\<close>

theorem malformed_page_is_refused:
  assumes "has_bad_row v"
    and "rd_read r = None" and "rd_answer r (db_cursor db) = Inr (Rows v)"
  shows "run_into me (r # rs) db changed = (rd_others r db, changed, Some (Inl Malformed))"
  using parse_page_refuses [OF assms(1)] assms(2,3) by simp

text \<open>A page that is readable but for the departure of one member.\<close>

definition one_bad_leaver :: json where
  "one_bad_leaver = JObj [(''channels'', JArr []), (''users'', JArr []), (''memberships'', JArr []),
     (''messages'', JArr [sample_message ''m1'' 4]), (''removed_channels'', JArr []),
     (''left_members'', JArr [JObj [(''channel_id'', JStr ''c1''), (''seq'', JInt 6)]]),
     (''next'', JStr ''6''), (''more'', JBool False)]"

theorem malformed_page_is_refused_witness:
  "run_into ''me'' [quiet_round one_bad_leaver] sample_cache no_change = (sample_cache, no_change, Some (Inl Malformed))"
proof -
  have "bad_row ''left_members'' left_of one_bad_leaver"
    unfolding bad_row_def
    by (rule exI[of _ "[JObj [(''channel_id'', JStr ''c1''), (''seq'', JInt 6)]]"]) code_simp
  then have "has_bad_row one_bad_leaver" by (simp add: has_bad_row_def)
  from malformed_page_is_refused [OF this, of "quiet_round one_bad_leaver" sample_cache "''me''" "[]" no_change]
  show ?thesis by (simp add: quiet_round_def)
qed

text \<open>
  Where the server forgot the cursor, the cache is emptied and the cursor is 0 again, under a new
  generation (so that answers under way are not taken for the new one's), and another run is due
  unless the cursor was 0 already: two resets in a row do not loop.
\<close>

theorem reset_starts_over:
  assumes "run_into (c_me c) (run_rounds sc) (c_db c) no_change = (db, changed, Some (Inr SyncReset))"
    and "run_reset sc = None"
  shows "(let c' = fst (run_once sc c); d = c_db c' in
     db_channels d = [] \<and> db_removed d = [] \<and> db_memberships d = [] \<and> db_users d = [] \<and>
     db_messages d = [] \<and> db_coverage d = [] \<and> db_message_files d = [] \<and>
     db_cursor d = ''0'' \<and> db_generation d = db_generation db + 1 \<and>
     c_again c' = (c_again c \<or> db_cursor db \<noteq> ''0''))"
  using run_once_reset [OF assms] by (simp add: Let_def)

definition resetting :: run_script where
  "resetting = \<lparr>run_rounds = [\<lparr>rd_read = None, rd_answer = (\<lambda>_. Inr PageReset), rd_others = (\<lambda>db. db),
       rd_commit = None\<rparr>], run_reset = None, run_now = 7, run_asked = False\<rparr>"

theorem reset_starts_over_witness:
  "db_messages sample_cache \<noteq> [] \<and>
   db_messages (c_db (fst (run_once resetting (new_cache sample_cache ''me'')))) = [] \<and>
   c_again (fst (run_once resetting (new_cache sample_cache ''me'')))"
proof -
  have r: "run_into (c_me (new_cache sample_cache ''me'')) (run_rounds resetting)
      (c_db (new_cache sample_cache ''me'')) no_change = (sample_cache, no_change, Some (Inr SyncReset))"
    by (simp add: resetting_def new_cache_def Let_def)
  have "db_cursor sample_cache = ''5''" by (simp add: sample_cache_def)
  moreover have "db_messages sample_cache \<noteq> []" by code_simp
  ultimately show ?thesis using reset_starts_over [OF r] by (simp add: resetting_def Let_def)
qed

text \<open>
  C23. Concurrent callers of \<open>sync_now\<close>, interleaved at every shared flag: as long as no close has
  begun, when all of them have returned, a run has started after every request and nothing holds
  the lock. (A close turns callers away, and ends the cache's own tasks where they wait.)
\<close>

theorem no_sync_request_lost:
  assumes "flights s" and "\<not> fl_closed s" and "\<And>t. fl_at s t \<in> {Outside, Returned}"
  shows "fl_unserved s = {} \<and> \<not> fl_again s \<and> fl_lock s = None"
  using assms by (rule no_request_lost)

text \<open>Task 0 asks and runs; task 1 asks meanwhile and is turned away; task 0 runs again for it.\<close>

definition asked_during_run :: flight where
  "asked_during_run = \<lparr>fl_again = True, fl_lock = Some 0, fl_closed = False, fl_closing = NotClosing,
     fl_at = (\<lambda>_. Outside)(0 := Running, Suc 0 := Returned), fl_unserved = {Suc 0}\<rparr>"

lemma a_run: "flights asked_during_run"
proof -
  let ?a = "move 0 Recording at_rest"
  let ?b = "move 0 Trying (?a\<lparr>fl_again := True, fl_unserved := insert 0 (fl_unserved ?a)\<rparr>)"
  let ?c = "move 0 Swapping (?b\<lparr>fl_lock := Some 0\<rparr>)"
  let ?d = "move 0 Running (?c\<lparr>fl_again := False, fl_unserved := {}\<rparr>)"
  let ?e = "move (Suc 0) Recording ?d"
  let ?f = "move (Suc 0) Trying (?e\<lparr>fl_again := True, fl_unserved := insert (Suc 0) (fl_unserved ?e)\<rparr>)"
  have rest: "fl_at at_rest = (\<lambda>_. Outside)" "\<not> fl_closed at_rest" "fl_lock at_rest = None"
    "fl_closing at_rest = NotClosing"
    by (simp_all add: at_rest_def)
  have "flights ?a" using flights.step [OF flights.start flight_step.enter [of at_rest 0]]
    by (simp add: rest)
  then have "flights ?b" by (rule flights.step) (rule flight_step.record_request, simp)
  then have "flights ?c" by (rule flights.step) (rule flight_step.locked, simp_all add: rest)
  then have "flights ?d" by (rule flights.step) (rule flight_step.swap_set, simp_all)
  then have "flights ?e" using flights.step [OF _ flight_step.enter [of ?d "Suc 0"]]
    by (simp add: rest)
  then have "flights ?f" by (rule flights.step) (rule flight_step.record_request, simp)
  then have "flights (move (Suc 0) Returned ?f)"
    by (rule flights.step) (rule flight_step.busy, simp_all)
  moreover have "move (Suc 0) Returned ?f = asked_during_run"
    by (simp add: asked_during_run_def at_rest_def move_def fun_eq_iff)
  ultimately show ?thesis by simp
qed

definition all_served :: flight where
  "all_served = \<lparr>fl_again = False, fl_lock = None, fl_closed = False, fl_closing = NotClosing,
     fl_at = (\<lambda>_. Outside)(0 := Returned, Suc 0 := Returned), fl_unserved = {}\<rparr>"

lemma a_run_ends: "flights all_served"
proof -
  let ?a = "move 0 Swapping (asked_during_run\<lparr>fl_again := fl_again asked_during_run \<or> False\<rparr>)"
  let ?b = "move 0 Running (?a\<lparr>fl_again := False, fl_unserved := {}\<rparr>)"
  let ?c = "move 0 Swapping (?b\<lparr>fl_again := fl_again ?b \<or> False\<rparr>)"
  let ?d = "move 0 Releasing ?c"
  let ?e = "move 0 Rechecking (?d\<lparr>fl_lock := None\<rparr>)"
  have "flights ?a" using a_run by (rule flights.step) (rule flight_step.run_ok, simp add: asked_during_run_def)
  then have "flights ?b" by (rule flights.step) (rule flight_step.swap_set, simp_all add: asked_during_run_def)
  then have "flights ?c" by (rule flights.step) (rule flight_step.run_ok, simp)
  then have "flights ?d" by (rule flights.step) (rule flight_step.swap_clear, simp_all)
  then have "flights ?e" by (rule flights.step) (rule flight_step.release, simp)
  then have "flights (move 0 Returned ?e)" by (rule flights.step) (rule flight_step.recheck_clear, simp_all)
  moreover have "move 0 Returned ?e = all_served"
    by (simp add: asked_during_run_def all_served_def move_def fun_eq_iff)
  ultimately show ?thesis by simp
qed

theorem no_sync_request_lost_witness:
  "flights asked_during_run \<and> fl_unserved asked_during_run = {Suc 0} \<and> fl_unserved all_served = {} \<and> fl_lock all_served = None"
proof (intro conjI a_run)
  have "fl_at all_served t \<in> {Outside, Returned}" for t by (simp add: all_served_def)
  then have "fl_unserved all_served = {} \<and> \<not> fl_again all_served \<and> fl_lock all_served = None"
    by (intro no_sync_request_lost a_run_ends) (simp_all add: all_served_def)
  then show "fl_unserved all_served = {}" "fl_lock all_served = None" by blast+
qed (simp add: asked_during_run_def)

text \<open>And never do two of them run a sync at the same time.\<close>

theorem one_sync_at_a_time:
  assumes "flights s" and "fl_at s t = Running" and "fl_at s t' = Running"
  shows "t = t'"
  using assms by (rule single_flight)

end
