(* ===== verification/Cache_Properties.thy ===== *)
theory Cache_Properties
  imports Sync_Properties Cache_Syncing
begin

text \<open>
  The properties of what the apps read of the cache: the ranges of history it claims to hold, the
  pages it serves from them, and when it tries again.
\<close>

section \<open>A channel's history\<close>

definition one_channel :: cache_db where
  "one_channel = empty_cache\<lparr>db_channels := [\<lparr>r_id = ''c1'', r_seq = 3, r_json = JNull\<rparr>]\<rparr>"

definition its_history :: "string \<Rightarrow> string set" where
  "its_history c = (if c = ''c1'' then {''m1'', ''m2''} else {})"

definition newest_first_rows :: "json list" where
  "newest_first_rows = [sample_message ''m2'' 5, sample_message ''m1'' 4]"

lemma its_page: "map m_id (List.map_filter message_row_of newest_first_rows) = [''m2'', ''m1'']"
  by code_simp

lemma its_head: "head_page (its_history ''c1'') {''m1'', ''m2''} [''m2'', ''m1''] 50"
  by (auto simp: head_page_def its_history_def)

lemma unheld: "covered H C one_channel" "message_seq i one_channel = None"
  by (simp_all add: covered_def range_of_def one_channel_def empty_cache_def message_seq_def)

lemma its_rows_unmoved: "unmoved (List.map_filter message_row_of newest_first_rows) ''c1'' one_channel"
proof -
  have "\<forall>m \<in> set (List.map_filter message_row_of newest_first_rows). m_channel m = ''c1''" by code_simp
  then show ?thesis by (simp add: unmoved_def unheld)
qed

definition loaded :: cache_db where
  "loaded = fst (load_land ''me'' ''c1'' None 50 None 0 newest_first_rows one_channel)"

text \<open>
  C5. What a range claims is true: where every server message inside every range is cached
  (and nothing lies below a range complete to its start), a history page that lands, at the top or
  below, keeps it so, whatever was written while it was asked for. The page is what the server
  held when it answered.
\<close>

theorem history_page_keeps_coverage:
  assumes "covered H (cached_ids db) db"
    and "unmoved (List.map_filter message_row_of rows) c db"
    and "before = None \<Longrightarrow> head_page (H c) H0 (map m_id (List.map_filter message_row_of rows)) limit"
    and "\<And>b. before = Some b \<Longrightarrow> older_page (H c) b (map m_id (List.map_filter message_row_of rows)) limit"
  shows "covered H (cached_ids (fst (load_land me c before limit fl asked_at rows db)))
     (fst (load_land me c before limit fl asked_at rows db))"
  using assms by (rule load_land_covered)

theorem history_page_keeps_coverage_witness:
  "covered its_history (cached_ids loaded) loaded \<and> map m_id (db_messages loaded) = [''m2'', ''m1''] \<and>
   range_of ''c1'' loaded =
     Some \<lparr>cv_channel = ''c1'', cv_newest = Some ''m2'', cv_oldest = Some ''m1'', cv_complete = True\<rparr>"
proof (intro conjI)
  show "covered its_history (cached_ids loaded) loaded"
    unfolding loaded_def
    by (rule history_page_keeps_coverage [where ?H0.0 = "{''m1'', ''m2''}"]) (simp_all add: unheld its_rows_unmoved its_page its_head)
  show "map m_id (db_messages loaded) = [''m2'', ''m1'']" by code_simp
  show "range_of ''c1'' loaded =
     Some \<lparr>cv_channel = ''c1'', cv_newest = Some ''m2'', cv_oldest = Some ''m1'', cv_complete = True\<rparr>"
    by code_simp
qed

text \<open>
  C6. A page served without the network is the server's page: every message of the channel's
  history in its span is in it. The span starts at the page's last row (or at the start, where the
  page is short); it ends below the row the page was asked before, or, for the newest page, at the
  top of the channel's range and at the newest row of the page that is not deleted, whichever is
  higher.
\<close>

theorem offline_page_is_whole:
  assumes "covered H (cached_ids db) db" and "rows_named db"
    and "\<not> mp_needs_network (cached_messages c before limit db)"
    and "h \<in> H c" and "in_page_span c before limit db h"
    and "length (page_rows c before limit db) = limit \<Longrightarrow>
      limit \<noteq> 0 \<and> m_id (last (page_rows c before limit db)) \<le> h"
  shows "h \<in> m_id ` set (page_rows c before limit db)"
  using assms by (rule cached_page_whole)

theorem offline_page_is_whole_witness:
  "''m1'' \<in> m_id ` set (page_rows ''c1'' None 50 loaded)"
proof (rule offline_page_is_whole)
  show "covered its_history (cached_ids loaded) loaded"
    unfolding loaded_def
    by (rule load_land_covered [where ?H0.0 = "{''m1'', ''m2''}"]) (simp_all add: unheld its_rows_unmoved its_page its_head)
  show "rows_named loaded" unfolding rows_named_def by code_simp
  show "\<not> mp_needs_network (cached_messages ''c1'' None 50 loaded)" by code_simp
  show "''m1'' \<in> its_history ''c1''" by (simp add: its_history_def)
  show "in_page_span ''c1'' None 50 loaded ''m1''" by code_simp
  have "length (page_rows ''c1'' None 50 loaded) = 2" by code_simp
  then show "length (page_rows ''c1'' None 50 loaded) = 50 \<Longrightarrow>
      50 \<noteq> 0 \<and> m_id (last (page_rows ''c1'' None 50 loaded)) \<le> ''m1''" by simp
qed

text \<open>At the end of a sync the ranges' tops move up, and what they claim stays true.\<close>

lemma sync_tops_keep_coverage:
  assumes "covered H C db"
    and "\<And>c r. range_of c db = Some r \<Longrightarrow> caught_up (H c) cursor db r"
    and "\<And>c. set (settled_ids c cursor db) \<subseteq> C c"
    and "\<And>c. [] \<notin> H c"
  shows "covered H C (fst (settle_tops cursor db))"
  using assms by (rule settle_tops_covered)

text \<open>
  An answer asked for before the cache was emptied changes nothing, and neither does one
  asked for under another floor of the channel (the member left and joined again meanwhile).
\<close>

theorem stale_history_is_dropped:
  assumes "db_generation db \<noteq> asked_at \<or>
      (floor_of c db \<noteq> fl \<and> (\<forall>v m. v \<in> set rows \<longrightarrow> message_row_of v = Some m \<longrightarrow> m_channel m = c))"
  shows "fst (load_land me c before limit fl asked_at rows db) = db"
  using assms load_land_stale_generation load_land_stale_floor by (metis fst_conv)

text \<open>
  C39. A page's length is counted after rows that cannot be read were dropped, and the range is
  complete to the start where that is below the limit: a full page of which one row is unreadable
  makes the cache claim the channel's whole history.
\<close>

theorem unreadable_row_shortens_page:
  assumes "db_generation db = asked_at" and "ready c fl db" and "range_of c db = None"
    and "length (List.map_filter message_row_of rows) < limit"
  shows "\<exists>r. range_of c (fst (load_land me c None limit fl asked_at rows db)) = Some r \<and> cv_complete r"
  using assms by (rule load_land_unreadable)

theorem unreadable_row_shortens_page_witness:
  "length [sample_message ''m2'' 5, JNull] = 2 \<and>
   (\<exists>r. range_of ''c1'' (fst (load_land ''me'' ''c1'' None 2 None 0
      [sample_message ''m2'' 5, JNull] one_channel)) = Some r \<and> cv_complete r)"
proof (intro conjI unreadable_row_shortens_page)
  show "ready ''c1'' None one_channel" unfolding ready_def by code_simp
  show "length (List.map_filter message_row_of [sample_message ''m2'' 5, JNull]) < 2" by code_simp
qed (simp_all add: one_channel_def empty_cache_def range_of_def)

section \<open>Trying again\<close>

text \<open>
  On 64-bit milliseconds: a retry's wait doubles while failures last and never exceeds the
  cap, and below a cap of \<open>2^63\<close> the doubling never wraps around.
\<close>

theorem retry_waits_double_to_cap:
  assumes "start \<le> cap" and "last_wait \<le> cap" and "cap < 2 ^ 63"
  shows "retry_delay last_wait start cap \<le> cap \<and>
    (last_wait \<noteq> 0 \<longrightarrow> unat (retry_delay last_wait start cap) = min (2 * unat last_wait) (unat cap))"
  using assms retry_delay_capped retry_delay_grows(1) by blast

theorem retry_waits_double_to_cap_witness:
  "retry_delay 2000 2000 30000 \<le> 30000 \<and> unat (retry_delay 2000 2000 30000) = 4000"
  using retry_waits_double_to_cap [of 2000 30000 2000] by (simp add: word_le_nat_alt word_less_nat_alt)

text \<open>
  A call of \<open>sync_now\<close> that returns leaves no request behind (its own included), and one on a
  closed cache changes nothing.
\<close>

theorem sync_now_serves_request:
  assumes "sync_now scs c = (c', Some r)"
  shows "(\<not> c_closed c \<longrightarrow> \<not> c_again c') \<and> (c_closed c \<longrightarrow> c' = c)"
  using assms sync_now_serves closed_stays_quiet(1) by auto

end
