(* ===== verification/Uploads.thy ===== *)
theory Uploads
  imports Core_Types
begin

text \<open>
  \<open>core/src/transfer.rs\<close>: uploads and downloads. The requests, the server's answers, the flags as
  other tasks set them and the pieces of a body as they arrive are the script of a transfer,
  one record per turn of a loop; what the code does with them is here.
\<close>

section \<open>Errors and states\<close>

datatype transfer_state =
    Preparing
  | TransferRunning
  | Retrying nat
  | TransferDone
  | Cancelled
  | TransferFailed string

text \<open>What stops a transfer, as read at one moment.\<close>

record flags =
  fg_cancel :: bool
  fg_pause :: bool

definition no_flags :: flags where
  "no_flags = \<lparr>fg_cancel = False, fg_pause = False\<rparr>"

definition paused_error :: core_error where
  "paused_error = Api ''transfer.paused'' ''the transfer was paused''"

definition cancelled_error :: core_error where
  "cancelled_error = Api ''transfer.cancelled'' ''the transfer was cancelled''"

definition io_error :: "string \<Rightarrow> core_error" where
  "io_error kind = Api ''transfer.io'' (''local storage failed ('' @ kind @ '')'')"

definition integrity_error :: core_error where
  "integrity_error =
     Api ''transfer.integrity'' ''the file's contents don't match its checksum''"

definition gone_error :: core_error where
  "gone_error = Api ''file.gone'' ''the file was deleted''"

definition stopped :: "flags \<Rightarrow> core_error option" where
  "stopped f = (if fg_cancel f then Some cancelled_error
                else if fg_pause f then Some paused_error else None)"

definition transient_codes :: "string list" where
  "transient_codes = [''file.upload_stalled'', ''file.upload_in_progress'', ''file.upload_expired'',
     ''rate_limited'', ''auth.rate_limited'', ''transfer.network'', ''transfer.paused'',
     ''file.no_space'']"

fun is_transient :: "core_error \<Rightarrow> bool" where
  "is_transient (Http _) = True"
| "is_transient Timeout = True"
| "is_transient Disconnected = True"
| "is_transient (Api code _) =
     (code \<in> set transient_codes \<or> starts_with code ''http_5'' \<or>
      code = ''http_408'' \<or> code = ''http_429'')"
| "is_transient _ = False"

definition max_attempts :: nat where "max_attempts = 8"

definition backoff :: "nat \<Rightarrow> nat" where
  "backoff attempt = min (2 ^ min attempt 5) 30"

section \<open>The registry\<close>

text \<open>
  Flags live in cells shared by reference: a row's transfers share one cell. \<open>tr_lone\<close> and
  \<open>tr_rows\<close> are the two maps of \<open>Transfers\<close>, \<open>tr_cells\<close> the cells.
\<close>

record transfers =
  tr_lone :: "(nat \<times> nat) list"
  tr_rows :: "(nat \<times> nat) list"
  tr_cells :: "(nat \<times> flags) list"
  tr_next :: nat

definition no_transfers :: transfers where
  "no_transfers = \<lparr>tr_lone = [], tr_rows = [], tr_cells = [], tr_next = 0\<rparr>"

definition read_cell :: "nat \<Rightarrow> transfers \<Rightarrow> flags" where
  "read_cell cell t = (case map_of (tr_cells t) cell of None \<Rightarrow> no_flags | Some f \<Rightarrow> f)"

definition write_cell :: "nat \<Rightarrow> flags \<Rightarrow> transfers \<Rightarrow> transfers" where
  "write_cell cell f t = t\<lparr>tr_cells := (cell, f) # filter (\<lambda>p. fst p \<noteq> cell) (tr_cells t)\<rparr>"

definition new_cell :: "transfers \<Rightarrow> nat \<times> transfers" where
  "new_cell t = (tr_next t, t\<lparr>tr_next := Suc (tr_next t)\<rparr>)"

text \<open>\<open>Transfers::flag\<close>: the cell that stops \<open>id\<close>, its row's first; a lone one is made on demand.\<close>

definition flag_cell :: "nat \<Rightarrow> transfers \<Rightarrow> nat \<times> transfers" where
  "flag_cell tid t =
     (case map_of (tr_rows t) tid of
        Some cell \<Rightarrow> (cell, t)
      | None \<Rightarrow>
          (case map_of (tr_lone t) tid of
             Some cell \<Rightarrow> (cell, t)
           | None \<Rightarrow>
               (let (cell, t) = new_cell t in (cell, t\<lparr>tr_lone := (tid, cell) # tr_lone t\<rparr>))))"

definition forget :: "nat \<Rightarrow> transfers \<Rightarrow> transfers" where
  "forget tid t = t\<lparr>tr_lone := filter (\<lambda>p. fst p \<noteq> tid) (tr_lone t)\<rparr>"

definition register :: "nat list \<Rightarrow> nat \<Rightarrow> transfers \<Rightarrow> transfers" where
  "register ids cell t = t\<lparr>tr_rows := map (\<lambda>i. (i, cell)) ids @ filter (\<lambda>p. fst p \<notin> set ids) (tr_rows t)\<rparr>"

definition unregister :: "nat list \<Rightarrow> transfers \<Rightarrow> transfers" where
  "unregister ids t = t\<lparr>tr_rows := filter (\<lambda>p. fst p \<notin> set ids) (tr_rows t)\<rparr>"

definition cancel_transfer :: "nat \<Rightarrow> transfers \<Rightarrow> transfers" where
  "cancel_transfer tid t =
     (let (cell, t) = flag_cell tid t in write_cell cell ((read_cell cell t)\<lparr>fg_cancel := True\<rparr>) t)"

section \<open>Answers\<close>

text \<open>
  What the code reads of an HTTP answer: the status, the headers (as text, where readable), the
  JSON of the body (\<open>None\<close>: not JSON), and the pieces of a streamed body.
\<close>

datatype arrival = Piece string | Broken | Stall

record response =
  rp_status :: nat
  rp_retry_after :: "string option"
  rp_etag :: "string option"
  rp_content_range :: "string option"
  rp_content_encodings :: "string option list"
  rp_json :: "json option"
  rp_stream :: "(flags \<times> arrival) list"

definition success :: "nat \<Rightarrow> bool" where
  "success status \<longleftrightarrow> 200 \<le> status \<and> status < 300"

definition server_error :: "nat \<Rightarrow> bool" where
  "server_error status \<longleftrightarrow> 500 \<le> status \<and> status < 600"

definition clamp :: "nat \<Rightarrow> nat \<Rightarrow> nat \<Rightarrow> nat" where
  "clamp lo hi n = max lo (min hi n)"

definition retry_after :: "response \<Rightarrow> nat" where
  "retry_after r = clamp 1 60
     (case Option.bind (rp_retry_after r) (\<lambda>v. parse_u64 (trim v)) of None \<Rightarrow> 2 | Some n \<Rightarrow> n)"

text \<open>The error envelope: its code and its details.\<close>

definition error_code :: "response \<Rightarrow> string option \<times> json option" where
  "error_code r =
     (case Option.bind (rp_json r) (jget ''error'') of
        None \<Rightarrow> (None, None)
      | Some e \<Rightarrow>
          (case jget_str ''code'' e of
             None \<Rightarrow> (None, None)
           | Some c \<Rightarrow> (Some c, (case jget ''details'' e of Some JNull \<Rightarrow> None | d \<Rightarrow> d))))"

definition api_error :: "nat \<Rightarrow> string option \<Rightarrow> core_error" where
  "api_error status code =
     (let c = (case code of Some c \<Rightarrow> c | None \<Rightarrow> ''http_'' @ dec_string status)
      in Api c (''the server refused the transfer ('' @ c @ '')''))"

definition parse_file_info :: "json \<Rightarrow> file_info option" where
  "parse_file_info j =
     (case (jget_str ''id'' j, jget_str ''channel_id'' j, jget_str ''uploader_id'' j,
            jget_str ''filename'' j, jget_str ''original_name'' j,
            Option.bind (jget ''size'' j) as_u64, jget_str ''content_type'' j,
            jget_str ''status'' j, field_opt_str ''sha256'' j) of
        (Some i, Some c, Some u, Some f, Some n, Some z, Some t, Some st, Some h) \<Rightarrow>
          Some \<lparr>fi_id = i, fi_channel_id = c, fi_uploader_id = u, fi_filename = f,
                fi_original_name = n, fi_size = z, fi_content_type = t, fi_status = st,
                fi_sha256 = h\<rparr>
      | _ \<Rightarrow> None)"

definition parse_file_created :: "json \<Rightarrow> (file_info \<times> string) option" where
  "parse_file_created j =
     (case (Option.bind (jget ''file'' j) parse_file_info, jget_str ''upload_url'' j) of
        (Some f, Some u) \<Rightarrow> Some (f, u)
      | _ \<Rightarrow> None)"

definition parsed :: "'a option \<Rightarrow> core_error + 'a" where
  "parsed v = (case v of None \<Rightarrow> Inl UnexpectedResponse | Some x \<Rightarrow> Inr x)"

text \<open>\<open>wait_or_stop\<close>: the flags as polled while waiting; the first that stops ends it.\<close>

fun wait_or_stop :: "flags list \<Rightarrow> core_error option" where
  "wait_or_stop [] = None"
| "wait_or_stop (f # fs) = (case stopped f of Some e \<Rightarrow> Some e | None \<Rightarrow> wait_or_stop fs)"

section \<open>Upload\<close>

text \<open>One attempt to create the file: flags, token, answer, and the flags while waiting.\<close>

record create_turn =
  ct_flags :: flags
  ct_token :: "core_error option"
  ct_answer :: "string + response"
  ct_polls :: "flags list"

text \<open>How long \<open>create_upload\<close> waits after the answer of an attempt, if it makes another one.\<close>

definition create_wait :: "nat \<Rightarrow> string + response \<Rightarrow> nat option" where
  "create_wait attempt answer =
     (if max_attempts \<le> attempt then None
      else (case answer of
              Inl _ \<Rightarrow> Some (backoff attempt)
            | Inr resp \<Rightarrow>
                if server_error (rp_status resp) then Some (backoff attempt)
                else if rp_status resp = 429 then Some (retry_after resp) else None))"

lemma create_wait_left: "create_wait attempt answer = Some w \<Longrightarrow> attempt < max_attempts"
  by (simp add: create_wait_def split: if_splits)

text \<open>The seconds it waited, in order, and what it came to.\<close>

function create_upload ::
  "(nat \<Rightarrow> create_turn) \<Rightarrow> nat \<Rightarrow> nat list \<times> (core_error + (file_info \<times> string))" where
  "create_upload env done =
     (let e = env done; attempt = Suc done in
      case stopped (ct_flags e) of
        Some stop \<Rightarrow> ([], Inl stop)
      | None \<Rightarrow>
          (case ct_token e of
             Some err \<Rightarrow> ([], Inl err)
           | None \<Rightarrow>
               (case create_wait attempt (ct_answer e) of
                  Some w \<Rightarrow>
                    (case wait_or_stop (ct_polls e) of
                       Some stop \<Rightarrow> ([w], Inl stop)
                     | None \<Rightarrow> (case create_upload env attempt of (ws, r) \<Rightarrow> (w # ws, r)))
                | None \<Rightarrow>
                    ([], case ct_answer e of
                           Inl err \<Rightarrow> Inl (Http err)
                         | Inr resp \<Rightarrow>
                             if success (rp_status resp)
                             then parsed (Option.bind (rp_json resp) parse_file_created)
                             else if rp_status resp = 401 then Inl NotAuthenticated
                             else Inl (api_error (rp_status resp) (fst (error_code resp)))))))"
  by pat_completeness auto
termination
  by (relation "measure (\<lambda>(env, done). max_attempts - done)") (auto dest: create_wait_left)

declare create_upload.simps [simp del]

text \<open>
  One attempt to send the bytes. \<open>pt_reader\<close>: the source could not be read (the error's kind);
  \<open>pt_after\<close>: the flags once the request failed; \<open>pt_create\<close>: the answers of a second create;
  \<open>pt_sha256\<close>: the source's own checksum.
\<close>

record put_turn =
  pt_flags :: flags
  pt_reader :: "string option"
  pt_token :: "core_error option"
  pt_answer :: "string + response"
  pt_after :: flags
  pt_create :: "nat \<Rightarrow> create_turn"
  pt_sha256 :: "string + string"
  pt_polls :: "flags list"

text \<open>\<open>join\<close> is the \<open>url\<close> crate's \<open>Url::join\<close> on the server's base.\<close>

definition upload_path :: "string \<Rightarrow> string" where
  "upload_path u = dropWhile (\<lambda>c. c = CHR ''/'') u"

text \<open>What one answered attempt decides: an end, another \<open>PUT\<close> at once (to a new URL), or a wait.\<close>

datatype put_outcome = PutEnds "core_error + file_info" | PutAgain | PutWaits nat

definition put_outcome ::
  "(string \<Rightarrow> core_error option) \<Rightarrow> nat \<Rightarrow> bool \<Rightarrow> put_turn \<Rightarrow> put_outcome" where
  "put_outcome join attempt recreated e =
     (case pt_answer e of
        Inl err \<Rightarrow>
          (case stopped (pt_after e) of
             Some stop \<Rightarrow> PutEnds (Inl stop)
           | None \<Rightarrow> if max_attempts \<le> attempt then PutEnds (Inl (Http err))
                     else PutWaits (backoff attempt))
      | Inr resp \<Rightarrow>
          (let status = rp_status resp in
           if success status then PutEnds (parsed (Option.bind (rp_json resp) parse_file_info))
           else if status = 401 then PutEnds (Inl NotAuthenticated)
           else if status = 404 \<and> \<not> recreated
           then (case snd (create_upload (pt_create e) 0) of
                   Inl err \<Rightarrow> PutEnds (Inl err)
                 | Inr (file, u) \<Rightarrow>
                     if fi_status file = ''committed'' then PutEnds (Inr file)
                     else (case join (upload_path u) of
                             Some err \<Rightarrow> PutEnds (Inl err)
                           | None \<Rightarrow> PutAgain))
           else
             (let (code, details) = error_code resp in
              if status = 409 \<and> code = Some ''file.already_committed''
              then (case Option.bind details parse_file_info of
                      None \<Rightarrow> PutEnds (Inl UnexpectedResponse)
                    | Some theirs \<Rightarrow>
                        (case pt_sha256 e of
                           Inl kind \<Rightarrow> PutEnds (Inl (io_error kind))
                         | Inr ours \<Rightarrow>
                             if fi_sha256 theirs = Some ours then PutEnds (Inr theirs)
                             else PutEnds (Inl (api_error status code))))
              else if status = 408 \<or> status = 429 \<or>
                      (status = 409 \<and> (code = Some ''file.upload_in_progress'' \<or>
                                       code = Some ''file.upload_expired''))
              then (if max_attempts \<le> attempt then PutEnds (Inl (api_error status code))
                    else PutWaits (retry_after resp))
              else if server_error status \<and> attempt < max_attempts
              then PutWaits (backoff attempt)
              else PutEnds (Inl (api_error status code)))))"

lemma put_outcome_again: "put_outcome join attempt recreated e = PutAgain \<Longrightarrow> \<not> recreated"
  by (auto simp: put_outcome_def Let_def split_def split: sum.splits option.splits if_splits)

lemma put_outcome_waits: "put_outcome join attempt recreated e = PutWaits w \<Longrightarrow> attempt < max_attempts"
  by (auto simp: put_outcome_def Let_def split_def not_le split: sum.splits option.splits if_splits prod.splits)

function put_loop ::
  "(string \<Rightarrow> core_error option) \<Rightarrow> (nat \<Rightarrow> put_turn) \<Rightarrow> nat \<Rightarrow> bool \<Rightarrow>
     transfer_state list \<times> (core_error + file_info)" where
  "put_loop join env done recreated =
     (let e = env done; attempt = Suc done in
      case stopped (pt_flags e) of
        Some stop \<Rightarrow> ([], Inl stop)
      | None \<Rightarrow>
          (case pt_reader e of
             Some kind \<Rightarrow> ([TransferRunning], Inl (io_error kind))
           | None \<Rightarrow>
               (case pt_token e of
                  Some err \<Rightarrow> ([TransferRunning], Inl err)
                | None \<Rightarrow>
                    (case put_outcome join attempt recreated e of
                       PutEnds r \<Rightarrow> ([TransferRunning], r)
                     | PutAgain \<Rightarrow>
                         (let (evs, r) = put_loop join env attempt True
                          in (TransferRunning # evs, r))
                     | PutWaits w \<Rightarrow>
                         (case wait_or_stop (pt_polls e) of
                            Some stop \<Rightarrow> ([TransferRunning, Retrying w], Inl stop)
                          | None \<Rightarrow>
                              (let (evs, r) = put_loop join env attempt recreated
                               in (TransferRunning # Retrying w # evs, r)))))))"
  by pat_completeness auto
termination
proof (relation "measure (\<lambda>(join, env, done, recreated). (max_attempts - done) + (if recreated then 0 else max_attempts + 1))", goal_cases)
  case (2 join env n recreated e attempt)
  then show ?case using put_outcome_again [of join attempt recreated e] by (simp add: max_attempts_def)
next
  case (3 join env n recreated e attempt)
  then show ?case using put_outcome_waits [of join attempt recreated e] by (simp add: max_attempts_def)
qed simp

declare put_loop.simps [simp del]

definition upload ::
  "(string \<Rightarrow> core_error option) \<Rightarrow> nat \<Rightarrow> (nat \<Rightarrow> create_turn) \<Rightarrow> (nat \<Rightarrow> put_turn) \<Rightarrow>
     transfer_state list \<times> (core_error + file_info)" where
  "upload join len creates puts =
     (if len = 0 then ([], Inl (Api ''file.empty'' ''an empty file can't be sent''))
      else (case snd (create_upload creates 0) of
              Inl err \<Rightarrow> ([], Inl err)
            | Inr (file, u) \<Rightarrow>
                if fi_status file = ''committed'' then ([], Inr file)
                else (case join (upload_path u) of
                        Some err \<Rightarrow> ([], Inl err)
                      | None \<Rightarrow> put_loop join puts 0 False)))"

text \<open>The event a transfer ends with (\<open>finish_events\<close>).\<close>

fun finish_state :: "core_error + 'a \<Rightarrow> transfer_state" where
  "finish_state (Inr _) = TransferDone"
| "finish_state (Inl (Api code _)) =
     (if code = ''transfer.cancelled'' then Cancelled else TransferFailed code)"
| "finish_state (Inl NotAuthenticated) = TransferFailed ''auth.not_authenticated''"
| "finish_state (Inl (Http _)) = TransferFailed ''transfer.network''"
| "finish_state (Inl _) = TransferFailed ''transfer.failed''"

end
