(* ===== verification/Download.thy ===== *)
theory Download
  imports Uploads
begin

text \<open>
  \<open>core/src/transfer.rs\<close>, the download half: where the bytes go is an interface
  (\<open>DownloadSink\<close>), here a record of operations over a sink state, with its contract as a
  locale; \<open>FileSink\<close> interprets it. The loop is driven by a script, one turn per request.
\<close>

section \<open>Sinks\<close>

datatype sink_error = SinkIo string | Mismatch

text \<open>An operation answers the sink it leaves, and the error it failed with, if it did.\<close>

record 's sink_ops =
  sk_offset :: "'s \<Rightarrow> nat"
  sk_restart :: "'s \<Rightarrow> 's \<times> string option"
  sk_write :: "string \<Rightarrow> 's \<Rightarrow> 's \<times> string option"
  sk_finish :: "string \<Rightarrow> 's \<Rightarrow> 's \<times> sink_error option"
  sk_abort :: "'s \<Rightarrow> 's"

fun sink_failure :: "sink_error \<Rightarrow> core_error" where
  "sink_failure (SinkIo kind) = io_error kind"
| "sink_failure Mismatch = integrity_error"

section \<open>A body\<close>

datatype streamed = StStopped core_error | StNetwork | StSink string | StTooLong

text \<open>The pieces of a body as they arrive, each with the flags as read at that turn.\<close>

fun stream_into ::
  "'s sink_ops \<Rightarrow> nat \<Rightarrow> (flags \<times> arrival) list \<Rightarrow> 's \<Rightarrow> 's \<times> streamed option" where
  "stream_into ops len [] s = (s, None)"
| "stream_into ops len ((f, a) # rest) s =
     (case stopped f of
        Some stop \<Rightarrow> (s, Some (StStopped stop))
      | None \<Rightarrow>
          (case a of
             Stall \<Rightarrow> stream_into ops len rest s
           | Broken \<Rightarrow> (s, Some StNetwork)
           | Piece b \<Rightarrow>
               if len < sk_offset ops s + length b then (s, Some StTooLong)
               else (case sk_write ops b s of
                       (s', Some kind) \<Rightarrow> (s', Some (StSink kind))
                     | (s', None) \<Rightarrow> stream_into ops len rest s')))"

definition same_text :: "string \<Rightarrow> string \<Rightarrow> bool" where
  "same_text s t \<longleftrightarrow> map ascii_lower s = map ascii_lower t"

definition has_content_coding :: "response \<Rightarrow> bool" where
  "has_content_coding r =
     list_ex (\<lambda>v. \<not> same_text (trim (case v of None \<Rightarrow> ''x'' | Some t \<Rightarrow> t)) ''identity'')
       (rp_content_encodings r)"

definition content_range_starts_at :: "nat \<Rightarrow> response \<Rightarrow> bool" where
  "content_range_starts_at offset r \<longleftrightarrow>
     Option.bind (rp_content_range r) (\<lambda>v. Option.bind (strip_prefix v ''bytes '')
       (\<lambda>t. parse_u64 (takeWhile (\<lambda>c. c \<noteq> CHR ''-'') t))) = Some offset"

section \<open>The loop\<close>

text \<open>One request: flags, token, the server's answer to a request from that offset, polls.\<close>

record get_turn =
  gt_flags :: flags
  gt_token :: "core_error option"
  gt_answer :: "nat option \<Rightarrow> string + response"
  gt_polls :: "flags list"

datatype get_outcome = GetEnds "core_error option" | GetAgain | GetWaits nat

text \<open>The sink starts over, then the loop goes on as \<open>k\<close> says.\<close>

definition restarting ::
  "'s sink_ops \<Rightarrow> 's \<Rightarrow> bool \<Rightarrow> ('s \<Rightarrow> 's \<times> bool \<times> get_outcome) \<Rightarrow> 's \<times> bool \<times> get_outcome" where
  "restarting ops s no_range k =
     (case sk_restart ops s of
        (s', Some kind) \<Rightarrow> (s', no_range, GetEnds (Some (io_error kind)))
      | (s', None) \<Rightarrow> k s')"

definition finishing :: "'s sink_ops \<Rightarrow> string \<Rightarrow> 's \<Rightarrow> 's \<times> core_error option" where
  "finishing ops sha s =
     (case sk_finish ops sha s of
        (s', None) \<Rightarrow> (s', None)
      | (s', Some e) \<Rightarrow> (s', Some (sink_failure e)))"

text \<open>The body of a trusted answer.\<close>

definition take_body ::
  "'s sink_ops \<Rightarrow> string \<Rightarrow> nat \<Rightarrow> nat \<Rightarrow> bool \<Rightarrow> response \<Rightarrow> 's \<Rightarrow> 's \<times> bool \<times> get_outcome" where
  "take_body ops sha len attempt no_range resp s =
     (case stream_into ops len (rp_stream resp) s of
        (s', None) \<Rightarrow> (let (s', e) = finishing ops sha s' in (s', no_range, GetEnds e))
      | (s', Some (StStopped stop)) \<Rightarrow> (s', no_range, GetEnds (Some stop))
      | (s', Some (StSink kind)) \<Rightarrow> (s', no_range, GetEnds (Some (io_error kind)))
      | (s', Some StTooLong) \<Rightarrow> (s', no_range, GetEnds (Some integrity_error))
      | (s', Some StNetwork) \<Rightarrow>
          (s', no_range,
           if attempt < max_attempts then GetWaits (backoff attempt)
           else GetEnds (Some (Api ''transfer.network'' ''the download kept failing''))))"

definition weak_etag :: "response \<Rightarrow> bool" where
  "weak_etag r = (case rp_etag r of None \<Rightarrow> False | Some e \<Rightarrow> starts_with e ''W/'')"

definition content_outcome ::
  "'s sink_ops \<Rightarrow> string \<Rightarrow> nat \<Rightarrow> nat \<Rightarrow> bool \<Rightarrow> nat \<Rightarrow> response \<Rightarrow> 's \<Rightarrow> 's \<times> bool \<times> get_outcome"
where
  "content_outcome ops sha len attempt no_range offset resp s =
     (let validator = [CHR 0x22] @ sha @ [CHR 0x22]; partial = (rp_status resp = 206) in
      if weak_etag resp \<and> (partial \<or> 0 < offset)
      then restarting ops s no_range (\<lambda>s. (s, True, GetAgain))
      else if \<not> weak_etag resp \<and> rp_etag resp \<noteq> None \<and> rp_etag resp \<noteq> Some validator
      then (s, no_range, GetEnds (Some integrity_error))
      else if partial \<and> 0 < offset \<and> rp_etag resp \<noteq> Some validator
      then restarting ops s no_range (\<lambda>s. (s, True, GetAgain))
      else
        (if rp_status resp = 200 \<and> 0 < offset then restarting ops s no_range
         else (\<lambda>k. k s))
        (\<lambda>s. if partial \<and> \<not> content_range_starts_at offset resp
              then restarting ops s no_range (\<lambda>s. (s, True, GetAgain))
              else take_body ops sha len attempt no_range resp s))"

definition get_outcome ::
  "'s sink_ops \<Rightarrow> string \<Rightarrow> nat \<Rightarrow> nat \<Rightarrow> bool \<Rightarrow> nat \<Rightarrow> string + response \<Rightarrow> 's \<Rightarrow>
     's \<times> bool \<times> get_outcome"
where
  "get_outcome ops sha len attempt no_range offset answer s =
     (case answer of
        Inl err \<Rightarrow>
          (s, no_range, if max_attempts \<le> attempt then GetEnds (Some (Http err))
                        else GetWaits (backoff attempt))
      | Inr resp \<Rightarrow>
          (let status = rp_status resp in
           if status = 200 \<or> status = 206
           then (if has_content_coding resp
                 then restarting ops s no_range (\<lambda>s.
                        if max_attempts \<le> attempt
                        then (s, no_range, GetEnds (Some (Api ''transfer.encoded''
                               ''the server kept compressing the file'')))
                        else (s, True, GetWaits (if no_range then backoff attempt else 0)))
                 else content_outcome ops sha len attempt no_range offset resp s)
           else if status = 401 then (s, no_range, GetEnds (Some NotAuthenticated))
           else if status = 404 then (s, no_range, GetEnds (Some gone_error))
           else if status = 416 then restarting ops s no_range (\<lambda>s. (s, no_range, GetWaits 0))
           else if server_error status \<and> attempt < max_attempts
           then (s, no_range, GetWaits (backoff attempt))
           else (s, no_range, GetEnds (Some (api_error status (fst (error_code resp)))))))"

text \<open>
  \<open>download\<close>: the result is \<open>None\<close> when the script ends before the loop does, \<open>Some None\<close> for
  \<open>Ok\<close>.
\<close>

text \<open>The attempt is a \<open>u32\<close>, which wraps around in a release build.\<close>

definition next_attempt :: "nat \<Rightarrow> nat" where
  "next_attempt n = Suc n mod 2 ^ 32"

lemma next_attempt_small [code]: "next_attempt n = (if n < 8 then Suc n else Suc n mod 2 ^ 32)"
  by (simp add: next_attempt_def)

fun download_loop ::
  "'s sink_ops \<Rightarrow> string \<Rightarrow> nat \<Rightarrow> get_turn list \<Rightarrow> nat \<Rightarrow> bool \<Rightarrow> 's \<Rightarrow>
     's \<times> transfer_state list \<times> core_error option option"
where
  "download_loop ops sha len [] n no_range s = (s, [], None)"
| "download_loop ops sha len (t # ts) n no_range s =
     (let attempt = next_attempt n; offset = sk_offset ops s in
      case stopped (gt_flags t) of
        Some stop \<Rightarrow> (s, [], Some (Some stop))
      | None \<Rightarrow>
          if len \<le> offset \<and> 0 < len
          then (let (s, e) = finishing ops sha s in (s, [], Some e))
          else
            (case gt_token t of
               Some err \<Rightarrow> (s, [TransferRunning], Some (Some err))
             | None \<Rightarrow>
                 (case get_outcome ops sha len attempt no_range offset
                         (gt_answer t (if 0 < offset \<and> \<not> no_range then Some offset else None)) s of
                    (s, _, GetEnds e) \<Rightarrow> (s, [TransferRunning], Some e)
                  | (s, no_range, GetAgain) \<Rightarrow>
                      (let (s, evs, r) = download_loop ops sha len ts attempt no_range s
                       in (s, TransferRunning # evs, r))
                  | (s, no_range, GetWaits w) \<Rightarrow>
                      if w = 0
                      then (let (s, evs, r) = download_loop ops sha len ts attempt no_range s
                            in (s, TransferRunning # evs, r))
                      else (case wait_or_stop (gt_polls t) of
                              Some stop \<Rightarrow> (s, [TransferRunning, Retrying w], Some (Some stop))
                            | None \<Rightarrow>
                                (let (s, evs, r) = download_loop ops sha len ts attempt no_range s
                                 in (s, TransferRunning # Retrying w # evs, r))))))"

definition download ::
  "'s sink_ops \<Rightarrow> string \<Rightarrow> nat \<Rightarrow> get_turn list \<Rightarrow> 's \<Rightarrow>
     's \<times> transfer_state list \<times> core_error option option"
where
  "download ops sha len script s = download_loop ops sha len script 0 False s"

text \<open>\<open>BrookClient::download_file\<close>: a failed download aborts its sink.\<close>

definition download_file ::
  "'s sink_ops \<Rightarrow> string \<Rightarrow> nat \<Rightarrow> get_turn list \<Rightarrow> 's \<Rightarrow>
     's \<times> transfer_state list \<times> core_error option option"
where
  "download_file ops sha len script s =
     (case download ops sha len script s of
        (s, evs, None) \<Rightarrow> (s, evs, None)
      | (s, evs, Some e) \<Rightarrow>
          (if e = None then s else sk_abort ops s,
           evs @ [finish_state (case e of None \<Rightarrow> Inr () | Some err \<Rightarrow> Inl err)], Some e))"

section \<open>The file sink\<close>

text \<open>
  A \<open>FileSink\<close> and its file: \<open>fs_disk\<close> is what the file holds (\<open>None\<close>: removed), \<open>fs_hashed\<close> the
  bytes given to the checksum. \<open>fs_faults\<close>: for each operation on the file to come, the error
  it fails with and how many bytes of it reached the file.
\<close>

record file_sink =
  fs_open :: bool
  fs_disk :: "string option"
  fs_written :: nat
  fs_hashed :: string
  fs_faults :: "(string \<times> nat) option list"

definition next_fault :: "file_sink \<Rightarrow> (string \<times> nat) option \<times> file_sink" where
  "next_fault s = (case fs_faults s of
       [] \<Rightarrow> (None, s)
     | f # fs \<Rightarrow> (f, s\<lparr>fs_faults := fs\<rparr>))"

definition file_bytes :: "file_sink \<Rightarrow> string" where
  "file_bytes s = (case fs_disk s of None \<Rightarrow> [] | Some d \<Rightarrow> d)"

definition create_file_sink :: "(string \<times> nat) option list \<Rightarrow> file_sink" where
  "create_file_sink faults =
     \<lparr>fs_open = True, fs_disk = Some [], fs_written = 0, fs_hashed = [], fs_faults = faults\<rparr>"

definition file_restart :: "file_sink \<Rightarrow> file_sink \<times> string option" where
  "file_restart s =
     (if \<not> fs_open s then (s, Some ''BrokenPipe'')
      else (case next_fault s of
              (Some (kind, _), s) \<Rightarrow> (s, Some kind)
            | (None, s) \<Rightarrow> (s\<lparr>fs_disk := Some [], fs_written := 0, fs_hashed := []\<rparr>, None)))"

definition file_write :: "string \<Rightarrow> file_sink \<Rightarrow> file_sink \<times> string option" where
  "file_write b s =
     (if \<not> fs_open s then (s, Some ''BrokenPipe'')
      else (case next_fault s of
              (Some (kind, k), s) \<Rightarrow> (s\<lparr>fs_disk := Some (file_bytes s @ take k b)\<rparr>, Some kind)
            | (None, s) \<Rightarrow>
                (s\<lparr>fs_disk := Some (file_bytes s @ b), fs_hashed := fs_hashed s @ b,
                   fs_written := fs_written s + length b\<rparr>, None)))"

text \<open>\<open>sha256\<close> is the digest in hex, a parameter (the \<open>ring\<close> crate).\<close>

definition file_finish ::
  "(string \<Rightarrow> string) \<Rightarrow> string \<Rightarrow> file_sink \<Rightarrow> file_sink \<times> sink_error option" where
  "file_finish sha256 sha s =
     (if \<not> same_text (sha256 (fs_hashed s)) sha then (s, Some Mismatch)
      else if \<not> fs_open s then (s, Some (SinkIo ''BrokenPipe''))
      else (case next_fault s of
              (Some (kind, _), s) \<Rightarrow> (s, Some (SinkIo kind))
            | (None, s) \<Rightarrow> (s\<lparr>fs_open := False\<rparr>, None)))"

definition file_abort :: "file_sink \<Rightarrow> file_sink" where
  "file_abort s =
     (let (cut, s) = (if fs_open s then next_fault s else (Some ('''', 0), s));
          s = (if cut = None then s\<lparr>fs_disk := Some []\<rparr> else s)\<lparr>fs_open := False\<rparr>;
          (unlink, s) = next_fault s
      in if unlink = None then s\<lparr>fs_disk := None\<rparr> else s)"

definition file_sink_ops :: "(string \<Rightarrow> string) \<Rightarrow> file_sink sink_ops" where
  "file_sink_ops sha256 =
     \<lparr>sk_offset = fs_written, sk_restart = file_restart, sk_write = file_write,
      sk_finish = file_finish sha256, sk_abort = file_abort\<rparr>"

text \<open>
  A turn whose answer is neither a \<open>416\<close> nor a \<open>206\<close> counts against the attempts; a script of such
  turns longer than the attempts always gets a result.
\<close>

definition plain_turn :: "get_turn \<Rightarrow> bool" where
  "plain_turn t \<longleftrightarrow> (\<forall>off resp. gt_answer t off = Inr resp \<longrightarrow> rp_status resp \<noteq> 416 \<and> rp_status resp \<noteq> 206)"

section \<open>The contract of a sink\<close>

locale download_sink =
  fixes ops :: "'s sink_ops"
    and sound :: "'s \<Rightarrow> bool"
    and content :: "'s \<Rightarrow> string"
    and digest :: "string \<Rightarrow> string"
  assumes offset_is: "sound s \<Longrightarrow> sk_offset ops s = length (content s)"
    and restarts: "sound s \<Longrightarrow> sk_restart ops s = (s', None) \<Longrightarrow> sound s' \<and> content s' = []"
    and restart_fails: "sound s \<Longrightarrow> sk_restart ops s = (s', Some e) \<Longrightarrow> content s' = content s"
    and writes: "sound s \<Longrightarrow> sk_write ops b s = (s', None) \<Longrightarrow> sound s' \<and> content s' = content s @ b"
    and write_fails: "sound s \<Longrightarrow> sk_write ops b s = (s', Some e) \<Longrightarrow>
      length (content s') \<le> length (content s) + length b"
    and finishes: "sound s \<Longrightarrow> sk_finish ops sha s = (s', None) \<Longrightarrow>
      content s' = content s \<and> same_text (digest (content s)) sha"
    and finish_fails: "sound s \<Longrightarrow> sk_finish ops sha s = (s', Some err) \<Longrightarrow> content s' = content s"
begin

lemma stream_bounded:
  assumes "sound s" and "length (content s) \<le> len" and "stream_into ops len str s = (s', r)"
  shows "length (content s') \<le> len"
    and "(case r of Some (StSink _) \<Rightarrow> True | _ \<Rightarrow> sound s')"
proof -
  have "length (content s') \<le> len \<and> (case r of Some (StSink _) \<Rightarrow> True | _ \<Rightarrow> sound s')"
    using assms
  proof (induction str arbitrary: s)
    case (Cons p rest)
    obtain f a where p: "p = (f, a)" by (cases p)
    note prems = Cons.prems [unfolded p]
    show ?case
    proof (cases "stopped f = None \<and> (\<exists>b. a = Piece b \<and> sk_offset ops s + length b \<le> len)")
      case True
      then obtain b where b: "a = Piece b" "sk_offset ops s + length b \<le> len" by blast
      obtain s1 e where w: "sk_write ops b s = (s1, e)" by force
      show ?thesis
      proof (cases e)
        case None
        with w writes [OF prems(1)] have "sound s1" "content s1 = content s @ b" by auto
        moreover from this b offset_is [OF prems(1)] have "length (content s1) \<le> len" by simp
        moreover have "stream_into ops len rest s1 = (s', r)" using prems(3) True b w None by simp
        ultimately show ?thesis using Cons.IH by blast
      next
        case (Some k)
        with w write_fails [OF prems(1)] have "length (content s1) \<le> length (content s) + length b"
          by auto
        with offset_is [OF prems(1)] prems(3) True b w Some show ?thesis by auto
      qed
    next
      case False
      then show ?thesis
        using prems Cons.IH [OF prems(1,2)]
        by (cases a) (auto split: option.splits if_splits)
    qed
  qed auto
  then show "length (content s') \<le> len" "(case r of Some (StSink _) \<Rightarrow> True | _ \<Rightarrow> sound s')"
    by blast+
qed

lemma finishing_content:
  assumes "sound s" and "finishing ops sha s = (s', e)"
  shows "content s' = content s" and "e = None \<Longrightarrow> same_text (digest (content s')) sha"
  using assms finishes [OF assms(1), of sha] finish_fails [OF assms(1), of sha]
  by (auto simp: finishing_def split: prod.splits option.splits)

text \<open>What one answer leaves: never more than the size, and a finished file has its checksum.\<close>

definition turn_ok :: "string \<Rightarrow> nat \<Rightarrow> 's \<times> bool \<times> get_outcome \<Rightarrow> bool" where
  "turn_ok sha len t \<longleftrightarrow> (case t of (s, _, out) \<Rightarrow>
     length (content s) \<le> len \<and>
     (case out of
        GetEnds None \<Rightarrow> same_text (digest (content s)) sha
      | GetEnds _ \<Rightarrow> True
      | _ \<Rightarrow> sound s))"

lemma restarting_ok:
  assumes "sound s" and "length (content s) \<le> len"
    and "\<And>s'. sound s' \<Longrightarrow> content s' = [] \<Longrightarrow> turn_ok sha len (k s')"
  shows "turn_ok sha len (restarting ops s no_range k)"
proof (cases "sk_restart ops s")
  case (Pair s' e)
  show ?thesis
  proof (cases e)
    case None
    with Pair restarts [OF assms(1)] assms(3) show ?thesis by (simp add: restarting_def)
  next
    case (Some kind)
    with Pair restart_fails [OF assms(1)] assms(2) show ?thesis
      by (simp add: restarting_def turn_ok_def)
  qed
qed

lemma take_body_ok:
  assumes "sound s" and "length (content s) \<le> len"
  shows "turn_ok sha len (take_body ops sha len attempt no_range resp s)"
proof -
  obtain s1 r where st: "stream_into ops len (rp_stream resp) s = (s1, r)" by force
  note b = stream_bounded [OF assms st]
  show ?thesis
  proof (cases r)
    case None
    obtain s2 e where f: "finishing ops sha s1 = (s2, e)" by force
    from b(2) None have "sound s1" by simp
    from finishing_content [OF this f] b(1) show ?thesis
      by (auto simp: take_body_def st None f turn_ok_def split: option.splits)
  next
    case (Some q)
    with b show ?thesis by (cases q) (auto simp: take_body_def st turn_ok_def)
  qed
qed

lemma get_outcome_ok:
  assumes "sound s" and "length (content s) \<le> len"
  shows "turn_ok sha len (get_outcome ops sha len attempt no_range off answer s)"
proof (cases answer)
  case (Inl err)
  then show ?thesis using assms by (simp add: get_outcome_def turn_ok_def)
next
  case (Inr resp)
  have again: "turn_ok sha len (restarting ops s no_range (\<lambda>s. (s, nr, GetAgain)))"
    "turn_ok sha len (restarting ops s no_range (\<lambda>s. (s, nr, GetWaits w)))"
    if "sound s" "length (content s) \<le> len" for s nr w
    by (rule restarting_ok [OF that], simp add: turn_ok_def)+
  have "turn_ok sha len (content_outcome ops sha len attempt no_range off resp s)"
    using assms again take_body_ok
    by (auto simp: content_outcome_def Let_def turn_ok_def [of _ _ "(s, _)"] intro!: restarting_ok)
  moreover have "turn_ok sha len (restarting ops s no_range (\<lambda>s.
      if max_attempts \<le> attempt
      then (s, no_range, GetEnds (Some (Api ''transfer.encoded'' ''the server kept compressing the file'')))
      else (s, True, GetWaits (if no_range then backoff attempt else 0))))"
    by (rule restarting_ok [OF assms]) (simp add: turn_ok_def)
  ultimately show ?thesis
    using assms again by (auto simp: get_outcome_def Inr Let_def turn_ok_def [of _ _ "(s, _)"])
qed

lemma download_loop_ok:
  assumes "sound s" and "length (content s) \<le> len"
    and "download_loop ops sha len ts n no_range s = (s', evs, r)"
  shows "length (content s') \<le> len \<and> (r = Some None \<longrightarrow> same_text (digest (content s')) sha)"
  using assms
proof (induction ts arbitrary: n no_range s evs)
  case (Cons t ts)
  show ?case
  proof (cases "stopped (gt_flags t) = None \<and> \<not> (len \<le> sk_offset ops s \<and> 0 < len) \<and> gt_token t = None")
    case False
    show ?thesis
    proof (cases "stopped (gt_flags t) = None \<and> len \<le> sk_offset ops s \<and> 0 < len")
      case True
      obtain s2 e where f: "finishing ops sha s = (s2, e)" by force
      with Cons.prems True have "s' = s2" "r = Some e" by auto
      with finishing_content [OF Cons.prems(1) f] Cons.prems(2) show ?thesis by auto
    next
      case no: False
      have "s' = s \<and> r \<noteq> Some None"
      proof (cases "stopped (gt_flags t)")
        case None
        with no False obtain err where "gt_token t = Some err" "\<not> (len \<le> sk_offset ops s \<and> 0 < len)"
          by (cases "gt_token t") auto
        with None Cons.prems(3) show ?thesis by (auto simp: Let_def)
      qed (use Cons.prems(3) in auto)
      with Cons.prems(2) show ?thesis by simp
    qed
  next
    case True
    let ?a = "gt_answer t (if 0 < sk_offset ops s \<and> \<not> no_range then Some (sk_offset ops s) else None)"
    obtain s1 nr out where o: "get_outcome ops sha len (next_attempt n) no_range (sk_offset ops s) ?a s = (s1, nr, out)"
      by (metis prod_cases3)
    from get_outcome_ok [OF Cons.prems(1,2)] have ok: "turn_ok sha len (s1, nr, out)" by (metis o)
    have go: "length (content s') \<le> len \<and> (r = Some None \<longrightarrow> same_text (digest (content s')) sha)"
      if "download_loop ops sha len ts (next_attempt n) nr s1 = (s', evs', r)" "out = GetAgain \<or> (\<exists>w. out = GetWaits w)"
      for evs'
      using Cons.IH [OF _ _ that(1)] ok that(2) by (auto simp: turn_ok_def)
    show ?thesis
    proof (cases out)
      case (GetEnds e)
      with Cons.prems(3) True o have "s' = s1" "r = Some e" by (auto simp: Let_def)
      with ok GetEnds show ?thesis by (auto simp: turn_ok_def split: option.splits)
    next
      case GetAgain
      with Cons.prems(3) True o go show ?thesis by (auto simp: Let_def split: prod.splits)
    next
      case (GetWaits w)
      with Cons.prems(3) True o go ok show ?thesis
        by (auto simp: Let_def turn_ok_def split: prod.splits option.splits if_splits)
    qed
  qed
qed auto

text \<open>A plain answer goes on only below the attempts, or once after dropping what was held.\<close>

lemma get_outcome_goes_on:
  assumes "sound s" and "get_outcome ops sha len attempt no_range off (gt_answer t q) s = (s', nr, out)"
    and "plain_turn t" and "max_attempts \<le> attempt"
  shows "(\<exists>e. out = GetEnds e) \<or> (out = GetAgain \<and> 0 < off \<and> content s' = [])"
proof (cases "gt_answer t q")
  case (Inl err)
  with assms(2,4) show ?thesis by (auto simp: get_outcome_def)
next
  case (Inr resp)
  then have st: "rp_status resp \<noteq> 416" "rp_status resp \<noteq> 206" using assms(3) by (auto simp: plain_turn_def)
  have restarted: "content s' = []" if "restarting ops s no_range (\<lambda>s. (s, True, GetAgain)) = (s', nr, GetAgain)"
    using that restarts [OF assms(1)] by (auto simp: restarting_def split: prod.splits option.splits)
  have body: "\<exists>e. out = GetEnds e" if "take_body ops sha len attempt no_range resp x = (s', nr, out)" for x
    using that assms(4) by (auto simp: take_body_def split: prod.splits option.splits streamed.splits)
  show ?thesis
  proof (cases "rp_status resp = 200 \<and> \<not> has_content_coding resp")
    case True
    with assms(2) Inr have c: "content_outcome ops sha len attempt no_range off resp s = (s', nr, out)"
      by (simp add: get_outcome_def Let_def)
    show ?thesis
    proof (cases "weak_etag resp \<and> 0 < off")
      case weak: True
      with c True have r: "restarting ops s no_range (\<lambda>s. (s, True, GetAgain)) = (s', nr, out)"
        by (simp add: content_outcome_def Let_def)
      then have "out = GetAgain \<or> (\<exists>e. out = GetEnds e)"
        by (auto simp: restarting_def split: prod.splits option.splits)
      with r restarted weak show ?thesis by auto
    next
      case False
      with c True st body show ?thesis
        by (auto simp: content_outcome_def Let_def restarting_def split: if_splits prod.splits option.splits)
    qed
  next
    case False
    with assms(2,4) Inr st show ?thesis
      by (auto simp: get_outcome_def Let_def restarting_def split: if_splits prod.splits option.splits)
  qed
qed

lemma download_loop_ends:
  assumes "sound s" and "length (content s) \<le> len" and "\<forall>t \<in> set ts. plain_turn t"
    and "(max_attempts - n) + (if content s = [] \<and> max_attempts \<le> Suc n then 1 else 2) \<le> length ts"
    and "n \<le> max_attempts \<or> n = Suc max_attempts \<and> content s = []"
  shows "snd (snd (download_loop ops sha len ts n no_range s)) \<noteq> None"
  using assms
proof (induction ts arbitrary: n no_range s)
  case (Cons t ts)
  show ?case
  proof (cases "stopped (gt_flags t) = None \<and> \<not> (len \<le> sk_offset ops s \<and> 0 < len) \<and> gt_token t = None")
    case False
    then show ?thesis by (auto simp: Let_def split_def split: option.splits)
  next
    case True
    let ?off = "sk_offset ops s"
    let ?a = "gt_answer t (if 0 < ?off \<and> \<not> no_range then Some ?off else None)"
    obtain s1 nr out where o: "get_outcome ops sha len (next_attempt n) no_range ?off ?a s = (s1, nr, out)"
      by (metis prod_cases3)
    from get_outcome_ok [OF Cons.prems(1,2)] have ok: "turn_ok sha len (s1, nr, out)" by (metis o)
    have next_n: "next_attempt n = Suc n" using Cons.prems(5) by (auto simp: next_attempt_def max_attempts_def)
    have on: "snd (snd (download_loop ops sha len ts (next_attempt n) nr s1)) \<noteq> None" if "\<not> (\<exists>e. out = GetEnds e)"
    proof (rule Cons.IH)
      show "sound s1" "length (content s1) \<le> len" using ok that
        by (auto simp: turn_ok_def split: get_outcome.splits)
      show "\<forall>t \<in> set ts. plain_turn t" using Cons.prems(3) by simp
      have at: "0 < ?off \<and> content s1 = [] \<and> content s \<noteq> []" if m: "max_attempts \<le> Suc n"
      proof -
        have "0 < ?off" "content s1 = []"
          using get_outcome_goes_on [OF Cons.prems(1) o _ m [folded next_n]] \<open>\<not> (\<exists>e. out = GetEnds e)\<close> Cons.prems(3) by auto
        with offset_is [OF Cons.prems(1)] show ?thesis by auto
      qed
      show "(max_attempts - next_attempt n) + (if content s1 = [] \<and> max_attempts \<le> Suc (next_attempt n) then 1 else 2) \<le> length ts"
      proof (cases "max_attempts \<le> Suc n")
        case False
        then show ?thesis using Cons.prems(4) by (auto simp: next_n split: if_splits)
      next
        case True
        with at Cons.prems(4) show ?thesis by (simp add: next_n)
      qed
      show "next_attempt n \<le> max_attempts \<or> next_attempt n = Suc max_attempts \<and> content s1 = []"
        using at Cons.prems(5) unfolding next_n by (cases "max_attempts \<le> Suc n") auto
    qed
    then show ?thesis using True o
      by (cases out) (auto simp: Let_def split_def split: option.splits)
  qed
qed (simp split: if_splits)

lemma download_ok:
  assumes "sound s" and "length (content s) \<le> len" and "download ops sha len script s = (s', evs, r)"
  shows "length (content s') \<le> len" and "r = Some None \<Longrightarrow> same_text (digest (content s')) sha"
  using download_loop_ok [OF assms(1,2)] assms(3) by (auto simp: download_def)

end

section \<open>The file sink keeps the contract\<close>

definition file_sound :: "file_sink \<Rightarrow> bool" where
  "file_sound s \<longleftrightarrow> fs_open s \<and> fs_disk s = Some (fs_hashed s) \<and> fs_written s = length (fs_hashed s)"

lemma next_fault_frame [simp]:
  "next_fault s = (f, s') \<Longrightarrow> fs_open s' = fs_open s \<and> fs_disk s' = fs_disk s \<and>
     fs_written s' = fs_written s \<and> fs_hashed s' = fs_hashed s"
  by (auto simp: next_fault_def split: list.splits)

lemma next_fault_bytes: "next_fault s = (f, s') \<Longrightarrow> file_bytes s' = file_bytes s"
  by (simp add: file_bytes_def)

interpretation saved: download_sink "file_sink_ops sha256" file_sound file_bytes sha256
proof unfold_locales
  fix s s' :: file_sink and b e err sha
  assume s: "file_sound s"
  then have op: "fs_open s" and bytes: "file_bytes s = fs_hashed s" and disk: "fs_disk s = Some (fs_hashed s)"
    and n: "fs_written s = length (fs_hashed s)"
    by (simp_all add: file_sound_def file_bytes_def)
  obtain f s1 where nf: "next_fault s = (f, s1)" by force
  have fr [simp]: "fs_open s1" "fs_disk s1 = Some (fs_hashed s)" "fs_hashed s1 = fs_hashed s"
    "fs_written s1 = length (fs_hashed s)"
    using next_fault_frame [OF nf] op disk n by simp_all
  have b1 [simp]: "file_bytes s1 = fs_hashed s" by (simp add: file_bytes_def)
  show "sk_offset (file_sink_ops sha256) s = length (file_bytes s)"
    by (simp add: file_sink_ops_def n bytes)
  show "file_sound s' \<and> file_bytes s' = []" if "sk_restart (file_sink_ops sha256) s = (s', None)"
    using that op by (cases f) (auto simp: file_sink_ops_def file_restart_def nf file_sound_def file_bytes_def)
  show "file_bytes s' = file_bytes s" if "sk_restart (file_sink_ops sha256) s = (s', Some e)"
  proof -
    have "s' = s1" using that op by (cases f) (auto simp: file_sink_ops_def file_restart_def nf)
    then show ?thesis by (simp add: bytes)
  qed
  show "file_sound s' \<and> file_bytes s' = file_bytes s @ b" if "sk_write (file_sink_ops sha256) b s = (s', None)"
  proof -
    have "s' = s1\<lparr>fs_disk := Some (fs_hashed s @ b), fs_hashed := fs_hashed s @ b,
        fs_written := length (fs_hashed s) + length b\<rparr>"
      using that op by (cases f) (auto simp: file_sink_ops_def file_write_def nf)
    then show ?thesis by (simp add: file_sound_def bytes) (simp add: file_bytes_def)
  qed
  show "length (file_bytes s') \<le> length (file_bytes s) + length b"
    if "sk_write (file_sink_ops sha256) b s = (s', Some e)"
  proof -
    from that op obtain k where "s' = s1\<lparr>fs_disk := Some (fs_hashed s @ take k b)\<rparr>"
      by (cases f) (auto simp: file_sink_ops_def file_write_def nf)
    then show ?thesis by (simp add: bytes) (simp add: file_bytes_def)
  qed
  show "file_bytes s' = file_bytes s \<and> same_text (sha256 (file_bytes s)) sha"
    if "sk_finish (file_sink_ops sha256) sha s = (s', None)"
  proof -
    have "s' = s1\<lparr>fs_open := False\<rparr>" "same_text (sha256 (fs_hashed s)) sha"
      using that op by (cases f; auto simp: file_sink_ops_def file_finish_def nf split: if_splits)+
    then show ?thesis by (simp add: bytes) (simp add: file_bytes_def)
  qed
  show "file_bytes s' = file_bytes s" if "sk_finish (file_sink_ops sha256) sha s = (s', Some err)"
  proof -
    have "s' = s1 \<or> s' = s"
      using that op by (cases f) (auto simp: file_sink_ops_def file_finish_def nf split: if_splits)
    then show ?thesis by (auto simp: bytes)
  qed
qed

lemma file_sound_new: "file_sound (create_file_sink faults)"
  by (simp add: file_sound_def create_file_sink_def)

lemma file_bytes_new [simp]: "file_bytes (create_file_sink faults) = []"
  by (simp add: file_bytes_def create_file_sink_def)

text \<open>A saved file is the file asked for, and is never longer than it was said to be.\<close>

lemma file_download_ok:
  assumes "download_file (file_sink_ops sha256) sha len script (create_file_sink faults) = (s', evs, Some None)"
  shows "same_text (sha256 (file_bytes s')) sha \<and> length (file_bytes s') \<le> len"
proof -
  obtain t e r where d: "download (file_sink_ops sha256) sha len script (create_file_sink faults) = (t, e, r)"
    by (metis prod_cases3)
  with assms have "s' = t \<and> r = Some None" by (auto simp: download_file_def split: option.splits)
  then show ?thesis using saved.download_ok [OF file_sound_new _ d] by simp
qed

lemma file_download_bounded:
  assumes "download (file_sink_ops sha256) sha len script (create_file_sink faults) = (s', evs, r)"
  shows "length (file_bytes s') \<le> len"
  using saved.download_ok(1) [OF file_sound_new _ assms] by simp

text \<open>A failed one leaves nothing where the file system lets it be emptied or removed.\<close>

lemma file_abort_clears:
  assumes "fs_open s" and "fs_faults s = []"
  shows "fs_disk (file_abort s) = None"
  using assms by (simp add: file_abort_def next_fault_def)

section \<open>How long a transfer goes on\<close>

text \<open>A server that keeps answering \<open>416\<close> is asked again at once, for ever, whatever the attempts.\<close>

definition refuses_range :: "get_turn" where
  "refuses_range = \<lparr>gt_flags = no_flags, gt_token = None,
     gt_answer = (\<lambda>_. Inr \<lparr>rp_status = 416, rp_retry_after = None, rp_etag = None, rp_content_range = None,
        rp_content_encodings = [], rp_json = None, rp_stream = []\<rparr>),
     gt_polls = []\<rparr>"

lemma flags_refuses: "gt_flags refuses_range = no_flags"
  and token_refuses: "gt_token refuses_range = None"
  by (simp_all add: refuses_range_def)

lemma refused_range_never_ends:
  "snd (snd (download_loop (file_sink_ops sha256) sha (Suc len) (replicate k refuses_range) n no_range
     (create_file_sink []))) = None"
proof (induction k arbitrary: n)
  case (Suc k)
  have "get_outcome (file_sink_ops sha256) sha (Suc len) (next_attempt n) no_range 0
      (gt_answer refuses_range None) (create_file_sink []) = (create_file_sink [], no_range, GetWaits 0)"
    by (simp add: refuses_range_def get_outcome_def restarting_def file_sink_ops_def file_restart_def
        create_file_sink_def next_fault_def)
  moreover have "sk_offset (file_sink_ops sha256) (create_file_sink []) = 0"
    by (simp add: file_sink_ops_def create_file_sink_def)
  ultimately show ?case
    using Suc.IH [of "next_attempt n"]
    by (simp add: stopped_def no_flags_def split_def Let_def flags_refuses token_refuses)
qed simp

end
