(* ===== verification/Transfer_Facts.thy ===== *)
theory Transfer_Facts
  imports Download
begin

text \<open>
  Bounds of a transfer (attempts, waits), what stops it, and when an upload may call itself done.
\<close>

section \<open>Waits\<close>

lemma backoff_bounds: "1 \<le> backoff attempt \<and> backoff attempt \<le> 30"
  by (simp add: backoff_def)

lemma backoff_mono: "a \<le> b \<Longrightarrow> backoff a \<le> backoff b"
proof -
  assume "a \<le> b"
  then have "(2::nat) ^ min a 5 \<le> 2 ^ min b 5" by (intro power_increasing) auto
  then show ?thesis unfolding backoff_def by (rule min.mono) simp
qed

lemma retry_after_bounds: "1 \<le> retry_after r \<and> retry_after r \<le> 60"
  by (simp add: retry_after_def clamp_def split: option.splits)

lemma put_outcome_wait:
  "put_outcome join attempt recreated e = PutWaits w \<Longrightarrow> 1 \<le> w \<and> w \<le> 60"
  using backoff_bounds [of attempt] retry_after_bounds
  by (fastforce simp: put_outcome_def Let_def split_def split: sum.splits option.splits if_splits prod.splits)

lemma create_wait_bounds: "create_wait attempt answer = Some w \<Longrightarrow> 1 \<le> w \<and> w \<le> 60"
  using backoff_bounds [of attempt] retry_after_bounds
  by (fastforce simp: create_wait_def split: if_splits sum.splits)

lemma create_upload_waits:
  "list_all (\<lambda>w. 1 \<le> w \<and> w \<le> 60) (fst (create_upload env n)) \<and> length (fst (create_upload env n)) \<le> max_attempts - Suc n"
proof (induction env n rule: create_upload.induct)
  case (1 env n)
  let ?e = "env n"
  show ?case
  proof (cases "stopped (ct_flags ?e) = None \<and> ct_token ?e = None \<and> create_wait (Suc n) (ct_answer ?e) \<noteq> None")
    case False
    then show ?thesis by (subst (1 2) create_upload.simps) (auto simp: Let_def split: option.splits)
  next
    case True
    then obtain w where t: "stopped (ct_flags ?e) = None" "ct_token ?e = None" "create_wait (Suc n) (ct_answer ?e) = Some w"
      by blast
    note w = create_wait_bounds [OF t(3)] create_wait_left [OF t(3)]
    show ?thesis
    proof (cases "wait_or_stop (ct_polls ?e)")
      case None
      have "fst (create_upload env n) = w # fst (create_upload env (Suc n))"
        by (subst create_upload.simps) (simp add: t None split_def)
      then show ?thesis using "1.IH" [OF refl refl t None] w by auto
    next
      case (Some stop)
      then have "fst (create_upload env n) = [w]" by (subst create_upload.simps) (simp add: t)
      then show ?thesis using w by simp
    qed
  qed
qed

section \<open>An upload\<close>

definition runs :: "transfer_state list \<Rightarrow> nat" where
  "runs evs = length (filter (\<lambda>e. e = TransferRunning) evs)"

lemma runs_simps [simp]:
  "runs [] = 0" "runs (TransferRunning # evs) = Suc (runs evs)" "runs (Retrying w # evs) = runs evs"
  by (simp_all add: runs_def)

lemma put_loop_bounds:
  "runs (fst (put_loop join env n recreated)) \<le> max 1 (max_attempts - n) + (if recreated then 0 else 1) \<and>
   (\<forall>w. Retrying w \<in> set (fst (put_loop join env n recreated)) \<longrightarrow> 1 \<le> w \<and> w \<le> 60)"
proof (induction join env n recreated rule: put_loop.induct)
  case (1 join env n recreated)
  let ?e = "env n" and ?o = "put_outcome join (Suc n) recreated (env n)"
  show ?case
  proof (cases "stopped (pt_flags ?e) = None \<and> pt_reader ?e = None \<and> pt_token ?e = None")
    case False
    then show ?thesis
      by (subst (1 2) put_loop.simps) (auto simp: Let_def split: option.splits)
  next
    case True
    then have t: "stopped (pt_flags ?e) = None" "pt_reader ?e = None" "pt_token ?e = None" by auto
    show ?thesis
    proof (cases ?o)
      case (PutEnds r)
      then show ?thesis by (subst (1 2) put_loop.simps) (auto simp: t)
    next
      case PutAgain
      have nr: "\<not> recreated" by (rule put_outcome_again [OF PutAgain])
      have ih: "runs (fst (put_loop join env (Suc n) True)) \<le> max 1 (max_attempts - Suc n)"
        "\<forall>w. Retrying w \<in> set (fst (put_loop join env (Suc n) True)) \<longrightarrow> 1 \<le> w \<and> w \<le> 60"
        using "1.IH"(1) [OF refl refl t PutAgain] by simp_all
      have eq: "fst (put_loop join env n recreated) = TransferRunning # fst (put_loop join env (Suc n) True)"
        by (subst put_loop.simps) (simp add: t PutAgain split_def Let_def)
      show ?thesis using ih nr unfolding eq by (auto simp: max_def split: if_splits)
    next
      case (PutWaits w)
      have lt: "Suc n < max_attempts" by (rule put_outcome_waits [OF PutWaits])
      note wb = put_outcome_wait [OF PutWaits]
      show ?thesis
      proof (cases "wait_or_stop (pt_polls ?e)")
        case None
        have ih: "runs (fst (put_loop join env (Suc n) recreated)) \<le>
            max 1 (max_attempts - Suc n) + (if recreated then 0 else 1)"
          "\<forall>w. Retrying w \<in> set (fst (put_loop join env (Suc n) recreated)) \<longrightarrow> 1 \<le> w \<and> w \<le> 60"
          using "1.IH"(2) [OF refl refl t PutWaits None] by simp_all
        have eq: "fst (put_loop join env n recreated) =
            TransferRunning # Retrying w # fst (put_loop join env (Suc n) recreated)"
          by (subst put_loop.simps) (simp add: t PutWaits None split_def Let_def)
        have "max 1 (max_attempts - n) = Suc (max 1 (max_attempts - Suc n))" using lt by simp
        then show ?thesis using ih wb unfolding eq by auto
      next
        case (Some stop)
        then have eq: "fst (put_loop join env n recreated) = [TransferRunning, Retrying w]"
          by (subst put_loop.simps) (simp add: t PutWaits)
        show ?thesis using wb unfolding eq by auto
      qed
    qed
  qed
qed

lemma upload_bounds:
  "runs (fst (upload join len creates puts)) \<le> max_attempts + 1"
  "Retrying w \<in> set (fst (upload join len creates puts)) \<Longrightarrow> 1 \<le> w \<and> w \<le> 60"
  using put_loop_bounds [of join puts 0 False]
  by (auto simp: upload_def max_attempts_def split: sum.splits option.splits if_splits prod.splits)

text \<open>A transfer that finds its flags set before its first request sends nothing.\<close>

lemma upload_stopped:
  assumes "stopped (ct_flags (creates 0)) = Some stop" and "len \<noteq> 0"
  shows "upload join len creates puts = ([], Inl stop)"
  using assms by (simp add: upload_def create_upload.simps [of creates 0])

text \<open>What the server may have said where an upload is done.\<close>

definition committed_answer :: "put_turn \<Rightarrow> file_info \<Rightarrow> bool" where
  "committed_answer e f \<longleftrightarrow>
     (\<exists>resp. pt_answer e = Inr resp \<and>
        ((success (rp_status resp) \<and> Option.bind (rp_json resp) parse_file_info = Some f) \<or>
         (rp_status resp = 409 \<and> fst (error_code resp) = Some ''file.already_committed'' \<and>
          (\<exists>ours. pt_sha256 e = Inr ours \<and> fi_sha256 f = Some ours)))) \<or>
     (fi_status f = ''committed'' \<and> (\<exists>u. snd (create_upload (pt_create e) 0) = Inr (f, u)))"

lemma put_outcome_done:
  assumes "put_outcome join attempt recreated e = PutEnds (Inr f)"
  shows "committed_answer e f"
proof (cases "pt_answer e")
  case (Inl err)
  with assms show ?thesis by (auto simp: put_outcome_def split: option.splits if_splits)
next
  case (Inr resp)
  note o = assms [unfolded put_outcome_def Inr]
  show ?thesis
  proof (cases "success (rp_status resp) \<or> rp_status resp = 401")
    case True
    with o show ?thesis
      by (auto simp: committed_answer_def Inr parsed_def Let_def split: if_splits option.splits)
  next
    case False
    show ?thesis
    proof (cases "rp_status resp = 404 \<and> \<not> recreated")
      case True
      with False o show ?thesis
        by (auto simp: committed_answer_def Let_def split: sum.splits if_splits option.splits prod.splits)
    next
      case no: False
      with False o show ?thesis
        by (auto simp: committed_answer_def Inr Let_def split_def
            split: sum.splits if_splits option.splits prod.splits)
    qed
  qed
qed

lemma put_loop_done:
  "snd (put_loop join env n recreated) = Inr f \<Longrightarrow> \<exists>k. committed_answer (env k) f"
proof (induction join env n recreated rule: put_loop.induct)
  case (1 join env n recreated)
  let ?e = "env n" and ?o = "put_outcome join (Suc n) recreated (env n)"
  show ?case
  proof (cases "stopped (pt_flags ?e) = None \<and> pt_reader ?e = None \<and> pt_token ?e = None")
    case False
    then show ?thesis using "1.prems"
      by (subst (asm) put_loop.simps) (auto simp: Let_def split: option.splits)
  next
    case True
    then have t: "stopped (pt_flags ?e) = None" "pt_reader ?e = None" "pt_token ?e = None" by auto
    show ?thesis
    proof (cases ?o)
      case (PutEnds r)
      with "1.prems" t have "r = Inr f" by (subst (asm) put_loop.simps) simp
      with PutEnds put_outcome_done show ?thesis by blast
    next
      case PutAgain
      with "1.prems" t have "snd (put_loop join env (Suc n) True) = Inr f"
        by (subst (asm) put_loop.simps) (simp add: split_def Let_def)
      with "1.IH"(1) [OF refl refl t PutAgain] show ?thesis .
    next
      case (PutWaits w)
      show ?thesis
      proof (cases "wait_or_stop (pt_polls ?e)")
        case None
        with "1.prems" t PutWaits have "snd (put_loop join env (Suc n) recreated) = Inr f"
          by (subst (asm) put_loop.simps) (simp add: split_def Let_def)
        with "1.IH"(2) [OF refl refl t PutWaits None] show ?thesis .
      next
        case (Some stop)
        with "1.prems" t PutWaits show ?thesis by (subst (asm) put_loop.simps) simp
      qed
    qed
  qed
qed

section \<open>Cancelling\<close>

lemma read_write_cell [simp]: "read_cell c (write_cell c' f t) = (if c = c' then f else read_cell c t)"
proof -
  have "map_of (filter (\<lambda>p. fst p \<noteq> c') kvs) c = (if c = c' then None else map_of kvs c)" for kvs :: "(nat \<times> flags) list"
    by (induction kvs) auto
  then show ?thesis by (auto simp: read_cell_def write_cell_def)
qed

lemma map_of_register: "map_of (tr_rows (register ids cell t)) i = (if i \<in> set ids then Some cell else map_of (tr_rows t) i)"
proof -
  have 1: "map_of (map (\<lambda>i. (i, cell)) ids) i = (if i \<in> set ids then Some cell else None)" by (induction ids) auto
  have 2: "map_of (filter (\<lambda>p. fst p \<notin> set ids) kvs) i = (if i \<in> set ids then None else map_of kvs i)"
    for kvs :: "(nat \<times> nat) list" by (induction kvs) auto
  show ?thesis by (simp add: register_def map_add_def 1 2 split: option.splits)
qed

text \<open>Cancelling one transfer of a row stops every transfer of the row, and no other row's.\<close>

lemma cancel_row:
  assumes "map_of (tr_rows t) i = Some cell" and "map_of (tr_rows t) j = Some cell'"
  shows "stopped (read_cell (fst (flag_cell j (cancel_transfer i t))) (cancel_transfer i t)) =
    (if cell' = cell then Some cancelled_error else stopped (read_cell cell' t))"
proof -
  let ?t = "cancel_transfer i t"
  have eq: "?t = write_cell cell ((read_cell cell t)\<lparr>fg_cancel := True\<rparr>) t"
    using assms(1) by (simp add: cancel_transfer_def flag_cell_def)
  have "tr_rows ?t = tr_rows t" unfolding eq by (simp add: write_cell_def)
  then have "fst (flag_cell j ?t) = cell'" using assms(2) by (simp add: flag_cell_def)
  moreover have "read_cell cell' ?t =
      (if cell' = cell then (read_cell cell t)\<lparr>fg_cancel := True\<rparr> else read_cell cell' t)"
    unfolding eq by simp
  ultimately show ?thesis by (simp add: stopped_def)
qed

end
