(* ===== verification/Sidebar_Order.thy ===== *)
theory Sidebar_Order
  imports Core_Types "HOL-Library.Multiset"
begin

text \<open>
  \<open>core/src/sidebar.rs\<close>: how a conversation is called and where it stands in the list. The order
  is a chain of comparisons, as the code writes it; a locale holds what any such comparison
  gives a stable sort, and the chain is interpreted in it.
\<close>

section \<open>Labels\<close>

definition person_label :: "string \<Rightarrow> string \<Rightarrow> bool \<Rightarrow> string" where
  "person_label display_name handle show_usernames =
     (let name = trim display_name
      in if show_usernames \<or> name = [] then ''@'' @ handle else name)"

definition member_label :: "bool \<Rightarrow> channel_member \<Rightarrow> string" where
  "member_label show_usernames m = person_label (cm_display_name m) (cm_handle m) show_usernames"

definition conversation_label ::
  "string \<Rightarrow> string option \<Rightarrow> channel_member list \<Rightarrow> string \<Rightarrow> bool \<Rightarrow> string" where
  "conversation_label kind name members me show_usernames =
     (case name of
        Some (n # ns) \<Rightarrow> ''#'' @ (n # ns)
      | _ \<Rightarrow>
          (case (if kind = ''dm'' \<and> me \<noteq> [] then find (\<lambda>m. cm_id m \<noteq> me) members else None) of
             Some other \<Rightarrow> member_label show_usernames other
           | None \<Rightarrow>
               (let labels = map (member_label show_usernames) members
                in if labels = [] then ''Direct message'' else join_with '', '' labels)))"

text \<open>\<open>str::to_lowercase\<close> is Unicode's, a parameter here.\<close>

definition sort_key_of ::
  "(string \<Rightarrow> string) \<Rightarrow> string \<Rightarrow> string option \<Rightarrow> channel_member list \<Rightarrow> string \<Rightarrow> string" where
  "sort_key_of to_lowercase kind name members me =
     to_lowercase (conversation_label kind name members me False)"

section \<open>Comparisons\<close>

datatype ordering = Less | Equal | Greater

fun flipped :: "ordering \<Rightarrow> ordering" where
  "flipped Less = Greater"
| "flipped Equal = Equal"
| "flipped Greater = Less"

fun then_with :: "ordering \<Rightarrow> ordering \<Rightarrow> ordering" where
  "then_with Equal r = r"
| "then_with q r = q"

definition cmp_of :: "'a :: linorder \<Rightarrow> 'a \<Rightarrow> ordering" where
  "cmp_of a b = (if a < b then Less else if a = b then Equal else Greater)"

fun newest_first :: "'a :: linorder option \<Rightarrow> 'a option \<Rightarrow> ordering" where
  "newest_first (Some a) (Some b) = cmp_of b a"
| "newest_first (Some _) None = Less"
| "newest_first None (Some _) = Greater"
| "newest_first None None = Equal"

text \<open>\<open>sort_by\<close>: stable.\<close>

fun insert_by :: "('a \<Rightarrow> 'a \<Rightarrow> ordering) \<Rightarrow> 'a \<Rightarrow> 'a list \<Rightarrow> 'a list" where
  "insert_by cmp x [] = [x]"
| "insert_by cmp x (y # ys) = (if cmp x y = Greater then y # insert_by cmp x ys else x # y # ys)"

definition sort_by :: "('a \<Rightarrow> 'a \<Rightarrow> ordering) \<Rightarrow> 'a list \<Rightarrow> 'a list" where
  "sort_by cmp xs = foldr (insert_by cmp) xs []"

section \<open>The order\<close>

record sidebar_entry =
  se_id :: string
  se_kind :: string
  se_last_message_id :: "string option"
  se_opened :: "int option"
  se_sort_key :: string

definition entry_cmp :: "sidebar_entry \<Rightarrow> sidebar_entry \<Rightarrow> ordering" where
  "entry_cmp a b =
     then_with (cmp_of (se_kind a = ''dm'') (se_kind b = ''dm''))
       (then_with (newest_first (se_last_message_id a) (se_last_message_id b))
         (then_with (newest_first (se_opened a) (se_opened b))
           (then_with (cmp_of (se_sort_key a) (se_sort_key b)) (cmp_of (se_id a) (se_id b)))))"

definition sidebar_order :: "sidebar_entry list \<Rightarrow> string list" where
  "sidebar_order entries = map se_id (sort_by entry_cmp entries)"

definition activity_moves :: "string option \<Rightarrow> string \<Rightarrow> bool" where
  "activity_moves current message_id = (case current of None \<Rightarrow> True | Some c \<Rightarrow> c < message_id)"

section \<open>What a comparison gives a sort\<close>

locale comparison =
  fixes cmp :: "'a \<Rightarrow> 'a \<Rightarrow> ordering"
  assumes flip: "cmp y x = flipped (cmp x y)"
    and trans: "cmp x y \<noteq> Greater \<Longrightarrow> cmp y z \<noteq> Greater \<Longrightarrow> cmp x z \<noteq> Greater"
begin

definition upto :: "'a \<Rightarrow> 'a \<Rightarrow> bool" where
  "upto x y \<longleftrightarrow> cmp x y \<noteq> Greater"

lemma upto_refl: "upto x x"
  using flip [of x x] by (cases "cmp x x") (auto simp: upto_def)

lemma upto_total: "\<not> upto x y \<Longrightarrow> upto y x"
  using flip [of y x] by (auto simp: upto_def)

lemma equal_iff: "cmp x y = Equal \<longleftrightarrow> upto x y \<and> upto y x"
  using flip [of y x] by (cases "cmp x y") (auto simp: upto_def)

lemma set_insert_by: "set (insert_by cmp x ys) = insert x (set ys)"
  by (induction ys) auto

lemma sorted_insert_by: "sorted_wrt upto ys \<Longrightarrow> sorted_wrt upto (insert_by cmp x ys)"
proof (induction ys)
  case (Cons y ys)
  then show ?case
    using upto_total [of x y] trans [of x y]
    by (auto simp: upto_def set_insert_by)
qed simp

lemma sorted_sort_by: "sorted_wrt upto (sort_by cmp xs)"
  by (induction xs) (auto simp: sort_by_def intro: sorted_insert_by)

lemma mset_insert_by: "mset (insert_by cmp x ys) = add_mset x (mset ys)"
  by (induction ys) auto

lemma mset_sort_by: "mset (sort_by cmp xs) = mset xs"
  by (induction xs) (simp_all add: sort_by_def mset_insert_by)

text \<open>Where only equal rows compare equal, the outcome is one list whatever the order given.\<close>

lemma sorted_unique:
  assumes "sorted_wrt upto xs" and "sorted_wrt upto ys" and "mset xs = mset ys"
    and "\<And>x y. x \<in> set xs \<Longrightarrow> y \<in> set xs \<Longrightarrow> cmp x y = Equal \<Longrightarrow> x = y"
  shows "xs = ys"
  using assms
proof (induction xs arbitrary: ys)
  case (Cons x xs)
  from Cons.prems(3) obtain y ys' where ys: "ys = y # ys'" by (cases ys) auto
  have "set (x # xs) = set ys" using Cons.prems(3) by (metis set_mset_mset)
  then have x: "x = y \<or> x \<in> set ys'" and y: "y = x \<or> y \<in> set xs" using ys by auto
  have "upto x y" using y Cons.prems(1) upto_refl by auto
  moreover have "upto y x" using x Cons.prems(2) ys upto_refl by auto
  ultimately have "x = y" using Cons.prems(4) [of x y] y by (auto simp: equal_iff)
  moreover from this have "xs = ys'"
    using Cons.prems ys by (intro Cons.IH) auto
  ultimately show ?case by (simp add: ys)
qed simp

lemma sort_by_order_irrelevant:
  assumes "mset xs = mset ys" and "\<And>x y. x \<in> set xs \<Longrightarrow> y \<in> set xs \<Longrightarrow> cmp x y = Equal \<Longrightarrow> x = y"
  shows "sort_by cmp xs = sort_by cmp ys"
proof (rule sorted_unique [OF sorted_sort_by sorted_sort_by])
  show "mset (sort_by cmp xs) = mset (sort_by cmp ys)" by (simp add: mset_sort_by assms(1))
  have "set (sort_by cmp xs) = set xs" by (metis mset_sort_by set_mset_mset)
  with assms(2) show "x = y" if "x \<in> set (sort_by cmp xs)" "y \<in> set (sort_by cmp xs)" "cmp x y = Equal" for x y
    using that by simp
qed

end

lemma comparison_key: "comparison (\<lambda>x y. cmp_of (f x) (f y))"
  by unfold_locales (auto simp: cmp_of_def split: if_splits)

lemma comparison_newest: "comparison (\<lambda>x y. newest_first (f x) (f y))"
proof unfold_locales
  show "newest_first (f y) (f x) = flipped (newest_first (f x) (f y))" for x y
    by (cases "f x"; cases "f y") (auto simp: cmp_of_def)
  show "newest_first (f x) (f z) \<noteq> Greater"
    if "newest_first (f x) (f y) \<noteq> Greater" "newest_first (f y) (f z) \<noteq> Greater" for x y z
    using that by (cases "f x"; cases "f y"; cases "f z") (auto simp: cmp_of_def split: if_splits)
qed

lemma comparison_then:
  assumes "comparison p" and "comparison q"
  shows "comparison (\<lambda>x y. then_with (p x y) (q x y))"
proof unfold_locales
  show "then_with (p y x) (q y x) = flipped (then_with (p x y) (q x y))" for x y
    using comparison.flip [OF assms(1), of y x] comparison.flip [OF assms(2), of y x]
    by (cases "p x y") auto
  show "then_with (p x z) (q x z) \<noteq> Greater"
    if xy: "then_with (p x y) (q x y) \<noteq> Greater" and yz: "then_with (p y z) (q y z) \<noteq> Greater" for x y z
  proof -
    have pxy: "p x y \<noteq> Greater" and pyz: "p y z \<noteq> Greater" using xy yz by (cases "p x y"; cases "p y z"; simp)+
    have pxz: "p x z \<noteq> Greater" by (rule comparison.trans [OF assms(1) pxy pyz])
    show ?thesis
    proof (cases "p x z")
      case Equal
      then have "p z x \<noteq> Greater" using comparison.flip [OF assms(1), of z x] by simp
      then have "p y x \<noteq> Greater" "p z y \<noteq> Greater"
        using comparison.trans [OF assms(1) pyz] comparison.trans [OF assms(1) _ pxy] by blast+
      then have "p x y = Equal" "p y z = Equal"
        using pxy pyz comparison.flip [OF assms(1), of y x] comparison.flip [OF assms(1), of z y]
        by (cases "p x y"; cases "p y z"; simp)+
      with Equal xy yz show ?thesis using comparison.trans [OF assms(2), of x y z] by simp
    qed (use pxz in auto)
  qed
qed

interpretation entries: comparison entry_cmp
  unfolding entry_cmp_def
  by (intro comparison_then comparison_key comparison_newest)

section \<open>What the list shows\<close>

lemma cmp_of_Equal [simp]: "cmp_of a b = Equal \<longleftrightarrow> a = b"
  by (auto simp: cmp_of_def)

lemma newest_first_Equal [simp]: "newest_first a b = Equal \<longleftrightarrow> a = b"
  by (cases a; cases b) auto

lemma then_with_Equal [simp]: "then_with a b = Equal \<longleftrightarrow> a = Equal \<and> b = Equal"
  by (cases a) auto

lemma entry_cmp_Equal_id: "entry_cmp a b = Equal \<Longrightarrow> se_id a = se_id b"
  by (simp add: entry_cmp_def)

lemma sidebar_order_perm: "mset (sidebar_order es) = mset (map se_id es)"
  using arg_cong [OF entries.mset_sort_by [of es], of "image_mset se_id"] by (simp add: sidebar_order_def)

lemma sidebar_order_irrelevant:
  assumes "mset es = mset es'" and "distinct (map se_id es)"
  shows "sidebar_order es = sidebar_order es'"
proof -
  have "sort_by entry_cmp es = sort_by entry_cmp es'"
    using assms
    by (intro entries.sort_by_order_irrelevant) (auto simp: distinct_map inj_on_def dest: entry_cmp_Equal_id)
  then show ?thesis by (simp add: sidebar_order_def)
qed

text \<open>Channels stand above DMs, and within each the newer message stands above.\<close>

definition stands_above :: "sidebar_entry \<Rightarrow> sidebar_entry \<Rightarrow> bool" where
  "stands_above a b \<longleftrightarrow>
     (se_kind a = ''dm'' \<longrightarrow> se_kind b = ''dm'') \<and>
     ((se_kind a = ''dm'') = (se_kind b = ''dm'') \<longrightarrow>
        (\<forall>y. se_last_message_id b = Some y \<longrightarrow> (\<exists>x\<ge>y. se_last_message_id a = Some x)))"

lemma upto_stands_above: "entries.upto a b \<Longrightarrow> stands_above a b"
  unfolding entries.upto_def stands_above_def entry_cmp_def
  by (cases "se_last_message_id a"; cases "se_last_message_id b")
    (auto simp: cmp_of_def le_less split: if_splits)

lemma sidebar_order_stands:
  "\<exists>rows. sidebar_order es = map se_id rows \<and> mset rows = mset es \<and> sorted_wrt stands_above rows"
  by (rule exI [of _ "sort_by entry_cmp es"])
    (auto simp: sidebar_order_def entries.mset_sort_by
      intro: sorted_wrt_mono_rel [OF upto_stands_above entries.sorted_sort_by])

lemma join_with_nonempty: "xs \<noteq> [] \<Longrightarrow> (\<And>x. x \<in> set xs \<Longrightarrow> x \<noteq> []) \<Longrightarrow> join_with sep xs \<noteq> []"
  by (induction sep xs rule: join_with.induct) auto

lemma person_label_nonempty: "person_label d h u \<noteq> []"
  by (simp add: person_label_def Let_def)

lemma conversation_label_nonempty: "conversation_label kind name members me u \<noteq> []"
proof -
  have "join_with '', '' (map (member_label u) members) \<noteq> []" if "members \<noteq> []"
    using that by (intro join_with_nonempty) (auto simp: member_label_def person_label_nonempty)
  then show ?thesis
    by (auto simp: conversation_label_def member_label_def person_label_nonempty Let_def
        split: option.splits list.splits if_splits)
qed

end
