(* ===== verification/Transfer_Properties.thy ===== *)
theory Transfer_Properties
  imports Download Transfer_Facts Sidebar_Order
begin

text \<open>
  The properties of uploads and downloads, of the sidebar's order, and of what a session shows.
\<close>

section \<open>Downloads\<close>

definition whole_answer :: "string \<Rightarrow> get_turn" where
  "whole_answer body = \<lparr>gt_flags = no_flags, gt_token = None,
     gt_answer = (\<lambda>_. Inr \<lparr>rp_status = 200, rp_retry_after = None, rp_etag = None, rp_content_range = None,
        rp_content_encodings = [], rp_json = None, rp_stream = [(no_flags, Piece body)]\<rparr>),
     gt_polls = []\<rparr>"

text \<open>
  C22. A download that reports success left a file with the checksum asked for, never longer than
  announced: whatever the server sent, wherever the connection broke, whether it resumed or
  started over, and whichever writes to the disk failed on the way. \<open>sha256\<close> is any digest.
\<close>

theorem saved_file_is_the_file:
  assumes "download_file (file_sink_ops sha256) sha len script (create_file_sink faults) = (s', evs, Some None)"
  shows "same_text (sha256 (file_bytes s')) sha \<and> length (file_bytes s') \<le> len"
  using assms by (rule file_download_ok)

theorem saved_file_is_the_file_witness:
  "\<exists>s' evs. download_file (file_sink_ops (\<lambda>b. b)) ''abc'' 3 [whole_answer ''abc''] (create_file_sink []) =
      (s', evs, Some None) \<and> file_bytes s' = ''abc'' \<and> same_text (file_bytes s') ''abc''"
proof -
  have "snd (snd (download_file (file_sink_ops (\<lambda>b. b)) ''abc'' 3 [whole_answer ''abc''] (create_file_sink []))) =
      Some None \<and>
      file_bytes (fst (download_file (file_sink_ops (\<lambda>b. b)) ''abc'' 3 [whole_answer ''abc''] (create_file_sink []))) =
      ''abc''"
    by code_simp
  then obtain s' evs where r: "download_file (file_sink_ops (\<lambda>b. b)) ''abc'' 3 [whole_answer ''abc'']
      (create_file_sink []) = (s', evs, Some None)" "file_bytes s' = ''abc''"
    by (cases "download_file (file_sink_ops (\<lambda>b. b)) ''abc'' 3 [whole_answer ''abc''] (create_file_sink [])") auto
  from saved_file_is_the_file [OF r(1)] r show ?thesis by auto
qed

text \<open>
  C28. A download ends: a script of answers, one longer than the attempts and none of them a \<open>416\<close> or
  a \<open>206\<close>, always gets it a result.
\<close>

theorem downloads_end:
  assumes "\<forall>t \<in> set script. plain_turn t" and "max_attempts + 2 \<le> length script"
  shows "snd (snd (download (file_sink_ops sha256) sha len script (create_file_sink faults))) \<noteq> None"
  unfolding download_def using saved.download_loop_ends [OF file_sound_new _ assms(1)] assms(2) by simp

definition offline_turn :: get_turn where
  "offline_turn = \<lparr>gt_flags = no_flags, gt_token = None, gt_answer = (\<lambda>_. Inl ''down''), gt_polls = []\<rparr>"

theorem downloads_end_witness:
  "snd (snd (download (file_sink_ops (\<lambda>b. b)) ''abc'' 3 (replicate 10 offline_turn) (create_file_sink []))) \<noteq> None"
  by (rule downloads_end) (simp_all add: offline_turn_def plain_turn_def max_attempts_def)

text \<open>
  C40. The bound does not hold for a \<open>416\<close>: it restarts the file and asks again at once without
  counting against the attempts, so a server that answers \<open>416\<close> to a plain request is asked for
  ever. No number of answers ends the loop.
\<close>

theorem refused_range_goes_on_for_ever:
  "snd (snd (download (file_sink_ops sha256) sha (Suc len) (replicate k refuses_range) (create_file_sink []))) = None"
  unfolding download_def by (rule refused_range_never_ends)

section \<open>Uploads\<close>

text \<open>
  C27. An upload puts the bytes at most once more than the attempts allow (the one \<open>PUT\<close> to a new
  address after a \<open>404\<close>); every wait of it is between a second and a minute, the announced ones and
  those of creating the file (the first time and again after a \<open>404\<close>), of which there are fewer than
  the attempts.
\<close>

theorem uploads_are_bounded:
  "runs (fst (upload join len creates puts)) \<le> max_attempts + 1 \<and>
   list_all (\<lambda>e. case e of Retrying w \<Rightarrow> w \<in> {1..60} | _ \<Rightarrow> True) (fst (upload join len creates puts)) \<and>
   list_all (\<lambda>w. w \<in> {1..60}) (fst (create_upload creates 0)) \<and> length (fst (create_upload creates 0)) < max_attempts"
  using upload_bounds(1) [of join len creates puts] upload_bounds(2) [of _ join len creates puts]
    create_upload_waits [of creates 0]
  by (auto simp: list_all_iff max_attempts_def split: transfer_state.splits)

text \<open>
  An upload that succeeds names a file the server named: in the answer to a create it says is committed,
  in the answer to a \<open>PUT\<close>, or as one it already has whose checksum is that of the bytes sent.
\<close>

lemma sent_file_is_named:
  assumes "snd (upload join len creates puts) = Inr f"
  shows "(fi_status f = ''committed'' \<and> (\<exists>u. snd (create_upload creates 0) = Inr (f, u))) \<or>
    (\<exists>k. committed_answer (puts k) f)"
  using assms put_loop_done [of join puts 0 False f]
  by (auto simp: upload_def split: if_splits sum.splits option.splits)

text \<open>
  Cancelling one transfer of a message cancels all of its transfers, and no other message's.
\<close>

theorem cancel_stops_the_row:
  assumes "map_of (tr_rows t) i = Some cell" and "map_of (tr_rows t) j = Some cell'"
  shows "stopped (read_cell (fst (flag_cell j (cancel_transfer i t))) (cancel_transfer i t)) =
    (if cell' = cell then Some cancelled_error else stopped (read_cell cell' t))"
  using assms by (rule cancel_row)

section \<open>The sidebar\<close>

text \<open>
  The sidebar shows every conversation exactly once, and in order: the channels
  above the direct messages, and within each group the one with the newer last message above.
\<close>

theorem sidebar_is_sorted:
  "\<exists>rows. sidebar_order es = map se_id rows \<and> mset rows = mset es \<and> sorted_wrt stands_above rows"
  by (rule sidebar_order_stands)

text \<open>
  Its order depends on the conversations only, not on the order they were loaded in.
\<close>

theorem sidebar_ignores_arrival:
  assumes "mset es = mset es'" and "distinct (map se_id es)"
  shows "sidebar_order es = sidebar_order es'"
  using assms by (rule sidebar_order_irrelevant)

definition two_entries :: "sidebar_entry list" where
  "two_entries =
     [\<lparr>se_id = ''d1'', se_kind = ''dm'', se_last_message_id = Some ''m9'', se_opened = None, se_sort_key = ''ann''\<rparr>,
      \<lparr>se_id = ''c1'', se_kind = ''channel'', se_last_message_id = None, se_opened = None, se_sort_key = ''general''\<rparr>]"

end
