(* ===== verification/Snapshot.thy ===== *)
theory Snapshot
  imports Json_Value
begin

text \<open>
  \<open>core/src/snapshot.rs\<close>: a file sealed chunk by chunk. The snapshot of a queued attachment is
  written by \<open>write\<close>, a download into the file cache by a \<open>Sealer\<close>; \<open>verify\<close> and the decrypting
  reader open both. AES-256-GCM and SHA-256 are the \<open>ring\<close> crate's: parameters. Blocking calls of
  the file system fail where the arguments say so.
\<close>

section \<open>The cipher\<close>

text \<open>Sealing and opening under a key, a nonce and additional data; either may refuse.\<close>

record cipher =
  ci_seal :: "string \<Rightarrow> string \<Rightarrow> string \<Rightarrow> string \<Rightarrow> string option"
  ci_open :: "string \<Rightarrow> string \<Rightarrow> string \<Rightarrow> string \<Rightarrow> string option"

definition tag_len :: nat where "tag_len = 16"

text \<open>
  What AES-256-GCM gives: the tag adds 16 bytes, and a text opens to exactly the plaintext that
  seals to it.
\<close>

definition tidy :: "cipher \<Rightarrow> bool" where
  "tidy C \<longleftrightarrow>
     (\<forall>k n a p c. ci_seal C k n a p = Some c \<longrightarrow> length c = length p + tag_len)
     \<and> (\<forall>k n a p c. ci_open C k n a c = Some p \<longleftrightarrow> ci_seal C k n a p = Some c)"

text \<open>\<open>to_be_bytes\<close> of a \<open>u64\<close>.\<close>

fun be_bytes :: "nat \<Rightarrow> nat \<Rightarrow> string" where
  "be_bytes 0 n = []"
| "be_bytes (Suc k) n = be_bytes k (n div 256) @ [char_of n]"

definition aad :: "string \<Rightarrow> nat \<Rightarrow> bool \<Rightarrow> string" where
  "aad i index final = i @ be_bytes 8 index @ [char_of (if final then 1 else 0 :: nat)]"

definition nonce :: "nat \<Rightarrow> string" where
  "nonce index = replicate 4 (char_of (0 :: nat)) @ be_bytes 8 index"

text \<open>\<open>id_bytes\<close>: \<open>from_str_radix\<close> takes one leading plus sign.\<close>

definition hex_value :: "char \<Rightarrow> nat option" where
  "hex_value c =
     (let n = of_char c :: nat
      in if 48 \<le> n \<and> n \<le> 57 then Some (n - 48)
         else if 97 \<le> n \<and> n \<le> 102 then Some (n - 87)
         else if 65 \<le> n \<and> n \<le> 70 then Some (n - 55) else None)"

definition hex_pair :: "char \<Rightarrow> char \<Rightarrow> char option" where
  "hex_pair a b =
     (if a = CHR ''+'' then map_option char_of (hex_value b)
      else Option.bind (hex_value a) (\<lambda>x. map_option (\<lambda>y. char_of (16 * x + y)) (hex_value b)))"

fun hex_pairs :: "string \<Rightarrow> string option" where
  "hex_pairs (a # b # rest) = Option.bind (hex_pair a b) (\<lambda>c. map_option ((#) c) (hex_pairs rest))"
| "hex_pairs _ = Some []"

definition id_bytes :: "string \<Rightarrow> string option" where
  "id_bytes canonical =
     (let hex = filter (\<lambda>c. c \<noteq> CHR ''-'') canonical in if length hex \<noteq> 32 then None else hex_pairs hex)"

section \<open>The layout\<close>

definition chunk_len :: nat where "chunk_len = 2 ^ 20"

record layout =
  ly_chunk :: nat
  ly_size :: nat

definition chunks :: "layout \<Rightarrow> nat" where
  "chunks l = (ly_size l + ly_chunk l - 1) div ly_chunk l"

definition plain_len :: "layout \<Rightarrow> nat \<Rightarrow> nat" where
  "plain_len l index = min (ly_size l - index * ly_chunk l) (ly_chunk l)"

definition sealed_len :: "layout \<Rightarrow> nat \<Rightarrow> nat" where
  "sealed_len l index = plain_len l index + tag_len"

definition file_len :: "layout \<Rightarrow> nat" where
  "file_len l = ly_size l + chunks l * tag_len"

definition sealed_offset :: "layout \<Rightarrow> nat \<Rightarrow> nat" where
  "sealed_offset l index = index * (ly_chunk l + tag_len)"

definition seal_chunk :: "cipher \<Rightarrow> string \<Rightarrow> string \<Rightarrow> nat \<Rightarrow> bool \<Rightarrow> string \<Rightarrow> string option" where
  "seal_chunk C key i index final plain = ci_seal C key (nonce index) (aad i index final) plain"

definition open_chunk :: "cipher \<Rightarrow> string \<Rightarrow> string \<Rightarrow> nat \<Rightarrow> bool \<Rightarrow> string \<Rightarrow> string option" where
  "open_chunk C key i index final sealed = ci_open C key (nonce index) (aad i index final) sealed"

section \<open>Writing a snapshot\<close>

datatype write_error = SourceFailed | StoreFailed | Stopped | TooLargeSource

record written =
  wr_key :: string
  wr_size :: nat
  wr_sha256 :: string

text \<open>
  What the copy meets: the source's bytes (\<open>None\<close>: no regular file), the size seen first, the reads
  and the writes that fail, by number, whether the caller goes on, and the syncs at the end.
\<close>

record copy_env =
  ce_source :: "string option"
  ce_total :: nat
  ce_read_fails :: "nat \<Rightarrow> bool"
  ce_write_fails :: "nat \<Rightarrow> bool"
  ce_goes_on :: "nat \<Rightarrow> nat \<Rightarrow> bool"
  ce_sync_fails :: bool

lemma take_Cons_shorter: "take n xs = y # ys \<Longrightarrow> length xs - n < length xs"
  by (cases n; cases xs) auto

function write_loop ::
  "cipher \<Rightarrow> string \<Rightarrow> string \<Rightarrow> nat \<Rightarrow> nat \<Rightarrow> copy_env \<Rightarrow> nat \<Rightarrow> nat \<Rightarrow> string \<Rightarrow> string \<Rightarrow> write_error + string \<times> nat"
where
  "write_loop C key i chunk max_bytes env index sz current rest =
     (if length current = chunk \<and> ce_read_fails env (Suc index) then Inl SourceFailed
      else
        (let ahead = (if length current = chunk then take chunk rest else []);
             final = ahead = []
         in case seal_chunk C key i index final current of
              None \<Rightarrow> Inl StoreFailed
            | Some sealed \<Rightarrow>
                if ce_write_fails env index then Inl StoreFailed
                else if max_bytes < sz + length current then Inl TooLargeSource
                else if \<not> ce_goes_on env (sz + length current) (max (ce_total env) (sz + length current))
                then Inl Stopped
                else if final then Inr (sealed, sz + length current)
                else (case write_loop C key i chunk max_bytes env (Suc index) (sz + length current)
                             ahead (drop chunk rest) of
                        Inl e \<Rightarrow> Inl e
                      | Inr (out, n) \<Rightarrow> Inr (sealed @ out, n))))"
  by pat_completeness auto
termination
  by (relation "measure (\<lambda>(C, key, i, chunk, max_bytes, env, index, sz, current, rest). length rest)")
    (auto split: if_splits simp: neq_Nil_conv dest!: take_Cons_shorter)

text \<open>
  \<open>write\<close>: the outcome and what is at \<open>dst\<close> afterwards. \<open>dst\<close> is what was there before, \<open>made\<close> whether
  it could be created (it must not exist).
\<close>

definition write_snapshot ::
  "cipher \<Rightarrow> (string \<Rightarrow> string) \<Rightarrow> string \<Rightarrow> string \<Rightarrow> nat \<Rightarrow> nat \<Rightarrow> copy_env \<Rightarrow> bool \<Rightarrow> string option \<Rightarrow>
     (write_error + written) \<times> string option"
where
  "write_snapshot C sha key i chunk max_bytes env made dst =
     (case ce_source env of
        None \<Rightarrow> (Inl SourceFailed, dst)
      | Some src \<Rightarrow>
          if \<not> made \<or> dst \<noteq> None then (Inl StoreFailed, dst)
          else if ce_read_fails env 0 \<or> take chunk src = [] then (Inl SourceFailed, None)
          else (case write_loop C key i chunk max_bytes env 0 0 (take chunk src) (drop chunk src) of
                  Inl e \<Rightarrow> (Inl e, None)
                | Inr (out, n) \<Rightarrow>
                    if ce_sync_fails env then (Inl StoreFailed, None)
                    else (Inr \<lparr>wr_key = key, wr_size = n, wr_sha256 = sha src\<rparr>, Some out)))"

section \<open>The sealer\<close>

record sealer =
  sl_key :: string
  sl_id :: string
  sl_layout :: layout
  sl_index :: nat
  sl_buf :: string

datatype seal_error = TooLong | Crypto

definition sealer_new :: "string \<Rightarrow> string \<Rightarrow> layout \<Rightarrow> nat \<Rightarrow> sealer" where
  "sealer_new key i l index = \<lparr>sl_key = key, sl_id = i, sl_layout = l, sl_index = index, sl_buf = []\<rparr>"

text \<open>\<open>push\<close>: where the bytes complete no chunk they are all taken.\<close>

function push :: "cipher \<Rightarrow> sealer \<Rightarrow> string \<Rightarrow> sealer \<times> (seal_error + string)" where
  "push C s bytes =
     (if bytes = [] then (s, Inr [])
      else if chunks (sl_layout s) \<le> sl_index s then (s, Inl TooLong)
      else
        (let want = plain_len (sl_layout s) (sl_index s) - length (sl_buf s);
             n = min want (length bytes);
             s' = s\<lparr>sl_buf := sl_buf s @ take n bytes\<rparr>
         in if length (sl_buf s') = plain_len (sl_layout s) (sl_index s)
            then (case seal_chunk C (sl_key s) (sl_id s) (sl_index s)
                         (Suc (sl_index s) = chunks (sl_layout s)) (sl_buf s') of
                    None \<Rightarrow> (s', Inl Crypto)
                  | Some sealed \<Rightarrow>
                      (case push C (s\<lparr>sl_buf := [], sl_index := Suc (sl_index s)\<rparr>) (drop n bytes) of
                         (t, Inl e) \<Rightarrow> (t, Inl e)
                       | (t, Inr out) \<Rightarrow> (t, Inr (sealed @ out))))
            else (s', Inr [])))"
  by pat_completeness auto
termination
  by (relation "measure (\<lambda>(C, s, bytes). chunks (sl_layout s) - sl_index s)") auto

declare write_loop.simps [simp del] push.simps [simp del]

definition is_complete :: "sealer \<Rightarrow> bool" where
  "is_complete s \<longleftrightarrow> sl_index s = chunks (sl_layout s)"

section \<open>Verifying\<close>

text \<open>The chunks from \<open>index\<close> on, \<open>n\<close> of them, opened one after another.\<close>

fun open_from :: "cipher \<Rightarrow> string \<Rightarrow> string \<Rightarrow> layout \<Rightarrow> nat \<Rightarrow> nat \<Rightarrow> string \<Rightarrow> string option" where
  "open_from C key i l index 0 blob = Some []"
| "open_from C key i l index (Suc n) blob =
     (let sealed = take (sealed_len l index) blob
      in if length sealed \<noteq> sealed_len l index then None
         else (case open_chunk C key i index (Suc index = chunks l) sealed of
                 None \<Rightarrow> None
               | Some plain \<Rightarrow>
                   map_option ((@) plain) (open_from C key i l (Suc index) n (drop (sealed_len l index) blob))))"

definition verify ::
  "cipher \<Rightarrow> (string \<Rightarrow> string) \<Rightarrow> string option \<Rightarrow> string \<Rightarrow> string \<Rightarrow> nat \<Rightarrow> string \<Rightarrow> nat \<Rightarrow> bool" where
  "verify C sha file key i sz sha256 chunk =
     (let l = \<lparr>ly_chunk = chunk, ly_size = sz\<rparr>
      in case file of
           None \<Rightarrow> False
         | Some blob \<Rightarrow>
             sz \<noteq> 0 \<and> length blob = file_len l
             \<and> (case open_from C key i l 0 (chunks l) blob of None \<Rightarrow> False | Some plain \<Rightarrow> sha plain = sha256))"

section \<open>The decrypting reader\<close>

text \<open>\<open>rd_file\<close>: what is left of the sealed file; \<open>rd_plain\<close>: the opened bytes not handed out yet.\<close>

record reader =
  rd_file :: string
  rd_key :: string
  rd_id :: string
  rd_layout :: layout
  rd_index :: nat
  rd_plain :: string
  rd_broken :: bool

definition reader_new :: "string \<Rightarrow> string \<Rightarrow> string \<Rightarrow> layout \<Rightarrow> reader" where
  "reader_new blob key i l =
     \<lparr>rd_file = blob, rd_key = key, rd_id = i, rd_layout = l, rd_index = 0, rd_plain = [], rd_broken = False\<rparr>"

text \<open>\<open>poll_read\<close> into a buffer of \<open>room\<close> bytes: \<open>None\<close> is the \<open>InvalidData\<close> error, no bytes the end.\<close>

function poll_read :: "cipher \<Rightarrow> nat \<Rightarrow> reader \<Rightarrow> reader \<times> string option" where
  "poll_read C room r =
     (if rd_plain r \<noteq> []
      then (r\<lparr>rd_plain := drop room (rd_plain r)\<rparr>, Some (take room (rd_plain r)))
      else if rd_index r = chunks (rd_layout r)
      then (if rd_file r = [] then (r, Some []) else (r\<lparr>rd_broken := True\<rparr>, None))
      else if chunks (rd_layout r) < rd_index r then (r, None)
      else
        (let want = sealed_len (rd_layout r) (rd_index r)
         in if length (rd_file r) < want then (r\<lparr>rd_broken := True\<rparr>, None)
            else (case open_chunk C (rd_key r) (rd_id r) (rd_index r)
                         (Suc (rd_index r) = chunks (rd_layout r)) (take want (rd_file r)) of
                    None \<Rightarrow> (r\<lparr>rd_broken := True\<rparr>, None)
                  | Some plain \<Rightarrow>
                      poll_read C room (r\<lparr>rd_plain := plain, rd_file := drop want (rd_file r),
                        rd_index := Suc (rd_index r)\<rparr>))))"
  by pat_completeness auto
termination
  by (relation "measure (\<lambda>(C, room, r). chunks (rd_layout r) - rd_index r)") auto

declare poll_read.simps [simp del]

text \<open>
  Reading to the end with buffers of the sizes given: what was read, and whether the end (\<open>Some True\<close>)
  or an error came; \<open>None\<close> when the buffers are used up before.
\<close>

fun read_to_end :: "cipher \<Rightarrow> nat list \<Rightarrow> reader \<Rightarrow> string \<times> bool option" where
  "read_to_end C [] r = ([], None)"
| "read_to_end C (room # rooms) r =
     (case poll_read C room r of
        (r, None) \<Rightarrow> ([], Some False)
      | (r, Some []) \<Rightarrow> ([], Some True)
      | (r, Some bytes) \<Rightarrow> (case read_to_end C rooms r of (others, e) \<Rightarrow> (bytes @ others, e)))"

end
