(* ===== verification/Chat_Wire.thy ===== *)
theory Chat_Wire
  imports Core_Types
begin

text \<open>
  Messages and channels as serde reads and writes them (\<open>chat.rs\<close>, \<open>FileInfo\<close> of
  \<open>transfer.rs\<close>): what the socket and the HTTP calls parse. A struct is an object; serde also
  takes an array of the fields in order, which no server sends and which is refused here.
\<close>

section \<open>Reading\<close>

definition parse_reaction_summary :: "json \<Rightarrow> reaction_summary option" where
  "parse_reaction_summary j =
     (case (jget_str ''emoji'' j, jget_i64 ''count'' j, field_bool ''me'' j) of
        (Some e, Some n, Some m) \<Rightarrow> Some \<lparr>rs_emoji = e, rs_count = n, rs_me = m\<rparr>
      | _ \<Rightarrow> None)"

definition parse_reply_excerpt :: "json \<Rightarrow> reply_excerpt option" where
  "parse_reply_excerpt j =
     (case (jget_str ''id'' j, field_opt_str ''author_handle'' j, field_opt_str ''author_display_name'' j,
            jget_str ''body'' j, field_or False as_bool ''deleted'' j, field_or 0 as_u32 ''attachments'' j) of
        (Some i, Some h, Some d, Some b, Some x, Some n) \<Rightarrow>
          Some \<lparr>re_id = i, re_author_handle = h, re_author_display_name = d, re_body = b,
                re_deleted = x, re_attachments = n\<rparr>
      | _ \<Rightarrow> None)"

definition parse_file_info :: "json \<Rightarrow> file_info option" where
  "parse_file_info j =
     (case (jget_str ''id'' j, jget_str ''channel_id'' j, jget_str ''uploader_id'' j, jget_str ''filename'' j,
            jget_str ''original_name'' j, Option.bind (jget ''size'' j) as_u64, jget_str ''content_type'' j,
            jget_str ''status'' j, field_opt_str ''sha256'' j) of
        (Some i, Some c, Some u, Some f, Some original, Some n, Some t, Some st, Some h) \<Rightarrow>
          Some \<lparr>fi_id = i, fi_channel_id = c, fi_uploader_id = u, fi_filename = f, fi_original_name = original,
                fi_size = n, fi_content_type = t, fi_status = st, fi_sha256 = h\<rparr>
      | _ \<Rightarrow> None)"

definition parse_message :: "json \<Rightarrow> message option" where
  "parse_message j =
     (case (jget_str ''id'' j, jget_str ''channel_id'' j, field_or [] as_str ''author_id'' j,
            field_opt_str ''author_handle'' j, field_opt_str ''author_display_name'' j, jget_str ''body'' j,
            field_or [] as_str ''created_at'' j, field_opt_str ''edited_at'' j, field_opt_str ''reply_to_id'' j) of
        (Some i, Some c, Some a, Some h, Some d, Some b, Some cr, Some ed, Some rt) \<Rightarrow>
          (case (field_opt parse_reply_excerpt ''reply_to'' j,
                 field_list_or_empty parse_reaction_summary ''reactions'' j,
                 field_list_or_empty as_str ''mentions'' j, field_or False as_bool ''mention_everyone'' j,
                 field_list_or_empty parse_file_info ''attachments'' j, field_opt_str ''client_id'' j,
                 field_opt_str ''deleted_at'' j, field_or False as_bool ''deleted'' j) of
             (Some re, Some rs, Some ms, Some me, Some fs, Some ci, Some da, Some dl) \<Rightarrow>
               Some \<lparr>msg_id = i, msg_channel_id = c, msg_author_id = a, msg_author_handle = h,
                     msg_author_display_name = d, msg_body = b, msg_created_at = cr, msg_edited_at = ed,
                     msg_reply_to_id = rt, msg_reply_to = re, msg_reactions = rs, msg_mentions = ms,
                     msg_mention_everyone = me, msg_attachments = fs, msg_client_id = ci,
                     msg_deleted_at = da, msg_deleted = dl\<rparr>
           | _ \<Rightarrow> None)
      | _ \<Rightarrow> None)"

definition parse_owner_offer :: "json \<Rightarrow> owner_offer option" where
  "parse_owner_offer j =
     (case (jget_str ''user_id'' j, jget_str ''offered_by'' j, jget_str ''created_at'' j) of
        (Some u, Some b, Some t) \<Rightarrow> Some \<lparr>oo_user_id = u, oo_offered_by = b, oo_created_at = t\<rparr>
      | _ \<Rightarrow> None)"

text \<open>\<open>last_message_id\<close> is never on the wire: the cache fills it in.\<close>

definition parse_channel :: "json \<Rightarrow> channel option" where
  "parse_channel j =
     (case (jget_str ''id'' j, jget_str ''kind'' j, field_opt_str ''name'' j, field_opt_str ''topic'' j,
            field_list parse_channel_member ''members'' j) of
        (Some i, Some k, Some n, Some t, Some ms) \<Rightarrow>
          (case (field_or 0 as_i64 ''unread_count'' j, field_or 0 as_i64 ''unread_mentions'' j,
                 field_or False as_bool ''public'' j, field_or False as_bool ''archived'' j,
                 field_list_or_empty parse_owner_offer ''owner_offers'' j) of
             (Some uc, Some um, Some p, Some a, Some offers) \<Rightarrow>
               Some \<lparr>ch_id = i, ch_kind = k, ch_name = n, ch_topic = t, ch_members = ms,
                     ch_unread_count = uc, ch_unread_mentions = um, ch_public = p, ch_archived = a,
                     ch_owner_offers = offers, ch_last_message_id = None\<rparr>
           | _ \<Rightarrow> None)
      | _ \<Rightarrow> None)"

section \<open>Writing\<close>

definition reaction_summary_json :: "reaction_summary \<Rightarrow> json" where
  "reaction_summary_json r =
     JObj [(''emoji'', JStr (rs_emoji r)), (''count'', JInt (rs_count r)), (''me'', JBool (rs_me r))]"

definition reply_excerpt_json :: "reply_excerpt \<Rightarrow> json" where
  "reply_excerpt_json r =
     JObj [(''id'', JStr (re_id r)), (''author_handle'', opt_json JStr (re_author_handle r)),
           (''author_display_name'', opt_json JStr (re_author_display_name r)), (''body'', JStr (re_body r)),
           (''deleted'', JBool (re_deleted r)), (''attachments'', JInt (int (re_attachments r)))]"

definition file_info_json :: "file_info \<Rightarrow> json" where
  "file_info_json f =
     JObj [(''id'', JStr (fi_id f)), (''channel_id'', JStr (fi_channel_id f)),
           (''uploader_id'', JStr (fi_uploader_id f)), (''filename'', JStr (fi_filename f)),
           (''original_name'', JStr (fi_original_name f)), (''size'', JInt (int (fi_size f))),
           (''content_type'', JStr (fi_content_type f)), (''status'', JStr (fi_status f)),
           (''sha256'', opt_json JStr (fi_sha256 f))]"

definition message_json :: "message \<Rightarrow> json" where
  "message_json m =
     JObj [(''id'', JStr (msg_id m)), (''channel_id'', JStr (msg_channel_id m)),
           (''author_id'', JStr (msg_author_id m)), (''author_handle'', opt_json JStr (msg_author_handle m)),
           (''author_display_name'', opt_json JStr (msg_author_display_name m)), (''body'', JStr (msg_body m)),
           (''created_at'', JStr (msg_created_at m)), (''edited_at'', opt_json JStr (msg_edited_at m)),
           (''reply_to_id'', opt_json JStr (msg_reply_to_id m)),
           (''reply_to'', opt_json reply_excerpt_json (msg_reply_to m)),
           (''reactions'', JArr (map reaction_summary_json (msg_reactions m))),
           (''mentions'', JArr (map JStr (msg_mentions m))),
           (''mention_everyone'', JBool (msg_mention_everyone m)),
           (''attachments'', JArr (map file_info_json (msg_attachments m))),
           (''client_id'', opt_json JStr (msg_client_id m)),
           (''deleted_at'', opt_json JStr (msg_deleted_at m)), (''deleted'', JBool (msg_deleted m))]"

section \<open>Round trip\<close>

text \<open>The numbers a Rust value of the type can have.\<close>

definition message_in_range :: "message \<Rightarrow> bool" where
  "message_in_range m \<longleftrightarrow>
     (\<forall>r \<in> set (msg_reactions m). - (2 ^ 63) \<le> rs_count r \<and> rs_count r \<le> i64_max)
     \<and> (\<forall>f \<in> set (msg_attachments m). fi_size f < 2 ^ 64)
     \<and> (case msg_reply_to m of None \<Rightarrow> True | Some r \<Rightarrow> re_attachments r < 2 ^ 32)"

lemma field_opt_str_opt: "jget k j = Some (opt_json JStr x) \<Longrightarrow> field_opt_str k j = Some x"
  by (cases x) (simp_all add: field_opt_str_def opt_json_def)

lemma int_below: "n < 2 ^ k \<Longrightarrow> int n < 2 ^ k"
  by (metis of_nat_less_iff of_nat_numeral of_nat_power)

lemma parse_reaction_summary_json:
  "- (2 ^ 63) \<le> rs_count r \<Longrightarrow> rs_count r \<le> i64_max \<Longrightarrow>
   parse_reaction_summary (reaction_summary_json r) = Some r"
  by (simp add: parse_reaction_summary_def reaction_summary_json_def jget_str_def jget_i64_def field_bool_def)

lemma parse_reply_excerpt_json:
  "re_attachments r < 2 ^ 32 \<Longrightarrow> parse_reply_excerpt (reply_excerpt_json r) = Some r"
  using int_below[of "re_attachments r" 32]
  by (simp add: parse_reply_excerpt_def reply_excerpt_json_def jget_str_def field_opt_str_opt field_or_def)

lemma parse_file_info_json:
  "fi_size f < 2 ^ 64 \<Longrightarrow> parse_file_info (file_info_json f) = Some f"
  using int_below[of "fi_size f" 64]
  by (simp add: parse_file_info_def file_info_json_def jget_str_def field_opt_str_opt)

lemma traverse_map_Some: "(\<And>x. x \<in> set xs \<Longrightarrow> f (g x) = Some x) \<Longrightarrow> traverse f (map g xs) = Some xs"
  by (induction xs) auto

lemma field_list_json:
  "jget k j = Some (JArr (map g xs)) \<Longrightarrow> (\<And>x. x \<in> set xs \<Longrightarrow> f (g x) = Some x)
   \<Longrightarrow> field_list_or_empty f k j = Some xs"
  by (simp add: field_list_or_empty_def field_list_def jget_array_def traverse_map_Some)

lemma field_opt_json:
  "jget k j = Some (opt_json g x) \<Longrightarrow> (\<And>y. x = Some y \<Longrightarrow> f (g y) = Some y \<and> g y \<noteq> JNull)
   \<Longrightarrow> field_opt f k j = Some x"
  by (cases x) (auto simp: field_opt_def opt_json_def split: json.split)

lemma parse_message_json:
  assumes "message_in_range m"
  shows "parse_message (message_json m) = Some m"
proof -
  let ?j = "message_json m"
  have "field_opt parse_reply_excerpt ''reply_to'' ?j = Some (msg_reply_to m)"
    using assms
    by (intro field_opt_json[where g = reply_excerpt_json])
      (auto simp: message_json_def message_in_range_def reply_excerpt_json_def[of "_"]
        intro!: parse_reply_excerpt_json[unfolded reply_excerpt_json_def])
  moreover have "field_list_or_empty parse_reaction_summary ''reactions'' ?j = Some (msg_reactions m)"
    using assms
    by (intro field_list_json[where g = reaction_summary_json])
      (auto simp: message_json_def message_in_range_def intro: parse_reaction_summary_json)
  moreover have "field_list_or_empty as_str ''mentions'' ?j = Some (msg_mentions m)"
    by (intro field_list_json[where g = JStr]) (auto simp: message_json_def)
  moreover have "field_list_or_empty parse_file_info ''attachments'' ?j = Some (msg_attachments m)"
    using assms
    by (intro field_list_json[where g = file_info_json])
      (auto simp: message_json_def message_in_range_def intro: parse_file_info_json)
  moreover have "field_opt_str ''author_handle'' ?j = Some (msg_author_handle m)"
    "field_opt_str ''author_display_name'' ?j = Some (msg_author_display_name m)"
    "field_opt_str ''edited_at'' ?j = Some (msg_edited_at m)"
    "field_opt_str ''reply_to_id'' ?j = Some (msg_reply_to_id m)"
    "field_opt_str ''client_id'' ?j = Some (msg_client_id m)"
    "field_opt_str ''deleted_at'' ?j = Some (msg_deleted_at m)"
    by (simp_all add: field_opt_str_opt message_json_def)
  moreover have "jget_str ''id'' ?j = Some (msg_id m)" "jget_str ''channel_id'' ?j = Some (msg_channel_id m)"
    "field_or [] as_str ''author_id'' ?j = Some (msg_author_id m)" "jget_str ''body'' ?j = Some (msg_body m)"
    "field_or [] as_str ''created_at'' ?j = Some (msg_created_at m)"
    "field_or False as_bool ''mention_everyone'' ?j = Some (msg_mention_everyone m)"
    "field_or False as_bool ''deleted'' ?j = Some (msg_deleted m)"
    by (simp_all add: jget_str_def field_or_def message_json_def)
  ultimately show ?thesis by (simp add: parse_message_def)
qed

end
