(* ===== verification/File_Cache.thy ===== *)
theory File_Cache
  imports Snapshot File_Rows Chat_Wire Download
begin

text \<open>
  \<open>core/src/files.rs\<close>: attachments kept on the device, sealed. A row of \<open>files\<close> says how far a file
  is; its blob lies in the \<open>files\<close> directory under the file's id. Every database call is one step, and
  so is each operation of a download's sink (it touches the database at most once, and nobody else
  looks at its blob); anything may happen between two steps. A blob is an inode, so that a file
  unlinked while a download holds it open is what it is on a Unix system. Random keys, the clock and
  the file system's refusals are arguments.
\<close>

section \<open>State\<close>

text \<open>An inode: its bytes, and whether they and its place in the directory outlive a crash.\<close>

record inode =
  in_data :: string
  in_durable :: bool

record enc_sink =
  es_sealer :: sealer
  es_inode :: nat
  es_durable :: nat
  es_sha256 :: string

text \<open>A download in flight: before its sink is open, writing, giving up, or over with its outcome.\<close>

datatype file_flight = Starting | Sinking enc_sink | Aborting enc_sink | Over

text \<open>The sweep of the journal holds the lock of the blobs: what it will unlink, then what it unlinked.\<close>

datatype sweep = Resting | Unlinking "string list" | Forgetting "string list"

record file_cache =
  fc_db :: cache_db
  fc_dir :: "string \<Rightarrow> nat option"
  fc_inode :: "nat \<Rightarrow> inode"
  fc_next :: nat
  fc_flights :: "string \<Rightarrow> file_flight option"
  fc_asked :: "(nat \<times> string) list"
  fc_sweep :: sweep

section \<open>Rows\<close>

definition file_error :: "string \<Rightarrow> core_error" where
  "file_error code =
     Api code (if code = ''file.unknown'' then ''no cached message has this file''
               else if code = ''file.gone'' then ''the file was deleted''
               else if code = ''file.open_refused'' then ''this kind of file is only saved, never opened''
               else if code = ''file.preview_refused'' then ''no preview for this file''
               else if code = ''transfer.cancelled'' then ''the transfer was cancelled''
               else if code = ''local.unavailable'' then ''offline storage isn't available''
               else ''the file couldn't be cached'')"

definition file_listed :: "string \<Rightarrow> cache_db \<Rightarrow> bool" where
  "file_listed f db \<longleftrightarrow> (\<exists>m \<in> set (db_message_files db). mf_file m = f)"

definition row_of_file :: "string \<Rightarrow> cache_db \<Rightarrow> cached_file option" where
  "row_of_file f db = find (\<lambda>r. cf_id r = f) (db_files db)"

definition update_file :: "string \<Rightarrow> (cached_file \<Rightarrow> cached_file) \<Rightarrow> cache_db \<Rightarrow> cache_db" where
  "update_file f g db = db\<lparr>db_files := map (\<lambda>r. if cf_id r = f then g r else r) (db_files db)\<rparr>"

text \<open>\<open>row\<close>: a key that is not 32 bytes makes the row no row.\<close>

definition usable_row :: "string \<Rightarrow> cache_db \<Rightarrow> cached_file option" where
  "usable_row f db =
     (case row_of_file f db of Some r \<Rightarrow> if length (cf_key r) = 32 then Some r else None | None \<Rightarrow> None)"

definition file_lookup :: "string \<Rightarrow> cache_db \<Rightarrow> file_info option" where
  "file_lookup f db =
     Option.bind (find (\<lambda>m. mf_file m = f) (db_message_files db)) (\<lambda>mf.
     Option.bind (find (\<lambda>m. m_id m = mf_message mf) (db_messages db)) (\<lambda>m.
     Option.bind (jget_array ''attachments'' (m_json m)) (\<lambda>fs.
     Option.bind (find (\<lambda>j. jget_str ''id'' j = Some f) fs) (\<lambda>j.
     Option.bind (parse_file_info j) (\<lambda>i. if fi_sha256 i \<noteq> None \<and> 0 < fi_size i then Some i else None)))))"

definition new_row :: "string \<Rightarrow> string \<Rightarrow> nat \<Rightarrow> string \<Rightarrow> bool \<Rightarrow> cached_file" where
  "new_row f sha256 sz key pinned =
     \<lparr>cf_id = f, cf_sha256 = sha256, cf_size = int sz, cf_key = key, cf_chunk = int chunk_len,
       cf_state = ''partial'', cf_done = 0, cf_pinned = pinned, cf_last_used = None\<rparr>"

text \<open>\<open>pin_file\<close> from the size and digest it looked up: its statement, and what it answers.\<close>

definition pin_file :: "string \<Rightarrow> string \<Rightarrow> nat \<Rightarrow> string \<Rightarrow> cache_db \<Rightarrow> core_error option \<times> cache_db" where
  "pin_file f sha256 sz key db =
     (if \<not> file_listed f db then (Some (file_error ''file.gone''), db)
      else (None,
        case row_of_file f db of
          Some _ \<Rightarrow> update_file f (\<lambda>r. r\<lparr>cf_pinned := True\<rparr>) db
        | None \<Rightarrow> db\<lparr>db_files := db_files db @ [new_row f sha256 sz key True]\<rparr>))"

definition unpin_file :: "string \<Rightarrow> cache_db \<Rightarrow> cache_db" where
  "unpin_file f db = update_file f (\<lambda>r. r\<lparr>cf_pinned := False\<rparr>) db"

definition pinned_bytes :: "cache_db \<Rightarrow> int" where
  "pinned_bytes db = sum_list (map cf_size (filter cf_pinned (db_files db)))"

definition touch_file :: "string \<Rightarrow> string \<Rightarrow> cache_db \<Rightarrow> cache_db" where
  "touch_file f now db = update_file f (\<lambda>r. r\<lparr>cf_last_used := Some now\<rparr>) db"

datatype file_cache_state = NotCached | PartialFile int int | CachedFile | PinnedFile bool int int "nat option"

definition file_state :: "(string \<Rightarrow> nat option) \<Rightarrow> string \<Rightarrow> cache_db \<Rightarrow> file_cache_state" where
  "file_state fetching f db =
     (case usable_row f db of
        None \<Rightarrow> NotCached
      | Some r \<Rightarrow>
          if cf_pinned r
          then PinnedFile (cf_state r = ''complete'')
                 (if cf_state r = ''complete'' then cf_size r else cf_done r) (cf_size r) (fetching f)
          else if cf_state r = ''complete'' then CachedFile
          else PartialFile (cf_done r) (cf_size r))"

text \<open>\<open>drop_file\<close> of \<open>files.rs\<close>: the server has deleted the file.\<close>

definition drop_gone_file :: "string \<Rightarrow> cache_db \<Rightarrow> cache_db" where
  "drop_gone_file f db =
     fst (drop_files [f] (db\<lparr>db_message_files := filter (\<lambda>m. mf_file m \<noteq> f) (db_message_files db)\<rparr>))"

section \<open>Eviction\<close>

definition file_cache_cap :: nat where "file_cache_cap = 2 ^ 30"

text \<open>Partials first, then the least recently used; rows that tie stay in the order of the table.\<close>

definition evict_candidates :: "cache_db \<Rightarrow> cached_file list" where
  "evict_candidates db =
     sort_key (\<lambda>r. if cf_state r = ''partial'' then 0 else 1 :: nat)
       (sort_key (\<lambda>r. case cf_last_used r of Some t \<Rightarrow> t | None \<Rightarrow> []) (filter (\<lambda>r. \<not> cf_pinned r) (db_files db)))"

fun evict_loop :: "int \<Rightarrow> string set \<Rightarrow> int \<Rightarrow> cached_file list \<Rightarrow> cache_db \<Rightarrow> cache_db \<times> string list" where
  "evict_loop cap keep bytes [] db = (db, [])"
| "evict_loop cap keep bytes (r # rs) db =
     (if bytes \<le> cap then (db, [])
      else if cf_id r \<in> keep then evict_loop cap keep bytes rs db
      else (case evict_loop cap keep (max 0 (bytes - cf_size r)) rs (fst (drop_files [cf_id r] db)) of
              (db, gone) \<Rightarrow> (db, cf_id r # gone)))"

definition unpinned_bytes :: "cache_db \<Rightarrow> int" where
  "unpinned_bytes db = sum_list (map cf_size (filter (\<lambda>r. \<not> cf_pinned r) (db_files db)))"

definition evict :: "int \<Rightarrow> string set \<Rightarrow> string \<Rightarrow> cache_db \<Rightarrow> cache_db \<times> string list" where
  "evict cap flying just db =
     (if cap < unpinned_bytes db
      then evict_loop cap (insert just flying) (unpinned_bytes db) (evict_candidates db) db
      else (db, []))"

section \<open>The sink\<close>

definition set_len :: "nat \<Rightarrow> string \<Rightarrow> string" where
  "set_len n d = take n d @ replicate (n - length d) (char_of (0 :: nat))"

definition put_data :: "nat \<Rightarrow> string \<Rightarrow> file_cache \<Rightarrow> file_cache" where
  "put_data i d s = s\<lparr>fc_inode := (fc_inode s)(i := \<lparr>in_data = d, in_durable = False\<rparr>)\<rparr>"

definition set_flight :: "string \<Rightarrow> file_flight \<Rightarrow> file_cache \<Rightarrow> file_cache" where
  "set_flight f x s = s\<lparr>fc_flights := (fc_flights s)(f \<mapsto> x)\<rparr>"

definition with_db :: "(cache_db \<Rightarrow> cache_db) \<Rightarrow> file_cache \<Rightarrow> file_cache" where
  "with_db g s = s\<lparr>fc_db := g (fc_db s)\<rparr>"

definition sync_every :: nat where "sync_every = 8"

text \<open>
  \<open>EncryptingSink::open\<close>, the row: the one there if it is this file's and not finished, else one that
  starts over; the key, the chunk size and the offset to go on with. A row is only made while a
  message lists the file.
\<close>

definition fresh_row :: "string \<Rightarrow> string \<Rightarrow> nat \<Rightarrow> string \<Rightarrow> cache_db \<Rightarrow> bool \<times> cache_db" where
  "fresh_row f sha256 sz key db =
     (let db = db\<lparr>db_deletions := filter (\<lambda>p. p \<noteq> blob_path f) (db_deletions db)\<rparr>
      in if \<not> file_listed f db then (False, db)
         else (True,
           case row_of_file f db of
             Some _ \<Rightarrow> update_file f (\<lambda>r. r\<lparr>cf_sha256 := sha256, cf_size := int sz, cf_key := key,
                         cf_chunk := int chunk_len, cf_state := ''partial'', cf_done := 0\<rparr>) db
           | None \<Rightarrow> db\<lparr>db_files := db_files db @ [new_row f sha256 sz key False]\<rparr>))"

definition resumable :: "string \<Rightarrow> nat \<Rightarrow> cached_file \<Rightarrow> bool" where
  "resumable sha256 sz r \<longleftrightarrow> cf_size r = int sz \<and> cf_sha256 r = sha256 \<and> cf_state r = ''partial''"

definition open_row ::
  "string \<Rightarrow> string \<Rightarrow> nat \<Rightarrow> string \<Rightarrow> cache_db \<Rightarrow> (core_error + string \<times> nat \<times> nat) \<times> cache_db" where
  "open_row f sha256 sz key db =
     (case find (resumable sha256 sz) (case usable_row f db of Some r \<Rightarrow> [r] | None \<Rightarrow> []) of
        Some r \<Rightarrow> (let chunk = nat (cf_chunk r); done = nat (cf_done r)
                   in (Inr (cf_key r, chunk, done - done mod chunk), db))
      | None \<Rightarrow> (case fresh_row f sha256 sz key db of
                   (False, db) \<Rightarrow> (Inl (file_error ''file.gone''), db)
                 | (True, db) \<Rightarrow> (Inr (key, chunk_len, 0), db)))"

text \<open>\<open>EncryptingSink::open\<close>: the row, then the blob, made if it is not there, cut to the offset.\<close>

definition open_blob :: "string \<Rightarrow> nat \<Rightarrow> file_cache \<Rightarrow> nat \<times> file_cache" where
  "open_blob f n s =
     (case fc_dir s f of
        Some i \<Rightarrow> (i, put_data i (set_len n (in_data (fc_inode s i))) s)
      | None \<Rightarrow> (fc_next s, put_data (fc_next s) (set_len n [])
                  (s\<lparr>fc_dir := (fc_dir s)(f \<mapsto> fc_next s), fc_next := Suc (fc_next s)\<rparr>)))"

definition sink_open ::
  "string \<Rightarrow> string \<Rightarrow> nat \<Rightarrow> string \<Rightarrow> string option \<Rightarrow> file_cache \<Rightarrow> core_error option \<times> file_cache" where
  "sink_open f sha256 sz key refused s =
     (case id_bytes f of
        None \<Rightarrow> (Some (file_error ''file.unknown''), set_flight f Over s)
      | Some i \<Rightarrow>
          (case open_row f sha256 sz key (fc_db s) of
             (Inl e, db) \<Rightarrow> (Some e, set_flight f Over (s\<lparr>fc_db := db\<rparr>))
           | (Inr (k, chunk, done), db) \<Rightarrow>
               (case refused of
                  Some kind \<Rightarrow> (Some (Api ''transfer.io'' kind), set_flight f Over (s\<lparr>fc_db := db\<rparr>))
                | None \<Rightarrow>
                    (let l = \<lparr>ly_chunk = chunk, ly_size = sz\<rparr>; index = done div chunk;
                         (n, s) = open_blob f (sealed_offset l index) (s\<lparr>fc_db := db\<rparr>)
                     in (None, set_flight f (Sinking \<lparr>es_sealer = sealer_new k i l index, es_inode = n,
                                es_durable = done, es_sha256 = sha256\<rparr>) s)))))"

text \<open>
  What goes wrong in an operation: nothing, its first half (a write after some bytes reached the
  file), or its second. An operation answers its error, the sink and the cache.
\<close>

datatype sink_fault = NoFault | EarlyFault nat string | LateFault string

type_synonym sink_op = "enc_sink \<Rightarrow> file_cache \<Rightarrow> sink_error option \<times> enc_sink \<times> file_cache"

definition blob_chunk :: "enc_sink \<Rightarrow> nat" where "blob_chunk e = ly_chunk (sl_layout (es_sealer e))"

definition blob_size :: "enc_sink \<Rightarrow> nat" where "blob_size e = ly_size (sl_layout (es_sealer e))"

definition sink_offset :: "enc_sink \<Rightarrow> nat" where
  "sink_offset e = min (sl_index (es_sealer e) * blob_chunk e + length (sl_buf (es_sealer e))) (blob_size e)"

definition sink_record :: "string \<Rightarrow> string option \<Rightarrow> sink_op" where
  "sink_record f fails e s =
     (case fails of
        Some kind \<Rightarrow> (Some (SinkIo kind), e, s)
      | None \<Rightarrow>
          (let done = min (sl_index (es_sealer e) * blob_chunk e) (blob_size e)
           in (None, e\<lparr>es_durable := done\<rparr>,
               with_db (update_file f (\<lambda>r. if cf_state r = ''partial'' then r\<lparr>cf_done := int done\<rparr> else r)) s)))"

definition sink_restart :: "string \<Rightarrow> string \<Rightarrow> sink_fault \<Rightarrow> sink_op" where
  "sink_restart f key fault e s =
     (case fault of
        EarlyFault _ kind \<Rightarrow> (Some (SinkIo kind), e, s)
      | _ \<Rightarrow>
          if row_of_file f (fc_db s) = None then (Some (SinkIo ''NotFound''), e, s)
          else
            (let s = with_db (update_file f (\<lambda>r. r\<lparr>cf_key := key, cf_done := 0, cf_state := ''partial''\<rparr>)) s
             in case fault of
                  LateFault kind \<Rightarrow> (Some (SinkIo kind), e, s)
                | _ \<Rightarrow> (None,
                    e\<lparr>es_sealer := sealer_new key (sl_id (es_sealer e)) (sl_layout (es_sealer e)) 0, es_durable := 0\<rparr>,
                    put_data (es_inode e) [] s)))"

definition sink_write :: "cipher \<Rightarrow> string \<Rightarrow> string \<Rightarrow> sink_fault \<Rightarrow> sink_op" where
  "sink_write C f bytes fault e s =
     (case push C (es_sealer e) bytes of
        (sl, Inl _) \<Rightarrow> (Some (SinkIo ''InvalidData''), e\<lparr>es_sealer := sl\<rparr>, s)
      | (sl, Inr out) \<Rightarrow>
          (let e' = e\<lparr>es_sealer := sl\<rparr>; data = in_data (fc_inode s (es_inode e))
           in case (if out = [] then NoFault else fault) of
                EarlyFault n kind \<Rightarrow> (Some (SinkIo kind), e', put_data (es_inode e) (data @ take n out) s)
              | _ \<Rightarrow>
                  (let s = (if out = [] then s else put_data (es_inode e) (data @ out) s)
                   in if sl_index (es_sealer e) < sl_index sl
                         \<and> sync_every \<le> sl_index sl - es_durable e div blob_chunk e
                      then sink_record f (case fault of LateFault kind \<Rightarrow> Some kind | _ \<Rightarrow> None) e' s
                      else (None, e', s))))"

definition mark_durable :: "nat \<Rightarrow> file_cache \<Rightarrow> file_cache" where
  "mark_durable i s = s\<lparr>fc_inode := (fc_inode s)(i := (fc_inode s i)\<lparr>in_durable := True\<rparr>)\<rparr>"

text \<open>
  \<open>finish\<close>, with the digest the download was asked for; it checks the blob where its path leads. The
  sync of the directory, whose failure the code ignores, is taken to work.
\<close>

definition sink_finish ::
  "cipher \<Rightarrow> (string \<Rightarrow> string) \<Rightarrow> string \<Rightarrow> string \<Rightarrow> string \<Rightarrow> string \<Rightarrow> sink_fault \<Rightarrow> sink_op" where
  "sink_finish C sha f sha256 now key fault e s =
     (if \<not> is_complete (es_sealer e) \<or> sha256 \<noteq> es_sha256 e
      then (Some (SinkIo ''UnexpectedEof''), e, s)
      else
        (case fault of
           EarlyFault _ kind \<Rightarrow> (Some (SinkIo kind), e, s)
         | _ \<Rightarrow>
             (let s = mark_durable (es_inode e) s
              in if \<not> verify C sha (map_option (\<lambda>i. in_data (fc_inode s i)) (fc_dir s f)) (sl_key (es_sealer e))
                       (sl_id (es_sealer e)) (blob_size e) (es_sha256 e) (blob_chunk e)
                 then (case sink_restart f key fault e s of (_, e, s) \<Rightarrow> (Some Mismatch, e, s))
                 else (case fault of
                         LateFault kind \<Rightarrow> (Some (SinkIo kind), e, s)
                       | _ \<Rightarrow>
                           if row_of_file f (fc_db s) = None then (Some (SinkIo ''NotFound''), e, s)
                           else (None, e,
                             with_db (update_file f (\<lambda>r. r\<lparr>cf_state := ''complete'', cf_done := cf_size r,
                                                          cf_last_used := Some now\<rparr>)) s)))))"

text \<open>An operation of a flight: one that fails leaves it giving up, \<open>after\<close> is what success leaves.\<close>

definition sinking :: "string \<Rightarrow> (enc_sink \<Rightarrow> file_flight) \<Rightarrow> sink_op \<Rightarrow> file_cache \<Rightarrow> sink_error option \<times> file_cache" where
  "sinking f after op s =
     (case fc_flights s f of
        Some (Sinking e) \<Rightarrow>
          (case op e s of
             (None, e, s) \<Rightarrow> (None, set_flight f (after e) s)
           | (Some err, e, s) \<Rightarrow> (Some err, set_flight f (Aborting e) s))
      | _ \<Rightarrow> (Some (SinkIo ''BrokenPipe''), s))"

section \<open>The journal\<close>

definition live_path :: "cache_db \<Rightarrow> string \<Rightarrow> bool" where
  "live_path db p \<longleftrightarrow> (\<exists>r \<in> set (db_files db). blob_path (cf_id r) = p)"

definition prune_journal :: "cache_db \<Rightarrow> cache_db" where
  "prune_journal db = db\<lparr>db_deletions := filter (\<lambda>p. \<not> live_path db p) (db_deletions db)\<rparr>"

text \<open>\<open>remove_file\<close> of each path that can be removed; the ones that are gone then.\<close>

definition unlink :: "string list \<Rightarrow> (string \<Rightarrow> nat option) \<Rightarrow> string \<Rightarrow> nat option" where
  "unlink ps dir f = (if blob_path f \<in> set ps then None else dir f)"

definition forget_paths :: "string list \<Rightarrow> cache_db \<Rightarrow> cache_db" where
  "forget_paths ps db = db\<lparr>db_deletions := filter (\<lambda>p. p \<notin> set ps) (db_deletions db)\<rparr>"

definition sweep_begins :: "file_cache \<Rightarrow> file_cache" where
  "sweep_begins s =
     (let db = prune_journal (fc_db s) in s\<lparr>fc_db := db, fc_sweep := Unlinking (db_deletions db)\<rparr>)"

definition sweep_unlinks :: "string set \<Rightarrow> file_cache \<Rightarrow> file_cache" where
  "sweep_unlinks refused s =
     (case fc_sweep s of
        Unlinking ps \<Rightarrow>
          (let removed = filter (\<lambda>p. p \<notin> refused) ps
           in s\<lparr>fc_dir := unlink removed (fc_dir s), fc_sweep := Forgetting removed\<rparr>)
      | _ \<Rightarrow> s)"

definition sweep_forgets :: "file_cache \<Rightarrow> file_cache" where
  "sweep_forgets s =
     (case fc_sweep s of
        Forgetting ps \<Rightarrow> s\<lparr>fc_db := forget_paths ps (fc_db s), fc_sweep := Resting\<rparr>
      | _ \<Rightarrow> s)"

definition sweep_journal :: "string set \<Rightarrow> file_cache \<Rightarrow> file_cache" where
  "sweep_journal refused s = sweep_forgets (sweep_unlinks refused (sweep_begins s))"

section \<open>Opening the cache\<close>

text \<open>How many bytes of its blob a row counts on.\<close>

definition needed :: "cached_file \<Rightarrow> nat" where
  "needed r =
     (let l = \<lparr>ly_chunk = nat (cf_chunk r), ly_size = nat (cf_size r)\<rparr>
      in if cf_state r = ''complete'' then file_len l else sealed_offset l (nat (cf_done r) div ly_chunk l))"

definition short_blob :: "file_cache \<Rightarrow> cached_file \<Rightarrow> bool" where
  "short_blob s r \<longleftrightarrow>
     needed r \<noteq> 0
     \<and> (case fc_dir s (cf_id r) of None \<Rightarrow> True | Some i \<Rightarrow> length (in_data (fc_inode s i)) < needed r)"

text \<open>\<open>reconcile\<close>, with the new keys of pinned files that start over and the files that cannot be removed.\<close>

definition settle_short :: "(string \<Rightarrow> string) \<Rightarrow> cached_file \<Rightarrow> cache_db \<Rightarrow> cache_db" where
  "settle_short keys r db =
     (if cf_pinned r
      then update_file (cf_id r) (\<lambda>x. x\<lparr>cf_key := keys (cf_id r), cf_done := 0, cf_state := ''partial''\<rparr>) db
      else fst (drop_files [cf_id r] db))"

definition reconcile :: "string set \<Rightarrow> (string \<Rightarrow> string) \<Rightarrow> file_cache \<Rightarrow> file_cache" where
  "reconcile refused keys s =
     (let s = sweep_journal refused s;
          named = cf_id ` set (db_files (fc_db s));
          s = s\<lparr>fc_dir := (\<lambda>f. if f \<in> named \<or> blob_path f \<in> refused then fc_dir s f else None)\<rparr>;
          bad = filter (short_blob s) (db_files (fc_db s))
      in if bad = [] then s
         else sweep_journal refused (s\<lparr>fc_db := fold (settle_short keys) bad (fc_db s)\<rparr>))"

section \<open>Reading a cached file\<close>

definition cached_source :: "file_cache \<Rightarrow> cached_file \<Rightarrow> reader option" where
  "cached_source s r =
     (case (fc_dir s (cf_id r), id_bytes (cf_id r)) of
        (Some i, Some b) \<Rightarrow>
          Some (reader_new (in_data (fc_inode s i)) (cf_key r) b
                  \<lparr>ly_chunk = nat (cf_chunk r), ly_size = nat (cf_size r)\<rparr>)
      | _ \<Rightarrow> None)"

text \<open>
  \<open>save_from_cache\<close>: \<open>Inr None\<close> when the file is not complete here, else the bytes the destination
  has afterwards (after an error it is removed). \<open>rooms\<close> are the buffers; a destination that cannot be
  written is \<open>refused\<close>.
\<close>

definition saved_bytes ::
  "cipher \<Rightarrow> (string \<Rightarrow> string) \<Rightarrow> nat list \<Rightarrow> string option \<Rightarrow> file_info \<Rightarrow> reader option \<Rightarrow> core_error + string" where
  "saved_bytes C sha rooms refused info src =
     (case (src, refused) of
        (None, _) \<Rightarrow> Inl (file_error ''transfer.integrity'')
      | (_, Some kind) \<Rightarrow> Inl (Api ''transfer.io'' kind)
      | (Some src, None) \<Rightarrow>
          (case read_to_end C rooms src of
             (bytes, Some True) \<Rightarrow>
               if Some (sha bytes) = fi_sha256 info then Inr bytes else Inl (file_error ''transfer.integrity'')
           | _ \<Rightarrow> Inl (file_error ''transfer.integrity'')))"

definition save_from_cache ::
  "cipher \<Rightarrow> (string \<Rightarrow> string) \<Rightarrow> nat list \<Rightarrow> string option \<Rightarrow> string \<Rightarrow> string \<Rightarrow> file_cache \<Rightarrow>
     (core_error + string option) \<times> file_cache" where
  "save_from_cache C sha rooms refused now f s =
     (case file_lookup f (fc_db s) of
        None \<Rightarrow> (Inl (file_error ''file.unknown''), s)
      | Some info \<Rightarrow>
          (case find (\<lambda>r. cf_state r = ''complete'') (case usable_row f (fc_db s) of Some r \<Rightarrow> [r] | None \<Rightarrow> []) of
             None \<Rightarrow> (Inr None, s)
           | Some r \<Rightarrow>
               if id_bytes f = None then (Inl (file_error ''file.unknown''), s)
               else (case saved_bytes C sha rooms refused info (cached_source s r) of
                       Inl e \<Rightarrow> (Inl e, s)
                     | Inr bytes \<Rightarrow> (Inr (Some bytes), with_db (touch_file f now) s))))"

section \<open>Everything that can happen\<close>

text \<open>
  The cache's own transactions (\<open>CacheMoves\<close>: a page, an event, a reset) change what they like, drop
  files with their journal entries, and make no row. Callers (\<open>fc_asked\<close>) ask for a file they found not
  complete and start or join its flight later, again when the one they joined was stopping, until
  they are answered; a flight goes through its sink's operations and ends. Whatever is in memory goes
  with a crash, and so does every blob that is not durable.
\<close>

datatype file_event =
    CacheMoves cache_db "string list"
  | Pins string string nat string
  | Unpins string
  | Touches string string
  | GoneFromServer string
  | Evicts int "string set" string
  | SweepBegins
  | SweepUnlinks "string set"
  | SweepForgets
  | Asks nat string
  | Starts nat string
  | Answered nat string
  | SinkOpens string string nat string "string option"
  | SinkWrites string string sink_fault
  | SinkRestarts string string sink_fault
  | SinkFinishes string string string string sink_fault
  | GivesUp string
  | Aborts string "string option"
  | FlightEnds string

definition cache_moves :: "cache_db \<Rightarrow> string list \<Rightarrow> cache_db \<Rightarrow> cache_db" where
  "cache_moves other gone db =
     (let d = fst (drop_files gone db) in other\<lparr>db_files := db_files d, db_deletions := db_deletions d\<rparr>)"

definition is_complete_row :: "string \<Rightarrow> cache_db \<Rightarrow> bool" where
  "is_complete_row f db \<longleftrightarrow> (case usable_row f db of Some r \<Rightarrow> cf_state r = ''complete'' | None \<Rightarrow> False)"

definition file_next :: "cipher \<Rightarrow> (string \<Rightarrow> string) \<Rightarrow> file_event \<Rightarrow> file_cache \<Rightarrow> file_cache" where
  "file_next C sha ev s =
     (case ev of
        CacheMoves other gone \<Rightarrow> with_db (cache_moves other gone) s
      | Pins f sha256 sz key \<Rightarrow> with_db (\<lambda>db. snd (pin_file f sha256 sz key db)) s
      | Unpins f \<Rightarrow> with_db (unpin_file f) s
      | Touches f now \<Rightarrow> with_db (touch_file f now) s
      | GoneFromServer f \<Rightarrow> with_db (drop_gone_file f) s
      | Evicts cap flying just \<Rightarrow> with_db (\<lambda>db. fst (evict cap flying just db)) s
      | SweepBegins \<Rightarrow> sweep_begins s
      | SweepUnlinks refused \<Rightarrow> sweep_unlinks refused s
      | SweepForgets \<Rightarrow> sweep_forgets s
      | Asks n f \<Rightarrow> s\<lparr>fc_asked := (n, f) # fc_asked s\<rparr>
      | Starts n f \<Rightarrow>
          if fc_flights s f = None then set_flight f Starting s else s
      | Answered n f \<Rightarrow> s\<lparr>fc_asked := filter (\<lambda>x. x \<noteq> (n, f)) (fc_asked s)\<rparr>
      | SinkOpens f sha256 sz key refused \<Rightarrow> snd (sink_open f sha256 sz key refused s)
      | SinkWrites f bytes fault \<Rightarrow> snd (sinking f Sinking (sink_write C f bytes fault) s)
      | SinkRestarts f key fault \<Rightarrow> snd (sinking f Sinking (sink_restart f key fault) s)
      | SinkFinishes f sha256 now key fault \<Rightarrow>
          snd (sinking f (\<lambda>_. Over) (sink_finish C sha f sha256 now key fault) s)
      | GivesUp f \<Rightarrow>
          (case fc_flights s f of
             Some (Sinking e) \<Rightarrow> set_flight f (Aborting e) s
           | Some Starting \<Rightarrow> set_flight f Over s
           | _ \<Rightarrow> s)
      | Aborts f fails \<Rightarrow>
          (case fc_flights s f of
             Some (Aborting e) \<Rightarrow> (case sink_record f fails e s of (_, _, s) \<Rightarrow> set_flight f Over s)
           | _ \<Rightarrow> s)
      | FlightEnds f \<Rightarrow> s\<lparr>fc_flights := (fc_flights s)(f := None)\<rparr>)"

text \<open>The process ends and the cache is opened again, with what is in the directory then.\<close>

definition reopened ::
  "(string \<Rightarrow> nat option) \<Rightarrow> (nat \<Rightarrow> inode) \<Rightarrow> nat \<Rightarrow> string set \<Rightarrow> (string \<Rightarrow> string) \<Rightarrow> file_cache \<Rightarrow> file_cache" where
  "reopened dir ino n refused keys s =
     reconcile refused keys
       (s\<lparr>fc_dir := dir, fc_inode := ino, fc_next := n, fc_flights := (\<lambda>_. None), fc_asked := [],
          fc_sweep := Resting\<rparr>)"

text \<open>
  \<open>apart\<close>: whether a pin makes no row for a file in flight, as when its message comes back just after
  it was dropped. \<open>pin_file\<close> itself does not look.
\<close>

definition survives :: "file_cache \<Rightarrow> (string \<Rightarrow> nat option) \<Rightarrow> (nat \<Rightarrow> inode) \<Rightarrow> bool" where
  "survives s dir ino \<longleftrightarrow>
     (\<forall>f i. fc_dir s f = Some i \<longrightarrow> in_durable (fc_inode s i) \<longrightarrow> dir f = Some i \<and> ino i = fc_inode s i)"

definition file_enabled :: "bool \<Rightarrow> file_cache \<Rightarrow> file_event \<Rightarrow> bool" where
  "file_enabled apart s ev =
     (case ev of
        Pins f sha256 sz key \<Rightarrow>
          0 < sz \<and> length key = 32 \<and> (apart \<longrightarrow> row_of_file f (fc_db s) \<noteq> None \<or> fc_flights s f = None)
      | SweepBegins \<Rightarrow> fc_sweep s = Resting
      | SweepUnlinks _ \<Rightarrow> (case fc_sweep s of Unlinking _ \<Rightarrow> True | _ \<Rightarrow> False)
      | SweepForgets \<Rightarrow> (case fc_sweep s of Forgetting _ \<Rightarrow> True | _ \<Rightarrow> False)
      | Asks _ f \<Rightarrow> \<not> is_complete_row f (fc_db s)
      | Starts n f \<Rightarrow> (n, f) \<in> set (fc_asked s)
      | SinkOpens f sha256 sz key _ \<Rightarrow>
          fc_flights s f = Some Starting \<and> fc_sweep s = Resting \<and> 0 < sz \<and> length key = 32
      | SinkRestarts _ key _ \<Rightarrow> length key = 32
      | SinkFinishes _ _ _ key _ \<Rightarrow> length key = 32
      | FlightEnds f \<Rightarrow> fc_flights s f = Some Over
      | _ \<Rightarrow> True)"

inductive file_runs :: "cipher \<Rightarrow> (string \<Rightarrow> string) \<Rightarrow> bool \<Rightarrow> file_cache \<Rightarrow> file_event list \<Rightarrow> file_cache \<Rightarrow> bool"
  for C sha apart s0 where
  begins: "file_runs C sha apart s0 [] s0"
| happens: "file_runs C sha apart s0 evs s \<Longrightarrow> file_enabled apart s ev \<Longrightarrow>
    file_runs C sha apart s0 (evs @ [ev]) (file_next C sha ev s)"
| reopens: "file_runs C sha apart s0 evs s \<Longrightarrow> survives s dir ino \<Longrightarrow> inj_on dir (dom dir) \<Longrightarrow>
    (\<forall>f i. dir f = Some i \<longrightarrow> i < n) \<Longrightarrow> (\<forall>f. length (keys f) = 32) \<Longrightarrow>
    file_runs C sha apart s0 evs (reopened dir ino n refused keys s)"

end
