(* ===== verification/Snapshot_Facts.thy ===== *)
theory Snapshot_Facts
  imports Snapshot
begin

text \<open>
  The one format: what a file sealed whole is, as a definition, and that the copy, the sealer, the
  check and the reader all agree with it.
\<close>

section \<open>Chunks\<close>

definition slice :: "nat \<Rightarrow> nat \<Rightarrow> string \<Rightarrow> string" where
  "slice chunk k p = take chunk (drop (k * chunk) p)"

definition sealed_range :: "cipher \<Rightarrow> string \<Rightarrow> string \<Rightarrow> layout \<Rightarrow> nat \<Rightarrow> nat \<Rightarrow> string \<Rightarrow> string option" where
  "sealed_range C key i l k n p =
     map_option concat (traverse (\<lambda>j. seal_chunk C key i j (Suc j = chunks l) (slice (ly_chunk l) j p)) [k..<k + n])"

definition sealed_file :: "cipher \<Rightarrow> string \<Rightarrow> string \<Rightarrow> layout \<Rightarrow> string \<Rightarrow> string option" where
  "sealed_file C key i l p = sealed_range C key i l 0 (chunks l) p"

lemma traverse_append:
  "traverse f (xs @ ys) = (case (traverse f xs, traverse f ys) of (Some a, Some b) \<Rightarrow> Some (a @ b) | _ \<Rightarrow> None)"
  by (induction xs) (auto split: option.splits)

lemma sealed_range_0 [simp]: "sealed_range C key i l k 0 p = Some []"
  by (simp add: sealed_range_def)

lemma sealed_range_first:
  "sealed_range C key i l k (Suc n) p =
     (case (seal_chunk C key i k (Suc k = chunks l) (slice (ly_chunk l) k p), sealed_range C key i l (Suc k) n p) of
        (Some a, Some b) \<Rightarrow> Some (a @ b) | _ \<Rightarrow> None)"
proof -
  have "[k..<k + Suc n] = k # [Suc k..<Suc k + n]" by (simp add: upt_conv_Cons)
  then show ?thesis unfolding sealed_range_def by (auto split: option.splits)
qed

lemma sealed_range_last:
  "sealed_range C key i l k (Suc n) p =
     (case (sealed_range C key i l k n p,
            seal_chunk C key i (k + n) (Suc (k + n) = chunks l) (slice (ly_chunk l) (k + n) p)) of
        (Some a, Some b) \<Rightarrow> Some (a @ b) | _ \<Rightarrow> None)"
  by (auto simp: sealed_range_def traverse_append split: option.splits)

lemma slice_cong:
  "take m p = take m q \<Longrightarrow> Suc k * chunk \<le> m \<Longrightarrow> slice chunk k p = slice chunk k q"
proof -
  assume t: "take m p = take m q" and m: "Suc k * chunk \<le> m"
  have "take chunk (drop (k * chunk) r) = drop (k * chunk) (take (Suc k * chunk) (take m r))" for r :: string
    using m by (simp add: take_drop min_absorb1 add.commute)
  then show ?thesis unfolding slice_def using t by metis
qed

lemma sealed_range_cong:
  assumes "take m p = take m q" "(k + n) * ly_chunk l \<le> m"
  shows "sealed_range C key i l k n p = sealed_range C key i l k n q"
  using assms(2)
proof (induction n)
  case (Suc n)
  have "(k + n) * ly_chunk l \<le> m" "Suc (k + n) * ly_chunk l \<le> m"
    using Suc.prems by (simp_all add: algebra_simps)
  then show ?case
    using Suc.IH slice_cong[OF assms(1), of "k + n" "ly_chunk l"] by (simp add: sealed_range_last)
qed simp

lemma less_chunks: "0 < ly_chunk l \<Longrightarrow> k < chunks l \<longleftrightarrow> k * ly_chunk l < ly_size l"
proof -
  assume c: "0 < ly_chunk l"
  have "k < chunks l \<longleftrightarrow> Suc k \<le> (ly_size l + ly_chunk l - 1) div ly_chunk l" by (simp add: chunks_def Suc_le_eq)
  also have "\<dots> \<longleftrightarrow> Suc k * ly_chunk l \<le> ly_size l + ly_chunk l - 1"
    using c by (simp add: less_eq_div_iff_mult_less_eq)
  also have "\<dots> \<longleftrightarrow> k * ly_chunk l < ly_size l" using c by auto
  finally show ?thesis .
qed

lemma plain_len_pos: "0 < ly_chunk l \<Longrightarrow> k < chunks l \<Longrightarrow> 0 < plain_len l k"
  by (simp add: plain_len_def less_chunks)

lemma plain_len_full: "0 < ly_chunk l \<Longrightarrow> Suc k < chunks l \<Longrightarrow> plain_len l k = ly_chunk l"
  using less_chunks[of l "Suc k"] by (simp add: plain_len_def)

lemma plain_len_last:
  "0 < ly_chunk l \<Longrightarrow> Suc k = chunks l \<Longrightarrow> k * ly_chunk l + plain_len l k = ly_size l"
proof -
  assume c: "0 < ly_chunk l" and k: "Suc k = chunks l"
  have "ly_size l \<le> Suc k * ly_chunk l" using less_chunks[OF c, of "Suc k"] k by (metis less_irrefl not_le)
  then have "ly_size l \<le> k * ly_chunk l + ly_chunk l" by simp
  moreover have "k * ly_chunk l < ly_size l" using less_chunks[OF c, of k] k by (metis lessI)
  ultimately show ?thesis by (simp add: plain_len_def)
qed

lemma length_slice: "length p = ly_size l \<Longrightarrow> length (slice (ly_chunk l) k p) = plain_len l k"
  by (simp add: slice_def plain_len_def)

lemma slice_all: "k * chunk + length (slice chunk k p) = length p \<Longrightarrow> slice chunk k p = drop (k * chunk) p"
  by (simp add: slice_def)

section \<open>Opening\<close>

lemma tidy_seal: "tidy C \<Longrightarrow> ci_seal C k n a p = Some c \<Longrightarrow> length c = length p + tag_len"
  by (simp add: tidy_def)

lemma tidy_open: "tidy C \<Longrightarrow> ci_open C k n a c = Some p \<longleftrightarrow> ci_seal C k n a p = Some c"
  by (simp add: tidy_def)

lemma seal_chunk_length: "tidy C \<Longrightarrow> seal_chunk C key i k f p = Some c \<Longrightarrow> length c = length p + tag_len"
  by (simp add: seal_chunk_def tidy_seal)

lemma open_chunk_iff: "tidy C \<Longrightarrow> open_chunk C key i k f c = Some p \<longleftrightarrow> seal_chunk C key i k f p = Some c"
  by (simp add: seal_chunk_def open_chunk_def tidy_open)

lemma slice_drop: "slice chunk k p @ drop (Suc k * chunk) p = drop (k * chunk) p"
proof -
  have "drop (Suc k * chunk) p = drop chunk (drop (k * chunk) p)" by (simp add: add.commute)
  then show ?thesis unfolding slice_def by (simp only: append_take_drop_id)
qed

lemma open_sealed:
  assumes "tidy C" "length p = ly_size l" "sealed_range C key i l k n p = Some cs"
  shows "open_from C key i l k n (cs @ tail) = Some (take (n * ly_chunk l) (drop (k * ly_chunk l) p))"
  using assms(3)
proof (induction n arbitrary: k cs)
  case (Suc n)
  then obtain a b where s: "seal_chunk C key i k (Suc k = chunks l) (slice (ly_chunk l) k p) = Some a"
    "sealed_range C key i l (Suc k) n p = Some b" "cs = a @ b"
    by (auto simp: sealed_range_first split: option.splits)
  have a: "length a = sealed_len l k"
    using seal_chunk_length[OF assms(1) s(1)] length_slice[OF assms(2)] by (simp add: sealed_len_def)
  have o: "open_chunk C key i k (Suc k = chunks l) a = Some (slice (ly_chunk l) k p)"
    using s(1) open_chunk_iff[OF assms(1)] by blast
  have j: "slice (ly_chunk l) k p @ take (n * ly_chunk l) (drop (Suc k * ly_chunk l) p)
      = take (Suc n * ly_chunk l) (drop (k * ly_chunk l) p)"
    by (simp add: slice_def take_add add.commute)
  show ?case
    using Suc.IH[OF s(2)] o a j by (simp add: Let_def s(3))
qed simp

lemma opened_is_sealed:
  assumes "tidy C" "0 < ly_chunk l" "k + n = chunks l" "open_from C key i l k n blob = Some q"
    "length p = k * ly_chunk l + length q" "drop (k * ly_chunk l) p = q"
  shows "(0 < n \<longrightarrow> length p = ly_size l) \<and> (\<exists>cs tail. blob = cs @ tail \<and> sealed_range C key i l k n p = Some cs)"
  using assms(3-6)
proof (induction n arbitrary: k blob q)
  case (Suc n)
  let ?c = "take (sealed_len l k) blob" and ?rest = "drop (sealed_len l k) blob"
  obtain a b where o: "length ?c = sealed_len l k" "open_chunk C key i k (Suc k = chunks l) ?c = Some a"
    "open_from C key i l (Suc k) n ?rest = Some b" "q = a @ b"
    using Suc.prems(2) by (auto simp: Let_def split: if_splits option.splits)
  have s: "seal_chunk C key i k (Suc k = chunks l) a = Some ?c" using o(2) open_chunk_iff[OF assms(1)] by blast
  have la: "length a = plain_len l k" using seal_chunk_length[OF assms(1) s] o(1) by (simp add: sealed_len_def)
  show ?case
  proof (cases n)
    case 0
    then have "b = []" "Suc k = chunks l" using o(3) Suc.prems(1) by auto
    then have lp: "length p = ly_size l"
      using Suc.prems(3) la o(4) plain_len_last[OF assms(2), of k] by simp
    have "drop (k * ly_chunk l) p = a" using Suc.prems(4) o(4) \<open>b = []\<close> by simp
    then have "slice (ly_chunk l) k p = a" using la by (simp add: slice_def plain_len_def)
    then have "sealed_range C key i l k (Suc n) p = Some ?c" using s 0 by (simp add: sealed_range_first)
    then show ?thesis using lp by (metis append_take_drop_id)
  next
    case (Suc m)
    then have la': "length a = ly_chunk l" using plain_len_full[OF assms(2), of k] la Suc.prems(1) by simp
    have sl: "slice (ly_chunk l) k p = a" using Suc.prems(4) o(4) la' by (simp add: slice_def)
    have d: "drop (Suc k * ly_chunk l) p = b"
      using Suc.prems(4) o(4) la' by (metis append_eq_conv_conj drop_drop mult_Suc)
    have lb: "length p = Suc k * ly_chunk l + length b" using Suc.prems(3) o(4) la' by simp
    obtain cs tail where r: "?rest = cs @ tail" "sealed_range C key i l (Suc k) n p = Some cs" "length p = ly_size l"
      using Suc.IH[OF _ o(3) lb d] Suc.prems(1) Suc by auto
    have "sealed_range C key i l k (Suc n) p = Some (?c @ cs)" using s sl r(2) by (simp add: sealed_range_first)
    moreover have "blob = (?c @ cs) @ tail" using r(1) by (metis append.assoc append_take_drop_id)
    ultimately show ?thesis using r(3) by blast
  qed
qed auto

lemma sealed_range_length:
  assumes "tidy C" "0 < ly_chunk l" "length p = ly_size l" "k + n = chunks l" "sealed_range C key i l k n p = Some cs"
  shows "length cs = ly_size l - k * ly_chunk l + n * tag_len"
  using assms(4,5)
proof (induction n arbitrary: k cs)
  case 0
  then show ?case using less_chunks[OF assms(2), of k] by simp
next
  case (Suc n)
  then obtain a b where s: "seal_chunk C key i k (Suc k = chunks l) (slice (ly_chunk l) k p) = Some a"
    "sealed_range C key i l (Suc k) n p = Some b" "cs = a @ b"
    by (auto simp: sealed_range_first split: option.splits)
  have a: "length a = plain_len l k + tag_len"
    using seal_chunk_length[OF assms(1) s(1)] length_slice[OF assms(3)] by simp
  have "length b = ly_size l - Suc k * ly_chunk l + n * tag_len" using Suc.IH[OF _ s(2)] Suc.prems(1) by simp
  moreover have "k * ly_chunk l < ly_size l" using less_chunks[OF assms(2), of k] Suc.prems(1) by simp
  ultimately show ?case using a s(3) by (simp add: plain_len_def)
qed

lemma sealed_file_length:
  "tidy C \<Longrightarrow> 0 < ly_chunk l \<Longrightarrow> length p = ly_size l \<Longrightarrow> sealed_file C key i l p = Some blob \<Longrightarrow>
   length blob = file_len l"
  using sealed_range_length[of C l p 0 "chunks l" key i blob] by (simp add: sealed_file_def file_len_def)

lemma chunks_cover: "0 < ly_chunk l \<Longrightarrow> ly_size l \<le> chunks l * ly_chunk l"
  using less_chunks[of l "chunks l"] by simp

text \<open>What the check accepts: the sealed form of a text with that size and digest, and nothing else.\<close>

lemma verify_iff:
  assumes "tidy C" "0 < chunk"
  shows "verify C sha file key i sz sha256 chunk \<longleftrightarrow>
    (\<exists>blob p. file = Some blob \<and> sz \<noteq> 0 \<and> length p = sz \<and> sha p = sha256
       \<and> sealed_file C key i \<lparr>ly_chunk = chunk, ly_size = sz\<rparr> p = Some blob)" (is "_ \<longleftrightarrow> ?r")
proof -
  let ?l = "\<lparr>ly_chunk = chunk, ly_size = sz\<rparr>"
  have c: "0 < ly_chunk ?l" using assms(2) by simp
  show ?thesis
  proof
    assume v: "verify C sha file key i sz sha256 chunk"
    then obtain blob p where b: "file = Some blob" "sz \<noteq> 0" "length blob = file_len ?l"
      "open_from C key i ?l 0 (chunks ?l) blob = Some p" "sha p = sha256"
      by (auto simp: verify_def Let_def split: option.splits)
    have "0 < chunks ?l" using b(2) less_chunks[OF c, of 0] by simp
    then obtain cs tail where s: "length p = sz" "blob = cs @ tail" "sealed_range C key i ?l 0 (chunks ?l) p = Some cs"
      using opened_is_sealed[OF assms(1) c, of 0 "chunks ?l" key i blob p p] b(4) by auto
    moreover from this have "length cs = file_len ?l"
      using sealed_file_length[OF assms(1) c, of p key i cs] by (simp add: sealed_file_def)
    ultimately have "tail = []" using b(3) by simp
    then show ?r using b s by (auto simp: sealed_file_def)
  next
    assume ?r
    then obtain blob p where b: "file = Some blob" "sz \<noteq> 0" "length p = sz" "sha p = sha256"
      "sealed_file C key i ?l p = Some blob" by blast
    have "open_from C key i ?l 0 (chunks ?l) blob = Some p"
      using open_sealed[OF assms(1), of p ?l key i 0 "chunks ?l" blob "[]"] b chunks_cover[OF c]
      by (simp add: sealed_file_def)
    then show "verify C sha file key i sz sha256 chunk"
      using b sealed_file_length[OF assms(1) c, of p key i blob] by (simp add: verify_def Let_def)
  qed
qed

section \<open>Writing\<close>

lemma write_loop_sealed:
  assumes "0 < chunk" "write_loop C key i chunk mx env index sz current rest = Inr (out, n)"
    "current = slice chunk index p" "rest = drop (Suc index * chunk) p" "current \<noteq> []" "sz = index * chunk"
  shows "n = length p \<and> n \<le> mx
    \<and> sealed_range C key i \<lparr>ly_chunk = chunk, ly_size = length p\<rparr> index
        (chunks \<lparr>ly_chunk = chunk, ly_size = length p\<rparr> - index) p = Some out"
  using assms(2-6)
proof (induction C key i chunk mx env index sz current rest arbitrary: out n rule: write_loop.induct)
  case (1 C key i chunk' mx env index sz current rest)
  let ?l = "\<lparr>ly_chunk = chunk', ly_size = length p\<rparr>"
  let ?ahead = "if length current = chunk' then take chunk' rest else []"
  note run = 1(2)[unfolded write_loop.simps[of C key i chunk' mx env index sz current rest], simplified Let_def]
  from run obtain sealed where s: "seal_chunk C key i index (?ahead = []) current = Some sealed"
    "\<not> (length current = chunk' \<and> ce_read_fails env (Suc index))" "\<not> ce_write_fails env index"
    "\<not> mx < sz + length current" "ce_goes_on env (sz + length current) (max (ce_total env) (sz + length current))"
    by (auto split: if_splits option.splits)
  have c: "0 < ly_chunk ?l" using 1(5) 1(3) by (cases "chunk' = 0") (auto simp: slice_def)
  have len: "length current = min (length p - index * chunk') chunk'" using 1(3) by (simp add: slice_def)
  have i: "index < chunks ?l" using 1(5) len less_chunks[OF c, of index] by auto
  have ahead: "?ahead = [] \<longleftrightarrow> Suc index = chunks ?l"
  proof (cases "Suc index < chunks ?l")
    case True
    then have "Suc index * chunk' < length p" using less_chunks[OF c, of "Suc index"] by simp
    then have "length current = chunk'" "rest \<noteq> []" using len 1(4) by simp_all
    then show ?thesis using True c by simp
  next
    case False
    then have "length p \<le> Suc index * chunk'" using less_chunks[OF c, of "Suc index"] by simp
    then have "rest = []" using 1(4) by simp
    then show ?thesis using False i by auto
  qed
  have sl: "seal_chunk C key i index (Suc index = chunks ?l) (slice chunk' index p) = Some sealed"
    using s(1) ahead 1(3) by simp
  show ?case
  proof (cases "?ahead = []")
    case True
    then have o: "out = sealed" "n = sz + length current" using run s by (auto split: if_splits)
    have e: "Suc index = chunks ?l" using True ahead by simp
    then have "chunks ?l - index = Suc 0" by simp
    then have "sealed_range C key i ?l index (chunks ?l - index) p = Some out"
      using sl o(1) by (simp add: sealed_range_first)
    moreover have "n = length p"
      using plain_len_last[OF c e] o(2) 1(6) len by (simp add: plain_len_def)
    ultimately show ?thesis using s(4) o(2) by simp
  next
    case False
    then have full: "length current = chunk'" and a: "?ahead = take chunk' rest" by (auto split: if_splits)
    obtain more where w: "write_loop C key i chunk' mx env (Suc index) (sz + length current) ?ahead (drop chunk' rest)
        = Inr (more, n)" "out = sealed @ more"
      using run s False by (auto split: if_splits sum.splits)
    have "n = length p \<and> n \<le> mx \<and> sealed_range C key i ?l (Suc index) (chunks ?l - Suc index) p = Some more"
    proof (rule 1(1)[OF s(2) refl refl s(1) s(3,4) _ _ w(1)])
      show "\<not> \<not> ce_goes_on env (sz + length current) (max (ce_total env) (sz + length current))" using s(5) by simp
      show "?ahead \<noteq> []" by (rule False)
      show "?ahead = slice chunk' (Suc index) p" using a 1(4) by (simp add: slice_def)
      show "drop chunk' rest = drop (Suc (Suc index) * chunk') p" using 1(4) by (simp add: add.commute add.left_commute)
      show "?ahead \<noteq> []" by (rule False)
      show "sz + length current = Suc index * chunk'" using full 1(6) by simp
    qed
    moreover have "chunks ?l - index = Suc (chunks ?l - Suc index)" using i by simp
    ultimately show ?thesis using sl w(2) by (simp add: sealed_range_first)
  qed
qed

lemma write_snapshot_sealed:
  assumes "0 < chunk" "write_snapshot C sha key i chunk mx env made dst = (Inr w, dst')" "ce_source env = Some src"
  shows "wr_key w = key \<and> wr_size w = length src \<and> wr_sha256 w = sha src \<and> src \<noteq> [] \<and> length src \<le> mx
    \<and> dst = None \<and> dst' = sealed_file C key i \<lparr>ly_chunk = chunk, ly_size = length src\<rparr> src \<and> dst' \<noteq> None"
proof -
  from assms(2,3) obtain out n where o: "write_loop C key i chunk mx env 0 0 (take chunk src) (drop chunk src) = Inr (out, n)"
    "take chunk src \<noteq> []" "dst = None" "w = \<lparr>wr_key = key, wr_size = n, wr_sha256 = sha src\<rparr>" "dst' = Some out"
    by (auto simp: write_snapshot_def split: if_splits sum.splits prod.splits)
  have "n = length src \<and> n \<le> mx \<and> sealed_range C key i \<lparr>ly_chunk = chunk, ly_size = length src\<rparr> 0
      (chunks \<lparr>ly_chunk = chunk, ly_size = length src\<rparr> - 0) src = Some out"
    by (rule write_loop_sealed[OF assms(1) o(1)]) (use o(2) in \<open>simp_all add: slice_def\<close>)
  then show ?thesis using o by (auto simp: sealed_file_def)
qed

section \<open>Sealing as the bytes come\<close>

text \<open>The sealer took the bytes \<open>p\<close>, from the first one on, and gave out the chunks they complete.\<close>

definition fed :: "cipher \<Rightarrow> sealer \<Rightarrow> string \<Rightarrow> string \<Rightarrow> bool" where
  "fed C s p out \<longleftrightarrow>
     (let l = sl_layout s; k = sl_index s in
      sealed_range C (sl_key s) (sl_id s) l 0 k p = Some out
      \<and> (if k < chunks l
         then k * ly_chunk l \<le> length p \<and> sl_buf s = drop (k * ly_chunk l) p \<and> length (sl_buf s) < plain_len l k
         else k = chunks l \<and> length p = ly_size l \<and> sl_buf s = []))"

definition taken :: "sealer \<Rightarrow> nat" where
  "taken s = min (sl_index s * ly_chunk (sl_layout s) + length (sl_buf s)) (ly_size (sl_layout s))"

lemma fed_taken: "0 < ly_chunk (sl_layout s) \<Longrightarrow> fed C s p out \<Longrightarrow> taken s = length p \<and> length p \<le> ly_size (sl_layout s)"
  using chunks_cover[of "sl_layout s"]
  by (auto simp: fed_def taken_def Let_def plain_len_def split: if_splits)

lemma fed_new: "0 < ly_chunk l \<Longrightarrow> 0 < ly_size l \<Longrightarrow> fed C (sealer_new key i l 0) [] []"
  using less_chunks[of l 0] plain_len_pos[of l 0] by (simp add: fed_def sealer_new_def)

lemma fed_complete:
  "fed C s p out \<Longrightarrow> is_complete s \<Longrightarrow> length p = ly_size (sl_layout s)
    \<and> sealed_file C (sl_key s) (sl_id s) (sl_layout s) p = Some out"
  by (auto simp: fed_def is_complete_def sealed_file_def Let_def)

lemma push_fed:
  assumes "0 < ly_chunk (sl_layout s)" "fed C s p out" "push C s b = (s', r)"
  shows "sl_key s' = sl_key s \<and> sl_id s' = sl_id s \<and> sl_layout s' = sl_layout s
    \<and> (case r of Inr new \<Rightarrow> fed C s' (p @ b) (out @ new) | Inl e \<Rightarrow> taken s' \<le> taken s + length b)"
  using assms
proof (induction C s b arbitrary: p out s' r rule: push.induct)
  case (1 C s b)
  let ?l = "sl_layout s" and ?k = "sl_index s"
  note run = 1(4)[unfolded push.simps[of C s b], simplified Let_def]
  show ?case
  proof (cases "b = []")
    case True
    then show ?thesis using run 1(3) by auto
  next
    case ne: False
    show ?thesis
    proof (cases "chunks ?l \<le> ?k")
      case True
      then show ?thesis using run ne by auto
    next
      case False
      then have k: "?k < chunks ?l" by simp
      let ?want = "plain_len ?l ?k - length (sl_buf s)"
      let ?n = "min ?want (length b)"
      let ?s1 = "s\<lparr>sl_buf := sl_buf s @ take ?n b\<rparr>"
      have f: "sealed_range C (sl_key s) (sl_id s) ?l 0 ?k p = Some out" "?k * ly_chunk ?l \<le> length p"
        "sl_buf s = drop (?k * ly_chunk ?l) p" "length (sl_buf s) < plain_len ?l ?k"
        using 1(3) k by (auto simp: fed_def Let_def)
      have pk: "?k * ly_chunk ?l + plain_len ?l ?k \<le> ly_size ?l"
        using less_chunks[OF 1(2), of ?k] k by (simp add: plain_len_def)
      have l1: "length (sl_buf ?s1) = length (sl_buf s) + ?n" by simp
      show ?thesis
      proof (cases "length (sl_buf ?s1) = plain_len ?l ?k")
        case False
        then have r: "s' = ?s1" "r = Inr []" using run ne k by auto
        have n: "?n = length b" using False f(4) l1 by linarith
        have "length (sl_buf ?s1) < plain_len ?l ?k" using False f(4) l1 by linarith
        moreover have "sealed_range C (sl_key s) (sl_id s) ?l 0 ?k (p @ b) = Some out"
          using f(1,2) sealed_range_cong[of "length p" "p @ b" p 0 ?k ?l C "sl_key s" "sl_id s"] by simp
        ultimately show ?thesis using r k f(2,3) n by (simp add: fed_def Let_def)
      next
        case full: True
        then have n: "?n = ?want" "?want \<le> length b" using f(4) l1 by linarith+
        have len: "length (p @ take ?want b) = ?k * ly_chunk ?l + plain_len ?l ?k"
          using full f(2,3,4) n by simp
        let ?p = "p @ take ?n b" and ?s2 = "s\<lparr>sl_buf := [], sl_index := Suc ?k\<rparr>"
        have buf: "slice (ly_chunk ?l) ?k ?p = sl_buf ?s1"
        proof -
          have "drop (?k * ly_chunk ?l) ?p = sl_buf ?s1" using f(2,3) by simp
          moreover have "length (sl_buf ?s1) \<le> ly_chunk ?l" using full by (metis min.cobounded2 plain_len_def)
          ultimately show ?thesis by (simp only: slice_def take_all)
        qed
        have old: "sealed_range C (sl_key s) (sl_id s) ?l 0 ?k ?p = Some out"
          using f(1,2) sealed_range_cong[of "length p" ?p p 0 ?k ?l C "sl_key s" "sl_id s"] by simp
        show ?thesis
        proof (cases "seal_chunk C (sl_key s) (sl_id s) ?k (Suc ?k = chunks ?l) (sl_buf ?s1)")
          case None
          then have "s' = ?s1" "r = Inl Crypto" using run ne k full by auto
          moreover have "taken s = length p" using fed_taken[OF 1(2,3)] by simp
          ultimately show ?thesis using f(2,3) n pk by (simp add: taken_def)
        next
          case (Some sealed)
          have whole: "sealed_range C (sl_key s) (sl_id s) ?l 0 (Suc ?k) ?p = Some (out @ sealed)"
            using old Some buf by (simp add: sealed_range_last)
          have fed2: "fed C ?s2 ?p (out @ sealed)"
          proof (cases "Suc ?k = chunks ?l")
            case True
            then have "length ?p = ly_size ?l" using plain_len_last[OF 1(2) True] len n by simp
            then show ?thesis using whole True by (simp add: fed_def)
          next
            case False
            then have "Suc ?k < chunks ?l" using k by simp
            then have "length ?p = Suc ?k * ly_chunk ?l" "0 < plain_len ?l (Suc ?k)"
              using len n plain_len_full[OF 1(2)] plain_len_pos[OF 1(2)] by simp_all
            then show ?thesis using whole \<open>Suc ?k < chunks ?l\<close> by (simp add: fed_def)
          qed
          obtain t r2 where p2: "push C ?s2 (drop ?n b) = (t, r2)" by force
          have s': "s' = t" "r = (case r2 of Inl e \<Rightarrow> Inl e | Inr new \<Rightarrow> Inr (sealed @ new))"
            using run ne k full Some p2 by (auto split: sum.splits)
          have "sl_key t = sl_key ?s2 \<and> sl_id t = sl_id ?s2 \<and> sl_layout t = sl_layout ?s2
              \<and> (case r2 of Inr new \<Rightarrow> fed C t (?p @ drop ?n b) ((out @ sealed) @ new)
                  | Inl e \<Rightarrow> taken t \<le> taken ?s2 + length (drop ?n b))"
            using 1(1)[OF ne False refl refl refl full Some _ fed2 p2] 1(2) by simp
          moreover have "taken ?s2 = length ?p" using fed_taken[OF _ fed2] 1(2) by simp
          moreover have "taken s = length p" using fed_taken[OF 1(2,3)] by simp
          ultimately show ?thesis using s' n by (auto split: sum.splits)
        qed
      qed
    qed
  qed
qed

text \<open>A sealer that goes on behind whole chunks sealed before.\<close>

lemma fed_resumed:
  assumes "0 < ly_chunk l" "k < chunks l" "length p = k * ly_chunk l" "sealed_range C key i l 0 k p = Some out"
  shows "fed C (sealer_new key i l k) p out"
  using assms plain_len_pos[OF assms(1,2)] by (simp add: fed_def sealer_new_def)

section \<open>Reading back\<close>

definition sealed_lens :: "layout \<Rightarrow> nat \<Rightarrow> nat \<Rightarrow> nat" where
  "sealed_lens l k n = sum_list (map (sealed_len l) [k..<k + n])"

lemma sealed_lens_Suc: "sealed_lens l k (Suc n) = sealed_len l k + sealed_lens l (Suc k) n"
proof -
  have "[k..<k + Suc n] = k # [Suc k..<Suc k + n]" by (simp add: upt_conv_Cons)
  then show ?thesis by (simp add: sealed_lens_def)
qed

text \<open>What a reader still has to give, if what is left of its file is whole.\<close>

definition rest_of :: "cipher \<Rightarrow> reader \<Rightarrow> string option" where
  "rest_of C r =
     (let l = rd_layout r; k = rd_index r; n = chunks l - k in
      if length (rd_file r) = sealed_lens l k n
      then map_option ((@) (rd_plain r)) (open_from C (rd_key r) (rd_id r) l k n (rd_file r)) else None)"

lemma rest_of_opened:
  assumes "rd_plain r = []" "rd_index r < chunks (rd_layout r)"
    "sealed_len (rd_layout r) (rd_index r) \<le> length (rd_file r)"
    "open_chunk C (rd_key r) (rd_id r) (rd_index r) (Suc (rd_index r) = chunks (rd_layout r))
       (take (sealed_len (rd_layout r) (rd_index r)) (rd_file r)) = Some plain"
  shows "rest_of C (r\<lparr>rd_plain := plain, rd_file := drop (sealed_len (rd_layout r) (rd_index r)) (rd_file r),
      rd_index := Suc (rd_index r)\<rparr>) = rest_of C r"
proof -
  have n: "chunks (rd_layout r) - rd_index r = Suc (chunks (rd_layout r) - Suc (rd_index r))" using assms(2) by simp
  show ?thesis
    using assms(1,3,4) unfolding rest_of_def Let_def n
    by (auto simp: sealed_lens_Suc option.map_comp o_def min_absorb2)
qed

lemma rest_of_stuck:
  assumes "rd_plain r = []" "rd_index r < chunks (rd_layout r)"
    "length (rd_file r) < sealed_len (rd_layout r) (rd_index r)
     \<or> open_chunk C (rd_key r) (rd_id r) (rd_index r) (Suc (rd_index r) = chunks (rd_layout r))
       (take (sealed_len (rd_layout r) (rd_index r)) (rd_file r)) = None"
  shows "rest_of C r = None"
proof -
  have n: "chunks (rd_layout r) - rd_index r = Suc (chunks (rd_layout r) - Suc (rd_index r))" using assms(2) by simp
  show ?thesis
    using assms(3) unfolding rest_of_def Let_def n by (auto simp: sealed_lens_Suc)
qed

definition left_over :: "reader \<Rightarrow> nat" where
  "left_over r = length (rd_plain r) + length (rd_file r)"

lemma poll_read_rest:
  assumes "tidy C" "0 < room" "rd_index r \<le> chunks (rd_layout r)" "poll_read C room r = (r', res)"
  shows "rd_index r' \<le> chunks (rd_layout r') \<and>
    (case res of
       None \<Rightarrow> rest_of C r = None \<and> rd_broken r'
     | Some [] \<Rightarrow> rest_of C r = Some []
     | Some bytes \<Rightarrow> rest_of C r = map_option ((@) bytes) (rest_of C r') \<and> left_over r' < left_over r)"
  using assms(1-4)
proof (induction C room r rule: poll_read.induct)
  case (1 C room r)
  let ?l = "rd_layout r" and ?k = "rd_index r"
  note run = 1(5)[unfolded poll_read.simps[of C room r], simplified Let_def]
  show ?case
  proof (cases "rd_plain r = []")
    case False
    then have r: "r' = r\<lparr>rd_plain := drop room (rd_plain r)\<rparr>" "res = Some (take room (rd_plain r))" using run by auto
    have "take room (rd_plain r) \<noteq> []" using False 1(3) by simp
    moreover have "rest_of C r = map_option ((@) (take room (rd_plain r))) (rest_of C r')"
      using r(1) by (simp add: rest_of_def Let_def option.map_comp o_def flip: append_assoc)
    moreover have "left_over r' < left_over r" using r(1) False 1(3) by (cases "rd_plain r") (auto simp: left_over_def)
    moreover have "rd_index r' \<le> chunks (rd_layout r')" using r(1) 1(4) by simp
    ultimately show ?thesis using r(2) by (simp split: list.split)
  next
    case pl: True
    show ?thesis
    proof (cases "?k = chunks ?l")
      case True
      then show ?thesis using run pl
        by (auto simp: rest_of_def Let_def sealed_lens_def split: if_splits)
    next
      case False
      then have k: "?k < chunks ?l" using 1(4) by simp
      let ?want = "sealed_len ?l ?k"
      show ?thesis
      proof (cases "length (rd_file r) < ?want
          \<or> open_chunk C (rd_key r) (rd_id r) ?k (Suc ?k = chunks ?l) (take ?want (rd_file r)) = None")
        case True
        then have "r' = r\<lparr>rd_broken := True\<rparr>" "res = None" using run pl k by (auto split: if_splits)
        then show ?thesis using rest_of_stuck[OF pl k True] 1(4) by simp
      next
        case False
        then obtain plain where o: "\<not> length (rd_file r) < ?want"
          "open_chunk C (rd_key r) (rd_id r) ?k (Suc ?k = chunks ?l) (take ?want (rd_file r)) = Some plain" by auto
        let ?r1 = "r\<lparr>rd_plain := plain, rd_file := drop ?want (rd_file r), rd_index := Suc ?k\<rparr>"
        have p: "poll_read C room ?r1 = (r', res)" using run pl k o by auto
        have same: "rest_of C ?r1 = rest_of C r" using rest_of_opened[OF pl k _ o(2)] o(1) by simp
        have "length (take ?want (rd_file r)) = length plain + tag_len"
          using seal_chunk_length[OF 1(2)] open_chunk_iff[OF 1(2)] o(2) by blast
        then have "left_over ?r1 \<le> left_over r" using o(1) pl by (simp add: left_over_def)
        then show ?thesis
          using 1(1)[of ?want plain] pl False k o p same 1(2,3) by (auto split: option.splits list.splits)
      qed
    qed
  qed
qed

lemma read_to_end_rest:
  assumes "tidy C" "\<forall>room \<in> set rooms. 0 < room" "rd_index r \<le> chunks (rd_layout r)"
    "read_to_end C rooms r = (bytes, e)"
  shows "(e = Some True \<longrightarrow> rest_of C r = Some bytes) \<and> (e = Some False \<longrightarrow> rest_of C r = None)
    \<and> (left_over r < length rooms \<longrightarrow> e \<noteq> None)"
  using assms(2-4)
proof (induction rooms arbitrary: r bytes e)
  case (Cons room rooms)
  obtain r1 res where p: "poll_read C room r = (r1, res)" by force
  note s = poll_read_rest[OF assms(1) _ Cons.prems(2) p]
  show ?case
  proof (cases res)
    case None
    then show ?thesis using s Cons.prems(1,3) p by auto
  next
    case (Some bs)
    show ?thesis
    proof (cases bs)
      case Nil
      then show ?thesis using s Cons.prems(1,3) p Some by auto
    next
      case (Cons b bs')
      obtain others e' where t: "read_to_end C rooms r1 = (others, e')" by force
      have "rest_of C r = map_option ((@) bs) (rest_of C r1)" "left_over r1 < left_over r"
        "rd_index r1 \<le> chunks (rd_layout r1)"
        using s Cons.prems(1) Some Cons by auto
      moreover have "bytes = bs @ others" "e = e'" using Cons.prems(3) p Some Cons t by auto
      ultimately show ?thesis using Cons.IH[OF _ _ t] Cons.prems(1) by auto
    qed
  qed
qed simp

lemma rest_of_new:
  assumes "tidy C" "0 < ly_chunk l" "0 < ly_size l"
  shows "rest_of C (reader_new blob key i l) = Some p \<longleftrightarrow>
    length p = ly_size l \<and> sealed_file C key i l p = Some blob"
proof -
  have tot: "sealed_lens l k n = ly_size l - k * ly_chunk l + n * tag_len" if "k + n = chunks l" for k n
    using that
  proof (induction n arbitrary: k)
    case 0
    then show ?case using less_chunks[OF assms(2), of k] by (simp add: sealed_lens_def)
  next
    case (Suc n)
    have "k * ly_chunk l < ly_size l" using less_chunks[OF assms(2), of k] Suc.prems by simp
    then show ?case using Suc.IH[of "Suc k"] Suc.prems by (simp add: sealed_lens_Suc sealed_len_def plain_len_def)
  qed
  have le: "\<lparr>ly_chunk = ly_chunk l, ly_size = ly_size l\<rparr> = l" by simp
  have "rest_of C (reader_new blob key i l) = Some p \<longleftrightarrow>
      length blob = file_len l \<and> open_from C key i l 0 (chunks l) blob = Some p"
    using tot[of 0 "chunks l"] by (auto simp: rest_of_def Let_def reader_new_def file_len_def option.map_ident)
  also have "\<dots> \<longleftrightarrow> verify C (\<lambda>q. if q = p then ''y'' else ''n'') (Some blob) key i (ly_size l) ''y'' (ly_chunk l)"
    using assms(3) by (auto simp: verify_def Let_def le split: option.splits)
  also have "\<dots> \<longleftrightarrow> length p = ly_size l \<and> sealed_file C key i l p = Some blob"
    using assms(3) by (auto simp: verify_iff[OF assms(1,2)] le split: if_splits)
  finally show ?thesis .
qed

end
