(* ===== verification/File_Cache_Facts.thy ===== *)
theory File_Cache_Facts
  imports File_Cache Snapshot_Facts
begin

text \<open>
  What every step of the file cache keeps: a complete row's blob is whole and durable, an open sink
  and its row agree, blobs are not shared, and a sweep unlinks nothing that is in use.
\<close>

section \<open>Rows by what they say of their blob\<close>

text \<open>The part of a row that a blob depends on.\<close>

definition core :: "cached_file \<Rightarrow> string \<times> string \<times> int \<times> int \<times> string \<times> string" where
  "core r = (cf_id r, cf_key r, cf_size r, cf_chunk r, cf_sha256 r, cf_state r)"

definition cores :: "cache_db \<Rightarrow> (string \<times> string \<times> int \<times> int \<times> string \<times> string) set" where
  "cores db = core ` set (db_files db)"

lemma cores_update_file:
  "cores (update_file f g db) = (\<lambda>r. core (if cf_id r = f then g r else r)) ` set (db_files db)"
proof -
  have "db_files (update_file f g db) = map (\<lambda>r. if cf_id r = f then g r else r) (db_files db)"
    by (simp add: update_file_def)
  then show ?thesis by (simp only: cores_def set_map image_image)
qed

lemma cores_update_quiet: "(\<And>r. core (g r) = core r) \<Longrightarrow> cores (update_file f g db) = cores db"
  unfolding cores_update_file unfolding cores_def by (rule image_cong) auto

lemma ids_update_file: "(\<And>r. cf_id (g r) = cf_id r) \<Longrightarrow> map cf_id (db_files (update_file f g db)) = map cf_id (db_files db)"
  by (simp add: update_file_def)

lemma row_of_file_None: "row_of_file f db = None \<longleftrightarrow> f \<notin> cf_id ` set (db_files db)"
  by (auto simp: row_of_file_def find_None_iff)

lemma row_of_file_Some: "row_of_file f db = Some r \<Longrightarrow> r \<in> set (db_files db) \<and> cf_id r = f"
  by (auto simp: row_of_file_def find_Some_iff)

lemma usable_row_Some: "usable_row f db = Some r \<Longrightarrow> r \<in> set (db_files db) \<and> cf_id r = f \<and> length (cf_key r) = 32"
  using row_of_file_Some by (auto simp: usable_row_def split: option.splits if_splits)

lemma file_row_in: "distinct (map cf_id (db_files db)) \<Longrightarrow> r \<in> set (db_files db) \<Longrightarrow> row_of_file (cf_id r) db = Some r"
proof -
  assume d: "distinct (map cf_id (db_files db))" and r: "r \<in> set (db_files db)"
  then obtain x where x: "row_of_file (cf_id r) db = Some x" using row_of_file_None[of "cf_id r" db] by auto
  then have "x = r" using row_of_file_Some[OF x] d r by (metis distinct_map inj_on_eq_iff)
  then show ?thesis using x by simp
qed

section \<open>The invariant\<close>

definition blob_good ::
  "cipher \<Rightarrow> (string \<Rightarrow> string) \<Rightarrow> file_cache \<Rightarrow> string \<Rightarrow> string \<Rightarrow> int \<Rightarrow> int \<Rightarrow> string \<Rightarrow> bool" where
  "blob_good C sha s f key sz chunk h \<longleftrightarrow>
     (\<exists>i b. fc_dir s f = Some i \<and> in_durable (fc_inode s i) \<and> id_bytes f = Some b
        \<and> verify C sha (Some (in_data (fc_inode s i))) key b (nat sz) h (nat chunk))"

type_synonym core_row = "string \<times> string \<times> int \<times> int \<times> string \<times> string"

text \<open>A sink's own blob, and its row if it has one.\<close>

definition sink_placed :: "file_cache \<Rightarrow> string \<Rightarrow> enc_sink \<Rightarrow> bool" where
  "sink_placed s f e \<longleftrightarrow>
     es_inode e < fc_next s
     \<and> (\<forall>g. fc_dir s g = Some (es_inode e) \<longrightarrow> g = f)
     \<and> (\<forall>i. fc_dir s f = Some i \<longrightarrow> i = es_inode e)
     \<and> id_bytes f = Some (sl_id (es_sealer e)) \<and> 0 < blob_chunk e \<and> 0 < blob_size e
     \<and> length (sl_key (es_sealer e)) = 32"

definition sink_row :: "core_row set \<Rightarrow> string \<Rightarrow> enc_sink \<Rightarrow> bool" where
  "sink_row K f e \<longleftrightarrow>
     (\<forall>key sz chunk h st. (f, key, sz, chunk, h, st) \<in> K \<longrightarrow>
        st \<noteq> ''complete'' \<and> key = sl_key (es_sealer e) \<and> sz = int (blob_size e) \<and> chunk = int (blob_chunk e)
        \<and> h = es_sha256 e)"

definition sink_fits :: "file_cache \<Rightarrow> core_row set \<Rightarrow> string \<Rightarrow> enc_sink \<Rightarrow> bool" where
  "sink_fits s K f e \<longleftrightarrow> sink_placed s f e \<and> sink_row K f e"

lemma sink_row_fewer: "sink_row K f e \<Longrightarrow> (\<And>key sz chunk h st. (f, key, sz, chunk, h, st) \<in> K' \<Longrightarrow>
    (f, key, sz, chunk, h, st) \<in> K) \<Longrightarrow> sink_row K' f e"
  unfolding sink_row_def by blast

definition dir_fits :: "file_cache \<Rightarrow> bool" where
  "dir_fits s \<longleftrightarrow> inj_on (fc_dir s) (dom (fc_dir s)) \<and> (\<forall>f i. fc_dir s f = Some i \<longrightarrow> i < fc_next s)"

definition rows_fit :: "cipher \<Rightarrow> (string \<Rightarrow> string) \<Rightarrow> core_row set \<Rightarrow> file_cache \<Rightarrow> bool" where
  "rows_fit C sha K s \<longleftrightarrow>
     (\<forall>f key sz chunk h st. (f, key, sz, chunk, h, st) \<in> K \<longrightarrow>
        length key = 32 \<and> 0 < sz \<and> 0 < chunk \<and> (st = ''complete'' \<longrightarrow> blob_good C sha s f key sz chunk h))"

definition sinks_fit :: "core_row set \<Rightarrow> file_cache \<Rightarrow> bool" where
  "sinks_fit K s \<longleftrightarrow> (\<forall>f e. fc_flights s f = Some (Sinking e) \<longrightarrow> sink_fits s K f e)"

definition sinks_apart :: "file_cache \<Rightarrow> bool" where
  "sinks_apart s \<longleftrightarrow>
     (\<forall>f g e d. fc_flights s f = Some (Sinking e) \<longrightarrow> fc_flights s g = Some (Sinking d) \<longrightarrow>
        es_inode e = es_inode d \<longrightarrow> f = g)"

definition sweep_fits :: "core_row set \<Rightarrow> file_cache \<Rightarrow> bool" where
  "sweep_fits K s \<longleftrightarrow>
     (\<forall>ps f key sz chunk h st. fc_sweep s = Unlinking ps \<longrightarrow> (f, key, sz, chunk, h, st) \<in> K \<longrightarrow> blob_path f \<in> set ps \<longrightarrow>
        st \<noteq> ''complete'' \<and> (\<forall>e. fc_flights s f \<noteq> Some (Sinking e)))"

definition cores_fit :: "cipher \<Rightarrow> (string \<Rightarrow> string) \<Rightarrow> core_row set \<Rightarrow> file_cache \<Rightarrow> bool" where
  "cores_fit C sha K s \<longleftrightarrow> dir_fits s \<and> rows_fit C sha K s \<and> sinks_fit K s \<and> sinks_apart s \<and> sweep_fits K s"

lemmas fit_defs = cores_fit_def dir_fits_def rows_fit_def sinks_fit_def sinks_apart_def sweep_fits_def

definition files_fit :: "cipher \<Rightarrow> (string \<Rightarrow> string) \<Rightarrow> file_cache \<Rightarrow> bool" where
  "files_fit C sha s \<longleftrightarrow>
     distinct (map cf_id (db_files (fc_db s))) \<and> cores_fit C sha (cores (fc_db s)) s"

lemma cores_fit_db [simp]: "cores_fit C sha K (s\<lparr>fc_db := db\<rparr>) = cores_fit C sha K s"
  "cores_fit C sha K (s\<lparr>fc_asked := a\<rparr>) = cores_fit C sha K s"
  by (simp_all add: fit_defs sink_fits_def sink_placed_def blob_good_def)

lemma with_db_db [simp]: "fc_db (with_db g s) = g (fc_db s)" "cores_fit C sha K (with_db g s) = cores_fit C sha K s"
  "fc_flights (with_db g s) = fc_flights s" "fc_dir (with_db g s) = fc_dir s" "fc_inode (with_db g s) = fc_inode s"
  "fc_sweep (with_db g s) = fc_sweep s" "fc_next (with_db g s) = fc_next s"
  by (simp_all add: with_db_def)

lemma sink_fits_fewer: "sink_fits s K f e \<Longrightarrow> K' \<subseteq> K \<Longrightarrow> sink_fits s K' f e"
  unfolding sink_fits_def using sink_row_fewer by blast

lemma cores_fit_fewer: "cores_fit C sha K s \<Longrightarrow> K' \<subseteq> K \<Longrightarrow> cores_fit C sha K' s"
proof -
  assume s: "cores_fit C sha K s" and k: "K' \<subseteq> K"
  have "rows_fit C sha K s \<Longrightarrow> rows_fit C sha K' s" unfolding rows_fit_def using k by blast
  moreover have "sinks_fit K s \<Longrightarrow> sinks_fit K' s" unfolding sinks_fit_def using sink_fits_fewer[OF _ k] by blast
  moreover have "sweep_fits K s \<Longrightarrow> sweep_fits K' s" unfolding sweep_fits_def using k by blast
  ultimately show ?thesis using s by (simp add: cores_fit_def)
qed

text \<open>A change of the database that makes no row and changes no row's core.\<close>

lemma files_fit_fewer:
  assumes "files_fit C sha s" "cores (g (fc_db s)) \<subseteq> cores (fc_db s)" "distinct (map cf_id (db_files (g (fc_db s))))"
  shows "files_fit C sha (with_db g s)"
  using assms cores_fit_fewer by (auto simp: files_fit_def)

lemma cores_filter: "cores (db\<lparr>db_files := filter P (db_files db)\<rparr>) \<subseteq> cores db"
  by (auto simp: cores_def)

lemma drop_files_fewer:
  "cores (fst (drop_files gone db)) \<subseteq> cores db"
  "distinct (map cf_id (db_files db)) \<Longrightarrow> distinct (map cf_id (db_files (fst (drop_files gone db))))"
  by (auto simp: cores_def db_files_drop_files distinct_map_filter)

lemma files_fit_quiet_update:
  assumes "files_fit C sha s" "\<And>r. core (g r) = core r"
  shows "files_fit C sha (with_db (update_file f g) s)"
proof (rule files_fit_fewer[OF assms(1)])
  show "cores (update_file f g (fc_db s)) \<subseteq> cores (fc_db s)" using cores_update_quiet[OF assms(2)] by simp
  have "cf_id (g r) = cf_id r" for r using assms(2)[of r] by (simp add: core_def)
  then show "distinct (map cf_id (db_files (update_file f g (fc_db s))))"
    using assms(1) by (simp add: files_fit_def ids_update_file)
qed

lemma evict_loop_fewer:
  "cores (fst (evict_loop cap keep n rs db)) \<subseteq> cores db
   \<and> (distinct (map cf_id (db_files db)) \<longrightarrow> distinct (map cf_id (db_files (fst (evict_loop cap keep n rs db)))))"
proof (induction rs arbitrary: n db)
  case (Cons r rs)
  then show ?case
    using drop_files_fewer[where gone = "[cf_id r]" and db = db] by (auto simp: split_def)
qed simp

lemma evict_fewer:
  "cores (fst (evict cap flying just db)) \<subseteq> cores db"
  "distinct (map cf_id (db_files db)) \<Longrightarrow> distinct (map cf_id (db_files (fst (evict cap flying just db))))"
  using evict_loop_fewer[of cap "insert just flying" "unpinned_bytes db" "evict_candidates db" db]
  by (auto simp: evict_def)

section \<open>Flights\<close>

lemma push_keeps:
  "sl_key (fst (push C s b)) = sl_key s \<and> sl_id (fst (push C s b)) = sl_id s \<and> sl_layout (fst (push C s b)) = sl_layout s"
proof (induction C s b rule: push.induct)
  case (1 C s b)
  then show ?case
    by (subst (1 2 3) push.simps) (simp add: Let_def split_def split: option.split sum.split)
qed

lemma cores_fit_fewer_sinks:
  assumes "cores_fit C sha K s" "\<And>g e. fl g = Some (Sinking e) \<Longrightarrow> fc_flights s g = Some (Sinking e)"
  shows "cores_fit C sha K (s\<lparr>fc_flights := fl\<rparr>)"
proof -
  have f: "sink_fits (s\<lparr>fc_flights := fl\<rparr>) K g e = sink_fits s K g e" for g e by (simp add: sink_fits_def sink_placed_def)
  have "sinks_fit K s \<Longrightarrow> sinks_fit K (s\<lparr>fc_flights := fl\<rparr>)" using assms(2) by (auto simp: sinks_fit_def f)
  moreover have "sinks_apart s \<Longrightarrow> sinks_apart (s\<lparr>fc_flights := fl\<rparr>)"
    unfolding sinks_apart_def by (auto dest!: assms(2))
  moreover have "sweep_fits K s \<Longrightarrow> sweep_fits K (s\<lparr>fc_flights := fl\<rparr>)"
    unfolding sweep_fits_def by (auto dest!: assms(2))
  moreover have "dir_fits (s\<lparr>fc_flights := fl\<rparr>) = dir_fits s" "rows_fit C sha K (s\<lparr>fc_flights := fl\<rparr>) = rows_fit C sha K s"
    by (simp_all add: dir_fits_def rows_fit_def blob_good_def)
  ultimately show ?thesis using assms(1) by (simp add: cores_fit_def)
qed

lemma cores_fit_set_flight:
  "cores_fit C sha K s \<Longrightarrow> (\<And>e. x \<noteq> Sinking e) \<Longrightarrow> cores_fit C sha K (set_flight f x s)"
  unfolding set_flight_def by (rule cores_fit_fewer_sinks) (auto split: if_splits)

lemma set_flight_fields [simp]:
  "fc_db (set_flight f x s) = fc_db s" "fc_dir (set_flight f x s) = fc_dir s" "fc_inode (set_flight f x s) = fc_inode s"
  "fc_next (set_flight f x s) = fc_next s" "fc_sweep (set_flight f x s) = fc_sweep s"
  "fc_flights (set_flight f x s) g = (if g = f then Some x else fc_flights s g)"
  by (simp_all add: set_flight_def)

text \<open>A step that touches one inode at most.\<close>

definition touches_inode :: "nat \<Rightarrow> file_cache \<Rightarrow> file_cache \<Rightarrow> bool" where
  "touches_inode i s s' \<longleftrightarrow>
     fc_dir s' = fc_dir s \<and> fc_next s' = fc_next s \<and> fc_flights s' = fc_flights s \<and> fc_sweep s' = fc_sweep s
     \<and> (\<forall>j. j \<noteq> i \<longrightarrow> fc_inode s' j = fc_inode s j)"

lemma touches_inode_refl [simp]: "touches_inode i s s"
  "touches_inode i s (with_db g s')  = touches_inode i s s'"
  "touches_inode i s (put_data i d s') = touches_inode i s s'"
  "touches_inode i s (mark_durable i s') = touches_inode i s s'"
  by (auto simp: touches_inode_def put_data_def mark_durable_def)

lemma good_elsewhere:
  assumes "touches_inode i s s'" "fc_dir s g \<noteq> Some i" "blob_good C sha s g key sz chunk h"
  shows "blob_good C sha s' g key sz chunk h"
  using assms by (auto simp: blob_good_def touches_inode_def)

lemma sink_placedI:
  "es_inode e < fc_next s \<Longrightarrow> (\<And>g. fc_dir s g = Some (es_inode e) \<Longrightarrow> g = f) \<Longrightarrow>
   (\<And>i. fc_dir s f = Some i \<Longrightarrow> i = es_inode e) \<Longrightarrow> id_bytes f = Some (sl_id (es_sealer e)) \<Longrightarrow>
   0 < blob_chunk e \<Longrightarrow> 0 < blob_size e \<Longrightarrow> length (sl_key (es_sealer e)) = 32 \<Longrightarrow> sink_placed s f e"
  unfolding sink_placed_def by blast

lemma sink_placedD:
  assumes "sink_placed s f e"
  shows "es_inode e < fc_next s" "fc_dir s g = Some (es_inode e) \<Longrightarrow> g = f"
    "fc_dir s f = Some i \<Longrightarrow> i = es_inode e" "id_bytes f = Some (sl_id (es_sealer e))"
    "0 < blob_chunk e" "0 < blob_size e" "length (sl_key (es_sealer e)) = 32"
  using assms unfolding sink_placed_def by blast+

lemma sink_placed_cong:
  "fc_dir s' = fc_dir s \<Longrightarrow> fc_next s' = fc_next s \<Longrightarrow> es_inode e' = es_inode e \<Longrightarrow>
   sl_id (es_sealer e') = sl_id (es_sealer e) \<Longrightarrow> sl_layout (es_sealer e') = sl_layout (es_sealer e) \<Longrightarrow>
   (length (sl_key (es_sealer e')) = 32 \<longleftrightarrow> length (sl_key (es_sealer e)) = 32) \<Longrightarrow>
   sink_placed s' f e' = sink_placed s f e"
  by (simp add: sink_placed_def blob_chunk_def blob_size_def)

lemma sink_fits_other:
  assumes "sink_fits s K g d" "fc_dir s' = fc_dir s" "fc_next s' = fc_next s"
    "\<And>key sz chunk h st. (g, key, sz, chunk, h, st) \<in> K' \<Longrightarrow> (g, key, sz, chunk, h, st) \<in> K"
  shows "sink_fits s' K' g d"
proof -
  have "sink_row K g d" and p: "sink_placed s g d" using assms(1) by (simp_all add: sink_fits_def)
  from this(1) have r: "sink_row K' g d" by (rule sink_row_fewer) (rule assms(4))
  moreover have "sink_placed s' g d" using p sink_placed_cong[OF assms(2,3) refl refl refl refl] by blast
  ultimately show ?thesis unfolding sink_fits_def by blast
qed

text \<open>A sink moves its own row and blob.\<close>

lemma sink_moves:
  assumes fit: "cores_fit C sha K s" and fl: "fc_flights s f = Some (Sinking e)"
    and t: "touches_inode (es_inode e) s s'"
    and same: "es_inode e' = es_inode e" "sl_id (es_sealer e') = sl_id (es_sealer e)"
      "sl_layout (es_sealer e') = sl_layout (es_sealer e)" "length (sl_key (es_sealer e')) = 32"
    and others: "\<And>g key sz chunk h st. (g, key, sz, chunk, h, st) \<in> K' \<Longrightarrow> g \<noteq> f \<Longrightarrow> (g, key, sz, chunk, h, st) \<in> K"
    and own: "\<And>key sz chunk h st. (f, key, sz, chunk, h, st) \<in> K' \<Longrightarrow>
        st \<noteq> ''complete'' \<and> key = sl_key (es_sealer e') \<and> sz = int (blob_size e) \<and> chunk = int (blob_chunk e)
        \<and> h = es_sha256 e' \<and> (\<exists>key sz chunk h st. (f, key, sz, chunk, h, st) \<in> K)"
  shows "cores_fit C sha K' (set_flight f (Sinking e') s')"
proof -
  let ?s = "set_flight f (Sinking e') s'"
  have eq: "fc_dir s' = fc_dir s" "fc_next s' = fc_next s" "fc_flights s' = fc_flights s" "fc_sweep s' = fc_sweep s"
    using t by (simp_all add: touches_inode_def)
  have sf: "sink_fits s K f e" using fit fl by (simp add: cores_fit_def sinks_fit_def)
  have l: "blob_chunk e' = blob_chunk e" "blob_size e' = blob_size e" using same by (simp_all add: blob_chunk_def blob_size_def)
  have pos: "0 < blob_chunk e" "0 < blob_size e" using sf by (simp_all add: sink_fits_def sink_placed_def)
  have "dir_fits ?s" using fit eq by (simp add: cores_fit_def dir_fits_def)
  moreover have "rows_fit C sha K' ?s"
    unfolding rows_fit_def
  proof (intro allI impI)
    fix g key sz chunk h st assume r: "(g, key, sz, chunk, h, st) \<in> K'"
    show "length key = 32 \<and> 0 < sz \<and> 0 < chunk \<and> (st = ''complete'' \<longrightarrow> blob_good C sha ?s g key sz chunk h)"
    proof (cases "g = f")
      case True
      then show ?thesis using own[of key sz chunk h st] r pos same(4) by auto
    next
      case False
      then have "length key = 32 \<and> 0 < sz \<and> 0 < chunk \<and> (st = ''complete'' \<longrightarrow> blob_good C sha s g key sz chunk h)"
        using fit others r unfolding cores_fit_def rows_fit_def by blast
      moreover have "fc_dir s g \<noteq> Some (es_inode e)" using sf False by (auto simp: sink_fits_def sink_placed_def)
      ultimately show ?thesis using good_elsewhere[OF t] by (auto simp: blob_good_def)
    qed
  qed
  moreover have "sinks_fit K' ?s"
    unfolding sinks_fit_def
  proof (intro allI impI)
    fix g d assume g: "fc_flights ?s g = Some (Sinking d)"
    show "sink_fits ?s K' g d"
    proof (cases "g = f")
      case True
      have "sink_row K' f e'" unfolding sink_row_def l
      proof (intro allI impI)
        fix key sz chunk h st assume "(f, key, sz, chunk, h, st) \<in> K'"
        from own[OF this] show "st \<noteq> ''complete'' \<and> key = sl_key (es_sealer e') \<and> sz = int (blob_size e)
            \<and> chunk = int (blob_chunk e) \<and> h = es_sha256 e'" by blast
      qed
      moreover have "sink_placed ?s f e'"
      proof -
        have p: "sink_placed s f e" using sf unfolding sink_fits_def by blast
        then have "length (sl_key (es_sealer e)) = 32" unfolding sink_placed_def by blast
        then have "sink_placed ?s f e' = sink_placed s f e" by (intro sink_placed_cong) (use eq same in auto)
        then show ?thesis using p by blast
      qed
      ultimately show ?thesis using g True by (simp add: sink_fits_def)
    next
      case False
      then have "sink_fits s K g d" using g fit eq by (simp add: cores_fit_def sinks_fit_def)
      then show ?thesis by (rule sink_fits_other) (use eq others False in simp_all)
    qed
  qed
  moreover have "sinks_apart ?s"
  proof -
    have "sinks_apart s" using fit by (simp add: cores_fit_def)
    then show ?thesis using fl same(1) eq unfolding sinks_apart_def by (auto split: if_splits)
  qed
  moreover have "sweep_fits K' ?s"
    unfolding sweep_fits_def
  proof (intro allI impI)
    fix ps g key sz chunk h st
    assume ps: "fc_sweep ?s = Unlinking ps" "(g, key, sz, chunk, h, st) \<in> K'" "blob_path g \<in> set ps"
    have w: "sweep_fits K s" using fit by (simp add: cores_fit_def)
    have n: "g \<noteq> f"
    proof
      assume "g = f"
      then obtain key' sz' chunk' h' st' where "(f, key', sz', chunk', h', st') \<in> K" using own ps(2) by blast
      then show False using w ps(1,3) eq fl \<open>g = f\<close> unfolding sweep_fits_def by auto
    qed
    then have "(g, key, sz, chunk, h, st) \<in> K" by (rule others[OF ps(2)])
    then have "st \<noteq> ''complete'' \<and> (\<forall>d. fc_flights s g \<noteq> Some (Sinking d))"
      using w ps(1,3) eq unfolding sweep_fits_def by auto
    then show "st \<noteq> ''complete'' \<and> (\<forall>d. fc_flights ?s g \<noteq> Some (Sinking d))" using n eq by simp
  qed
  ultimately show ?thesis by (simp add: cores_fit_def)
qed

text \<open>A sink is done: a row of its own that is complete has a good blob.\<close>

lemma sink_done:
  assumes fit: "cores_fit C sha K s" and fl: "fc_flights s f = Some (Sinking e)"
    and t: "touches_inode (es_inode e) s s'" and x: "\<And>e. x \<noteq> Sinking e"
    and others: "\<And>g key sz chunk h st. (g, key, sz, chunk, h, st) \<in> K' \<Longrightarrow> g \<noteq> f \<Longrightarrow> (g, key, sz, chunk, h, st) \<in> K"
    and own: "\<And>key sz chunk h st. (f, key, sz, chunk, h, st) \<in> K' \<Longrightarrow>
        length key = 32 \<and> 0 < sz \<and> 0 < chunk \<and> (st = ''complete'' \<longrightarrow> blob_good C sha s' f key sz chunk h)
        \<and> (\<exists>key sz chunk h st. (f, key, sz, chunk, h, st) \<in> K)"
  shows "cores_fit C sha K' (set_flight f x s')"
proof -
  let ?s = "set_flight f x s'"
  have eq: "fc_dir s' = fc_dir s" "fc_next s' = fc_next s" "fc_flights s' = fc_flights s" "fc_sweep s' = fc_sweep s"
    using t by (simp_all add: touches_inode_def)
  have sf: "sink_fits s K f e" using fit fl by (simp add: cores_fit_def sinks_fit_def)
  have "dir_fits ?s" using fit eq by (simp add: cores_fit_def dir_fits_def)
  moreover have "rows_fit C sha K' ?s"
    unfolding rows_fit_def
  proof (intro allI impI)
    fix g key sz chunk h st assume r: "(g, key, sz, chunk, h, st) \<in> K'"
    show "length key = 32 \<and> 0 < sz \<and> 0 < chunk \<and> (st = ''complete'' \<longrightarrow> blob_good C sha ?s g key sz chunk h)"
    proof (cases "g = f")
      case True
      then show ?thesis using own[of key sz chunk h st] r by (auto simp: blob_good_def)
    next
      case False
      then have "length key = 32 \<and> 0 < sz \<and> 0 < chunk \<and> (st = ''complete'' \<longrightarrow> blob_good C sha s g key sz chunk h)"
        using fit others r unfolding cores_fit_def rows_fit_def by blast
      moreover have "fc_dir s g \<noteq> Some (es_inode e)" using sf False by (auto simp: sink_fits_def sink_placed_def)
      ultimately show ?thesis using good_elsewhere[OF t] by (auto simp: blob_good_def)
    qed
  qed
  moreover have "sinks_fit K' ?s"
    unfolding sinks_fit_def
  proof (intro allI impI)
    fix g d assume g: "fc_flights ?s g = Some (Sinking d)"
    then have n: "g \<noteq> f" using x by auto
    then have "sink_fits s K g d" using g fit eq by (simp add: cores_fit_def sinks_fit_def)
    then show "sink_fits ?s K' g d" by (rule sink_fits_other) (use eq others n in simp_all)
  qed
  moreover have "sinks_apart ?s"
  proof -
    have "sinks_apart s" using fit by (simp add: cores_fit_def)
    then show ?thesis using x eq unfolding sinks_apart_def by (auto split: if_splits)
  qed
  moreover have "sweep_fits K' ?s"
    unfolding sweep_fits_def
  proof (intro allI impI)
    fix ps g key sz chunk h st
    assume ps: "fc_sweep ?s = Unlinking ps" "(g, key, sz, chunk, h, st) \<in> K'" "blob_path g \<in> set ps"
    have w: "sweep_fits K s" using fit by (simp add: cores_fit_def)
    have n: "g \<noteq> f"
    proof
      assume "g = f"
      then obtain key' sz' chunk' h' st' where "(f, key', sz', chunk', h', st') \<in> K" using own ps(2) by blast
      then show False using w ps(1,3) eq fl \<open>g = f\<close> unfolding sweep_fits_def by auto
    qed
    then have "(g, key, sz, chunk, h, st) \<in> K" by (rule others[OF ps(2)])
    then have "st \<noteq> ''complete'' \<and> (\<forall>d. fc_flights s g \<noteq> Some (Sinking d))"
      using w ps(1,3) eq unfolding sweep_fits_def by auto
    then show "st \<noteq> ''complete'' \<and> (\<forall>d. fc_flights ?s g \<noteq> Some (Sinking d))" using n eq by simp
  qed
  ultimately show ?thesis by (simp add: cores_fit_def)
qed

section \<open>The operations of a sink\<close>

lemma cores_update_other:
  assumes "(g, key, sz, chunk, h, st) \<in> cores (update_file f u db)" "g \<noteq> f" "\<And>r. cf_id (u r) = cf_id r"
  shows "(g, key, sz, chunk, h, st) \<in> cores db"
proof -
  obtain r where r: "r \<in> set (db_files db)" "(g, key, sz, chunk, h, st) = core (if cf_id r = f then u r else r)"
    using assms(1) unfolding cores_update_file by blast
  then have "cf_id r \<noteq> f" using assms(2,3) by (auto simp: core_def split: if_splits)
  then show ?thesis using r by (auto simp: cores_def)
qed

lemma cores_update_own:
  assumes "(f, key, sz, chunk, h, st) \<in> cores (update_file f u db)" "\<And>r. cf_id (u r) = cf_id r"
  shows "\<exists>r \<in> set (db_files db). cf_id r = f \<and> (f, key, sz, chunk, h, st) = core (u r) \<and> core r \<in> cores db"
proof -
  obtain r where r: "r \<in> set (db_files db)" "(f, key, sz, chunk, h, st) = core (if cf_id r = f then u r else r)"
    using assms(1) unfolding cores_update_file by blast
  then have "cf_id r = f" using assms(2) by (auto simp: core_def split: if_splits)
  then show ?thesis using r by (auto simp: cores_def)
qed

lemma own_row:
  assumes "cores_fit C sha (cores db) s" "fc_flights s f = Some (Sinking e)" "r \<in> set (db_files db)" "cf_id r = f"
  shows "cf_state r \<noteq> ''complete'' \<and> cf_key r = sl_key (es_sealer e) \<and> cf_size r = int (blob_size e)
    \<and> cf_chunk r = int (blob_chunk e) \<and> cf_sha256 r = es_sha256 e"
proof -
  have "sink_row (cores db) f e" using assms(1,2) by (simp add: cores_fit_def sinks_fit_def sink_fits_def)
  moreover have "core r \<in> cores db" using assms(3) by (simp add: cores_def)
  ultimately show ?thesis using assms(4) unfolding sink_row_def core_def by blast
qed

definition op_fits :: "cipher \<Rightarrow> (string \<Rightarrow> string) \<Rightarrow> string \<Rightarrow> sink_op \<Rightarrow> bool" where
  "op_fits C sha f op \<longleftrightarrow>
     (\<forall>e s. files_fit C sha s \<longrightarrow> fc_flights s f = Some (Sinking e) \<longrightarrow>
        (case op e s of
           (None, e', s') \<Rightarrow> files_fit C sha (set_flight f (Sinking e') s')
         | (Some _, e', s') \<Rightarrow> files_fit C sha (set_flight f (Aborting e') s')))"

lemma op_fitsI:
  "(\<And>e s err e' s'. files_fit C sha s \<Longrightarrow> fc_flights s f = Some (Sinking e) \<Longrightarrow> op e s = (err, e', s') \<Longrightarrow>
     (if err = None then files_fit C sha (set_flight f (Sinking e') s')
      else files_fit C sha (set_flight f (Aborting e') s'))) \<Longrightarrow> op_fits C sha f op"
  unfolding op_fits_def by (force split: prod.split option.split)

lemma aborting_too:
  "files_fit C sha (set_flight f (Sinking e') s') \<Longrightarrow> files_fit C sha (set_flight f (Aborting e'') s')"
proof -
  have "set_flight f (Aborting e'') s' = set_flight f (Aborting e'') (set_flight f (Sinking e') s')"
    by (simp add: set_flight_def)
  then show "files_fit C sha (set_flight f (Sinking e') s') \<Longrightarrow> files_fit C sha (set_flight f (Aborting e'') s')"
    using cores_fit_set_flight[of C sha _ "set_flight f (Sinking e') s'" "Aborting e''" f] by (simp add: files_fit_def)
qed

text \<open>A sink that keeps its key and changes nothing its row is judged by.\<close>

lemma sink_keeps:
  assumes "files_fit C sha s" "fc_flights s f = Some (Sinking e)" "touches_inode (es_inode e) s s'"
    "fc_db s' = fc_db s" "es_inode e' = es_inode e" "sl_key (es_sealer e') = sl_key (es_sealer e)"
    "sl_id (es_sealer e') = sl_id (es_sealer e)" "sl_layout (es_sealer e') = sl_layout (es_sealer e)"
    "es_sha256 e' = es_sha256 e"
  shows "files_fit C sha (set_flight f (Sinking e') s')"
proof -
  have c: "cores_fit C sha (cores (fc_db s)) s" using assms(1) by (simp add: files_fit_def)
  have sf: "sink_placed s f e" "sink_row (cores (fc_db s)) f e"
    using c assms(2) by (simp_all add: cores_fit_def sinks_fit_def sink_fits_def)
  have "cores_fit C sha (cores (fc_db s)) (set_flight f (Sinking e') s')"
  proof (rule sink_moves[OF c assms(2,3,5,7,8)])
    show "length (sl_key (es_sealer e')) = 32" using sf(1) assms(6) unfolding sink_placed_def by simp
    fix key sz chunk h st assume k: "(f, key, sz, chunk, h, st) \<in> cores (fc_db s)"
    then have "st \<noteq> ''complete'' \<and> key = sl_key (es_sealer e) \<and> sz = int (blob_size e) \<and> chunk = int (blob_chunk e)
        \<and> h = es_sha256 e" using sf(2) unfolding sink_row_def by blast
    then show "st \<noteq> ''complete'' \<and> key = sl_key (es_sealer e') \<and> sz = int (blob_size e) \<and> chunk = int (blob_chunk e)
        \<and> h = es_sha256 e' \<and> (\<exists>key sz chunk h st. (f, key, sz, chunk, h, st) \<in> cores (fc_db s))"
      using k assms(6,9) by metis
  qed
  then show ?thesis using assms(1,4) by (simp add: files_fit_def)
qed

lemma files_fit_quiet_flight:
  assumes "files_fit C sha (set_flight f x s)" "\<And>r. core (g r) = core r"
  shows "files_fit C sha (set_flight f x (with_db (update_file h g) s))"
proof -
  have "set_flight f x (with_db (update_file h g) s) = with_db (update_file h g) (set_flight f x s)"
    by (simp add: set_flight_def with_db_def)
  then show ?thesis using files_fit_quiet_update[OF assms] by simp
qed

lemma record_fits:
  assumes "files_fit C sha (set_flight f (Sinking e) s)" "sink_record f fails e s = (err, e', s')"
  shows "files_fit C sha (set_flight f (Sinking e') s')"
proof (cases fails)
  case (Some kind)
  then show ?thesis using assms by (simp add: sink_record_def)
next
  case None
  have "files_fit C sha (set_flight f (Sinking (e\<lparr>es_durable := d\<rparr>)) s)" for d
  proof -
    have "set_flight f (Sinking (e\<lparr>es_durable := d\<rparr>)) s
        = set_flight f (Sinking (e\<lparr>es_durable := d\<rparr>)) (set_flight f (Sinking e) s)" by (simp add: set_flight_def)
    then show ?thesis using sink_keeps[OF assms(1), of f e "set_flight f (Sinking e) s" "e\<lparr>es_durable := d\<rparr>"] by simp
  qed
  then show ?thesis
    using assms(2) None by (auto simp: sink_record_def Let_def core_def intro!: files_fit_quiet_flight)
qed

lemma files_fit_same_flight:
  "fc_flights s f = Some x \<Longrightarrow> files_fit C sha s \<Longrightarrow> files_fit C sha (set_flight f x s)"
proof -
  assume "fc_flights s f = Some x" "files_fit C sha s"
  moreover from this(1) have "set_flight f x s = s" unfolding set_flight_def by (simp add: fun_upd_idem)
  ultimately show ?thesis by simp
qed

lemma write_fits: "op_fits C sha f (sink_write C f bytes fault)"
proof (rule op_fitsI)
  fix e s err e' s'
  assume fit: "files_fit C sha s" and fl: "fc_flights s f = Some (Sinking e)"
    and w: "sink_write C f bytes fault e s = (err, e', s')"
  obtain sl r where p: "push C (es_sealer e) bytes = (sl, r)" by force
  have k: "sl_key sl = sl_key (es_sealer e)" "sl_id sl = sl_id (es_sealer e)" "sl_layout sl = sl_layout (es_sealer e)"
    using push_keeps[of C "es_sealer e" bytes] p by simp_all
  let ?e = "e\<lparr>es_sealer := sl\<rparr>"
  have keeps: "files_fit C sha (set_flight f (Sinking ?e) t)" if "touches_inode (es_inode e) s t" "fc_db t = fc_db s" for t
    by (rule sink_keeps[OF fit fl that]) (use k in simp_all)
  have db: "fc_db (put_data i d s) = fc_db s" for i d by (simp add: put_data_def)
  show "if err = None then files_fit C sha (set_flight f (Sinking e') s')
      else files_fit C sha (set_flight f (Aborting e') s')"
  proof (cases r)
    case (Inl x)
    then have "err \<noteq> None" "e' = ?e" "s' = s" using w p by (auto simp: sink_write_def)
    then show ?thesis using aborting_too[OF keeps[of s]] by auto
  next
    case (Inr out)
    show ?thesis
    proof (cases "\<exists>n kind. (if out = [] then NoFault else fault) = EarlyFault n kind")
      case True
      then obtain n where "err \<noteq> None" "e' = ?e"
        "s' = put_data (es_inode e) (in_data (fc_inode s (es_inode e)) @ take n out) s"
        using w p Inr by (auto simp: sink_write_def Let_def)
      then show ?thesis using aborting_too[OF keeps[of s']] db by auto
    next
      case False
      let ?t = "if out = [] then s else put_data (es_inode e) (in_data (fc_inode s (es_inode e)) @ out) s"
      have f: "files_fit C sha (set_flight f (Sinking ?e) ?t)" using keeps[of ?t] db by simp
      have "(err, e', s') = (None, ?e, ?t) \<or> (\<exists>x. sink_record f x ?e ?t = (err, e', s'))"
        using w p Inr False by (auto simp: sink_write_def Let_def split: sink_fault.splits if_splits)
      then show ?thesis
      proof
        assume "(err, e', s') = (None, ?e, ?t)"
        then show ?thesis using f by auto
      next
        assume "\<exists>x. sink_record f x ?e ?t = (err, e', s')"
        then obtain x where "sink_record f x ?e ?t = (err, e', s')" by blast
        from record_fits[OF f this] show ?thesis using aborting_too by simp
      qed
    qed
  qed
qed

lemma restarted_row:
  assumes c: "cores_fit C sha (cores db) s" "fc_flights s f = Some (Sinking e)"
    and k: "(f, key, sz, chunk, h, st) \<in> cores (update_file f (\<lambda>r. r\<lparr>cf_key := new, cf_done := 0, cf_state := ''partial''\<rparr>) db)"
  shows "key = new \<and> sz = int (blob_size e) \<and> chunk = int (blob_chunk e) \<and> h = es_sha256 e \<and> st = ''partial''
    \<and> (\<exists>key sz chunk h st. (f, key, sz, chunk, h, st) \<in> cores db)"
proof -
  obtain r where r: "r \<in> set (db_files db)" "cf_id r = f" "core r \<in> cores db"
    "(f, key, sz, chunk, h, st) = core (r\<lparr>cf_key := new, cf_done := 0, cf_state := ''partial''\<rparr>)"
    using cores_update_own[OF k] by auto
  have "core r = (f, cf_key r, cf_size r, cf_chunk r, cf_sha256 r, cf_state r)" using r(2) by (simp add: core_def)
  then have "\<exists>key sz chunk h st. (f, key, sz, chunk, h, st) \<in> cores db" using r(3) by metis
  then show ?thesis using own_row[OF c r(1,2)] r(4) by (simp add: core_def)
qed

lemma restart_fits: "length key = 32 \<Longrightarrow> op_fits C sha f (sink_restart f key fault)"
proof (rule op_fitsI)
  fix e s err e' s'
  assume key: "length key = 32" and fit: "files_fit C sha s" and fl: "fc_flights s f = Some (Sinking e)"
    and w: "sink_restart f key fault e s = (err, e', s')"
  let ?u = "\<lambda>r :: cached_file. r\<lparr>cf_key := key, cf_done := 0, cf_state := ''partial''\<rparr>"
  let ?db = "update_file f ?u (fc_db s)"
  have c: "cores_fit C sha (cores (fc_db s)) s" and d: "distinct (map cf_id (db_files (fc_db s)))"
    using fit by (simp_all add: files_fit_def)
  have d': "distinct (map cf_id (db_files ?db))" using d by (simp add: ids_update_file)
  have pl: "sink_placed s f e" using c fl by (simp add: cores_fit_def sinks_fit_def sink_fits_def)
  then have pos: "0 < blob_chunk e" "0 < blob_size e" unfolding sink_placed_def by blast+
  have other: "(g, k, sz, chunk, h, st) \<in> cores (fc_db s)" if "(g, k, sz, chunk, h, st) \<in> cores ?db" "g \<noteq> f"
    for g k sz chunk h st using cores_update_other[OF that] by simp
  consider "err \<noteq> None" "e' = e" "s' = s"
    | "err \<noteq> None" "e' = e" "s' = with_db (update_file f ?u) s"
    | "err = None" "e' = e\<lparr>es_sealer := sealer_new key (sl_id (es_sealer e)) (sl_layout (es_sealer e)) 0, es_durable := 0\<rparr>"
      "s' = put_data (es_inode e) [] (with_db (update_file f ?u) s)"
    using w by (auto simp: sink_restart_def Let_def split: sink_fault.splits if_splits)
  then show "if err = None then files_fit C sha (set_flight f (Sinking e') s')
      else files_fit C sha (set_flight f (Aborting e') s')"
  proof cases
    case 1
    then show ?thesis using fit cores_fit_set_flight[OF c] by (auto simp: files_fit_def)
  next
    case 2
    have "cores_fit C sha (cores ?db) (set_flight f (Aborting e) s')"
    proof (rule sink_done[OF c fl _ _ other])
      show "touches_inode (es_inode e) s s'" by (simp add: 2)
      fix k sz chunk h st assume "(f, k, sz, chunk, h, st) \<in> cores ?db"
      from restarted_row[OF c fl this] show "length k = 32 \<and> 0 < sz \<and> 0 < chunk
          \<and> (st = ''complete'' \<longrightarrow> blob_good C sha s' f k sz chunk h)
          \<and> (\<exists>key sz chunk h st. (f, key, sz, chunk, h, st) \<in> cores (fc_db s))"
        using pos key by simp
    qed simp_all
    then show ?thesis using 2 d' by (auto simp: files_fit_def)
  next
    case 3
    have "cores_fit C sha (cores ?db) (set_flight f (Sinking e') s')"
    proof (rule sink_moves[OF c fl _ _ _ _ _ other])
      show "touches_inode (es_inode e) s s'" by (simp add: 3)
      fix k sz chunk h st assume "(f, k, sz, chunk, h, st) \<in> cores ?db"
      from restarted_row[OF c fl this] show "st \<noteq> ''complete'' \<and> k = sl_key (es_sealer e') \<and> sz = int (blob_size e)
          \<and> chunk = int (blob_chunk e) \<and> h = es_sha256 e'
          \<and> (\<exists>key sz chunk h st. (f, key, sz, chunk, h, st) \<in> cores (fc_db s))"
        using 3 by (simp add: sealer_new_def)
    qed (use 3 key in \<open>simp_all add: sealer_new_def\<close>)
    then show ?thesis using 3 d' by (simp add: files_fit_def put_data_def)
  qed
qed

lemma op_fits_aborting:
  assumes "op_fits C sha f op" "files_fit C sha s" "fc_flights s f = Some (Sinking e)" "op e s = (x, e', s')"
  shows "files_fit C sha (set_flight f (Aborting e') s')"
proof -
  have "case op e s of (None, e', s') \<Rightarrow> files_fit C sha (set_flight f (Sinking e') s')
      | (Some _, e', s') \<Rightarrow> files_fit C sha (set_flight f (Aborting e') s')"
    by (rule assms(1)[unfolded op_fits_def, rule_format, OF assms(2,3)])
  then show ?thesis using aborting_too by (cases x) (auto simp: assms(4))
qed

lemma finish_fits:
  assumes fit: "files_fit C sha s" and fl: "fc_flights s f = Some (Sinking e)" and key: "length key = 32"
    and w: "sink_finish C sha f h now key fault e s = (err, e', s')"
  shows "if err = None then files_fit C sha (set_flight f Over s') else files_fit C sha (set_flight f (Aborting e') s')"
proof -
  let ?m = "mark_durable (es_inode e) s"
  have t: "touches_inode (es_inode e) s ?m" by simp
  have db: "fc_db ?m = fc_db s" and flm: "fc_flights ?m f = Some (Sinking e)" using fl by (simp_all add: mark_durable_def)
  have "files_fit C sha (set_flight f (Sinking e) ?m)" by (rule sink_keeps[OF fit fl t db]) simp_all
  moreover have "set_flight f (Sinking e) ?m = ?m" using flm unfolding set_flight_def by (simp add: fun_upd_idem)
  ultimately have fitm: "files_fit C sha ?m" by simp
  have stop: "files_fit C sha (set_flight f (Aborting e) s)" "files_fit C sha (set_flight f (Aborting e) ?m)"
    using fit fitm cores_fit_set_flight by (auto simp: files_fit_def)
  have pl: "sink_placed s f e" using fit fl by (simp add: files_fit_def cores_fit_def sinks_fit_def sink_fits_def)
  let ?v = "verify C sha (map_option (\<lambda>i. in_data (fc_inode ?m i)) (fc_dir ?m f)) (sl_key (es_sealer e))
      (sl_id (es_sealer e)) (blob_size e) (es_sha256 e) (blob_chunk e)"
  let ?u = "\<lambda>r. r\<lparr>cf_state := ''complete'', cf_done := cf_size r, cf_last_used := Some now\<rparr>"
  consider "err \<noteq> None" "e' = e" "s' = s" | "err \<noteq> None" "e' = e" "s' = ?m"
    | x where "sink_restart f key fault e ?m = (x, e', s')" "err \<noteq> None"
    | "err = None" "?v" "s' = with_db (update_file f ?u) ?m"
  proof -
    define V m where "V = ?v" and "m = ?m"
    have eq: "sink_finish C sha f h now key fault e s =
        (if \<not> is_complete (es_sealer e) \<or> h \<noteq> es_sha256 e then (Some (SinkIo ''UnexpectedEof''), e, s)
         else (case fault of
             EarlyFault _ kind \<Rightarrow> (Some (SinkIo kind), e, s)
           | _ \<Rightarrow> if \<not> V then (case sink_restart f key fault e m of (_, e, s) \<Rightarrow> (Some Mismatch, e, s))
                else (case fault of
                    LateFault kind \<Rightarrow> (Some (SinkIo kind), e, m)
                  | _ \<Rightarrow> if row_of_file f (fc_db m) = None then (Some (SinkIo ''NotFound''), e, m)
                       else (None, e, with_db (update_file f ?u) m))))"
      unfolding sink_finish_def Let_def V_def m_def ..
    obtain x e1 s1 where r: "sink_restart f key fault e m = (x, e1, s1)" by (metis prod_cases3)
    show ?thesis
    proof (cases "\<not> is_complete (es_sealer e) \<or> h \<noteq> es_sha256 e")
      case True
      then have "err \<noteq> None" "e' = e" "s' = s" using w eq by auto
      then show ?thesis by (rule that(1))
    next
      case no: False
      show ?thesis
      proof (cases V)
        case False
        show ?thesis
        proof (cases "\<exists>n kind. fault = EarlyFault n kind")
          case True
          then have "err \<noteq> None" "e' = e" "s' = s" using w eq no by auto
          then show ?thesis by (rule that(1))
        next
          case early: False
          then have "err \<noteq> None \<and> e1 = e' \<and> s1 = s'" using w eq no r False by (cases fault) auto
          then show ?thesis using that(3)[of x] r unfolding m_def by simp
        qed
      next
        case True
        then have "?v" by (simp only: V_def)
        have "err \<noteq> None \<and> e' = e \<and> (s' = s \<or> s' = m) \<or> err = None \<and> s' = with_db (update_file f ?u) m"
          using w eq no True by (cases fault) (auto split: if_splits)
        then show ?thesis using that(1,2,4) \<open>?v\<close> unfolding m_def by blast
      qed
    qed
  qed
  then show ?thesis
  proof cases
    case 1
    then show ?thesis using stop by auto
  next
    case 2
    then show ?thesis using stop by auto
  next
    case (3 x)
    have "op_fits C sha f (sink_restart f key fault)" by (rule restart_fits[OF key])
    then have "files_fit C sha (set_flight f (Aborting e') s')"
      by (rule op_fits_aborting) (use fitm flm 3(1) in simp_all)
    then show ?thesis using 3(2) by auto
  next
    case 4
    have c: "cores_fit C sha (cores (fc_db s)) s" using fit by (simp add: files_fit_def)
    have "cores_fit C sha (cores (update_file f ?u (fc_db s))) (set_flight f Over s')"
    proof (rule sink_done[OF c fl])
      show "touches_inode (es_inode e) s s'" by (simp add: 4)
      show "(g, k, sz, chunk, h, st) \<in> cores (fc_db s)"
        if "(g, k, sz, chunk, h, st) \<in> cores (update_file f ?u (fc_db s))" "g \<noteq> f" for g k sz chunk h st
        using cores_update_other[OF that] by simp
      fix k sz chunk h st assume "(f, k, sz, chunk, h, st) \<in> cores (update_file f ?u (fc_db s))"
      from cores_update_own[OF this] obtain r where r: "r \<in> set (db_files (fc_db s))" "cf_id r = f"
        "core r \<in> cores (fc_db s)" "(f, k, sz, chunk, h, st) = core (?u r)" by auto
      have o: "cf_key r = sl_key (es_sealer e)" "cf_size r = int (blob_size e)" "cf_chunk r = int (blob_chunk e)"
        "cf_sha256 r = es_sha256 e" using own_row[OF c fl r(1,2)] by simp_all
      have e: "k = sl_key (es_sealer e)" "sz = int (blob_size e)" "chunk = int (blob_chunk e)" "h = es_sha256 e"
        using r(4) o by (simp_all add: core_def)
      have "fc_dir s f \<noteq> None"
      proof
        assume "fc_dir s f = None"
        then show False using 4(2) by (simp add: verify_def mark_durable_def Let_def)
      qed
      then obtain i where i: "fc_dir s f = Some i" by blast
      then have ie: "i = es_inode e" using pl unfolding sink_placed_def by blast
      have "id_bytes f = Some (sl_id (es_sealer e))" using pl unfolding sink_placed_def by blast
      then have g: "blob_good C sha s' f k sz chunk h"
        using 4(2,3) i ie e by (simp add: blob_good_def mark_durable_def)
      have "core r = (f, cf_key r, cf_size r, cf_chunk r, cf_sha256 r, cf_state r)" using r(2) by (simp add: core_def)
      then have "\<exists>key sz chunk h st. (f, key, sz, chunk, h, st) \<in> cores (fc_db s)" using r(3) by metis
      then show "length k = 32 \<and> 0 < sz \<and> 0 < chunk \<and> (st = ''complete'' \<longrightarrow> blob_good C sha s' f k sz chunk h)
          \<and> (\<exists>key sz chunk h st. (f, key, sz, chunk, h, st) \<in> cores (fc_db s))"
        using g e pl unfolding sink_placed_def by simp
    qed simp
    moreover have "distinct (map cf_id (db_files (update_file f ?u (fc_db s))))"
      using fit by (simp add: files_fit_def ids_update_file)
    ultimately show ?thesis using 4 db by (simp add: files_fit_def)
  qed
qed

section \<open>Opening a sink\<close>

lemma open_row_cores:
  assumes "open_row f h sz key db = (x, db')" "cores_fit C sha (cores db) s" "distinct (map cf_id (db_files db))"
    "length key = 32"
  shows "distinct (map cf_id (db_files db'))"
    and "(g, k, n, c, v, st) \<in> cores db' \<Longrightarrow> g \<noteq> f \<or> (\<exists>e. x = Inl e) \<Longrightarrow> (g, k, n, c, v, st) \<in> cores db"
    and "x = Inr (k', chunk, done) \<Longrightarrow> length k' = 32 \<and> 0 < chunk"
    and "x = Inr (k', chunk, done) \<Longrightarrow> (f, k, n, c, v, st) \<in> cores db' \<Longrightarrow>
      st \<noteq> ''complete'' \<and> k = k' \<and> n = int sz \<and> c = int chunk \<and> v = h"
proof -
  let ?found = "find (resumable h sz) (case usable_row f db of Some r \<Rightarrow> [r] | None \<Rightarrow> [])"
  have all: "distinct (map cf_id (db_files db'))
    \<and> (\<forall>g k n c v st. (g, k, n, c, v, st) \<in> cores db' \<longrightarrow> g \<noteq> f \<or> (\<exists>e. x = Inl e) \<longrightarrow> (g, k, n, c, v, st) \<in> cores db)
    \<and> (\<forall>k' chunk done. x = Inr (k', chunk, done) \<longrightarrow> length k' = 32 \<and> 0 < chunk
        \<and> (\<forall>k n c v st. (f, k, n, c, v, st) \<in> cores db' \<longrightarrow>
            st \<noteq> ''complete'' \<and> k = k' \<and> n = int sz \<and> c = int chunk \<and> v = h))"
  proof (cases ?found)
    case (Some r)
    then have u: "usable_row f db = Some r" "resumable h sz r"
      by (auto simp: find_Some_iff split: option.splits)
    have r: "r \<in> set (db_files db)" "cf_id r = f" "length (cf_key r) = 32" using usable_row_Some[OF u(1)] by blast+
    have x: "db' = db" "x = Inr (cf_key r, nat (cf_chunk r), nat (cf_done r) - nat (cf_done r) mod nat (cf_chunk r))"
      using assms(1) Some by (simp_all add: open_row_def Let_def)
    have "core r \<in> cores db" using r(1) by (simp add: cores_def)
    then have "(f, cf_key r, cf_size r, cf_chunk r, cf_sha256 r, cf_state r) \<in> cores db" using r(2) by (simp add: core_def)
    then have c: "0 < cf_chunk r" using assms(2) unfolding cores_fit_def rows_fit_def by blast
    have own: "st \<noteq> ''complete'' \<and> k = cf_key r \<and> n = int sz \<and> c = int (nat (cf_chunk r)) \<and> v = h"
      if k: "(f, k, n, c, v, st) \<in> cores db" for k n c v st
    proof -
      obtain q where q: "q \<in> set (db_files db)" "core q = (f, k, n, c, v, st)" using k unfolding cores_def by auto
      then have "cf_id q = cf_id r" using r(2) by (simp add: core_def)
      then have "q = r" using assms(3) q(1) r(1) by (metis distinct_map inj_on_eq_iff)
      then show ?thesis using q(2) u(2) c by (auto simp: core_def resumable_def)
    qed
    show ?thesis using x r(3) c assms(3) by (auto dest!: own)
  next
    case None
    obtain ok d where fr: "fresh_row f h sz key db = (ok, d)" by force
    have d0: "cores (db\<lparr>db_deletions := l\<rparr>) = cores db" for l by (simp add: cores_def)
    show ?thesis
    proof (cases ok)
      case False
      then have "x = Inl (file_error ''file.gone'')" "db' = d" using assms(1) None fr by (simp_all add: open_row_def)
      moreover have "cores d = cores db" "db_files d = db_files db"
        using fr False d0 by (auto simp: fresh_row_def Let_def split: if_splits)
      ultimately show ?thesis using assms(3) by simp
    next
      case True
      then have x: "x = Inr (key, chunk_len, 0)" "db' = d" using assms(1) None fr by (simp_all add: open_row_def)
      let ?u = "\<lambda>r. r\<lparr>cf_sha256 := h, cf_size := int sz, cf_key := key, cf_chunk := int chunk_len,
          cf_state := ''partial'', cf_done := 0\<rparr>"
      have cl: "0 < chunk_len" by (simp add: chunk_len_def)
      show ?thesis
      proof (cases "row_of_file f db")
        case None
        then have dd: "db_files d = db_files db @ [new_row f h sz key False]"
          using fr True by (auto simp: fresh_row_def Let_def row_of_file_def split: if_splits)
        have "cf_id (new_row f h sz key False) = f"
          "core (new_row f h sz key False) = (f, key, int sz, int chunk_len, h, ''partial'')"
          by (simp_all add: new_row_def core_def)
        moreover have "(f, k, n, c, v, st) \<notin> cores db" for k n c v st
          using None unfolding row_of_file_None cores_def core_def by auto
        ultimately show ?thesis using x dd assms(3,4) None cl
          by (auto simp: cores_def row_of_file_None)
      next
        case (Some r)
        define db0 where "db0 = db\<lparr>db_deletions := filter (\<lambda>p. p \<noteq> blob_path f) (db_deletions db)\<rparr>"
        have dd: "d = update_file f ?u db0"
          using fr True Some by (auto simp: fresh_row_def Let_def row_of_file_def db0_def split: if_splits)
        have c0: "cores db0 = cores db" "db_files db0 = db_files db" by (simp_all add: db0_def d0)
        have own: "st \<noteq> ''complete'' \<and> k = key \<and> n = int sz \<and> c = int chunk_len \<and> v = h"
          if "(f, k, n, c, v, st) \<in> cores d" for k n c v st
          using cores_update_own[OF that[unfolded dd]] by (auto simp: core_def)
        have other: "(g, k, n, c, v, st) \<in> cores db" if "(g, k, n, c, v, st) \<in> cores d" "g \<noteq> f" for g k n c v st
          using cores_update_other[OF that[unfolded dd]] c0 by simp
        have "distinct (map cf_id (db_files d))" using assms(3) c0 by (simp add: dd ids_update_file)
        then show ?thesis using x own other assms(4) cl by auto
      qed
    qed
  qed
  show "distinct (map cf_id (db_files db'))" using all by blast
  show "(g, k, n, c, v, st) \<in> cores db' \<Longrightarrow> g \<noteq> f \<or> (\<exists>e. x = Inl e) \<Longrightarrow> (g, k, n, c, v, st) \<in> cores db"
    using all by blast
  show "x = Inr (k', chunk, done) \<Longrightarrow> length k' = 32 \<and> 0 < chunk" using all by blast
  show "x = Inr (k', chunk, done) \<Longrightarrow> (f, k, n, c, v, st) \<in> cores db' \<Longrightarrow>
      st \<noteq> ''complete'' \<and> k = k' \<and> n = int sz \<and> c = int chunk \<and> v = h" using all by blast
qed

lemma open_blob_placed:
  assumes "dir_fits s" "open_blob f len s = (n, s')"
  shows "fc_dir s' = (fc_dir s)(f \<mapsto> n)" "n < fc_next s'" "fc_next s \<le> fc_next s'" "fc_db s' = fc_db s"
    "fc_flights s' = fc_flights s" "fc_sweep s' = fc_sweep s"
    "j \<noteq> n \<Longrightarrow> fc_inode s' j = fc_inode s j" "fc_dir s f = Some n \<or> n = fc_next s"
proof -
  have "fc_dir s' = (fc_dir s)(f \<mapsto> n) \<and> n < fc_next s' \<and> fc_next s \<le> fc_next s' \<and> fc_db s' = fc_db s
      \<and> fc_flights s' = fc_flights s \<and> fc_sweep s' = fc_sweep s \<and> (j \<noteq> n \<longrightarrow> fc_inode s' j = fc_inode s j)
      \<and> (fc_dir s f = Some n \<or> n = fc_next s)"
  proof (cases "fc_dir s f")
    case None
    then show ?thesis using assms by (auto simp: open_blob_def put_data_def)
  next
    case (Some i)
    then have "s' = put_data i (set_len len (in_data (fc_inode s i))) s" "n = i" using assms(2) by (auto simp: open_blob_def)
    moreover have "i < fc_next s" using assms(1) Some by (simp add: dir_fits_def)
    ultimately show ?thesis using Some by (simp add: put_data_def fun_upd_idem)
  qed
  then show "fc_dir s' = (fc_dir s)(f \<mapsto> n)" "n < fc_next s'" "fc_next s \<le> fc_next s'" "fc_db s' = fc_db s"
    "fc_flights s' = fc_flights s" "fc_sweep s' = fc_sweep s"
    "j \<noteq> n \<Longrightarrow> fc_inode s' j = fc_inode s j" "fc_dir s f = Some n \<or> n = fc_next s" by blast+
qed

lemma sink_open_fits:
  assumes fit: "files_fit C sha s" and fl: "fc_flights s f = Some Starting" and rest: "fc_sweep s = Resting"
    and sz: "0 < sz" and key: "length key = 32"
  shows "files_fit C sha (snd (sink_open f h sz key refused s))"
proof -
  obtain x db where o: "open_row f h sz key (fc_db s) = (x, db)" by force
  have c: "cores_fit C sha (cores (fc_db s)) s" and d: "distinct (map cf_id (db_files (fc_db s)))"
    using fit by (simp_all add: files_fit_def)
  note oc = open_row_cores[OF o c d key]
  have nosink: "fc_flights s f \<noteq> Some (Sinking e)" for e using fl by simp
  have parts: "dir_fits s" "rows_fit C sha (cores (fc_db s)) s" "sinks_fit (cores (fc_db s)) s" "sinks_apart s"
    using c by (simp_all add: cores_fit_def)
  have over: "files_fit C sha (set_flight f Over (s\<lparr>fc_db := db\<rparr>))"
  proof -
    have rows: "rows_fit C sha (cores db) s"
      unfolding rows_fit_def
    proof (intro allI impI)
      fix g k n ch v st assume r: "(g, k, n, ch, v, st) \<in> cores db"
      show "length k = 32 \<and> 0 < n \<and> 0 < ch \<and> (st = ''complete'' \<longrightarrow> blob_good C sha s g k n ch v)"
      proof (cases "g \<noteq> f \<or> (\<exists>e. x = Inl e)")
        case True
        then show ?thesis using oc(2)[OF r] parts(2) unfolding rows_fit_def by blast
      next
        case False
        then obtain k' chunk dn where xi: "x = Inr (k', chunk, dn)" by (cases x) auto
        have "(f, k, n, ch, v, st) \<in> cores db" using r False by simp
        from oc(4)[OF xi this] oc(3)[OF xi] sz show ?thesis by simp
      qed
    qed
    have sinks: "sinks_fit (cores db) s"
      unfolding sinks_fit_def
    proof (intro allI impI)
      fix g e assume g: "fc_flights s g = Some (Sinking e)"
      then have ne: "g \<noteq> f" using nosink by auto
      have "sink_fits s (cores (fc_db s)) g e" using parts(3) g unfolding sinks_fit_def by blast
      then show "sink_fits s (cores db) g e"
        by (rule sink_fits_other[OF _ refl refl]) (erule oc(2), rule disjI1[OF ne])
    qed
    have "cores_fit C sha (cores db) s" using parts(1,4) rows sinks rest by (simp add: cores_fit_def sweep_fits_def)
    then have "cores_fit C sha (cores db) (set_flight f Over (s\<lparr>fc_db := db\<rparr>))" by (intro cores_fit_set_flight) simp_all
    then show ?thesis using oc(1) by (simp add: files_fit_def)
  qed
  show ?thesis
  proof (cases "id_bytes f = None \<or> (\<exists>e. x = Inl e) \<or> refused \<noteq> None")
    case True
    have "files_fit C sha (set_flight f Over s)"
      using fit cores_fit_set_flight[OF c] by (simp add: files_fit_def)
    then show ?thesis using True over o by (auto simp: sink_open_def split: option.split sum.split prod.split)
  next
    case False
    then obtain b k' chunk dn where b: "id_bytes f = Some b" and xi: "x = Inr (k', chunk, dn)" and "refused = None"
      by (cases x) auto
    let ?l = "\<lparr>ly_chunk = chunk, ly_size = sz\<rparr>"
    let ?s1 = "s\<lparr>fc_db := db\<rparr>"
    obtain n s2 where ob: "open_blob f (sealed_offset ?l (dn div chunk)) ?s1 = (n, s2)" by force
    let ?e = "\<lparr>es_sealer = sealer_new k' b ?l (dn div chunk), es_inode = n, es_durable = dn, es_sha256 = h\<rparr>"
    have res: "snd (sink_open f h sz key refused s) = set_flight f (Sinking ?e) s2"
      using b o xi \<open>refused = None\<close> ob by (simp add: sink_open_def Let_def)
    have d1: "dir_fits ?s1" using parts(1) by (simp add: dir_fits_def)
    note pl = open_blob_placed[OF d1 ob]
    let ?t = "set_flight f (Sinking ?e) s2"
    have bound: "fc_dir s g = Some i \<Longrightarrow> i < fc_next s" for g i using parts(1) by (simp add: dir_fits_def)
    have apart_n: "g = f" if "fc_dir s g = Some n" for g
    proof -
      have "fc_dir s f = Some n" using that pl(8) bound[OF that] by auto
      moreover have "inj_on (fc_dir s) (dom (fc_dir s))" using parts(1) by (simp add: dir_fits_def)
      ultimately show ?thesis using that by (metis domI inj_onD)
    qed
    have "dir_fits ?t"
      unfolding dir_fits_def
    proof
      show "inj_on (fc_dir ?t) (dom (fc_dir ?t))"
      proof (rule inj_onI)
        fix g g' assume g: "g \<in> dom (fc_dir ?t)" "g' \<in> dom (fc_dir ?t)" "fc_dir ?t g = fc_dir ?t g'"
        then show "g = g'"
          using pl(1) apart_n[of g] apart_n[of g'] parts(1) by (auto simp: dir_fits_def inj_on_def split: if_splits)
      qed
      show "\<forall>g i. fc_dir ?t g = Some i \<longrightarrow> i < fc_next ?t"
        using pl(1,2,3) bound by (auto split: if_splits intro: less_le_trans)
    qed
    moreover have "rows_fit C sha (cores db) ?t"
      unfolding rows_fit_def
    proof (intro allI impI)
      fix g k m ch v st assume r: "(g, k, m, ch, v, st) \<in> cores db"
      show "length k = 32 \<and> 0 < m \<and> 0 < ch \<and> (st = ''complete'' \<longrightarrow> blob_good C sha ?t g k m ch v)"
      proof (cases "g = f")
        case True
        with r have "(f, k, m, ch, v, st) \<in> cores db" by simp
        from oc(4)[OF xi this] oc(3)[OF xi] sz show ?thesis by simp
      next
        case ne: False
        have "(g, k, m, ch, v, st) \<in> cores (fc_db s)" using oc(2)[OF r] ne by simp
        then have q: "length k = 32 \<and> 0 < m \<and> 0 < ch \<and> (st = ''complete'' \<longrightarrow> blob_good C sha s g k m ch v)"
          using parts(2) unfolding rows_fit_def by blast
        have "blob_good C sha ?t g k m ch v" if good: "blob_good C sha s g k m ch v"
        proof -
          from good obtain i where i: "fc_dir s g = Some i" "in_durable (fc_inode s i)"
            "\<exists>b. id_bytes g = Some b \<and> verify C sha (Some (in_data (fc_inode s i))) k b (nat m) v (nat ch)"
            unfolding blob_good_def by blast
          have "i \<noteq> n" using apart_n i(1) ne by auto
          then have "fc_inode s2 i = fc_inode s i" using pl(7) by simp
          then show ?thesis using i ne pl(1) by (simp add: blob_good_def)
        qed
        then show ?thesis using q by blast
      qed
    qed
    moreover have "sinks_fit (cores db) ?t"
      unfolding sinks_fit_def
    proof (intro allI impI)
      fix g e assume g: "fc_flights ?t g = Some (Sinking e)"
      show "sink_fits ?t (cores db) g e"
      proof (cases "g = f")
        case True
        have "sink_row (cores db) f ?e" unfolding sink_row_def
        proof (intro allI impI)
          fix k m ch v st assume "(f, k, m, ch, v, st) \<in> cores db"
          from oc(4)[OF xi this] show "st \<noteq> ''complete'' \<and> k = sl_key (es_sealer ?e) \<and> m = int (blob_size ?e)
              \<and> ch = int (blob_chunk ?e) \<and> v = es_sha256 ?e" by (simp add: sealer_new_def blob_size_def blob_chunk_def)
        qed
        moreover have "sink_placed ?t f ?e"
          unfolding sink_placed_def
          using pl(1,2) apart_n b oc(3)[OF xi] sz
          by (auto simp: sealer_new_def blob_size_def blob_chunk_def split: if_splits)
        ultimately show ?thesis using g True by (simp add: sink_fits_def)
      next
        case ne: False
        then have e: "fc_flights s g = Some (Sinking e)" using g pl(5) by simp
        then have f: "sink_placed s g e" "sink_row (cores (fc_db s)) g e"
          using parts(3) by (simp_all add: sinks_fit_def sink_fits_def)
        have p: "es_inode e < fc_next s" "\<And>i. fc_dir s i = Some (es_inode e) \<Longrightarrow> i = g"
          "\<And>i. fc_dir s g = Some i \<Longrightarrow> i = es_inode e" "id_bytes g = Some (sl_id (es_sealer e))"
          "0 < blob_chunk e" "0 < blob_size e" "length (sl_key (es_sealer e)) = 32"
          using f(1) unfolding sink_placed_def by blast+
        have en: "es_inode e \<noteq> n" using pl(8) p(1) p(2)[of f] ne by auto
        have dt: "fc_dir ?t i = (if i = f then Some n else fc_dir s i)" for i using pl(1) by simp
        have "sink_placed ?t g e"
          unfolding sink_placed_def
        proof (intro conjI allI impI)
          show "es_inode e < fc_next ?t" using p(1) pl(3) by simp
          show "i = g" if "fc_dir ?t i = Some (es_inode e)" for i
            using that en p(2) unfolding dt by (cases "i = f") auto
          show "i = es_inode e" if "fc_dir ?t g = Some i" for i using that ne p(3) unfolding dt by simp
        qed (rule p)+
        moreover have "sink_row (cores db) g e"
          by (rule sink_row_fewer[OF f(2)]) (erule oc(2), rule disjI1[OF ne])
        ultimately show ?thesis by (simp add: sink_fits_def)
      qed
    qed
    moreover have "sinks_apart ?t"
    proof -
      have new: "es_inode e \<noteq> n" if e: "fc_flights s g = Some (Sinking e)" for g e
      proof -
        have "sink_placed s g e" using parts(3) e by (simp add: sinks_fit_def sink_fits_def)
        then have "es_inode e < fc_next s" "\<forall>i. fc_dir s i = Some (es_inode e) \<longrightarrow> i = g"
          unfolding sink_placed_def by blast+
        moreover have "g \<noteq> f" using e nosink by auto
        ultimately show ?thesis using pl(8) by auto
      qed
      show ?thesis
        using parts(4) pl(5) unfolding sinks_apart_def by (auto split: if_splits dest: new)
    qed
    moreover have "sweep_fits (cores db) ?t" using rest pl(6) by (simp add: sweep_fits_def)
    ultimately have "cores_fit C sha (cores db) ?t" by (simp add: cores_fit_def)
    then show ?thesis using res pl(4) oc(1) by (simp add: files_fit_def)
  qed
qed

section \<open>The journal and the opening\<close>

lemma cores_same [simp]:
  "cores (prune_journal db) = cores db" "cores (forget_paths ps db) = cores db"
  "db_files (prune_journal db) = db_files db" "db_files (forget_paths ps db) = db_files db"
  by (simp_all add: cores_def prune_journal_def forget_paths_def)

lemma cores_fit_dir:
  assumes "cores_fit C sha K s" "\<And>f i. dir f = Some i \<Longrightarrow> fc_dir s f = Some i"
    "\<And>f key sz chunk h. (f, key, sz, chunk, h, ''complete'') \<in> K \<Longrightarrow> dir f = fc_dir s f"
    "\<And>ps. sw \<noteq> Unlinking ps"
  shows "cores_fit C sha K (s\<lparr>fc_dir := dir, fc_sweep := sw\<rparr>)"
proof -
  let ?s = "s\<lparr>fc_dir := dir, fc_sweep := sw\<rparr>"
  have p: "dir_fits s" "rows_fit C sha K s" "sinks_fit K s" "sinks_apart s" using assms(1) by (simp_all add: cores_fit_def)
  have inj: "f = g" if "dir f = Some i" "dir g = Some i" for f g i
  proof -
    have "fc_dir s f = Some i" "fc_dir s g = Some i" using that assms(2) by blast+
    then show ?thesis using p(1) unfolding dir_fits_def by (metis domI inj_onD)
  qed
  have "dir_fits ?s"
    unfolding dir_fits_def
  proof
    show "inj_on (fc_dir ?s) (dom (fc_dir ?s))" by (rule inj_onI) (auto intro: inj)
    show "\<forall>f i. fc_dir ?s f = Some i \<longrightarrow> i < fc_next ?s" using p(1) assms(2) by (auto simp: dir_fits_def)
  qed
  moreover have "rows_fit C sha K ?s"
    unfolding rows_fit_def
  proof (intro allI impI)
    fix f key sz chunk h st assume k: "(f, key, sz, chunk, h, st) \<in> K"
    then have q: "length key = 32 \<and> 0 < sz \<and> 0 < chunk \<and> (st = ''complete'' \<longrightarrow> blob_good C sha s f key sz chunk h)"
      using p(2) unfolding rows_fit_def by blast
    show "length key = 32 \<and> 0 < sz \<and> 0 < chunk \<and> (st = ''complete'' \<longrightarrow> blob_good C sha ?s f key sz chunk h)"
      using q assms(3)[of f key sz chunk h] k by (auto simp: blob_good_def)
  qed
  moreover have "sinks_fit K ?s"
    unfolding sinks_fit_def
  proof (intro allI impI)
    fix f e assume "fc_flights ?s f = Some (Sinking e)"
    then have f: "sink_placed s f e" "sink_row K f e" using p(3) by (simp_all add: sinks_fit_def sink_fits_def)
    note d = sink_placedD[OF f(1)]
    have "g = f" if "fc_dir ?s g = Some (es_inode e)" for g
      by (rule d(2)) (rule assms(2), use that in simp)
    moreover have "i = es_inode e" if "fc_dir ?s f = Some i" for i
      by (rule d(3)) (rule assms(2), use that in simp)
    moreover have "es_inode e < fc_next ?s" using d(1) by simp
    ultimately have "sink_placed ?s f e" using d(4-7) by (intro sink_placedI) blast+
    then show "sink_fits ?s K f e" using f(2) by (simp add: sink_fits_def)
  qed
  moreover have "sinks_apart ?s" using p(4) by (simp add: sinks_apart_def)
  moreover have "sweep_fits K ?s" using assms(4) by (simp add: sweep_fits_def)
  ultimately show ?thesis by (simp add: cores_fit_def)
qed

lemma sweep_fit:
  assumes "files_fit C sha s"
  shows "files_fit C sha (sweep_begins s)" "files_fit C sha (sweep_unlinks refused s)"
    "files_fit C sha (sweep_forgets s)"
proof -
  have c: "cores_fit C sha (cores (fc_db s)) s" and d: "distinct (map cf_id (db_files (fc_db s)))"
    using assms by (simp_all add: files_fit_def)
  have p: "dir_fits s" "rows_fit C sha (cores (fc_db s)) s" "sinks_fit (cores (fc_db s)) s" "sinks_apart s"
    "sweep_fits (cores (fc_db s)) s"
    using c by (simp_all add: cores_fit_def)
  show "files_fit C sha (sweep_begins s)"
  proof -
    let ?ps = "db_deletions (prune_journal (fc_db s))"
    have "blob_path f \<notin> set ?ps" if "(f, key, sz, chunk, h, st) \<in> cores (fc_db s)" for f key sz chunk h st
      using that by (auto simp: cores_def core_def prune_journal_def live_path_def)
    then have "sweep_fits (cores (fc_db s)) (s\<lparr>fc_sweep := Unlinking ?ps\<rparr>)" by (auto simp: sweep_fits_def)
    moreover have "dir_fits (s\<lparr>fc_sweep := w\<rparr>) = dir_fits s" "rows_fit C sha K (s\<lparr>fc_sweep := w\<rparr>) = rows_fit C sha K s"
      "sinks_fit K (s\<lparr>fc_sweep := w\<rparr>) = sinks_fit K s" "sinks_apart (s\<lparr>fc_sweep := w\<rparr>) = sinks_apart s" for w K
      by (simp_all add: dir_fits_def rows_fit_def blob_good_def sinks_fit_def sink_fits_def sink_placed_def sinks_apart_def)
    ultimately have "cores_fit C sha (cores (fc_db s)) (s\<lparr>fc_sweep := Unlinking ?ps\<rparr>)" using p by (simp add: cores_fit_def)
    then have "cores_fit C sha (cores (fc_db s)) ((s\<lparr>fc_sweep := Unlinking ?ps\<rparr>)\<lparr>fc_db := prune_journal (fc_db s)\<rparr>)"
      by simp
    moreover have "sweep_begins s = (s\<lparr>fc_sweep := Unlinking ?ps\<rparr>)\<lparr>fc_db := prune_journal (fc_db s)\<rparr>"
      by (simp add: sweep_begins_def Let_def)
    ultimately show ?thesis using d by (simp add: files_fit_def)
  qed
  show "files_fit C sha (sweep_unlinks refused s)"
  proof (cases "fc_sweep s")
    case (Unlinking ps)
    let ?removed = "filter (\<lambda>p. p \<notin> refused) ps"
    have "cores_fit C sha (cores (fc_db s)) (s\<lparr>fc_dir := unlink ?removed (fc_dir s), fc_sweep := Forgetting ?removed\<rparr>)"
    proof (rule cores_fit_dir[OF c])
      show "fc_dir s f = Some i" if "unlink ?removed (fc_dir s) f = Some i" for f i
        using that by (simp add: unlink_def split: if_splits)
      show "unlink ?removed (fc_dir s) f = fc_dir s f" if "(f, key, sz, chunk, h, ''complete'') \<in> cores (fc_db s)"
        for f key sz chunk h
      proof -
        have "blob_path f \<notin> set ps" using that p(5) Unlinking unfolding sweep_fits_def by blast
        then show ?thesis by (simp add: unlink_def)
      qed
    qed simp
    then show ?thesis using d Unlinking by (simp add: sweep_unlinks_def files_fit_def Let_def)
  qed (use assms in \<open>simp_all add: sweep_unlinks_def\<close>)
  show "files_fit C sha (sweep_forgets s)"
  proof (cases "fc_sweep s")
    case (Forgetting ps)
    have "cores_fit C sha (cores (fc_db s)) (s\<lparr>fc_dir := fc_dir s, fc_sweep := Resting\<rparr>)"
      by (rule cores_fit_dir[OF c]) simp_all
    then have "cores_fit C sha (cores (fc_db s)) ((s\<lparr>fc_sweep := Resting\<rparr>)\<lparr>fc_db := forget_paths ps (fc_db s)\<rparr>)"
      by simp
    moreover have "sweep_forgets s = (s\<lparr>fc_sweep := Resting\<rparr>)\<lparr>fc_db := forget_paths ps (fc_db s)\<rparr>"
      using Forgetting by (simp add: sweep_forgets_def)
    ultimately show ?thesis using d by (simp add: files_fit_def)
  qed (use assms in \<open>simp_all add: sweep_forgets_def\<close>)
qed

lemma sweep_journal_fits: "files_fit C sha s \<Longrightarrow> files_fit C sha (sweep_journal refused s)"
  unfolding sweep_journal_def by (intro sweep_fit)

lemma settle_short_fits:
  assumes fit: "files_fit C sha s" and idle: "\<And>f. fc_flights s f = None" "fc_sweep s = Resting"
    and keys: "\<And>f. length (keys f) = 32"
  shows "files_fit C sha (with_db (settle_short keys r) s)"
proof (cases "cf_pinned r")
  case False
  then have e: "settle_short keys r db = fst (drop_files [cf_id r] db)" for db by (simp add: settle_short_def)
  have d: "distinct (map cf_id (db_files (fc_db s)))" using fit by (simp add: files_fit_def)
  show ?thesis
    by (rule files_fit_fewer[OF fit]) (simp_all only: e drop_files_fewer(1) drop_files_fewer(2)[OF d])
next
  case True
  let ?f = "cf_id r" and ?u = "\<lambda>x :: cached_file. x\<lparr>cf_key := keys (cf_id r), cf_done := 0, cf_state := ''partial''\<rparr>"
  have e: "settle_short keys r = update_file ?f ?u" using True by (simp add: settle_short_def fun_eq_iff)
  have c: "cores_fit C sha (cores (fc_db s)) s" and d: "distinct (map cf_id (db_files (fc_db s)))"
    using fit by (simp_all add: files_fit_def)
  have rf: "rows_fit C sha (cores (fc_db s)) s" "dir_fits s" using c by (simp_all add: cores_fit_def)
  have "rows_fit C sha (cores (update_file ?f ?u (fc_db s))) s"
    unfolding rows_fit_def
  proof (intro allI impI)
    fix g k n ch v st assume m: "(g, k, n, ch, v, st) \<in> cores (update_file ?f ?u (fc_db s))"
    show "length k = 32 \<and> 0 < n \<and> 0 < ch \<and> (st = ''complete'' \<longrightarrow> blob_good C sha s g k n ch v)"
    proof (cases "g = ?f")
      case False
      then have "(g, k, n, ch, v, st) \<in> cores (fc_db s)" using cores_update_other[OF m] by simp
      then show ?thesis using rf(1) unfolding rows_fit_def by blast
    next
      case True
      with m have "(?f, k, n, ch, v, st) \<in> cores (update_file ?f ?u (fc_db s))" by simp
      from cores_update_own[OF this] obtain q where q: "cf_id q = ?f" "(?f, k, n, ch, v, st) = core (?u q)"
        "core q \<in> cores (fc_db s)" by auto
      have "(cf_id q, cf_key q, cf_size q, cf_chunk q, cf_sha256 q, cf_state q) \<in> cores (fc_db s)"
        using q(3) by (simp add: core_def)
      then have "0 < cf_size q \<and> 0 < cf_chunk q" using rf(1) unfolding rows_fit_def by blast
      then show ?thesis using q(2) keys by (simp add: core_def)
    qed
  qed
  then have "cores_fit C sha (cores (update_file ?f ?u (fc_db s))) s"
    using rf(2) idle by (simp add: cores_fit_def sinks_fit_def sinks_apart_def sweep_fits_def)
  then show ?thesis using d by (simp add: files_fit_def e ids_update_file)
qed

lemma with_db_same [simp]: "with_db (\<lambda>db. db) s = s"
  by (simp add: with_db_def)

lemma settle_all_fits:
  assumes "files_fit C sha s" "\<And>f. fc_flights s f = None" "fc_sweep s = Resting" "\<And>f. length (keys f) = 32"
  shows "files_fit C sha (with_db (fold (settle_short keys) rs) s)"
  using assms(1-3)
proof (induction rs arbitrary: s)
  case Nil
  then show ?case by (simp add: id_def)
next
  case (Cons r rs)
  have "files_fit C sha (with_db (settle_short keys r) s)" by (rule settle_short_fits[OF Cons.prems assms(4)])
  from Cons.IH[OF this] show ?case using Cons.prems(2,3) by (simp add: with_db_def)
qed

lemma sweep_journal_fields [simp]:
  "fc_flights (sweep_journal refused s) = fc_flights s" "fc_sweep (sweep_journal refused s) = Resting"
  by (simp_all add: sweep_journal_def sweep_begins_def sweep_unlinks_def sweep_forgets_def Let_def)

lemma resting_same: "fc_sweep s = Resting \<Longrightarrow> s\<lparr>fc_dir := d, fc_sweep := Resting\<rparr> = s\<lparr>fc_dir := d\<rparr>"
  by (cases s) simp

lemma reconcile_fits:
  assumes "files_fit C sha s" "\<And>f. fc_flights s f = None" "\<And>f. length (keys f) = 32"
  shows "files_fit C sha (reconcile refused keys s)"
proof -
  let ?s1 = "sweep_journal refused s"
  let ?named = "cf_id ` set (db_files (fc_db ?s1))"
  let ?s2 = "?s1\<lparr>fc_dir := (\<lambda>f. if f \<in> ?named \<or> blob_path f \<in> refused then fc_dir ?s1 f else None)\<rparr>"
  let ?bad = "filter (short_blob ?s2) (db_files (fc_db ?s2))"
  have f1: "files_fit C sha ?s1" using assms(1) by (rule sweep_journal_fits)
  have "cores_fit C sha (cores (fc_db ?s1)) (?s1\<lparr>fc_dir := fc_dir ?s2, fc_sweep := Resting\<rparr>)"
  proof (rule cores_fit_dir)
    show "cores_fit C sha (cores (fc_db ?s1)) ?s1" using f1 by (simp add: files_fit_def)
    show "fc_dir ?s1 f = Some i" if "fc_dir ?s2 f = Some i" for f i using that by (simp split: if_splits)
    show "fc_dir ?s2 f = fc_dir ?s1 f" if "(f, key, sz, chunk, h, ''complete'') \<in> cores (fc_db ?s1)" for f key sz chunk h
      using that by (auto simp: cores_def core_def)
  qed simp
  moreover have "?s1\<lparr>fc_dir := fc_dir ?s2, fc_sweep := Resting\<rparr> = ?s2"
    using resting_same[of ?s1 "fc_dir ?s2"] by simp
  ultimately have "cores_fit C sha (cores (fc_db ?s1)) ?s2" by (simp only:)
  then have f2: "files_fit C sha ?s2" using f1 by (simp add: files_fit_def)
  have i2: "\<And>f. fc_flights ?s2 f = None" "fc_sweep ?s2 = Resting" using assms(2) by simp_all
  have "files_fit C sha (with_db (fold (settle_short keys) ?bad) ?s2)" by (rule settle_all_fits[OF f2 i2 assms(3)])
  then have "files_fit C sha (sweep_journal refused (?s2\<lparr>fc_db := fold (settle_short keys) ?bad (fc_db ?s2)\<rparr>))"
    using sweep_journal_fits by (simp add: with_db_def)
  then show ?thesis using f2 unfolding reconcile_def Let_def by simp
qed

section \<open>Every step\<close>

lemma listed_row_quiet:
  assumes "files_fit C sha s" "row_of_file f (fc_db s) \<noteq> None"
  shows "files_fit C sha (with_db (\<lambda>db. snd (pin_file f h sz key db)) s)"
proof -
  obtain r where r: "row_of_file f (fc_db s) = Some r" using assms(2) by blast
  let ?u = "\<lambda>r :: cached_file. r\<lparr>cf_pinned := True\<rparr>"
  have "files_fit C sha (with_db (update_file f ?u) s)" by (rule files_fit_quiet_update[OF assms(1)]) (simp add: core_def)
  moreover have "with_db (\<lambda>db. snd (pin_file f h sz key db)) s = (if file_listed f (fc_db s) then with_db (update_file f ?u) s else s)"
    using r by (simp add: with_db_def pin_file_def)
  ultimately show ?thesis using assms(1) by simp
qed

lemma pin_fits:
  assumes fit: "files_fit C sha s" and key: "length key = 32" and sz: "0 < sz"
    and ap: "row_of_file f (fc_db s) \<noteq> None \<or> fc_flights s f = None"
  shows "files_fit C sha (with_db (\<lambda>db. snd (pin_file f h sz key db)) s)"
proof (cases "row_of_file f (fc_db s) = None \<and> file_listed f (fc_db s)")
  case False
  then consider "row_of_file f (fc_db s) \<noteq> None" | "\<not> file_listed f (fc_db s)" by argo
  then show ?thesis
  proof cases
    case 1
    then show ?thesis by (rule listed_row_quiet[OF fit])
  next
    case 2
    then have "with_db (\<lambda>db. snd (pin_file f h sz key db)) s = s" by (simp add: with_db_def pin_file_def)
    then show ?thesis using fit by simp
  qed
next
  case True
  then have nofl: "fc_flights s f = None" using ap by simp
  let ?r = "new_row f h sz key True"
  let ?db = "snd (pin_file f h sz key (fc_db s))"
  have fs: "db_files ?db = db_files (fc_db s) @ [?r]" using True by (simp add: pin_file_def)
  have cr: "core ?r = (f, key, int sz, int chunk_len, h, ''partial'')" "cf_id ?r = f" by (simp_all add: core_def new_row_def)
  have K: "cores ?db = insert (f, key, int sz, int chunk_len, h, ''partial'') (cores (fc_db s))"
    using fs cr(1) by (simp add: cores_def)
  have d: "distinct (map cf_id (db_files (fc_db s)))" and c: "cores_fit C sha (cores (fc_db s)) s"
    using fit by (simp_all add: files_fit_def)
  have p: "dir_fits s" "rows_fit C sha (cores (fc_db s)) s" "sinks_fit (cores (fc_db s)) s" "sinks_apart s"
    "sweep_fits (cores (fc_db s)) s" using c by (simp_all add: cores_fit_def)
  have old: "(g, k, n, ch, v, st) \<in> cores (fc_db s)" if "(g, k, n, ch, v, st) \<in> cores ?db" "st = ''complete'' \<or> g \<noteq> f"
    for g k n ch v st using that K by auto
  have "rows_fit C sha (cores ?db) s"
    unfolding rows_fit_def
  proof (intro allI impI)
    fix g k n ch v st assume "(g, k, n, ch, v, st) \<in> cores ?db"
    then consider "(g, k, n, ch, v, st) \<in> cores (fc_db s)"
      | "k = key" "n = int sz" "ch = int chunk_len" "st = ''partial''" using K by auto
    then show "length k = 32 \<and> 0 < n \<and> 0 < ch \<and> (st = ''complete'' \<longrightarrow> blob_good C sha s g k n ch v)"
    proof cases
      case 1
      then show ?thesis using p(2) unfolding rows_fit_def by blast
    qed (simp add: key sz chunk_len_def)
  qed
  moreover have "sinks_fit (cores ?db) s"
    unfolding sinks_fit_def
  proof (intro allI impI)
    fix g e assume g: "fc_flights s g = Some (Sinking e)"
    then have ne: "g \<noteq> f" using nofl by auto
    have "sink_fits s (cores (fc_db s)) g e" using p(3) g unfolding sinks_fit_def by blast
    then show "sink_fits s (cores ?db) g e"
      by (rule sink_fits_other[OF _ refl refl]) (erule old, rule disjI2[OF ne])
  qed
  moreover have "sweep_fits (cores ?db) s"
    unfolding sweep_fits_def
  proof (intro allI impI)
    fix ps g k n ch v st
    assume w: "fc_sweep s = Unlinking ps" and g: "(g, k, n, ch, v, st) \<in> cores ?db" "blob_path g \<in> set ps"
    from g(1) consider "(g, k, n, ch, v, st) \<in> cores (fc_db s)" | "g = f" "st = ''partial''" using K by auto
    then show "st \<noteq> ''complete'' \<and> (\<forall>e. fc_flights s g \<noteq> Some (Sinking e))"
    proof cases
      case 1
      then show ?thesis using p(5) w g(2) unfolding sweep_fits_def by blast
    qed (simp add: nofl)
  qed
  ultimately have "cores_fit C sha (cores ?db) s" using p(1,4) by (simp add: cores_fit_def)
  moreover have "distinct (map cf_id (db_files ?db))" using d True fs cr(2) by (auto simp: row_of_file_None)
  ultimately show ?thesis by (simp add: files_fit_def)
qed

lemma cache_moves_fits: "files_fit C sha s \<Longrightarrow> files_fit C sha (with_db (cache_moves other gone) s)"
  by (rule files_fit_fewer)
    (use drop_files_fewer[where gone = gone and db = "fc_db s"] in \<open>auto simp: cache_moves_def Let_def cores_def files_fit_def\<close>)

lemma drop_gone_fits: "files_fit C sha s \<Longrightarrow> files_fit C sha (with_db (drop_gone_file f) s)"
proof (rule files_fit_fewer)
  let ?d = "fc_db s\<lparr>db_message_files := filter (\<lambda>m. mf_file m \<noteq> f) (db_message_files (fc_db s))\<rparr>"
  have e: "cores ?d = cores (fc_db s)" "db_files ?d = db_files (fc_db s)" by (simp_all add: cores_def)
  show "cores (drop_gone_file f (fc_db s)) \<subseteq> cores (fc_db s)"
    using drop_files_fewer(1)[of "[f]" ?d] e by (simp add: drop_gone_file_def)
  show "distinct (map cf_id (db_files (drop_gone_file f (fc_db s))))" if "files_fit C sha s"
    using that drop_files_fewer(2)[of ?d "[f]"] e by (simp add: drop_gone_file_def files_fit_def)
qed

lemma sinking_fits:
  assumes fit: "files_fit C sha s"
    and ok: "\<And>e e' s'. fc_flights s f = Some (Sinking e) \<Longrightarrow> op e s = (None, e', s') \<Longrightarrow> files_fit C sha (set_flight f (after e') s')"
    and bad: "\<And>e x e' s'. fc_flights s f = Some (Sinking e) \<Longrightarrow> op e s = (Some x, e', s') \<Longrightarrow>
      files_fit C sha (set_flight f (Aborting e') s')"
  shows "files_fit C sha (snd (sinking f after op s))"
proof (cases "\<exists>e. fc_flights s f = Some (Sinking e)")
  case True
  then obtain e where e: "fc_flights s f = Some (Sinking e)" by blast
  obtain x e' s' where r: "op e s = (x, e', s')" by (cases "op e s") auto
  show ?thesis
  proof (cases x)
    case None
    then show ?thesis using e r ok[OF e] by (simp add: sinking_def)
  next
    case (Some y)
    then show ?thesis using e r bad[OF e] by (simp add: sinking_def)
  qed
next
  case False
  then show ?thesis using fit by (simp add: sinking_def split: option.split file_flight.split)
qed

lemma sinking_op_fits:
  assumes "files_fit C sha s" "op_fits C sha f op"
  shows "files_fit C sha (snd (sinking f Sinking op s))"
proof (rule sinking_fits[OF assms(1)])
  fix e e' s' assume a: "fc_flights s f = Some (Sinking e)" "op e s = (None, e', s')"
  have "case op e s of (None, e', s') \<Rightarrow> files_fit C sha (set_flight f (Sinking e') s')
      | (Some _, e', s') \<Rightarrow> files_fit C sha (set_flight f (Aborting e') s')"
    by (rule assms(2)[unfolded op_fits_def, rule_format, OF assms(1) a(1)])
  then show "files_fit C sha (set_flight f (Sinking e') s')" by (simp add: a(2))
next
  fix e x e' s' assume a: "fc_flights s f = Some (Sinking e)" "op e s = (Some x, e', s')"
  show "files_fit C sha (set_flight f (Aborting e') s')" by (rule op_fits_aborting[OF assms(2,1) a])
qed

lemma flight_changes:
  assumes "files_fit C sha s" "\<And>e. x \<noteq> Sinking e"
  shows "files_fit C sha (set_flight f x s)"
  using assms cores_fit_set_flight[of C sha _ s x f] by (simp add: files_fit_def)

lemma asked_same: "files_fit C sha (s\<lparr>fc_asked := a\<rparr>) = files_fit C sha s"
  by (simp add: files_fit_def)

lemma aborts_fits:
  assumes "files_fit C sha s" "sink_record f fails e s = (x, e', s')"
  shows "files_fit C sha (set_flight f Over s')"
proof -
  have "files_fit C sha s'"
    using assms files_fit_quiet_update[OF assms(1)]
    by (cases fails) (auto simp: sink_record_def Let_def core_def)
  then show ?thesis by (rule flight_changes) simp
qed

lemma files_fit_next:
  assumes fit: "files_fit C sha s" and en: "file_enabled True s ev"
  shows "files_fit C sha (file_next C sha ev s)"
proof (cases ev)
  case (CacheMoves other gone)
  then show ?thesis using cache_moves_fits[OF fit] by (simp add: file_next_def)
next
  case (Pins f h sz key)
  then show ?thesis using pin_fits[OF fit] en by (simp add: file_next_def file_enabled_def)
next
  case (Unpins f)
  have "files_fit C sha (with_db (update_file f (\<lambda>r. r\<lparr>cf_pinned := False\<rparr>)) s)"
    by (rule files_fit_quiet_update[OF fit]) (simp add: core_def)
  moreover have "unpin_file f = update_file f (\<lambda>r. r\<lparr>cf_pinned := False\<rparr>)" by (simp add: unpin_file_def fun_eq_iff)
  ultimately show ?thesis using Unpins by (simp add: file_next_def)
next
  case (Touches f now)
  have "files_fit C sha (with_db (update_file f (\<lambda>r. r\<lparr>cf_last_used := Some now\<rparr>)) s)"
    by (rule files_fit_quiet_update[OF fit]) (simp add: core_def)
  moreover have "touch_file f now = update_file f (\<lambda>r. r\<lparr>cf_last_used := Some now\<rparr>)" by (simp add: touch_file_def fun_eq_iff)
  ultimately show ?thesis using Touches by (simp add: file_next_def)
next
  case (GoneFromServer f)
  then show ?thesis using drop_gone_fits[OF fit] by (simp add: file_next_def)
next
  case (Evicts cap flying just)
  have "files_fit C sha (with_db (\<lambda>db. fst (evict cap flying just db)) s)"
    by (rule files_fit_fewer[OF fit]) (use evict_fewer fit in \<open>auto simp: files_fit_def\<close>)
  then show ?thesis using Evicts by (simp add: file_next_def)
next
  case SweepBegins
  then show ?thesis using sweep_fit(1)[OF fit] by (simp add: file_next_def)
next
  case (SweepUnlinks refused)
  then show ?thesis using sweep_fit(2)[OF fit] by (simp add: file_next_def)
next
  case SweepForgets
  then show ?thesis using sweep_fit(3)[OF fit] by (simp add: file_next_def)
next
  case (Asks n f)
  then show ?thesis using fit by (simp add: file_next_def asked_same)
next
  case (Starts n f)
  then show ?thesis using fit flight_changes[of C sha s Starting f] by (simp add: file_next_def)
next
  case (Answered n f)
  then show ?thesis using fit by (simp add: file_next_def asked_same)
next
  case (SinkOpens f h sz key refused)
  then show ?thesis using sink_open_fits[OF fit] en by (simp add: file_next_def file_enabled_def)
next
  case (SinkWrites f bytes fault)
  then show ?thesis using sinking_op_fits[OF fit write_fits] by (simp add: file_next_def)
next
  case (SinkRestarts f key fault)
  then have "op_fits C sha f (sink_restart f key fault)" using en restart_fits by (simp add: file_enabled_def)
  then show ?thesis using sinking_op_fits[OF fit] SinkRestarts by (simp add: file_next_def)
next
  case (SinkFinishes f h now key fault)
  have "files_fit C sha (snd (sinking f (\<lambda>_. Over) (sink_finish C sha f h now key fault) s))"
  proof (rule sinking_fits[OF fit])
    have key: "length key = 32" using en SinkFinishes by (simp add: file_enabled_def)
    show "files_fit C sha (set_flight f Over s')"
      if "fc_flights s f = Some (Sinking e)" "sink_finish C sha f h now key fault e s = (None, e', s')" for e e' s'
      using finish_fits[OF fit that(1) key that(2)] by simp
    show "files_fit C sha (set_flight f (Aborting e') s')"
      if "fc_flights s f = Some (Sinking e)" "sink_finish C sha f h now key fault e s = (Some x, e', s')" for e x e' s'
      using finish_fits[OF fit that(1) key that(2)] by simp
  qed
  then show ?thesis using SinkFinishes by (simp add: file_next_def)
next
  case (GivesUp f)
  then show ?thesis using fit flight_changes[OF fit] by (simp add: file_next_def split: option.split file_flight.split)
next
  case (Aborts f fails)
  then show ?thesis using fit aborts_fits[OF fit]
    by (auto simp: file_next_def split: option.split file_flight.split prod.split)
next
  case (FlightEnds f)
  have "cores_fit C sha (cores (fc_db s)) (s\<lparr>fc_flights := (fc_flights s)(f := None)\<rparr>)"
    by (rule cores_fit_fewer_sinks) (use fit in \<open>auto simp: files_fit_def split: if_splits\<close>)
  then show ?thesis using FlightEnds fit by (simp add: file_next_def files_fit_def)
qed

text \<open>A crash keeps the rows and whatever is durable; opening again settles the rest.\<close>

lemma reopened_fits:
  assumes fit: "files_fit C sha s" and sv: "survives s dir ino" and dir: "inj_on dir (dom dir)"
    "\<And>f i. dir f = Some i \<Longrightarrow> i < n" and keys: "\<And>f. length (keys f) = 32"
  shows "files_fit C sha (reopened dir ino n refused keys s)"
proof -
  let ?s = "s\<lparr>fc_dir := dir, fc_inode := ino, fc_next := n, fc_flights := (\<lambda>_. None), fc_asked := [], fc_sweep := Resting\<rparr>"
  have r: "rows_fit C sha (cores (fc_db s)) s" using fit by (simp add: files_fit_def cores_fit_def)
  have good: "blob_good C sha ?s f key sz chunk h" if b: "blob_good C sha s f key sz chunk h" for f key sz chunk h
  proof -
    from b obtain i b where i: "fc_dir s f = Some i" "in_durable (fc_inode s i)"
      "id_bytes f = Some b \<and> verify C sha (Some (in_data (fc_inode s i))) key b (nat sz) h (nat chunk)"
      unfolding blob_good_def by blast
    have "dir f = Some i" "ino i = fc_inode s i" using sv i(1,2) unfolding survives_def by blast+
    then show ?thesis using i by (simp add: blob_good_def)
  qed
  have "rows_fit C sha (cores (fc_db s)) ?s"
    unfolding rows_fit_def
  proof (intro allI impI)
    fix f key sz chunk h st assume "(f, key, sz, chunk, h, st) \<in> cores (fc_db s)"
    then have "length key = 32 \<and> 0 < sz \<and> 0 < chunk \<and> (st = ''complete'' \<longrightarrow> blob_good C sha s f key sz chunk h)"
      using r unfolding rows_fit_def by blast
    then show "length key = 32 \<and> 0 < sz \<and> 0 < chunk \<and> (st = ''complete'' \<longrightarrow> blob_good C sha ?s f key sz chunk h)"
      using good by blast
  qed
  then have "files_fit C sha ?s"
    using fit dir by (simp add: files_fit_def cores_fit_def dir_fits_def sinks_fit_def sinks_apart_def sweep_fits_def)
  then show ?thesis unfolding reopened_def by (rule reconcile_fits) (simp_all add: keys)
qed

text \<open>A file cache as it is when its store is made: no row, nothing in flight.\<close>

definition files_begin :: "file_cache \<Rightarrow> bool" where
  "files_begin s \<longleftrightarrow>
     db_files (fc_db s) = [] \<and> (\<forall>f. fc_dir s f = None) \<and> (\<forall>f. fc_flights s f = None) \<and> fc_sweep s = Resting"

lemma files_begin_fit: "files_begin s \<Longrightarrow> files_fit C sha s"
  by (auto simp: files_begin_def files_fit_def fit_defs cores_def inj_on_def)

lemma files_fit_runs: "file_runs C sha True s0 evs s \<Longrightarrow> files_begin s0 \<Longrightarrow> files_fit C sha s"
proof (induction rule: file_runs.induct)
  case begins
  then show ?case by (rule files_begin_fit)
next
  case (happens evs s ev)
  show ?case by (rule files_fit_next[OF happens.IH[OF happens.prems] happens.hyps(2)])
next
  case (reopens evs s dir ino n keys refused)
  show ?case by (rule reopened_fits[OF reopens.IH[OF reopens.prems]]) (use reopens.hyps in auto)
qed

end
