(* ===== verification/File_Kept.thy ===== *)
theory File_Kept
  imports File_Cache_Facts
begin

text \<open>
  What eviction takes and leaves, that an opening keeps the complete files, and what reading one gives.
\<close>

section \<open>Eviction\<close>

lemma sorted_pair: "sorted xs \<Longrightarrow> xs = as @ x # bs \<Longrightarrow> y \<in> set bs \<Longrightarrow> x \<le> y"
  by (auto simp: sorted_append)

text \<open>Sorting by one key and then by another orders by the second, and by the first where it ties.\<close>

lemma sort_twice:
  assumes "sort_key f (sort_key g xs) = as @ x # bs" "y \<in> set bs"
  shows "f x < f y \<or> (f x = f y \<and> g x \<le> g y)"
proof -
  let ?L = "sort_key f (sort_key g xs)"
  have "sorted (map f ?L)" by simp
  then have le: "f x \<le> f y" using sorted_pair[of "map f ?L" "map f as" "f x" "map f bs" "f y"] assms by simp
  show ?thesis
  proof (cases "f x = f y")
    case True
    have "filter (\<lambda>z. f z = f x) ?L = filter (\<lambda>z. f z = f x) (sort_key g xs)" by (rule sort_key_stable)
    then have "sorted (map g (filter (\<lambda>z. f z = f x) ?L))" by (simp add: sorted_filter)
    moreover have "filter (\<lambda>z. f z = f x) ?L = filter (\<lambda>z. f z = f x) as @ x # filter (\<lambda>z. f z = f x) bs"
      using assms(1) by simp
    moreover have "y \<in> set (filter (\<lambda>z. f z = f x) bs)" using assms(2) True by simp
    ultimately have "g x \<le> g y" by (auto simp: sorted_append)
    then show ?thesis using True by simp
  qed (use le in auto)
qed

definition last_use :: "cached_file \<Rightarrow> string" where
  "last_use r = (case cf_last_used r of Some t \<Rightarrow> t | None \<Rightarrow> [])"

text \<open>Which of two files goes first.\<close>

definition goes_first :: "cached_file \<Rightarrow> cached_file \<Rightarrow> bool" where
  "goes_first x y \<longleftrightarrow>
     (cf_state x = ''partial'' \<and> cf_state y \<noteq> ''partial'')
     \<or> ((cf_state x = ''partial'' \<longleftrightarrow> cf_state y = ''partial'') \<and> last_use x \<le> last_use y)"

lemma candidates_ordered:
  "evict_candidates db = as @ x # bs \<Longrightarrow> y \<in> set bs \<Longrightarrow> goes_first x y"
  unfolding evict_candidates_def
  by (drule sort_twice) (auto simp: goes_first_def last_use_def split: if_splits)

lemma candidates_set: "set (evict_candidates db) = {r \<in> set (db_files db). \<not> cf_pinned r}"
  by (auto simp: evict_candidates_def)

lemma candidates_distinct:
  "distinct (map cf_id (db_files db)) \<Longrightarrow> distinct (map cf_id (evict_candidates db))"
proof -
  assume "distinct (map cf_id (db_files db))"
  then have d: "distinct (db_files db)" "inj_on cf_id (set (db_files db))" by (simp_all add: distinct_map)
  have "inj_on cf_id (set (evict_candidates db))" by (rule inj_on_subset[OF d(2)]) (auto simp: candidates_set)
  then show ?thesis using d(1) by (simp add: distinct_map evict_candidates_def)
qed

text \<open>The rows the loop takes: the first of those it may take, just as many as it needs.\<close>

fun taken_rows :: "int \<Rightarrow> int \<Rightarrow> cached_file list \<Rightarrow> cached_file list" where
  "taken_rows cap bytes [] = []"
| "taken_rows cap bytes (r # rs) = (if bytes \<le> cap then [] else r # taken_rows cap (max 0 (bytes - cf_size r)) rs)"

lemma evict_loop_takes:
  assumes "evict_loop cap keep bytes rs db = (db', gone)"
  shows "gone = map cf_id (taken_rows cap bytes (filter (\<lambda>r. cf_id r \<notin> keep) rs))
    \<and> db_files db' = filter (\<lambda>r. cf_id r \<notin> set gone) (db_files db)"
  using assms
proof (induction rs arbitrary: bytes db gone)
  case (Cons r rs)
  show ?case
  proof (cases "bytes \<le> cap \<or> cf_id r \<in> keep")
    case True
    show ?thesis
    proof (cases "bytes \<le> cap")
      case b: True
      have "taken_rows cap bytes xs = []" for xs using b by (cases xs) auto
      then show ?thesis using Cons.prems b by auto
    next
      case False
      then show ?thesis using Cons True by auto
    qed
  next
    case False
    obtain g where g: "evict_loop cap keep (max 0 (bytes - cf_size r)) rs (fst (drop_files [cf_id r] db)) = (db', g)"
      "gone = cf_id r # g" using Cons.prems False by (auto split: prod.splits)
    show ?thesis using Cons.IH[OF g(1)] g(2) False by (auto simp: db_files_drop_files)
  qed
qed auto

lemma taken_prefix: "\<exists>rest. xs = taken_rows cap bytes xs @ rest"
proof (induction xs arbitrary: bytes)
  case (Cons r rs)
  obtain rest where "rs = taken_rows cap (max 0 (bytes - cf_size r)) rs @ rest" using Cons.IH by blast
  then show ?case by auto
qed simp

lemma taken_enough:
  assumes "\<forall>r \<in> set xs. 0 < cf_size r" "sum_list (map cf_size xs) \<le> bytes"
  shows "(taken_rows cap bytes xs = xs \<or> bytes - sum_list (map cf_size (taken_rows cap bytes xs)) \<le> cap)
    \<and> (\<forall>t r. taken_rows cap bytes xs = t @ [r] \<longrightarrow> cap < bytes - sum_list (map cf_size t))"
  using assms
proof (induction xs arbitrary: bytes)
  case (Cons x xs)
  have nn: "0 \<le> sum_list (map cf_size xs)" using Cons.prems(1) by (intro sum_list_nonneg) (auto simp: less_imp_le)
  then have m: "max 0 (bytes - cf_size x) = bytes - cf_size x" using Cons.prems(2) by simp
  have ih: "(taken_rows cap (bytes - cf_size x) xs = xs
        \<or> bytes - cf_size x - sum_list (map cf_size (taken_rows cap (bytes - cf_size x) xs)) \<le> cap)
      \<and> (\<forall>t r. taken_rows cap (bytes - cf_size x) xs = t @ [r] \<longrightarrow> cap < bytes - cf_size x - sum_list (map cf_size t))"
    using Cons.IH[of "bytes - cf_size x"] Cons.prems by simp
  show ?case
  proof (cases "bytes \<le> cap")
    case False
    have "cap < bytes - sum_list (map cf_size t)" if "x # taken_rows cap (bytes - cf_size x) xs = t @ [r]" for t r
    proof (cases t)
      case (Cons y ys)
      then have "x = y \<and> taken_rows cap (bytes - cf_size x) xs = ys @ [r]"
        using that[unfolded Cons append_Cons list.inject] by blast
      then have "taken_rows cap (bytes - cf_size x) xs = ys @ [r]" "y = x" by blast+
      then have "cap < bytes - cf_size x - sum_list (map cf_size ys)" using ih by blast
      then show ?thesis using Cons \<open>y = x\<close> by (simp add: algebra_simps)
    qed (use False in simp)
    then show ?thesis using ih False m by (auto simp: algebra_simps)
  qed simp
qed simp

lemma sum_split: "sum_list (map h (filter P xs)) + sum_list (map h (filter (\<lambda>x. \<not> P x) xs)) = (sum_list (map h xs) :: int)"
  by (induction xs) auto

lemma sum_filter_perm: "mset xs = mset ys \<Longrightarrow> sum_list (map h xs) = (sum_list (map h ys) :: int)"
  by (metis mset_map sum_mset_sum_list)

lemma unpinned_candidates: "unpinned_bytes db = sum_list (map cf_size (evict_candidates db))"
  unfolding unpinned_bytes_def by (rule sum_filter_perm) (simp add: evict_candidates_def)

lemma evict_takes:
  assumes "evict cap flying just db = (db', gone)" "distinct (map cf_id (db_files db))" "\<forall>r \<in> set (db_files db). 0 < cf_size r"
  defines "free \<equiv> filter (\<lambda>r. cf_id r \<notin> insert just flying) (evict_candidates db)"
  obtains took rest where "free = took @ rest" "gone = map cf_id took"
    "db_files db' = filter (\<lambda>r. r \<notin> set took) (db_files db)"
    "unpinned_bytes db' = unpinned_bytes db - sum_list (map cf_size took)"
    "rest = [] \<or> unpinned_bytes db' \<le> cap"
    "\<And>t r. took = t @ [r] \<Longrightarrow> cap < unpinned_bytes db - sum_list (map cf_size t)"
proof -
  define took where "took = taken_rows cap (unpinned_bytes db) free"
  have sub: "set free \<subseteq> {r \<in> set (db_files db). \<not> cf_pinned r}" by (auto simp: free_def candidates_set)
  have none: "taken_rows cap (unpinned_bytes db) xs = []" if "\<not> cap < unpinned_bytes db" for xs using that by (cases xs) auto
  have ev: "gone = map cf_id took \<and> db_files db' = filter (\<lambda>r. cf_id r \<notin> set gone) (db_files db)"
  proof (cases "cap < unpinned_bytes db")
    case True
    then have "evict_loop cap (insert just flying) (unpinned_bytes db) (evict_candidates db) db = (db', gone)"
      using assms(1) by (simp add: evict_def)
    from evict_loop_takes[OF this] show ?thesis by (simp add: took_def free_def)
  next
    case False
    then show ?thesis using assms(1) none[OF False] by (auto simp: evict_def took_def)
  qed
  obtain rest where rest: "free = took @ rest" using taken_prefix took_def by blast
  have inj: "inj_on cf_id (set (db_files db))" using assms(2) by (simp add: distinct_map)
  have took_in: "set took \<subseteq> {r \<in> set (db_files db). \<not> cf_pinned r}" using sub rest by auto
  have files: "db_files db' = filter (\<lambda>r. r \<notin> set took) (db_files db)"
  proof -
    have "cf_id r \<notin> set gone \<longleftrightarrow> r \<notin> set took" if "r \<in> set (db_files db)" for r
      using ev took_in inj that by (auto simp: inj_on_def)
    then show ?thesis using ev by (auto intro: filter_cong)
  qed
  have dc: "distinct (evict_candidates db)" using candidates_distinct[OF assms(2)] by (simp add: distinct_map)
  then have "distinct free" by (simp add: free_def)
  then have dt: "distinct took" unfolding rest by simp
  have sum: "unpinned_bytes db' = unpinned_bytes db - sum_list (map cf_size took)"
  proof -
    let ?u = "filter (\<lambda>r. \<not> cf_pinned r) (db_files db)"
    have d: "distinct ?u" using assms(2) by (simp add: distinct_map)
    have "set (filter (\<lambda>r. r \<in> set took) ?u) = set took" using took_in by auto
    then have "mset (filter (\<lambda>r. r \<in> set took) ?u) = mset took"
      using d dt by (metis distinct_filter set_eq_iff_mset_eq_distinct)
    then have "sum_list (map cf_size (filter (\<lambda>r. r \<in> set took) ?u)) = sum_list (map cf_size took)" by (rule sum_filter_perm)
    moreover have "filter (\<lambda>r. \<not> cf_pinned r) (db_files db') = filter (\<lambda>r. r \<notin> set took) ?u"
      by (simp add: files filter_filter conj_commute)
    ultimately show ?thesis
      using sum_split[of cf_size "\<lambda>r. r \<in> set took" ?u] by (simp add: unpinned_bytes_def)
  qed
  have pos: "\<forall>r \<in> set free. 0 < cf_size r" using assms(3) sub by auto
  have "sum_list (map cf_size free) \<le> unpinned_bytes db"
  proof -
    have "0 \<le> sum_list (map cf_size (filter (\<lambda>r. \<not> cf_id r \<notin> insert just flying) (evict_candidates db)))"
      using assms(3) by (intro sum_list_nonneg) (auto simp: candidates_set less_imp_le)
    then show ?thesis
      using sum_split[of cf_size "\<lambda>r. cf_id r \<notin> insert just flying" "evict_candidates db"]
      by (simp add: free_def unpinned_candidates)
  qed
  note en = taken_enough[OF pos this, of cap, folded took_def]
  show ?thesis
  proof (rule that[OF rest _ files sum])
    show "gone = map cf_id took" using ev by simp
    show "rest = [] \<or> unpinned_bytes db' \<le> cap" using en rest sum by auto
    show "cap < unpinned_bytes db - sum_list (map cf_size t)" if "took = t @ [r]" for t r using en that by blast
  qed
qed

section \<open>Reading\<close>

lemma sealed_reads:
  assumes "tidy C" "0 < ly_chunk l" "0 < ly_size l" "length p = ly_size l" "sealed_file C key i l p = Some blob"
    "\<forall>room \<in> set rooms. 0 < room" "length blob < length rooms"
  shows "read_to_end C rooms (reader_new blob key i l) = (p, Some True)"
proof -
  let ?r = "reader_new blob key i l"
  have rest: "rest_of C ?r = Some p" using rest_of_new[OF assms(1-3)] assms(4,5) by blast
  obtain bytes e where e: "read_to_end C rooms ?r = (bytes, e)" by force
  have "rd_index ?r \<le> chunks (rd_layout ?r)" "left_over ?r < length rooms"
    using assms(7) by (simp_all add: reader_new_def left_over_def)
  then show ?thesis using read_to_end_rest[OF assms(1,6) _ e] rest e by (cases e; cases "the e") auto
qed

lemma complete_row_good:
  assumes "files_fit C sha s" "r \<in> set (db_files (fc_db s))" "cf_state r = ''complete''"
  shows "0 < cf_size r" "0 < cf_chunk r" "blob_good C sha s (cf_id r) (cf_key r) (cf_size r) (cf_chunk r) (cf_sha256 r)"
proof -
  have "core r \<in> cores (fc_db s)" using assms(2) by (simp add: cores_def)
  then have "(cf_id r, cf_key r, cf_size r, cf_chunk r, cf_sha256 r, cf_state r) \<in> cores (fc_db s)" by (simp add: core_def)
  moreover have "rows_fit C sha (cores (fc_db s)) s" using assms(1) by (simp add: files_fit_def cores_fit_def)
  ultimately show "0 < cf_size r" "0 < cf_chunk r"
    "blob_good C sha s (cf_id r) (cf_key r) (cf_size r) (cf_chunk r) (cf_sha256 r)"
    using assms(3) unfolding rows_fit_def by blast+
qed

lemma complete_row_sealed:
  assumes "tidy C" "files_fit C sha s" "r \<in> set (db_files (fc_db s))" "cf_state r = ''complete''"
  obtains i b p where "fc_dir s (cf_id r) = Some i" "in_durable (fc_inode s i)" "id_bytes (cf_id r) = Some b"
    "length p = nat (cf_size r)" "sha p = cf_sha256 r"
    "sealed_file C (cf_key r) b \<lparr>ly_chunk = nat (cf_chunk r), ly_size = nat (cf_size r)\<rparr> p = Some (in_data (fc_inode s i))"
proof -
  note g = complete_row_good[OF assms(2-4)]
  obtain i b where i: "fc_dir s (cf_id r) = Some i" "in_durable (fc_inode s i)" "id_bytes (cf_id r) = Some b"
    and v: "verify C sha (Some (in_data (fc_inode s i))) (cf_key r) b (nat (cf_size r)) (cf_sha256 r) (nat (cf_chunk r))"
    using g(3) unfolding blob_good_def by blast
  have "0 < nat (cf_chunk r)" using g(2) by simp
  from v[unfolded verify_iff[OF assms(1) this]] show ?thesis using that[OF i] by blast
qed

section \<open>Opening again\<close>

lemma sweep_journal_keeps:
  assumes "r \<in> set (db_files (fc_db s))"
  shows "fc_dir (sweep_journal refused s) (cf_id r) = fc_dir s (cf_id r)"
    "db_files (fc_db (sweep_journal refused s)) = db_files (fc_db s)" "fc_inode (sweep_journal refused s) = fc_inode s"
proof -
  have "blob_path (cf_id r) \<notin> set (db_deletions (prune_journal (fc_db s)))"
    using assms by (auto simp: prune_journal_def live_path_def)
  then show "fc_dir (sweep_journal refused s) (cf_id r) = fc_dir s (cf_id r)"
    by (simp add: sweep_journal_def sweep_begins_def sweep_unlinks_def sweep_forgets_def Let_def unlink_def)
  show "db_files (fc_db (sweep_journal refused s)) = db_files (fc_db s)" "fc_inode (sweep_journal refused s) = fc_inode s"
    by (simp_all add: sweep_journal_def sweep_begins_def sweep_unlinks_def sweep_forgets_def Let_def)
qed

lemma settle_short_keeps:
  assumes "r \<in> set (db_files db)" "cf_id q \<noteq> cf_id r"
  shows "r \<in> set (db_files (settle_short keys q db))"
  using assms by (force simp: settle_short_def update_file_def db_files_drop_files)

lemma settle_all_keeps:
  "r \<in> set (db_files db) \<Longrightarrow> \<forall>q \<in> set qs. cf_id q \<noteq> cf_id r \<Longrightarrow> r \<in> set (db_files (fold (settle_short keys) qs db))"
  by (induction qs arbitrary: db) (simp_all add: settle_short_keeps)

lemma reconcile_keeps:
  assumes "r \<in> set (db_files (fc_db s))" "distinct (map cf_id (db_files (fc_db s)))"
    "fc_dir s (cf_id r) = Some i" "needed r \<le> length (in_data (fc_inode s i))"
  shows "r \<in> set (db_files (fc_db (reconcile refused keys s)))" "fc_dir (reconcile refused keys s) (cf_id r) = Some i"
    "fc_inode (reconcile refused keys s) = fc_inode s"
proof -
  let ?s1 = "sweep_journal refused s"
  let ?named = "cf_id ` set (db_files (fc_db ?s1))"
  let ?s2 = "?s1\<lparr>fc_dir := (\<lambda>f. if f \<in> ?named \<or> blob_path f \<in> refused then fc_dir ?s1 f else None)\<rparr>"
  let ?bad = "filter (short_blob ?s2) (db_files (fc_db ?s2))"
  let ?s3 = "?s2\<lparr>fc_db := fold (settle_short keys) ?bad (fc_db ?s2)\<rparr>"
  note k1 = sweep_journal_keeps[OF assms(1), of refused]
  have r2: "r \<in> set (db_files (fc_db ?s2))" using k1(2) assms(1) by simp
  have d2: "fc_dir ?s2 (cf_id r) = Some i" "fc_inode ?s2 = fc_inode s" using k1 assms(1,3) by auto
  have "\<not> short_blob ?s2 r" using d2 assms(4) by (simp add: short_blob_def)
  moreover have "q = r" if "q \<in> set (db_files (fc_db ?s2))" "cf_id q = cf_id r" for q
  proof -
    have "q \<in> set (db_files (fc_db s))" using that(1) k1(2) by simp
    then show ?thesis using assms(1,2) that(2) by (auto simp: distinct_map inj_on_def)
  qed
  ultimately have nb: "\<forall>q \<in> set ?bad. cf_id q \<noteq> cf_id r" by auto
  have r3: "r \<in> set (db_files (fc_db ?s3))" using settle_all_keeps[OF r2 nb] by simp
  note k3 = sweep_journal_keeps[OF r3, of refused]
  have "reconcile refused keys s = (if ?bad = [] then ?s2 else sweep_journal refused ?s3)"
    unfolding reconcile_def Let_def ..
  then show "r \<in> set (db_files (fc_db (reconcile refused keys s)))" "fc_dir (reconcile refused keys s) (cf_id r) = Some i"
    "fc_inode (reconcile refused keys s) = fc_inode s"
    using r2 d2 k3 r3 by (cases "?bad = []"; simp)+
qed

lemma complete_needs: "cf_state r = ''complete'' \<Longrightarrow> needed r = file_len \<lparr>ly_chunk = nat (cf_chunk r), ly_size = nat (cf_size r)\<rparr>"
  by (simp add: needed_def Let_def)

lemma reopened_keeps:
  assumes "tidy C" "files_fit C sha s" "survives s dir ino" "r \<in> set (db_files (fc_db s))" "cf_state r = ''complete''"
  shows "r \<in> set (db_files (fc_db (reopened dir ino n refused keys s)))"
proof -
  let ?s = "s\<lparr>fc_dir := dir, fc_inode := ino, fc_next := n, fc_flights := (\<lambda>_. None), fc_asked := [], fc_sweep := Resting\<rparr>"
  obtain i b p where i: "fc_dir s (cf_id r) = Some i" "in_durable (fc_inode s i)" "length p = nat (cf_size r)"
    "sealed_file C (cf_key r) b \<lparr>ly_chunk = nat (cf_chunk r), ly_size = nat (cf_size r)\<rparr> p = Some (in_data (fc_inode s i))"
    using complete_row_sealed[OF assms(1,2,4,5)] by metis
  have "dir (cf_id r) = Some i" "ino i = fc_inode s i" using assms(3) i(1,2) unfolding survives_def by blast+
  moreover have "length (in_data (fc_inode s i)) = needed r"
    using sealed_file_length[OF assms(1) _ _ i(4)] i(3) complete_row_good(2)[OF assms(2,4,5)] complete_needs[OF assms(5)] by simp
  ultimately have "fc_dir ?s (cf_id r) = Some i" "needed r \<le> length (in_data (fc_inode ?s i))" by simp_all
  moreover have "r \<in> set (db_files (fc_db ?s))" "distinct (map cf_id (db_files (fc_db ?s)))"
    using assms(2,4) by (simp_all add: files_fit_def)
  ultimately show ?thesis unfolding reopened_def by (intro reconcile_keeps(1))
qed

section \<open>Runs one after another\<close>

fun files_allowed :: "cipher \<Rightarrow> (string \<Rightarrow> string) \<Rightarrow> bool \<Rightarrow> file_cache \<Rightarrow> file_event list \<Rightarrow> bool" where
  "files_allowed C sha apart s [] = True"
| "files_allowed C sha apart s (ev # evs) =
     (file_enabled apart s ev \<and> files_allowed C sha apart (file_next C sha ev s) evs)"

lemma allowed_runs:
  "file_runs C sha apart s0 evs s \<Longrightarrow> files_allowed C sha apart s evs' \<Longrightarrow>
   file_runs C sha apart s0 (evs @ evs') (fold (file_next C sha) evs' s)"
proof (induction evs' arbitrary: evs s)
  case (Cons ev evs')
  then have "file_runs C sha apart s0 (evs @ [ev]) (file_next C sha ev s)" by (auto intro: happens)
  from Cons.IH[OF this] Cons.prems(2) show ?case by simp
qed simp

section \<open>A download about to finish\<close>

definition whole_download :: "cipher \<Rightarrow> (string \<Rightarrow> string) \<Rightarrow> string \<Rightarrow> enc_sink \<Rightarrow> nat \<Rightarrow> file_cache \<Rightarrow> bool" where
  "whole_download C sha f e i s \<longleftrightarrow>
     fc_flights s f = Some (Sinking e) \<and> is_complete (es_sealer e) \<and> fc_dir s f = Some i \<and> es_inode e = i
     \<and> verify C sha (Some (in_data (fc_inode s i))) (sl_key (es_sealer e)) (sl_id (es_sealer e)) (blob_size e)
         (es_sha256 e) (blob_chunk e)"

definition finished_row :: "string \<Rightarrow> cached_file \<Rightarrow> cached_file" where
  "finished_row now r = r\<lparr>cf_state := ''complete'', cf_done := cf_size r, cf_last_used := Some now\<rparr>"

lemma whole_download_finishes:
  assumes "whole_download C sha f e i s" "row_of_file f (fc_db s) \<noteq> None"
  shows "file_next C sha (SinkFinishes f (es_sha256 e) now key NoFault) s =
    set_flight f Over (with_db (update_file f (finished_row now)) (mark_durable i s))"
proof -
  have w: "fc_flights s f = Some (Sinking e)" "is_complete (es_sealer e)" "fc_dir s f = Some i" "es_inode e = i"
    and v: "verify C sha (Some (in_data (fc_inode s i))) (sl_key (es_sealer e)) (sl_id (es_sealer e)) (blob_size e)
         (es_sha256 e) (blob_chunk e)"
    using assms(1) by (auto simp: whole_download_def)
  have "sink_finish C sha f (es_sha256 e) now key NoFault e s =
      (None, e, with_db (update_file f (finished_row now)) (mark_durable i s))"
    using w(2,3,4) v assms(2) by (auto simp: sink_finish_def mark_durable_def finished_row_def[abs_def] Let_def)
  then show ?thesis using w(1) by (simp add: file_next_def sinking_def)
qed

lemma find_updated:
  "(\<And>r. cf_id (g r) = cf_id r) \<Longrightarrow>
   find (\<lambda>r. cf_id r = f) (map (\<lambda>r. if cf_id r = f then g r else r) rs) = map_option g (find (\<lambda>r. cf_id r = f) rs)"
  by (induction rs) auto

lemma row_of_file_updated:
  "(\<And>r. cf_id (g r) = cf_id r) \<Longrightarrow> row_of_file f (update_file f g db) = map_option g (row_of_file f db)"
  unfolding row_of_file_def update_file_def by (simp add: find_updated)

end
