(* ===== verification/File_Properties.thy ===== *)
theory File_Properties
  imports File_Kept
begin

text \<open>
  The properties of sealed snapshots and of the file cache.
\<close>

section \<open>A cipher to try them with\<close>

text \<open>It only marks a text with its key, but that is enough to be tidy and to refuse another key.\<close>

definition key_mark :: "string \<Rightarrow> string" where
  "key_mark k = take 16 (k @ replicate 16 CHR ''0'')"

definition marking :: cipher where
  "marking = \<lparr>ci_seal = (\<lambda>k n a p. Some (p @ key_mark k)),
     ci_open = (\<lambda>k n a c. if 16 \<le> length c \<and> drop (length c - 16) c = key_mark k
                           then Some (take (length c - 16) c) else None)\<rparr>"

lemma marking_tidy: "tidy marking"
proof -
  have l: "length (key_mark k) = 16" for k by (simp add: key_mark_def)
  have "(if 16 \<le> length c \<and> drop (length c - 16) c = key_mark k then Some (take (length c - 16) c) else None) = Some p
      \<longleftrightarrow> p @ key_mark k = c" for k c p
    using l[of k] append_take_drop_id[of "length c - 16" c] by (auto simp del: append_take_drop_id)
  then show ?thesis by (simp add: tidy_def marking_def tag_len_def l)
qed

definition key_a :: string where "key_a = replicate 32 CHR ''a''"
definition key_b :: string where "key_b = replicate 32 CHR ''b''"

definition quiet_copy :: "string \<Rightarrow> copy_env" where
  "quiet_copy src = \<lparr>ce_source = Some src, ce_total = 0, ce_read_fails = (\<lambda>_. False), ce_write_fails = (\<lambda>_. False),
     ce_goes_on = (\<lambda>_ _. True), ce_sync_fails = False\<rparr>"

section \<open>Snapshots\<close>

text \<open>
  C31. What \<open>write\<close> sealed, whatever the source, passes the check that sending makes, with the size
  and the digest it answered, and a reader over it gives the source's bytes and then the end, however
  its buffers are cut.
\<close>

theorem snapshot_reads_back:
  assumes "tidy C" "0 < chunk" "ce_source env = Some src"
    and "write_snapshot C sha key i chunk mx env made dst = (Inr w, dst')"
    and "\<forall>room \<in> set rooms. 0 < room" "length (the dst') < length rooms"
  shows "wr_size w = length src \<and> wr_sha256 w = sha src
    \<and> verify C sha dst' key i (wr_size w) (wr_sha256 w) chunk
    \<and> read_to_end C rooms (reader_new (the dst') key i \<lparr>ly_chunk = chunk, ly_size = wr_size w\<rparr>) = (src, Some True)"
proof -
  let ?l = "\<lparr>ly_chunk = chunk, ly_size = length src\<rparr>"
  have w: "wr_size w = length src" "wr_sha256 w = sha src" "src \<noteq> []" "dst' = sealed_file C key i ?l src" "dst' \<noteq> None"
    using write_snapshot_sealed[OF assms(2,4,3)] by auto
  then obtain blob where b: "dst' = Some blob" "sealed_file C key i ?l src = Some blob" by auto
  have v: "verify C sha dst' key i (wr_size w) (wr_sha256 w) chunk"
    unfolding verify_iff[OF assms(1,2)] using b w by auto
  have "read_to_end C rooms (reader_new blob key i ?l) = (src, Some True)"
    by (rule sealed_reads[OF assms(1) _ _ _ b(2) assms(5)]) (use assms(2,6) w(3) b(1) in simp_all)
  then show ?thesis using w(1,2) v b(1) by (metis option.sel)
qed

theorem snapshot_reads_back_witness:
  "\<exists>w dst'. write_snapshot marking (\<lambda>b. b) key_a (replicate 16 CHR ''i'') 4 100 (quiet_copy ''sixteen'') True None = (Inr w, dst')
    \<and> verify marking (\<lambda>b. b) dst' key_a (replicate 16 CHR ''i'') (wr_size w) ''sixteen'' 4"
proof -
  let ?i = "replicate 16 CHR ''i''"
  obtain w dst' where r: "write_snapshot marking (\<lambda>b. b) key_a ?i 4 100 (quiet_copy ''sixteen'') True None = (Inr w, dst')"
    "wr_sha256 w = ''sixteen''"
  proof (rule that[of "\<lparr>wr_key = key_a, wr_size = 7, wr_sha256 = ''sixteen''\<rparr>"
        "snd (write_snapshot marking (\<lambda>b. b) key_a ?i 4 100 (quiet_copy ''sixteen'') True None)"])
    have "fst (write_snapshot marking (\<lambda>b. b) key_a ?i 4 100 (quiet_copy ''sixteen'') True None) =
        Inr \<lparr>wr_key = key_a, wr_size = 7, wr_sha256 = ''sixteen''\<rparr>" by code_simp
    then show "write_snapshot marking (\<lambda>b. b) key_a ?i 4 100 (quiet_copy ''sixteen'') True None =
        (Inr \<lparr>wr_key = key_a, wr_size = 7, wr_sha256 = ''sixteen''\<rparr>,
         snd (write_snapshot marking (\<lambda>b. b) key_a ?i 4 100 (quiet_copy ''sixteen'') True None))"
      by (metis prod.collapse)
  qed simp
  have "ce_source (quiet_copy ''sixteen'') = Some ''sixteen''" by (simp add: quiet_copy_def)
  from snapshot_reads_back[OF marking_tidy _ this r(1), of "replicate (Suc (length (the dst'))) 1"] r
  show ?thesis by auto
qed

text \<open>
  The check of a sealed file passes exactly for the sealed form of a text with that size and
  that digest: of a text cut short, run on, with its chunks in another order, under another key or
  another id it passes only if those bytes are that form too.
\<close>

lemma check_takes_only_the_text:
  assumes "tidy C" "0 < chunk"
  shows "verify C sha file key i sz sha256 chunk \<longleftrightarrow>
    (\<exists>blob p. file = Some blob \<and> sz \<noteq> 0 \<and> length p = sz \<and> sha p = sha256
       \<and> sealed_file C key i \<lparr>ly_chunk = chunk, ly_size = sz\<rparr> p = Some blob)"
  by (rule verify_iff[OF assms])

lemma check_takes_only_the_text_witness:
  "\<not> verify marking (\<lambda>b. b) (Some (replicate 17 CHR ''z'')) key_a (replicate 16 CHR ''i'') 1 ''z'' 4"
proof -
  have "sealed_file marking key_a (replicate 16 CHR ''i'') \<lparr>ly_chunk = 4, ly_size = 1\<rparr> p = Some (take 4 p @ key_mark key_a)" for p
    by (simp add: sealed_file_def sealed_range_def chunks_def seal_chunk_def marking_def slice_def upt_rec)
  moreover have "''z'' @ key_mark key_a \<noteq> replicate 17 CHR ''z''" by code_simp
  ultimately show ?thesis
    using check_takes_only_the_text[OF marking_tidy, of 4 "\<lambda>b. b" "Some (replicate 17 CHR ''z'')" key_a
        "replicate 16 CHR ''i''" 1 "''z''"] by auto
qed

text \<open>
  A sealer fed a text in any pieces writes, when it is complete, what one pass over the
  whole text would: the same file as a snapshot of it.
\<close>

fun feed :: "cipher \<Rightarrow> sealer \<Rightarrow> string list \<Rightarrow> sealer \<times> string option" where
  "feed C s [] = (s, Some [])"
| "feed C s (b # bs) =
     (case push C s b of
        (s, Inl e) \<Rightarrow> (s, None)
      | (s, Inr out) \<Rightarrow> (case feed C s bs of (s, r) \<Rightarrow> (s, map_option ((@) out) r)))"

lemma feed_fed:
  assumes "0 < ly_chunk (sl_layout s)" "fed C s p out" "feed C s bs = (s', Some new)"
  shows "fed C s' (p @ concat bs) (out @ new) \<and> sl_key s' = sl_key s \<and> sl_id s' = sl_id s \<and> sl_layout s' = sl_layout s"
  using assms
proof (induction bs arbitrary: s p out new)
  case (Cons b bs)
  obtain t r where t: "push C s b = (t, r)" by force
  then obtain o1 where o1: "r = Inr o1" using Cons.prems(3) by (cases r) auto
  have k: "sl_key t = sl_key s" "sl_id t = sl_id s" "sl_layout t = sl_layout s" "fed C t (p @ b) (out @ o1)"
    using push_fed[OF Cons.prems(1,2) t] o1 by simp_all
  obtain o2 where o2: "feed C t bs = (s', Some o2)" "new = o1 @ o2"
    using Cons.prems(3) t o1 by (auto split: prod.splits)
  show ?case using Cons.IH[OF _ k(4) o2(1)] Cons.prems(1) k o2(2) by simp
qed simp

lemma sealer_writes_the_same_file:
  assumes "0 < chunk" "0 < sz"
    and "feed C (sealer_new key i \<lparr>ly_chunk = chunk, ly_size = sz\<rparr> 0) pieces = (s, Some out)" "is_complete s"
  shows "length (concat pieces) = sz \<and> sealed_file C key i \<lparr>ly_chunk = chunk, ly_size = sz\<rparr> (concat pieces) = Some out"
proof -
  let ?s = "sealer_new key i \<lparr>ly_chunk = chunk, ly_size = sz\<rparr> 0"
  have "fed C ?s [] []" using assms(1,2) by (intro fed_new) simp_all
  then have "fed C s ([] @ concat pieces) ([] @ out) \<and> sl_key s = sl_key ?s \<and> sl_id s = sl_id ?s \<and> sl_layout s = sl_layout ?s"
    by (rule feed_fed[rotated, OF _ assms(3)]) (simp add: sealer_new_def assms(1))
  then show ?thesis using fed_complete[OF _ assms(4)] by (auto simp: sealer_new_def)
qed

lemma sealer_writes_the_same_file_witness:
  "sealed_file marking key_a ''i'' \<lparr>ly_chunk = 4, ly_size = 7\<rparr> ''sixteen'' =
     snd (feed marking (sealer_new key_a ''i'' \<lparr>ly_chunk = 4, ly_size = 7\<rparr> 0) [''s'', ''ixtee'', ''n''])"
proof -
  let ?f = "feed marking (sealer_new key_a ''i'' \<lparr>ly_chunk = 4, ly_size = 7\<rparr> 0) [''s'', ''ixtee'', ''n'']"
  have "is_complete (fst ?f) \<and> snd ?f \<noteq> None" by code_simp
  then obtain s out where f: "?f = (s, Some out)" "is_complete s" by (cases ?f) auto
  from sealer_writes_the_same_file[OF _ _ f] f(1) show ?thesis by simp
qed

section \<open>A cache to try them on\<close>

text \<open>One listed file of one byte, asked for by two callers; one starts its download, which is all written.\<close>

definition file_one :: string where "file_one = replicate 32 CHR ''1''"
definition id_one :: string where "id_one = replicate 16 (char_of (17 :: nat))"
definition listing :: cache_db where
  "listing = empty_cache\<lparr>db_message_files := [\<lparr>mf_file = file_one, mf_message = ''m'', mf_channel = ''c''\<rparr>]\<rparr>"

definition new_files :: file_cache where
  "new_files = \<lparr>fc_db = listing, fc_dir = (\<lambda>_. None), fc_inode = (\<lambda>_. \<lparr>in_data = [], in_durable = False\<rparr>), fc_next = 0,
     fc_flights = (\<lambda>_. None), fc_asked = [], fc_sweep = Resting\<rparr>"

lemma id_bytes_one: "id_bytes file_one = Some id_one"
  by code_simp

definition start_events :: "file_event list" where
  "start_events = [Asks 0 file_one, Asks 1 file_one, Starts 0 file_one, SinkOpens file_one ''z'' 1 key_a None]"

definition one_sealer :: "nat \<Rightarrow> sealer" where
 "one_sealer k = sealer_new key_a id_one \<lparr>ly_chunk = chunk_len, ly_size = 1\<rparr> k"

definition one_sink :: "nat \<Rightarrow> enc_sink" where
  "one_sink k = \<lparr>es_sealer = one_sealer k, es_inode = 0, es_durable = 0, es_sha256 = ''z''\<rparr>"

definition one_row :: cached_file where
  "one_row = new_row file_one ''z'' 1 key_a False"

definition opened :: file_cache where
  "opened = \<lparr>fc_db = listing\<lparr>db_files := [one_row]\<rparr>,
     fc_dir = [file_one \<mapsto> 0], fc_inode = (\<lambda>_. \<lparr>in_data = [], in_durable = False\<rparr>), fc_next = 1,
     fc_flights = [file_one \<mapsto> Sinking (one_sink 0)], fc_asked = [(1, file_one), (0, file_one)], fc_sweep = Resting\<rparr>"

lemma start_opens: "fold (file_next marking sha) start_events new_files = opened" 
  by (simp add: start_events_def file_next_def new_files_def Let_def sink_open_def id_bytes_one open_row_def usable_row_def
    row_of_file_def listing_def empty_cache_def fresh_row_def file_listed_def set_flight_def open_blob_def put_data_def
   set_len_def sealed_offset_def opened_def one_sink_def one_row_def one_sealer_def fun_eq_iff)

lemma start_allowed: "files_allowed marking sha apart new_files start_events"
  by (simp add: start_events_def file_next_def new_files_def Let_def sink_open_def id_bytes_one open_row_def usable_row_def
    row_of_file_def listing_def empty_cache_def fresh_row_def file_listed_def set_flight_def open_blob_def put_data_def
   set_len_def sealed_offset_def opened_def one_sink_def one_row_def one_sealer_def fun_eq_iff file_enabled_def is_complete_row_def key_a_def)

definition written_one :: file_cache where
  "written_one = opened\<lparr>fc_inode := (\<lambda>_. \<lparr>in_data = [], in_durable = False\<rparr>)(0 := \<lparr>in_data = ''z'' @ key_mark key_a, in_durable = False\<rparr>),
    fc_flights := [file_one \<mapsto> Sinking (one_sink 1)]\<rparr>"

lemma push_one: "push marking (one_sealer 0) ''z'' = (one_sealer 1, Inr (''z'' @ key_mark key_a))"
  by (simp add: push.simps Let_def one_sealer_def sealer_new_def chunks_def chunk_len_def plain_len_def seal_chunk_def marking_def)

lemma write_one: "file_next marking sha (SinkWrites file_one ''z'' NoFault) opened = written_one"
  apply (simp add: file_next_def sinking_def opened_def written_one_def one_sink_def sink_write_def push_one set_flight_def put_data_def Let_def)
  apply (simp add: sync_every_def blob_chunk_def one_sealer_def sealer_new_def fun_eq_iff)
  done

lemma runs_to_written:
  "file_runs marking sha apart new_files (start_events @ [SinkWrites file_one ''z'' NoFault]) written_one"
proof -
  have "file_runs marking sha apart new_files start_events opened"
    using allowed_runs[OF begins start_allowed] start_opens by (metis append_Nil)
  from happens[OF this, of "SinkWrites file_one ''z'' NoFault"] show ?thesis by (simp add: write_one file_enabled_def)
qed

lemma new_files_begin: "files_begin new_files"
  by (simp add: files_begin_def new_files_def listing_def empty_cache_def)

lemma sealed_one: "sealed_file marking k i \<lparr>ly_chunk = chunk_len, ly_size = 1\<rparr> p = Some (take chunk_len p @ key_mark k)"
  by (simp add: sealed_file_def sealed_range_def chunks_def chunk_len_def seal_chunk_def marking_def slice_def upt_rec)

lemma whole_one: "whole_download marking (\<lambda>b. b) file_one (one_sink 1) 0 written_one"
proof -
  have "verify marking (\<lambda>b. b) (Some (''z'' @ key_mark key_a)) key_a id_one 1 ''z'' chunk_len"
  proof -
    have c: "0 < chunk_len" by (simp add: chunk_len_def)
    then have "take chunk_len ''z'' = ''z''" by (simp add: take_Cons')
    then have "sealed_file marking key_a id_one \<lparr>ly_chunk = chunk_len, ly_size = 1\<rparr> ''z'' = Some (''z'' @ key_mark key_a)"
      unfolding sealed_one by simp
    then show ?thesis unfolding verify_iff[OF marking_tidy c]
      by (intro exI[of _ "''z'' @ key_mark key_a"] exI[of _ "''z''"]) simp
  qed
  moreover have "is_complete (one_sealer 1)"
    by (simp add: is_complete_def one_sealer_def sealer_new_def chunks_def chunk_len_def)
  ultimately show ?thesis
    by (simp add: whole_download_def written_one_def opened_def one_sink_def one_sealer_def sealer_new_def blob_size_def
        blob_chunk_def)
qed

lemma row_one: "row_of_file file_one (fc_db written_one) = Some one_row"
  by (simp add: written_one_def opened_def row_of_file_def listing_def one_row_def new_row_def)

section \<open>Complete files\<close>


definition finished_one :: file_cache where
  "finished_one = file_next marking (\<lambda>b. b) (SinkFinishes file_one ''z'' ''t'' key_b NoFault) written_one"

lemma finished_one_is: "finished_one =
    set_flight file_one Over (with_db (update_file file_one (finished_row ''t'')) (mark_durable 0 written_one))"
  using whole_download_finishes[OF whole_one, of "''t''" key_b] row_one by (simp add: finished_one_def one_sink_def)

lemma runs_to_finished:
  "file_runs marking (\<lambda>b. b) apart new_files
     ((start_events @ [SinkWrites file_one ''z'' NoFault]) @ [SinkFinishes file_one ''z'' ''t'' key_b NoFault]) finished_one"
  unfolding finished_one_def by (rule happens[OF runs_to_written]) (simp add: file_enabled_def key_b_def)

lemma row_finished: "finished_row ''t'' one_row \<in> set (db_files (fc_db finished_one))"
  by (simp add: finished_one_is written_one_def opened_def update_file_def mark_durable_def one_row_def new_row_def)


text \<open>
  The sweep of the journal works from a list it took earlier: yet when it unlinks, no blob of a
  complete file goes, nor the blob a listed download is writing.
\<close>

lemma sweep_spares_live_files:
  assumes "files_begin s0" "file_runs C sha True s0 evs s" "r \<in> set (db_files (fc_db s))"
    and "cf_state r = ''complete'' \<or> fc_flights s (cf_id r) = Some (Sinking e)"
  shows "fc_dir (sweep_unlinks refused s) (cf_id r) = fc_dir s (cf_id r)"
proof (cases "fc_sweep s")
  case (Unlinking ps)
  have "sweep_fits (cores (fc_db s)) s" using files_fit_runs[OF assms(2,1)] by (simp add: files_fit_def cores_fit_def)
  moreover have "(cf_id r, cf_key r, cf_size r, cf_chunk r, cf_sha256 r, cf_state r) \<in> cores (fc_db s)"
    using assms(3) by (auto simp: cores_def core_def)
  ultimately have "blob_path (cf_id r) \<notin> set ps" using Unlinking assms(4) unfolding sweep_fits_def by blast
  then show ?thesis using Unlinking by (simp add: sweep_unlinks_def unlink_def Let_def)
qed (simp_all add: sweep_unlinks_def)

lemma sweep_spares_live_files_witness:
  "fc_dir (sweep_unlinks {} finished_one) file_one = Some 0"
proof -
  have "cf_id (finished_row ''t'' one_row) = file_one" by (simp add: finished_row_def one_row_def new_row_def)
  moreover have "fc_dir finished_one file_one = Some 0" by (simp add: finished_one_is mark_durable_def written_one_def opened_def)
  ultimately show ?thesis
    using sweep_spares_live_files[OF new_files_begin runs_to_finished row_finished, of undefined "{}"]
    by (simp add: finished_row_def)
qed

text \<open>
  C26. Eviction takes unpinned files only, none that was just finished or is in flight; of those it may take
  it takes a front part in the order partials first, then the least recently used; it stops at the
  first moment the rest fits under the cap, and goes on until then while there is something to take.
\<close>

lemma filter_splits: "filter P xs = us @ vs \<Longrightarrow> \<exists>as bs. xs = as @ bs \<and> filter P as = us \<and> filter P bs = vs"
proof (induction us arbitrary: xs)
  case Nil
  then show ?case by (intro exI[of _ "[]"] exI[of _ xs]) simp
next
  case (Cons u us)
  then obtain a b where "xs = a @ u # b" "filter P a = []" "P u" "filter P b = us @ vs"
    by (auto simp: filter_eq_Cons_iff filter_empty_conv)
  moreover from this(4) Cons.IH obtain as bs where "b = as @ bs" "filter P as = us" "filter P bs = vs" by blast
  ultimately show ?case by (intro exI[of _ "a @ u # as"] exI[of _ bs]) simp
qed

theorem eviction_is_lru:
  assumes "evict cap flying just db = (db', gone)"
    and "distinct (map cf_id (db_files db))" "\<forall>r \<in> set (db_files db). 0 < cf_size r"
  shows "\<exists>took. gone = map cf_id took \<and> db_files db' = filter (\<lambda>r. r \<notin> set took) (db_files db)
    \<and> (\<forall>r \<in> set took. \<not> cf_pinned r \<and> cf_id r \<noteq> just \<and> cf_id r \<notin> flying)
    \<and> (\<forall>x \<in> set took. \<forall>y \<in> set (db_files db').
         cf_pinned y \<or> cf_id y = just \<or> cf_id y \<in> flying \<or> goes_first x y)
    \<and> (unpinned_bytes db' \<le> cap \<or> (\<forall>y \<in> set (db_files db'). cf_pinned y \<or> cf_id y = just \<or> cf_id y \<in> flying))
    \<and> (\<forall>t r. took = t @ [r] \<longrightarrow> cap < unpinned_bytes db - sum_list (map cf_size t))"
proof -
  let ?may = "\<lambda>r. cf_id r \<notin> insert just flying"
  obtain took rest where t: "filter ?may (evict_candidates db) = took @ rest" "gone = map cf_id took"
    "db_files db' = filter (\<lambda>r. r \<notin> set took) (db_files db)"
    "unpinned_bytes db' = unpinned_bytes db - sum_list (map cf_size took)"
    "rest = [] \<or> unpinned_bytes db' \<le> cap"
    "\<And>t r. took = t @ [r] \<Longrightarrow> cap < unpinned_bytes db - sum_list (map cf_size t)"
    by (rule evict_takes[OF assms]) blast
  have may: "r \<in> set (took @ rest) \<longleftrightarrow> r \<in> set (db_files db) \<and> \<not> cf_pinned r \<and> ?may r" for r
    unfolding t(1)[symmetric] by (simp add: candidates_set)
  have ord: "goes_first x y" if "x \<in> set took" "y \<in> set rest" for x y
  proof -
    obtain us vs where c: "evict_candidates db = us @ vs" "filter ?may us = took" "filter ?may vs = rest"
      using filter_splits[OF t(1)] by blast
    have "x \<in> set us" using that(1) c(2) by auto
    then obtain as bs where "us = as @ x # bs" by (meson split_list)
    moreover have "y \<in> set vs" using that(2) c(3) by auto
    ultimately show ?thesis using candidates_ordered[of db as x "bs @ vs" y] c(1) by simp
  qed
  have left: "y \<in> set rest" if "y \<in> set (db_files db')" "\<not> cf_pinned y" "?may y" for y
    using that may[of y] t(3) by auto
  show ?thesis
  proof (intro exI conjI)
    show "\<forall>r \<in> set took. \<not> cf_pinned r \<and> cf_id r \<noteq> just \<and> cf_id r \<notin> flying" using may by auto
    show "\<forall>x \<in> set took. \<forall>y \<in> set (db_files db'). cf_pinned y \<or> cf_id y = just \<or> cf_id y \<in> flying \<or> goes_first x y"
      using ord left by auto
    show "unpinned_bytes db' \<le> cap \<or> (\<forall>y \<in> set (db_files db'). cf_pinned y \<or> cf_id y = just \<or> cf_id y \<in> flying)"
      using t(5) left by fastforce
  qed (use t in auto)
qed

definition aged :: "string \<Rightarrow> string \<Rightarrow> bool \<Rightarrow> cached_file" where
  "aged f t p = \<lparr>cf_id = f, cf_sha256 = ''h'', cf_size = 10, cf_key = key_a, cf_chunk = 4, cf_state = ''complete'',
     cf_done = 10, cf_pinned = p, cf_last_used = Some t\<rparr>"

definition four_files :: cache_db where
  "four_files = empty_cache\<lparr>db_files := [aged ''new'' ''3'' False, aged ''kept'' ''0'' True, aged ''old'' ''1'' False,
     aged ''mid'' ''2'' False]\<rparr>"

theorem eviction_is_lru_witness:
  "\<exists>took :: cached_file list. map cf_id took = [''old'', ''mid''] \<and> (\<forall>r \<in> set took. \<not> cf_pinned r)"
proof -
  have "snd (evict 10 {} ''x'' four_files) = [''old'', ''mid'']" by code_simp
  then obtain db' where e: "evict 10 {} ''x'' four_files = (db', [''old'', ''mid''])"
    by (cases "evict 10 {} ''x'' four_files") auto
  have "distinct (map cf_id (db_files four_files))" "\<forall>r \<in> set (db_files four_files). 0 < cf_size r"
    by (simp_all add: four_files_def aged_def)
  from eviction_is_lru[OF e this] obtain took :: "cached_file list" where "[''old'', ''mid''] = map cf_id took"
    "\<forall>r \<in> set took. \<not> cf_pinned r \<and> cf_id r \<noteq> ''x'' \<and> cf_id r \<notin> {}"
    by (elim exE conjE) (rule that; assumption)
  then show ?thesis by (intro exI[of _ took]) simp
qed

section \<open>What goes wrong\<close>

lemma find_snoc: "find P xs = None \<Longrightarrow> P x \<Longrightarrow> find P (xs @ [x]) = Some x"
  by (induction xs) (auto split: if_splits)

text \<open>
  \<open>pin_file\<close> does not look at the downloads in flight. When the cache drops a file whose
  download is all written, a message lists it again and it is pinned, the pin's row has a new key,
  and the download then marks that row complete. Nothing reads the file any more: its blob is sealed
  under the old key, and as the row is complete no download is asked for.
\<close>

lemma pin_spoils_running_download:
  assumes "tidy C" "whole_download C sha f e i s" "id_bytes f = Some b" "0 < sz" "length key = 32" "length key' = 32"
    and "file_listed f other"
    and new_key: "\<And>p. length p = sz \<Longrightarrow> sealed_file C key b \<lparr>ly_chunk = chunk_len, ly_size = sz\<rparr> p \<noteq> Some (in_data (fc_inode s i))"
  shows "\<exists>s' r src.
    file_runs C sha False s [CacheMoves other [f], Pins f h sz key, SinkFinishes f (es_sha256 e) now key' NoFault] s'
    \<and> usable_row f (fc_db s') = Some r \<and> cf_pinned r \<and> cf_state r = ''complete'' \<and> cached_source s' r = Some src
    \<and> (\<forall>rooms. list_all ((<) 0) rooms \<longrightarrow> snd (read_to_end C rooms src) \<noteq> Some True)
    \<and> (\<forall>n. \<not> file_enabled False s' (Asks n f))"
proof -
  let ?s1 = "with_db (cache_moves other [f]) s"
  let ?s2 = "with_db (\<lambda>db. snd (pin_file f h sz key db)) ?s1"
  let ?s3 = "set_flight f Over (with_db (update_file f (finished_row now)) (mark_durable i ?s2))"
  let ?row = "new_row f h sz key True" and ?l = "\<lparr>ly_chunk = chunk_len, ly_size = sz\<rparr>"
  have r1: "row_of_file f (cache_moves other [f] db) = None" "file_listed f (cache_moves other [f] db)" for db
    using assms(7) by (auto simp: row_of_file_None cache_moves_def Let_def db_files_drop_files file_listed_def)
  have r2: "row_of_file f (snd (pin_file f h sz key (cache_moves other [f] db))) = Some ?row" for db
  proof -
    have "find (\<lambda>r. cf_id r = f) (db_files (cache_moves other [f] db)) = None" using r1(1) by (simp add: row_of_file_def)
    then have "find (\<lambda>r. cf_id r = f) (db_files (cache_moves other [f] db) @ [?row]) = Some ?row"
      by (rule find_snoc) (simp add: new_row_def)
    then show ?thesis using r1[of db] by (simp add: pin_file_def row_of_file_def)
  qed
  have w2: "whole_download C sha f e i ?s2" using assms(2) by (simp add: whole_download_def)
  have n3: "file_next C sha (SinkFinishes f (es_sha256 e) now key' NoFault) ?s2 = ?s3"
    by (rule whole_download_finishes[OF w2]) (simp add: r2)
  have "files_allowed C sha False s [CacheMoves other [f], Pins f h sz key, SinkFinishes f (es_sha256 e) now key' NoFault]"
    using assms(4-6) by (simp add: file_enabled_def)
  from allowed_runs[OF begins this]
  have run: "file_runs C sha False s [CacheMoves other [f], Pins f h sz key, SinkFinishes f (es_sha256 e) now key' NoFault] ?s3"
    unfolding fold_simps n3[symmetric] by (simp add: file_next_def)
  let ?r = "finished_row now ?row"
  have row: "usable_row f (fc_db ?s3) = Some ?r"
    using assms(5) by (simp add: usable_row_def row_of_file_updated finished_row_def r2 mark_durable_def)
      (simp add: new_row_def)
  let ?src = "reader_new (in_data (fc_inode s i)) key b ?l"
  have src: "cached_source ?s3 ?r = Some ?src"
    using assms(2,3) by (simp add: cached_source_def finished_row_def new_row_def mark_durable_def whole_download_def)
  have "snd (read_to_end C rooms ?src) \<noteq> Some True" if "list_all ((<) 0) rooms" for rooms
  proof
    assume t: "snd (read_to_end C rooms ?src) = Some True"
    obtain bytes x where x: "read_to_end C rooms ?src = (bytes, x)" by force
    have "\<forall>room \<in> set rooms. 0 < room" using that by (simp add: list_all_iff)
    from read_to_end_rest[OF assms(1) this _ x] have "rest_of C ?src = Some bytes" using t x by (simp add: reader_new_def)
    then have "length bytes = sz \<and> sealed_file C key b ?l bytes = Some (in_data (fc_inode s i))"
      using rest_of_new[OF assms(1), of ?l] assms(4) by (simp add: chunk_len_def)
    then show False using new_key by blast
  qed
  moreover have "cf_pinned ?r" "cf_state ?r = ''complete''" by (simp_all add: finished_row_def new_row_def)
  moreover have "\<not> file_enabled False ?s3 (Asks n f)" for n using row by (simp add: file_enabled_def is_complete_row_def finished_row_def)
  ultimately show ?thesis using run row src by blast
qed

lemma pin_spoils_running_download_witness:
  "\<exists>s' r. file_runs marking (\<lambda>b. b) False written_one
      [CacheMoves listing [file_one], Pins file_one ''z'' 1 key_b, SinkFinishes file_one ''z'' ''t'' key_a NoFault] s'
    \<and> usable_row file_one (fc_db s') = Some r \<and> cf_state r = ''complete''"
proof -
  have "take chunk_len p @ key_mark key_b \<noteq> in_data (fc_inode written_one 0)" for p
  proof -
    have "last (key_mark key_b) \<noteq> last (key_mark key_a)" "key_mark key_b \<noteq> []" "key_mark key_a \<noteq> []" by code_simp+
    then show ?thesis by (simp add: written_one_def) (metis last_ConsR last_appendR)
  qed
  then have k: "sealed_file marking key_b id_one \<lparr>ly_chunk = chunk_len, ly_size = 1\<rparr> p \<noteq> Some (in_data (fc_inode written_one 0))"
    for p unfolding sealed_one by simp
  have "file_listed file_one listing" by (simp add: file_listed_def listing_def)
  from pin_spoils_running_download[OF marking_tidy whole_one id_bytes_one _ _ _ this k, of key_a "''z''" "''t''"]
  show ?thesis by (fastforce simp: one_sink_def key_a_def key_b_def)
qed

lemma sink_opens_fresh:
  assumes "id_bytes f = Some b" "open_row f h sz key (fc_db t) = (Inr (k, chunk_len, 0), d)" "fc_dir t f = Some i"
  shows "fc_db (snd (sink_open f h sz key None t)) = d" "fc_dir (snd (sink_open f h sz key None t)) f = Some i"
    "in_data (fc_inode (snd (sink_open f h sz key None t)) i) = []"
  using assms
  by (simp_all add: sink_open_def Let_def open_blob_def sealed_offset_def put_data_def set_len_def set_flight_def)

text \<open>
  A caller that looked just before a download finished starts another one when that
  has ended: \<open>join_or_start\<close> does not look again, and the new sink takes the complete row back to
  nothing and empties the blob. A pinned file that was whole is gone until it has been downloaded again.
\<close>

lemma late_starter_discards_finished_file:
  assumes "whole_download C sha f e i s" "row_of_file f (fc_db s) = Some r" "length (cf_key r) = 32" "(n, f) \<in> set (fc_asked s)"
    and "file_listed f (fc_db s)" "fc_sweep s = Resting" "id_bytes f = Some b" "0 < sz" "length key = 32" "length key' = 32"
  shows "\<exists>s1 s2 q. file_runs C sha True s [SinkFinishes f (es_sha256 e) now key' NoFault] s1 \<and> is_complete_row f (fc_db s1)
    \<and> file_runs C sha True s1 [FlightEnds f, Starts n f, SinkOpens f h sz key None] s2
    \<and> row_of_file f (fc_db s2) = Some q \<and> cf_state q = ''partial'' \<and> cf_done q = 0 \<and> cf_pinned q = cf_pinned r
    \<and> fc_dir s2 f = Some i \<and> in_data (fc_inode s2 i) = []"
proof -
  let ?s1 = "set_flight f Over (with_db (update_file f (finished_row now)) (mark_durable i s))"
  have n1: "file_next C sha (SinkFinishes f (es_sha256 e) now key' NoFault) s = ?s1"
    by (rule whole_download_finishes[OF assms(1)]) (simp add: assms(2))
  from happens[OF begins, of True s "SinkFinishes f (es_sha256 e) now key' NoFault" C sha]
  have run1: "file_runs C sha True s [SinkFinishes f (es_sha256 e) now key' NoFault] ?s1"
    using assms(10) by (simp add: n1 file_enabled_def)
  have db1: "fc_db ?s1 = update_file f (finished_row now) (fc_db s)" by (simp add: mark_durable_def)
  have id: "cf_id (finished_row now x) = cf_id x" for x by (simp add: finished_row_def)
  have row1: "row_of_file f (fc_db ?s1) = Some (finished_row now r)" unfolding db1 by (simp add: row_of_file_updated id assms(2))
  then have us: "usable_row f (fc_db ?s1) = Some (finished_row now r)" using assms(3) by (simp add: usable_row_def finished_row_def)
  then have comp: "is_complete_row f (fc_db ?s1)" by (simp add: is_complete_row_def finished_row_def)
  let ?s2 = "?s1\<lparr>fc_flights := (fc_flights ?s1)(f := None)\<rparr>"
  let ?s3 = "set_flight f Starting ?s2"
  have n2: "file_next C sha (FlightEnds f) ?s1 = ?s2" by (simp add: file_next_def)
  have n3: "file_next C sha (Starts n f) ?s2 = ?s3" by (simp add: file_next_def Let_def)
  let ?s4 = "snd (sink_open f h sz key None ?s3)"
  have n4: "file_next C sha (SinkOpens f h sz key None) ?s3 = ?s4" by (simp add: file_next_def)
  have asked: "(n, f) \<in> set (fc_asked ?s2)" using assms(4) by (simp add: mark_durable_def set_flight_def with_db_def)
  have "files_allowed C sha True ?s1 [FlightEnds f, Starts n f, SinkOpens f h sz key None]"
    unfolding files_allowed.simps n2 n3 using asked assms(6,8,9) by (simp add: file_enabled_def mark_durable_def)
  from allowed_runs[OF begins this] have run2: "file_runs C sha True ?s1 [FlightEnds f, Starts n f, SinkOpens f h sz key None] ?s4"
    unfolding fold_simps n2 n3 n4 by simp
  let ?u = "\<lambda>r. r\<lparr>cf_sha256 := h, cf_size := int sz, cf_key := key, cf_chunk := int chunk_len,
      cf_state := ''partial'', cf_done := 0\<rparr>"
  define d where "d = (fc_db ?s1)\<lparr>db_deletions := filter (\<lambda>p. p \<noteq> blob_path f) (db_deletions (fc_db ?s1))\<rparr>"
  have dl: "file_listed f d" "row_of_file f d = Some (finished_row now r)"
    using assms(5) row1 unfolding d_def db1 by (simp_all add: file_listed_def update_file_def row_of_file_def)
  have opn: "open_row f h sz key (fc_db ?s3) = (Inr (key, chunk_len, 0), update_file f ?u d)"
  proof -
    have "fc_db ?s3 = fc_db ?s1" by (simp add: mark_durable_def)
    moreover have "\<not> resumable h sz (finished_row now r)" by (simp add: resumable_def finished_row_def)
    ultimately show ?thesis using us dl by (simp add: open_row_def fresh_row_def d_def Let_def)
  qed
  have dir: "fc_dir ?s3 f = Some i" using assms(1) by (simp add: mark_durable_def whole_download_def)
  have s4: "fc_db ?s4 = update_file f ?u d" "fc_dir ?s4 f = Some i" "in_data (fc_inode ?s4 i) = []"
    by (rule sink_opens_fresh[OF assms(7) opn dir])+
  have "row_of_file f (fc_db ?s4) = Some (?u (finished_row now r))" unfolding s4(1) by (simp add: row_of_file_updated dl(2))
  then show ?thesis using run1 comp run2 s4(2,3) by (intro exI conjI) (assumption | simp add: finished_row_def)+
qed

lemma late_starter_discards_finished_file_witness:
  "\<exists>s1 s2 q. file_runs marking (\<lambda>b. b) True written_one [SinkFinishes file_one ''z'' ''t'' key_b NoFault] s1
     \<and> is_complete_row file_one (fc_db s1)
     \<and> file_runs marking (\<lambda>b. b) True s1 [FlightEnds file_one, Starts 1 file_one, SinkOpens file_one ''z'' 1 key_b None] s2
     \<and> row_of_file file_one (fc_db s2) = Some q \<and> cf_state q = ''partial'' \<and> cf_done q = 0"
proof -
  have w: "length (cf_key one_row) = 32" "(1, file_one) \<in> set (fc_asked written_one)" "file_listed file_one (fc_db written_one)"
    "fc_sweep written_one = Resting" "es_sha256 (one_sink 1) = ''z''" "length key_b = 32"
    by (simp_all add: one_row_def new_row_def key_a_def key_b_def written_one_def opened_def file_listed_def listing_def one_sink_def)
  from late_starter_discards_finished_file[OF whole_one row_one w(1-4) id_bytes_one, of 1 key_b key_b "''t''" "''z''"] w(5,6)
  show ?thesis by (auto simp del: One_nat_def)
qed

end
