(* ===== verification/Outbox_Tables.thy ===== *)
theory Outbox_Tables
  imports Cache_Syncing Uploads
begin

text \<open>
  \<open>core/src/outbox.rs\<close>, its data: the tables of \<open>outbox.db\<close>, the state one \<open>Outbox\<close> keeps, and
  what it cannot decide itself. Every \<open>await\<close> is one \<open>turn\<close> of the environment: the store call
  fails or not, the session changes, other calls queue messages, the user cancels. A channel's
  lock is held for a whole attempt, so nothing else of this channel's rows changes meanwhile.
\<close>

section \<open>Tables\<close>

datatype row_state = StPending | StSending | StAccepted | StFailed

record outbox_row =
  ow_ordinal :: nat
  ow_client_id :: string
  ow_channel :: string
  ow_body :: string
  ow_reply_to :: "string option"
  ow_state :: row_state
  ow_attempts :: nat
  ow_error :: "string option"
  ow_created_at :: string

record file_row =
  fw_client_id :: string
  fw_ordinal :: nat
  fw_file_client_id :: string
  fw_filename :: string
  fw_content_type :: string
  fw_size :: nat
  fw_sha256 :: string
  fw_key :: string
  fw_chunk :: nat
  fw_file_id :: "string option"
  fw_error :: "string option"

text \<open>What a row sends.\<close>

record outgoing =
  og_body :: string
  og_reply_to :: "string option"
  og_attachments :: "string list"

datatype send_failure = Transient "nat option" | Refused string

datatype outbox_error =
    WouldOvertake
  | SignedOut
  | StoreFailed
  | NotSentYet string string
  | OutboxClosed
  | IdInUse
  | BadId
  | TooManyFiles
  | FileTooLarge
  | EmptyFile
  | EmptyMessage
  | FileUnreadable
  | SendCancelled

datatype deleted = Removed | AlreadySent | NotFound

datatype attempt = GoOn | HoldOff "nat option"

definition max_files_per_message :: nat where "max_files_per_message = 10"
definition max_file_bytes :: nat where "max_file_bytes = 100 * 1024 * 1024"
definition max_backoff :: nat where "max_backoff = 60"

section \<open>State\<close>

text \<open>
  \<open>ob_disk\<close> is the snapshot directory (names of files), \<open>ob_posts\<close> the requests handed to
  \<open>Post::send\<close> with the session and the clock at that moment, \<open>ob_pauser\<close> the row whose uploads a session
  change pauses, \<open>ob_registered\<close> which row's flags a transfer id stops.
\<close>

record post_request =
  pr_channel :: string
  pr_message :: outgoing
  pr_client_id :: string
  pr_epoch :: nat
  pr_session :: "nat option"
  pr_at :: nat

record outbox =
  ob_rows :: "outbox_row list"
  ob_files :: "file_row list"
  ob_deletions :: "string list"
  ob_next :: nat
  ob_disk :: "string list"
  ob_cache :: cache
  ob_session :: "nat option"
  ob_alive :: bool
  ob_closed :: bool
  ob_senders :: "string list"
  ob_flags :: "(string \<times> flags) list"
  ob_verified :: "string list"
  ob_ids :: "(string \<times> nat) list"
  ob_registered :: "(nat \<times> string) list"
  ob_pauser :: "(string \<times> nat) option"
  ob_events :: "cache_event list"
  ob_progress :: "(nat \<times> transfer_state) list"
  ob_posts :: "post_request list"
  ob_clock :: nat

section \<open>The environment\<close>

text \<open>A message another call queues: its row's fields and its files (without their place).\<close>

record new_message =
  nm_client_id :: string
  nm_channel :: string
  nm_body :: string
  nm_reply_to :: "string option"
  nm_created_at :: string
  nm_files :: "file_row list"

record turn =
  tn_fault :: "store_error option"
  tn_session :: "nat option option"
  tn_gone :: bool
  tn_cancelled :: "string list"
  tn_pauses :: bool
  tn_queued :: "new_message list"

definition calm :: turn where
  "calm = \<lparr>tn_fault = None, tn_session = None, tn_gone = False, tn_cancelled = [], tn_pauses = True,
     tn_queued = []\<rparr>"

datatype write_error = WriteSource | WriteStopped | WriteTooLarge | WriteStore

record written =
  wr_size :: nat
  wr_sha256 :: string
  wr_key :: string

text \<open>
  The environment, by the clock: the turns, the server's answers (\<open>Post\<close>, \<open>Upload\<close>, with whether
  the source broke), the snapshot files, fresh ids and the time.
\<close>

record env =
  en_turn :: "nat \<Rightarrow> turn"
  en_post :: "nat \<Rightarrow> string \<Rightarrow> outgoing \<Rightarrow> string \<Rightarrow> nat \<Rightarrow> send_failure + json"
  en_upload :: "nat \<Rightarrow> string \<Rightarrow> file_row \<Rightarrow> nat \<Rightarrow> (core_error + file_info) \<times> bool"
  en_verify :: "nat \<Rightarrow> file_row \<Rightarrow> bool"
  en_remove :: "nat \<Rightarrow> string \<Rightarrow> bool"
  en_len :: "nat \<Rightarrow> string \<Rightarrow> nat option"
  en_snapshot :: "nat \<Rightarrow> string \<Rightarrow> string \<Rightarrow> write_error + written"
  en_client_id :: "nat \<Rightarrow> nat \<Rightarrow> string"
  en_transfer_id :: "nat \<Rightarrow> nat \<Rightarrow> nat"
  en_now :: "nat \<Rightarrow> string"

section \<open>Statements\<close>

text \<open>
  \<open>INSERT INTO outbox ... ON CONFLICT(client_id) DO NOTHING\<close> with its files; the count of rows
  inserted. A file id already there fails the transaction (\<open>UNIQUE\<close>).
\<close>

definition insert_message :: "new_message \<Rightarrow> outbox \<Rightarrow> (outbox \<times> nat) option" where
  "insert_message m s =
     (if nm_client_id m \<in> ow_client_id ` set (ob_rows s) then Some (s, 0)
      else if \<not> distinct (map fw_file_client_id (nm_files m)) \<or>
              fw_file_client_id ` set (nm_files m) \<inter> fw_file_client_id ` set (ob_files s) \<noteq> {}
      then None
      else Some (s\<lparr>ob_rows := ob_rows s @
                     [\<lparr>ow_ordinal = ob_next s, ow_client_id = nm_client_id m, ow_channel = nm_channel m,
                       ow_body = nm_body m, ow_reply_to = nm_reply_to m, ow_state = StPending,
                       ow_attempts = 0, ow_error = None, ow_created_at = nm_created_at m\<rparr>],
                   ob_files := ob_files s @
                     map (\<lambda>(i, f). f\<lparr>fw_client_id := nm_client_id m, fw_ordinal := i, fw_file_id := None,
                                    fw_error := None\<rparr>)
                       (enumerate 0 (nm_files m)),
                   ob_next := Suc (ob_next s)\<rparr>, 1))"

definition changed :: "string \<Rightarrow> outbox \<Rightarrow> outbox" where
  "changed channel_id s = s\<lparr>ob_events := ob_events s @ [EvOutbox channel_id]\<rparr>"

definition has_flags :: "string \<Rightarrow> outbox \<Rightarrow> bool" where
  "has_flags row_id s \<longleftrightarrow> map_of (ob_flags s) row_id \<noteq> None"

definition flags_of :: "string \<Rightarrow> outbox \<Rightarrow> flags" where
  "flags_of row_id s = (case map_of (ob_flags s) row_id of None \<Rightarrow> no_flags | Some f \<Rightarrow> f)"

definition set_flags :: "string \<Rightarrow> flags \<Rightarrow> outbox \<Rightarrow> outbox" where
  "set_flags row_id f s = s\<lparr>ob_flags := assoc_put row_id f (ob_flags s)\<rparr>"

definition make_flags :: "string \<Rightarrow> outbox \<Rightarrow> outbox" where
  "make_flags row_id s = (if has_flags row_id s then s else set_flags row_id no_flags s)"

definition cancel_row_flags :: "string \<Rightarrow> outbox \<Rightarrow> outbox" where
  "cancel_row_flags row_id s =
     (if has_flags row_id s then set_flags row_id ((flags_of row_id s)\<lparr>fg_cancel := True\<rparr>) s else s)"

text \<open>One \<open>await\<close>: what the rest of the world does meanwhile.\<close>

definition queue_other :: "new_message \<Rightarrow> outbox \<Rightarrow> outbox" where
  "queue_other m s = (case insert_message m s of None \<Rightarrow> s | Some (s, _) \<Rightarrow> s)"

definition pause_uploads :: "outbox \<Rightarrow> outbox" where
  "pause_uploads s =
     (case ob_pauser s of
        Some (row_id, epoch) \<Rightarrow>
          if ob_session s \<noteq> Some epoch
          then set_flags row_id ((flags_of row_id s)\<lparr>fg_pause := True\<rparr>) s else s
      | None \<Rightarrow> s)"

definition pass :: "env \<Rightarrow> outbox \<Rightarrow> turn \<times> outbox" where
  "pass env s =
     (let t = en_turn env (ob_clock s);
          s = s\<lparr>ob_clock := Suc (ob_clock s)\<rparr>;
          s = fold queue_other (tn_queued t) s;
          s = fold cancel_row_flags (tn_cancelled t) s;
          s = (case tn_session t of None \<Rightarrow> s | Some v \<Rightarrow> s\<lparr>ob_session := v\<rparr>);
          s = (if tn_gone t then s\<lparr>ob_alive := False\<rparr> else s);
          s = (if tn_pauses t then pause_uploads s else s)
      in (t, s))"

text \<open>\<open>db.call\<close> of one statement.\<close>

definition db_call :: "env \<Rightarrow> (outbox \<Rightarrow> outbox) \<Rightarrow> outbox \<Rightarrow> bool \<times> outbox" where
  "db_call env f s =
     (case pass env s of (t, s) \<Rightarrow> if tn_fault t = None then (True, f s) else (False, s))"

text \<open>The state a new outbox over a store starts from; \<open>open_outbox\<close> makes it ready.\<close>

definition fresh_outbox :: "cache \<Rightarrow> nat option \<Rightarrow> outbox" where
  "fresh_outbox c session =
     \<lparr>ob_rows = [], ob_files = [], ob_deletions = [], ob_next = 1, ob_disk = [], ob_cache = c,
      ob_session = session, ob_alive = True, ob_closed = False, ob_senders = [], ob_flags = [],
      ob_verified = [], ob_ids = [], ob_registered = [], ob_pauser = None, ob_events = [],
      ob_progress = [], ob_posts = [], ob_clock = 0\<rparr>"

definition calm_env :: "(string \<Rightarrow> outgoing \<Rightarrow> string \<Rightarrow> send_failure + json) \<Rightarrow> env" where
  "calm_env answer =
     \<lparr>en_turn = (\<lambda>_. calm), en_post = (\<lambda>_ ch m c _. answer ch m c),
      en_upload = (\<lambda>_ _ _ _. (Inl Timeout, False)), en_verify = (\<lambda>_ _. True), en_remove = (\<lambda>_ _. True),
      en_len = (\<lambda>_ _. None), en_snapshot = (\<lambda>_ _ _. Inl WriteSource), en_client_id = (\<lambda>_ _. []),
      en_transfer_id = (\<lambda>_ n. n), en_now = (\<lambda>_. [])\<rparr>"

end
