(* ===== verification/Outbox_Calls.thy ===== *)
theory Outbox_Calls
  imports Outbox_Tables
begin

text \<open>
  \<open>core/src/outbox.rs\<close>, what the apps call: \<open>open\<close>, \<open>enqueue\<close> (and the direct send where the
  outbox cannot be written), \<open>enqueue_with_files\<close>, \<open>pending\<close>, \<open>retry\<close>, \<open>delete_pending\<close>, \<open>close\<close>.
\<close>

section \<open>Ids\<close>

definition dash_at :: "nat \<Rightarrow> bool" where
  "dash_at i \<longleftrightarrow> i = 8 \<or> i = 13 \<or> i = 18 \<or> i = 23"

definition slice :: "nat \<Rightarrow> nat \<Rightarrow> string \<Rightarrow> string" where
  "slice a b s = take (b - a) (drop a s)"

definition hyphenated :: "string \<Rightarrow> string" where
  "hyphenated h = slice 0 8 h @ ''-'' @ slice 8 12 h @ ''-'' @ slice 12 16 h @ ''-'' @
     slice 16 20 h @ ''-'' @ slice 20 32 h"

text \<open>
  \<open>char_indices\<close> yields the bytes that start a character; the dashes must be exactly there.
\<close>

definition dashes_ok :: "string \<Rightarrow> bool" where
  "dashes_ok s \<longleftrightarrow> (\<forall>i < length s. \<not> utf8_continues (s ! i) \<longrightarrow> dash_at i = (s ! i = CHR ''-''))"

definition canonical_client_id :: "string \<Rightarrow> string option" where
  "canonical_client_id s =
     (case (if length s = 36
            then (if dashes_ok s then Some (filter (\<lambda>c. c \<noteq> CHR ''-'') s) else None)
            else if length s = 32 then Some s else None) of
        None \<Rightarrow> None
      | Some hex \<Rightarrow>
          if list_all is_ascii_hexdigit hex then Some (hyphenated (map ascii_lower hex)) else None)"

text \<open>\<open>new_client_id\<close>: 16 random bytes with the version and the variant set, in hex.\<close>

definition hex_digit :: "nat \<Rightarrow> char" where
  "hex_digit n = (if n < 10 then char_of (n + 48) else char_of (n + 87))"

definition hex_byte :: "nat \<Rightarrow> string" where
  "hex_byte b = [hex_digit (b div 16), hex_digit (b mod 16)]"

definition new_client_id :: "nat list \<Rightarrow> string" where
  "new_client_id b = hyphenated (concat (map hex_byte
     (b[6 := (b ! 6) mod 16 + 64, 8 := (b ! 8) mod 64 + 128])))"

section \<open>Opening\<close>

text \<open>
  \<open>open\<close>: rows a crash left \<open>sending\<close> wait again; journalled snapshots and snapshots no row names
  are removed, as far as they can be; the finished journal entries go.
\<close>

definition back_in_line :: "outbox_row \<Rightarrow> outbox_row" where
  "back_in_line r = (if ow_state r = StSending then r\<lparr>ow_state := StPending\<rparr> else r)"

definition open_outbox :: "env \<Rightarrow> outbox \<Rightarrow> outbox \<times> (store_error + unit)" where
  "open_outbox env s =
     (case pass env s of (t, s) \<Rightarrow>
        (case tn_fault t of
           Some e \<Rightarrow> (s, Inl e)
         | None \<Rightarrow>
             (let s = s\<lparr>ob_rows := map back_in_line (ob_rows s)\<rparr>;
                  journal = ob_deletions s;
                  live = map fw_file_client_id (ob_files s);
                  finished = filter (\<lambda>n. n \<notin> set (ob_disk s) \<or> en_remove env (ob_clock s) n) journal;
                  disk = filter (\<lambda>n. n \<notin> set finished) (ob_disk s);
                  disk = filter (\<lambda>n. n \<in> set live \<or> \<not> en_remove env (Suc (ob_clock s)) n) disk;
                  s = s\<lparr>ob_disk := disk\<rparr>;
                  (_, s) = db_call env (\<lambda>s. s\<lparr>ob_deletions :=
                             filter (\<lambda>n. n \<notin> set finished) (ob_deletions s)\<rparr>) s
              in (s, Inr ()))))"

section \<open>Small reads\<close>

definition find_row :: "string \<Rightarrow> outbox \<Rightarrow> outbox_row option" where
  "find_row client_id s = sel ow_client_id client_id (ob_rows s)"

definition row_channel :: "env \<Rightarrow> string \<Rightarrow> outbox \<Rightarrow> (outbox_error + string option) \<times> outbox" where
  "row_channel env client_id s =
     (case db_call env id s of
        (False, s) \<Rightarrow> (Inl StoreFailed, s)
      | (True, s) \<Rightarrow> (Inr (map_option ow_channel (find_row client_id s)), s))"

definition stored_files :: "string \<Rightarrow> outbox \<Rightarrow> file_row list" where
  "stored_files row_id s = sort_key fw_ordinal (filter (\<lambda>f. fw_client_id f = row_id) (ob_files s))"

definition files_of :: "env \<Rightarrow> string \<Rightarrow> outbox \<Rightarrow> file_row list option \<times> outbox" where
  "files_of env row_id s =
     (case db_call env id s of
        (False, s) \<Rightarrow> (None, s)
      | (True, s) \<Rightarrow> (Some (stored_files row_id s), s))"

definition unsent_count :: "outbox \<Rightarrow> nat" where
  "unsent_count s = length (filter (\<lambda>r. ow_state r \<noteq> StAccepted) (ob_rows s))"

text \<open>
  \<open>sender\<close>: the channel's, started (and so woken) on first use. Its wake-ups only shorten waits,
  so they are not kept.
\<close>

definition sender :: "string \<Rightarrow> outbox \<Rightarrow> bool \<times> outbox" where
  "sender channel_id s =
     (if ob_closed s then (False, s)
      else (True, if channel_id \<in> set (ob_senders s) then s
                  else s\<lparr>ob_senders := ob_senders s @ [channel_id]\<rparr>))"

text \<open>\<open>resume\<close>: at startup, the senders of every channel with rows waiting.\<close>

definition resume :: "env \<Rightarrow> outbox \<Rightarrow> (outbox_error + unit) \<times> outbox" where
  "resume env s =
     (case db_call env id s of
        (False, s) \<Rightarrow> (Inl StoreFailed, s)
      | (True, s) \<Rightarrow>
          if ob_closed s \<and> ob_rows s \<noteq> [] then (Inl OutboxClosed, s)
          else (Inr (), fold (\<lambda>c s. snd (sender c s)) (remdups (map ow_channel (ob_rows s))) s))"

text \<open>A file's transfer id (issued on first use), registered under its row's flags.\<close>

definition transfer_id :: "env \<Rightarrow> string \<Rightarrow> string \<Rightarrow> outbox \<Rightarrow> nat \<times> outbox" where
  "transfer_id env row_id file_client_id s =
     (let (tid, s) = (case map_of (ob_ids s) file_client_id of
             Some i \<Rightarrow> (i, s)
           | None \<Rightarrow>
               (let i = en_transfer_id env (ob_clock s) (length (ob_ids s))
                in (i, s\<lparr>ob_ids := (file_client_id, i) # ob_ids s\<rparr>)));
          s = make_flags row_id s
      in (tid, s\<lparr>ob_registered := (tid, row_id) # filter (\<lambda>p. fst p \<noteq> tid) (ob_registered s)\<rparr>))"

text \<open>\<open>drop_ids\<close>: a call's own files, never committed. The row's flags stay.\<close>

definition drop_ids :: "string list \<Rightarrow> outbox \<Rightarrow> outbox" where
  "drop_ids names s =
     (let gone = List.map_filter (map_of (ob_ids s)) names
      in s\<lparr>ob_ids := filter (\<lambda>p. fst p \<notin> set names) (ob_ids s),
           ob_registered := filter (\<lambda>p. fst p \<notin> set gone) (ob_registered s)\<rparr>)"

definition forget_row :: "string \<Rightarrow> string list \<Rightarrow> outbox \<Rightarrow> outbox" where
  "forget_row row_id names s =
     (let s = drop_ids names s
      in s\<lparr>ob_flags := filter (\<lambda>p. fst p \<noteq> row_id) (ob_flags s),
           ob_verified := filter (\<lambda>n. n \<notin> set names) (ob_verified s)\<rparr>)"

definition remove_snapshots :: "env \<Rightarrow> string list \<Rightarrow> outbox \<Rightarrow> outbox" where
  "remove_snapshots env names s =
     s\<lparr>ob_disk := filter (\<lambda>n. n \<notin> set names \<or> \<not> en_remove env (ob_clock s) n) (ob_disk s)\<rparr>"

section \<open>Removing a row\<close>

text \<open>The transaction: its files' snapshots are journalled, then the row and its files go.\<close>

definition delete_row :: "string \<Rightarrow> outbox \<Rightarrow> outbox" where
  "delete_row client_id s =
     s\<lparr>ob_deletions := fold insert_path (map fw_file_client_id
           (filter (\<lambda>f. fw_client_id f = client_id) (ob_files s))) (ob_deletions s),
       ob_rows := filter (\<lambda>r. ow_client_id r \<noteq> client_id) (ob_rows s),
       ob_files := filter (\<lambda>f. fw_client_id f \<noteq> client_id) (ob_files s)\<rparr>"

definition remove_row :: "env \<Rightarrow> string \<Rightarrow> outbox \<Rightarrow> (store_error + row_state option) \<times> outbox" where
  "remove_row env client_id s =
     (case pass env s of (t, s) \<Rightarrow>
        (case tn_fault t of
           Some e \<Rightarrow> (Inl e, s)
         | None \<Rightarrow>
             (let state = map_option ow_state (find_row client_id s);
                  names = map fw_file_client_id (filter (\<lambda>f. fw_client_id f = client_id) (ob_files s));
                  s = delete_row client_id s;
                  s = forget_row client_id names s
              in if names = [] then (Inr state, s)
                 else (let s = remove_snapshots env names s;
                           (_, s) = db_call env (\<lambda>s. s\<lparr>ob_deletions :=
                                      filter (\<lambda>n. n \<notin> set names) (ob_deletions s)\<rparr>) s
                       in (Inr state, s)))))"

section \<open>Queueing\<close>

definition message_of :: "string \<Rightarrow> string option \<Rightarrow> outgoing" where
  "message_of body reply_to = \<lparr>og_body = body, og_reply_to = reply_to, og_attachments = []\<rparr>"

text \<open>Handing a message to \<open>Post::send\<close>: logged with the session at that moment.\<close>

definition post ::
  "env \<Rightarrow> string \<Rightarrow> outgoing \<Rightarrow> string \<Rightarrow> nat \<Rightarrow> outbox \<Rightarrow> (send_failure + json) \<times> outbox" where
  "post env channel_id msg client_id epoch s =
     (let answer = en_post env (ob_clock s) channel_id msg client_id epoch;
          s = s\<lparr>ob_posts := ob_posts s @
                 [\<lparr>pr_channel = channel_id, pr_message = msg, pr_client_id = client_id,
                   pr_epoch = epoch, pr_session = ob_session s, pr_at = ob_clock s\<rparr>]\<rparr>;
          (_, s) = pass env s
      in (answer, s))"

text \<open>The acknowledgement into the cache (its own store may fail).\<close>

definition ack :: "env \<Rightarrow> json \<Rightarrow> outbox \<Rightarrow> bool \<times> outbox" where
  "ack env message s =
     (case pass env s of (t, s) \<Rightarrow>
        (case apply_ack (tn_fault t) message (ob_cache s) of
           (c, r) \<Rightarrow> (\<not> isl r, s\<lparr>ob_cache := c\<rparr>)))"

definition send_direct ::
  "env \<Rightarrow> string \<Rightarrow> outgoing \<Rightarrow> string \<Rightarrow> outbox \<Rightarrow> (outbox_error + string) \<times> outbox" where
  "send_direct env channel_id msg client_id s =
     (let (_, s) = pass env s in
      if ob_closed s then (Inl OutboxClosed, s)
      else (case ob_session s of
              None \<Rightarrow> (Inl SignedOut, s)
            | Some epoch \<Rightarrow>
                (case db_call env id s of
                   (False, s) \<Rightarrow> (Inl StoreFailed, s)
                 | (True, s) \<Rightarrow>
                     if channel_id \<in> ow_channel ` set (ob_rows s) then (Inl WouldOvertake, s)
                     else (case post env channel_id msg client_id epoch s of
                             (Inr message, s) \<Rightarrow> (Inr client_id, snd (ack env message s))
                           | (Inl (Refused code), s) \<Rightarrow> (Inl (NotSentYet client_id code), s)
                           | (Inl (Transient _), s) \<Rightarrow> (Inl (NotSentYet client_id ''network''), s)))))"

definition chosen_id :: "env \<Rightarrow> string option \<Rightarrow> outbox \<Rightarrow> string option" where
  "chosen_id env client_id s = (case client_id of
       Some i \<Rightarrow> canonical_client_id i
     | None \<Rightarrow> Some (en_client_id env (ob_clock s) 0))"

definition enqueue ::
  "env \<Rightarrow> string \<Rightarrow> string \<Rightarrow> string option \<Rightarrow> string option \<Rightarrow> outbox \<Rightarrow>
     (outbox_error + string) \<times> outbox" where
  "enqueue env channel_id body reply_to client_id s =
     (case chosen_id env client_id s of
        None \<Rightarrow> (Inl BadId, s)
      | Some cid \<Rightarrow>
          (case sender channel_id s of
             (False, s) \<Rightarrow> (Inl OutboxClosed, s)
           | (True, s) \<Rightarrow>
               (let now = en_now env (ob_clock s); (t, s) = pass env s in
                if tn_fault t \<noteq> None
                then send_direct env channel_id (message_of body reply_to) cid s
                else (case insert_message \<lparr>nm_client_id = cid, nm_channel = channel_id, nm_body = body,
                              nm_reply_to = reply_to, nm_created_at = now, nm_files = []\<rparr> s of
                        Some (s, Suc _) \<Rightarrow> (Inr cid, changed channel_id s)
                      | _ \<Rightarrow>
                          (case row_channel env cid s of
                             (Inr (Some theirs), s) \<Rightarrow>
                               if theirs \<noteq> channel_id then (Inl IdInUse, s) else (Inr cid, s)
                           | (_, s) \<Rightarrow> (Inl StoreFailed, s))))))"

section \<open>Queueing with files\<close>

record outgoing_file =
  of_path :: string
  of_filename :: string
  of_content_type :: string
  of_transfer_id :: "nat option"

record receipt =
  rc_client_id :: string
  rc_files :: "(string \<times> nat \<times> nat) list"

text \<open>A stored row's receipt: each file's id, its transfer id and its size.\<close>

fun receipt_files :: "env \<Rightarrow> string \<Rightarrow> file_row list \<Rightarrow> outbox \<Rightarrow> (string \<times> nat \<times> nat) list \<times> outbox" where
  "receipt_files env row_id [] s = ([], s)"
| "receipt_files env row_id (f # fs) s =
     (let (tid, s) = transfer_id env row_id (fw_file_client_id f) s;
          (rest, s) = receipt_files env row_id fs s
      in ((fw_file_client_id f, tid, fw_size f) # rest, s))"

definition receipt_of :: "env \<Rightarrow> string \<Rightarrow> outbox \<Rightarrow> (outbox_error + receipt) \<times> outbox" where
  "receipt_of env row_id s =
     (case files_of env row_id s of
        (None, s) \<Rightarrow> (Inl StoreFailed, s)
      | (Some fs, s) \<Rightarrow>
          (let (files, s) = receipt_files env row_id fs s
           in (Inr \<lparr>rc_client_id = row_id, rc_files = files\<rparr>, s)))"

definition size_error :: "nat option \<Rightarrow> outbox_error option" where
  "size_error len = (case len of
       None \<Rightarrow> Some FileUnreadable
     | Some n \<Rightarrow> if n = 0 then Some EmptyFile
                 else if max_file_bytes < n then Some FileTooLarge else None)"

fun sizes_error :: "nat option list \<Rightarrow> outbox_error option" where
  "sizes_error [] = None"
| "sizes_error (l # ls) = (case size_error l of Some e \<Rightarrow> Some e | None \<Rightarrow> sizes_error ls)"

definition copy_error :: "write_error \<Rightarrow> outbox_error" where
  "copy_error e = (case e of WriteSource \<Rightarrow> FileUnreadable | WriteStopped \<Rightarrow> SendCancelled
     | WriteTooLarge \<Rightarrow> FileTooLarge | WriteStore \<Rightarrow> StoreFailed)"

text \<open>Every file's id and transfer id before the first copy starts.\<close>

fun plan_files ::
  "env \<Rightarrow> string \<Rightarrow> outgoing_file list \<Rightarrow> outbox \<Rightarrow> (outgoing_file \<times> string) list \<times> outbox" where
  "plan_files env row_id [] s = ([], s)"
| "plan_files env row_id (f # fs) s =
     (let name = en_client_id env (ob_clock s) (Suc (length (ob_ids s)));
          tid = (case of_transfer_id f of
                   Some i \<Rightarrow> i | None \<Rightarrow> en_transfer_id env (ob_clock s) (length (ob_ids s)));
          s = s\<lparr>ob_ids := assoc_put name tid (ob_ids s),
                ob_registered := (tid, row_id) # filter (\<lambda>p. fst p \<noteq> tid) (ob_registered s)\<rparr>;
          (rest, s) = plan_files env row_id fs s
      in ((f, name) # rest, s))"

text \<open>The copies, one by one; the first that fails ends them. A cancel stops the copy it finds.\<close>

fun copy_files ::
  "env \<Rightarrow> nat \<Rightarrow> (outgoing_file \<times> string) list \<Rightarrow> file_row list \<Rightarrow> outbox \<Rightarrow>
     (outbox_error option \<times> file_row list) \<times> outbox" where
  "copy_files env chunk [] made s = ((None, made), s)"
| "copy_files env chunk ((f, name) # fs) made s =
     (let r = en_snapshot env (ob_clock s) (of_path f) name; (_, s) = pass env s in
      case r of
        Inl e \<Rightarrow> ((Some (copy_error e), made), s)
      | Inr w \<Rightarrow>
          copy_files env chunk fs
            (made @ [\<lparr>fw_client_id = [], fw_ordinal = 0, fw_file_client_id = name,
                      fw_filename = of_filename f, fw_content_type = of_content_type f,
                      fw_size = wr_size w, fw_sha256 = wr_sha256 w, fw_key = wr_key w,
                      fw_chunk = chunk, fw_file_id = None, fw_error = None\<rparr>])
            (s\<lparr>ob_disk := name # ob_disk s\<rparr>))"

definition enqueue_files ::
  "env \<Rightarrow> nat \<Rightarrow> string \<Rightarrow> string \<Rightarrow> string option \<Rightarrow> string option \<Rightarrow> outgoing_file list \<Rightarrow> outbox \<Rightarrow>
     (outbox_error + receipt) \<times> outbox" where
  "enqueue_files env chunk channel_id body reply_to client_id files s =
     (if max_files_per_message < length files then (Inl TooManyFiles, s)
      else if files = []
      then (if trim body = [] then (Inl EmptyMessage, s)
            else (case enqueue env channel_id body reply_to client_id s of
                    (Inl e, s) \<Rightarrow> (Inl e, s)
                  | (Inr cid, s) \<Rightarrow> (Inr \<lparr>rc_client_id = cid, rc_files = []\<rparr>, s)))
      else (let sizes = map (\<lambda>f. en_len env (ob_clock s) (of_path f)) files; (_, s) = pass env s in
        case sizes_error sizes of
          Some e \<Rightarrow> (Inl e, s)
        | None \<Rightarrow>
        (case chosen_id env client_id s of
           None \<Rightarrow> (Inl BadId, s)
         | Some cid \<Rightarrow>
        (if ob_closed s then (Inl OutboxClosed, s) else
        (case row_channel env cid s of
           (Inl e, s) \<Rightarrow> (Inl e, s)
         | (Inr (Some theirs), s) \<Rightarrow>
             if theirs \<noteq> channel_id then (Inl IdInUse, s) else receipt_of env cid s
         | (Inr None, s) \<Rightarrow>
        (case sender channel_id s of
           (False, s) \<Rightarrow> (Inl OutboxClosed, s)
         | (True, s) \<Rightarrow>
             (let made_flags = (\<not> has_flags cid s);
                  s = make_flags cid s;
                  (planned, s) = plan_files env cid files s;
                  ((failed, made), s) = copy_files env chunk planned [] s;
                  names = map fw_file_client_id made;
                  all_names = map snd planned
              in case failed of
                   Some e \<Rightarrow>
                     (let s = drop_ids all_names (remove_snapshots env names s)
                      in (Inl e, if made_flags
                                 then s\<lparr>ob_flags := filter (\<lambda>p. fst p \<noteq> cid) (ob_flags s)\<rparr> else s))
                 | None \<Rightarrow>
                     (let now = en_now env (ob_clock s); (t, s) = pass env s in
                      case (if tn_fault t \<noteq> None then None
                            else insert_message \<lparr>nm_client_id = cid, nm_channel = channel_id,
                                   nm_body = body, nm_reply_to = reply_to, nm_created_at = now,
                                   nm_files = made\<rparr> s) of
                        None \<Rightarrow> (Inl StoreFailed, drop_ids all_names (remove_snapshots env names s))
                      | Some (s, 0) \<Rightarrow>
                          receipt_of env cid (drop_ids all_names (remove_snapshots env names s))
                      | Some (s, Suc _) \<Rightarrow> receipt_of env cid (changed channel_id s)))))))))"

section \<open>What is waiting\<close>

datatype pending_state = PsPending | PsSending | PsAccepted | PsFailed string

record pending_message =
  pm_client_id :: string
  pm_channel_id :: string
  pm_body :: string
  pm_reply_to :: "string option"
  pm_files :: "(string \<times> nat \<times> string \<times> nat \<times> bool \<times> string option) list"
  pm_state :: pending_state

definition pending_state_of :: "outbox_row \<Rightarrow> pending_state" where
  "pending_state_of r = (case ow_state r of
       StSending \<Rightarrow> PsSending
     | StAccepted \<Rightarrow> PsAccepted
     | StFailed \<Rightarrow> PsFailed (text_or_empty (ow_error r))
     | StPending \<Rightarrow> PsPending)"

fun pending_files :: "env \<Rightarrow> file_row list \<Rightarrow> outbox \<Rightarrow>
    (string \<times> nat \<times> string \<times> nat \<times> bool \<times> string option) list \<times> outbox" where
  "pending_files env [] s = ([], s)"
| "pending_files env (f # fs) s =
     (let (tid, s) = transfer_id env (fw_client_id f) (fw_file_client_id f) s;
          (rest, s) = pending_files env fs s
      in ((fw_file_client_id f, tid, fw_filename f, fw_size f, fw_file_id f \<noteq> None, fw_error f) # rest, s))"

fun pending_rows :: "env \<Rightarrow> outbox_row list \<Rightarrow> outbox \<Rightarrow> pending_message list \<times> outbox" where
  "pending_rows env [] s = ([], s)"
| "pending_rows env (r # rs) s =
     (let (files, s) = pending_files env (stored_files (ow_client_id r) s) s;
          (rest, s) = pending_rows env rs s
      in (\<lparr>pm_client_id = ow_client_id r, pm_channel_id = ow_channel r, pm_body = ow_body r,
           pm_reply_to = ow_reply_to r, pm_files = files, pm_state = pending_state_of r\<rparr> # rest, s))"

definition channel_rows :: "string \<Rightarrow> outbox \<Rightarrow> outbox_row list" where
  "channel_rows channel_id s =
     sort_key ow_ordinal (filter (\<lambda>r. ow_channel r = channel_id) (ob_rows s))"

definition pending :: "env \<Rightarrow> string \<Rightarrow> outbox \<Rightarrow> pending_message list option \<times> outbox" where
  "pending env channel_id s =
     (case db_call env id s of
        (False, s) \<Rightarrow> (None, s)
      | (True, s) \<Rightarrow>
          (let (rows, s) = pending_rows env (channel_rows channel_id s) s in (Some rows, s)))"

section \<open>Retry and delete\<close>

definition given_id :: "string \<Rightarrow> string" where
  "given_id client_id = (case canonical_client_id client_id of None \<Rightarrow> client_id | Some c \<Rightarrow> c)"

text \<open>The two statements of \<open>retry_row\<close>.\<close>

definition put_back :: "string \<Rightarrow> bool \<Rightarrow> outbox \<Rightarrow> outbox" where
  "put_back cid drop_reply s =
     (let failed = (\<exists>r \<in> set (ob_rows s). ow_client_id r = cid \<and> ow_state r = StFailed)
      in s\<lparr>ob_files := map (\<lambda>f. if fw_client_id f = cid \<and> failed then f\<lparr>fw_error := None\<rparr> else f)
                         (ob_files s),
           ob_rows := map (\<lambda>r. if ow_client_id r = cid \<and> ow_state r = StFailed \<and>
                                   (\<not> drop_reply \<or> ow_error r = Some ''message.reply_target_gone'')
                               then r\<lparr>ow_state := StPending, ow_error := None,
                                      ow_reply_to := (if drop_reply then None else ow_reply_to r)\<rparr>
                               else r) (ob_rows s)\<rparr>)"

definition retry_row :: "env \<Rightarrow> string \<Rightarrow> bool \<Rightarrow> outbox \<Rightarrow> (outbox_error + unit) \<times> outbox" where
  "retry_row env client_id drop_reply s =
     (if ob_closed s then (Inl OutboxClosed, s)
      else (let cid = given_id client_id in
        case row_channel env cid s of
          (Inl e, s) \<Rightarrow> (Inl e, s)
        | (Inr None, s) \<Rightarrow> (Inr (), s)
        | (Inr (Some channel_id), s) \<Rightarrow>
            (case sender channel_id s of
               (False, s) \<Rightarrow> (Inl OutboxClosed, s)
             | (True, s) \<Rightarrow>
                 (let (_, s) = pass env s;
                      s = (if has_flags cid s then set_flags cid no_flags s else s)
                  in case db_call env (put_back cid drop_reply) s of
                       (False, s) \<Rightarrow> (Inl StoreFailed, s)
                     | (True, s) \<Rightarrow> (Inr (), changed channel_id s)))))"

definition delete_pending :: "env \<Rightarrow> string \<Rightarrow> outbox \<Rightarrow> (outbox_error + deleted) \<times> outbox" where
  "delete_pending env client_id s =
     (if ob_closed s then (Inl OutboxClosed, s)
      else (let cid = given_id client_id in
        case row_channel env cid s of
          (Inl e, s) \<Rightarrow> (Inl e, s)
        | (Inr None, s) \<Rightarrow> (Inr NotFound, s)
        | (Inr (Some channel_id), s) \<Rightarrow>
            (let s = cancel_row_flags cid s in
             case sender channel_id s of
               (False, s) \<Rightarrow> (Inl OutboxClosed, s)
             | (True, s) \<Rightarrow>
                 (let (_, s) = pass env s in
                  case remove_row env cid s of
                    (Inl _, s) \<Rightarrow> (Inl StoreFailed, s)
                  | (Inr found, s) \<Rightarrow>
                      (Inr (if found = None \<or> found = Some StAccepted then AlreadySent else Removed),
                       changed channel_id s)))))"

text \<open>\<open>close\<close>: the senders stop and the transfer ids leave the registry.\<close>

definition close_outbox :: "outbox \<Rightarrow> outbox" where
  "close_outbox s =
     s\<lparr>ob_closed := True, ob_senders := [], ob_ids := [], ob_flags := [],
       ob_registered := filter (\<lambda>p. fst p \<notin> snd ` set (ob_ids s)) (ob_registered s)\<rparr>"

end
