(* ===== verification/Outbox_Sender.thy ===== *)
theory Outbox_Sender
  imports Outbox_Calls
begin

text \<open>
  \<open>core/src/outbox.rs\<close>, the sender: one channel's rows go out one at a time, by ordinal.
  \<open>attempt\<close> is one send of the first row with every outcome of the status table.
\<close>

section \<open>Recording an outcome\<close>

definition set_state ::
  "env \<Rightarrow> string \<Rightarrow> row_state \<Rightarrow> string option \<Rightarrow> outbox \<Rightarrow> bool \<times> outbox" where
  "set_state env client_id st err s =
     db_call env (\<lambda>s. s\<lparr>ob_rows := map (\<lambda>r. if ow_client_id r = client_id
         then r\<lparr>ow_state := st, ow_error := err,
                ow_attempts := ow_attempts r + (if st = StSending then 1 else 0)\<rparr>
         else r) (ob_rows s)\<rparr>) s"

definition fail :: "env \<Rightarrow> string \<Rightarrow> string \<Rightarrow> outbox \<Rightarrow> attempt \<times> outbox" where
  "fail env client_id code s =
     (case set_state env client_id StFailed (Some code) s of
        (True, s) \<Rightarrow> (GoOn, s)
      | (False, s) \<Rightarrow> (HoldOff None, s))"

text \<open>Put the row back as it waits, whether or not that can be recorded.\<close>

definition waits_as :: "env \<Rightarrow> string \<Rightarrow> row_state \<Rightarrow> attempt \<Rightarrow> outbox \<Rightarrow> attempt \<times> outbox" where
  "waits_as env client_id waiting outcome s =
     (outcome, snd (set_state env client_id waiting None s))"

definition set_file ::
  "env \<Rightarrow> string \<Rightarrow> string option \<Rightarrow> string option \<Rightarrow> outbox \<Rightarrow> bool \<times> outbox" where
  "set_file env name file_id err s =
     db_call env (\<lambda>s. s\<lparr>ob_files := map (\<lambda>f. if fw_file_client_id f = name
         then f\<lparr>fw_file_id := (case file_id of None \<Rightarrow> fw_file_id f | Some i \<Rightarrow> Some i), fw_error := err\<rparr>
         else f) (ob_files s)\<rparr>) s"

definition current :: "nat \<Rightarrow> outbox \<Rightarrow> bool" where
  "current epoch s \<longleftrightarrow> ob_alive s \<and> ob_session s = Some epoch"

definition emit :: "nat \<Rightarrow> transfer_state \<Rightarrow> outbox \<Rightarrow> outbox" where
  "emit tid st s = s\<lparr>ob_progress := ob_progress s @ [(tid, st)]\<rparr>"

section \<open>Uploading a row's files\<close>

fun upload_code :: "core_error \<Rightarrow> string" where
  "upload_code (Api code _) = code"
| "upload_code NotAuthenticated = ''auth.not_authenticated''"
| "upload_code (Http _) = ''transfer.network''"
| "upload_code Timeout = ''transfer.network''"
| "upload_code Disconnected = ''transfer.network''"
| "upload_code _ = ''transfer.failed''"

fun upload_transient :: "core_error \<Rightarrow> bool" where
  "upload_transient NotAuthenticated = True"
| "upload_transient UnexpectedResponse = True"
| "upload_transient (Api code m) = (is_transient (Api code m) \<or> code = ''transfer.io'')"
| "upload_transient e = is_transient e"

text \<open>One file that is not on the server yet: its id there, or what the attempt ends with.\<close>

definition verify_first ::
  "env \<Rightarrow> string \<Rightarrow> nat \<Rightarrow> file_row \<Rightarrow> outbox \<Rightarrow> attempt option \<times> outbox" where
  "verify_first env row_id tid f s =
     (let name = fw_file_client_id f in
      if name \<in> set (ob_verified s) then (None, s)
      else (let ok = en_verify env (ob_clock s) f; (_, s) = pass env s in
            if ok then (None, s\<lparr>ob_verified := name # ob_verified s\<rparr>)
            else (let (_, s) = set_file env name None (Some ''outbox.snapshot_damaged'') s;
                      s = emit tid (TransferFailed ''outbox.snapshot_damaged'') s;
                      (outcome, s) = fail env row_id ''outbox.snapshot_damaged'' s
                  in (Some outcome, s))))"

definition upload_failed ::
  "env \<Rightarrow> string \<Rightarrow> row_state \<Rightarrow> nat \<Rightarrow> file_row \<Rightarrow> core_error \<Rightarrow> bool \<Rightarrow> outbox \<Rightarrow> attempt \<times> outbox" where
  "upload_failed env row_id waiting tid f err broken s =
     (let name = fw_file_client_id f; code = upload_code err in
      if fg_cancel (flags_of row_id s)
      then fail env row_id ''transfer.cancelled'' (emit tid Cancelled s)
      else
        (let s = (if code = ''transfer.io'' \<or> broken
                  then s\<lparr>ob_verified := filter (\<lambda>n. n \<noteq> name) (ob_verified s)\<rparr> else s)
         in if upload_transient err
            then (case set_state env row_id waiting None (emit tid (Retrying 0) s) of
                    (False, s) \<Rightarrow> (HoldOff None, s)
                  | (True, s) \<Rightarrow> (if fg_pause (flags_of row_id s) then GoOn else HoldOff None, s))
            else (let (_, s) = set_file env name None (Some code) s
                  in fail env row_id code (emit tid (TransferFailed code) s))))"

fun upload_each ::
  "env \<Rightarrow> string \<Rightarrow> string \<Rightarrow> row_state \<Rightarrow> nat \<Rightarrow> file_row list \<Rightarrow> string list \<Rightarrow> outbox \<Rightarrow>
     (attempt + string list) \<times> outbox"
where
  "upload_each env channel_id row_id waiting epoch [] ids s =
     (if distinct ids then (Inr ids, s)
      else (let (outcome, s) = fail env row_id ''outbox.duplicate_file'' s in (Inl outcome, s)))"
| "upload_each env channel_id row_id waiting epoch (f # fs) ids s =
     (case fw_file_id f of
        Some i \<Rightarrow> upload_each env channel_id row_id waiting epoch fs (ids @ [i]) s
      | None \<Rightarrow>
          if \<not> current epoch s
          then (let (outcome, s) = waits_as env row_id waiting GoOn s in (Inl outcome, s))
          else
            (let (tid, s) = transfer_id env row_id (fw_file_client_id f) s in
             case verify_first env row_id tid f s of
               (Some outcome, s) \<Rightarrow> (Inl outcome, s)
             | (None, s) \<Rightarrow>
                 (let (r, broken) = en_upload env (ob_clock s) channel_id f epoch; (_, s) = pass env s in
                  case r of
                    Inl err \<Rightarrow>
                      (let (outcome, s) = upload_failed env row_id waiting tid f err broken s
                       in (Inl outcome, s))
                  | Inr info \<Rightarrow>
                      (case set_file env (fw_file_client_id f) (Some (fi_id info)) None s of
                         (False, s) \<Rightarrow>
                           (let (outcome, s) = waits_as env row_id waiting (HoldOff None) s
                            in (Inl outcome, s))
                       | (True, s) \<Rightarrow>
                           upload_each env channel_id row_id waiting epoch fs (ids @ [fi_id info])
                             (emit tid TransferDone s)))))"

definition upload_files ::
  "env \<Rightarrow> string \<Rightarrow> string \<Rightarrow> file_row list \<Rightarrow> row_state \<Rightarrow> nat \<Rightarrow> outbox \<Rightarrow>
     (attempt + string list) \<times> outbox"
where
  "upload_files env channel_id row_id files waiting epoch s =
     (let s = make_flags row_id s;
          s = set_flags row_id ((flags_of row_id s)\<lparr>fg_pause := False\<rparr>) s
      in if fg_cancel (flags_of row_id s)
         then (let (outcome, s) = fail env row_id ''transfer.cancelled'' s in (Inl outcome, s))
         else (let (r, s) = upload_each env channel_id row_id waiting epoch files []
                              (s\<lparr>ob_pauser := Some (row_id, epoch)\<rparr>)
               in (r, s\<lparr>ob_pauser := None\<rparr>)))"

section \<open>One attempt\<close>

text \<open>\<open>drop_row\<close>: the message is on the server, its row goes.\<close>

definition drop_row :: "env \<Rightarrow> string \<Rightarrow> bool \<Rightarrow> outbox \<Rightarrow> attempt \<times> outbox" where
  "drop_row env client_id accepted s =
     (case remove_row env client_id s of
        (Inr _, s) \<Rightarrow> (GoOn, s)
      | (Inl _, s) \<Rightarrow>
          (HoldOff None, if accepted then s else snd (set_state env client_id StAccepted None s)))"

text \<open>
  One pass of the loop in \<open>attempt\<close>: the uploads (of a row that has files and is not accepted),
  the checks around the request, and the request. \<open>Inl\<close>: the attempt ends here.
\<close>

definition send_once ::
  "env \<Rightarrow> string \<Rightarrow> string \<Rightarrow> outgoing \<Rightarrow> file_row list \<Rightarrow> bool \<Rightarrow> row_state \<Rightarrow> nat \<Rightarrow> outbox \<Rightarrow>
     (attempt + (send_failure + json)) \<times> outbox"
where
  "send_once env channel_id client_id msg files uploads waiting epoch s =
     (let uploaded = (if uploads
            then (case upload_files env channel_id client_id files waiting epoch s of
                    (Inl outcome, s) \<Rightarrow> (Inl outcome, s)
                  | (Inr ids, s) \<Rightarrow>
                      (let s = make_flags client_id s in
                       if fg_cancel (flags_of client_id s)
                       then (let (outcome, s) = fail env client_id ''transfer.cancelled'' s
                             in (Inl outcome, s))
                       else (Inr (msg\<lparr>og_attachments := ids\<rparr>), s)))
            else (Inr msg, s))
      in case uploaded of
           (Inl outcome, s) \<Rightarrow> (Inl outcome, s)
         | (Inr msg, s) \<Rightarrow>
             if \<not> current epoch s
             then (let (outcome, s) = waits_as env client_id waiting GoOn s in (Inl outcome, s))
             else
               (let (answer, s) = post env channel_id msg client_id epoch s in
                if \<not> current epoch s
                then (let (outcome, s) = waits_as env client_id waiting GoOn s in (Inl outcome, s))
                else (Inr answer, s)))"

text \<open>What an answer that is not a re-creation does to the row.\<close>

definition settle ::
  "env \<Rightarrow> string \<Rightarrow> bool \<Rightarrow> row_state \<Rightarrow> send_failure + json \<Rightarrow> outbox \<Rightarrow> attempt \<times> outbox" where
  "settle env client_id accepted waiting answer s =
     (case answer of
        Inr message \<Rightarrow>
          if jget_str ''client_id'' message \<noteq> Some client_id
          then fail env client_id ''outbox.echo_mismatch'' s
          else (case ack env message s of
                  (ok, s) \<Rightarrow>
                    if \<not> ok \<and> \<not> accepted
                    then waits_as env client_id StAccepted (HoldOff None) s
                    else drop_row env client_id accepted s)
      | Inl (Refused code) \<Rightarrow>
          if accepted then drop_row env client_id True s else fail env client_id code s
      | Inl (Transient after) \<Rightarrow>
          (case set_state env client_id waiting None s of
             (False, s) \<Rightarrow> (HoldOff None, s)
           | (True, s) \<Rightarrow> (HoldOff (map_option (max 1) after), s)))"

text \<open>\<open>file.not_attachable\<close>: the server swept the files; create them again, once.\<close>

definition swept :: "bool \<Rightarrow> file_row list \<Rightarrow> send_failure + json \<Rightarrow> bool" where
  "swept accepted files answer \<longleftrightarrow>
     answer = Inl (Refused ''file.not_attachable'') \<and> files \<noteq> [] \<and> \<not> accepted"

definition clear_file_ids :: "string \<Rightarrow> outbox \<Rightarrow> outbox" where
  "clear_file_ids client_id s =
     s\<lparr>ob_files := map (\<lambda>f. if fw_client_id f = client_id then f\<lparr>fw_file_id := None\<rparr> else f)
                     (ob_files s)\<rparr>"

definition send_files ::
  "env \<Rightarrow> string \<Rightarrow> string \<Rightarrow> outgoing \<Rightarrow> bool \<Rightarrow> row_state \<Rightarrow> nat \<Rightarrow> file_row list \<Rightarrow> outbox \<Rightarrow>
     attempt \<times> outbox"
where
  "send_files env channel_id client_id msg accepted waiting epoch files s =
     (case send_once env channel_id client_id msg files (files \<noteq> [] \<and> \<not> accepted) waiting epoch s of
        (Inl outcome, s) \<Rightarrow> (outcome, s)
      | (Inr answer, s) \<Rightarrow>
          if \<not> swept accepted files answer then settle env client_id accepted waiting answer s
          else (case db_call env (clear_file_ids client_id) s of
                  (False, s) \<Rightarrow> waits_as env client_id waiting (HoldOff None) s
                | (True, s) \<Rightarrow>
                    (case files_of env client_id s of
                       (None, s) \<Rightarrow> waits_as env client_id waiting (HoldOff None) s
                     | (Some again, s) \<Rightarrow>
                         (case send_once env channel_id client_id msg again True waiting epoch s of
                            (Inl outcome, s) \<Rightarrow> (outcome, s)
                          | (Inr answer, s) \<Rightarrow> settle env client_id accepted waiting answer s))))"

text \<open>An accepted row's files were committed with it: it is sent with their ids as they are.\<close>

definition attempt_send ::
  "env \<Rightarrow> string \<Rightarrow> string \<Rightarrow> outgoing \<Rightarrow> bool \<Rightarrow> nat \<Rightarrow> file_row list \<Rightarrow> outbox \<Rightarrow> attempt \<times> outbox"
where
  "attempt_send env channel_id client_id msg accepted epoch files s =
     send_files env channel_id client_id
       (if accepted then msg\<lparr>og_attachments := List.map_filter fw_file_id files\<rparr> else msg)
       accepted (if accepted then StAccepted else StPending) epoch files s"

definition attempt_row ::
  "env \<Rightarrow> string \<Rightarrow> string \<Rightarrow> outgoing \<Rightarrow> bool \<Rightarrow> nat \<Rightarrow> outbox \<Rightarrow> attempt \<times> outbox"
where
  "attempt_row env channel_id client_id msg accepted epoch s =
     (let waiting = (if accepted then StAccepted else StPending);
          (ok, s) = (if accepted then (True, s) else set_state env client_id StSending None s)
      in if \<not> ok then (HoldOff None, s)
         else
           (let s = changed channel_id s in
            if \<not> current epoch s then waits_as env client_id waiting GoOn s
            else (case files_of env client_id s of
                    (None, s) \<Rightarrow> waits_as env client_id waiting (HoldOff None) s
                  | (Some files, s) \<Rightarrow> attempt_send env channel_id client_id msg accepted epoch files s)))"

section \<open>The channel's loop\<close>

text \<open>\<open>next_row\<close>: the first by ordinal, whatever its state.\<close>

definition next_row :: "env \<Rightarrow> string \<Rightarrow> outbox \<Rightarrow> outbox_row option option \<times> outbox" where
  "next_row env channel_id s =
     (case db_call env id s of
        (False, s) \<Rightarrow> (None, s)
      | (True, s) \<Rightarrow>
          (Some (case channel_rows channel_id s of [] \<Rightarrow> None | r # _ \<Rightarrow> Some r), s))"

text \<open>One round of \<open>run_channel\<close>: how it ends, and the backoff that then stands.\<close>

datatype sender_round = Shutdown | SignedOutRound | IdleRound | Sent | Slept nat

definition run_round :: "env \<Rightarrow> string \<Rightarrow> nat \<Rightarrow> outbox \<Rightarrow> sender_round \<times> nat \<times> outbox" where
  "run_round env channel_id bo s =
     (if \<not> ob_alive s then (Shutdown, bo, s)
      else (case ob_session s of
        None \<Rightarrow> (SignedOutRound, bo, snd (pass env s))
      | Some epoch \<Rightarrow>
          (let (_, s) = pass env s in
           case next_row env channel_id s of
             (Some (Some r), s) \<Rightarrow>
               if ow_state r = StFailed then (IdleRound, bo, snd (pass env s))
               else
                 (let (outcome, s) = attempt_row env channel_id (ow_client_id r)
                        (message_of (ow_body r) (ow_reply_to r)) (ow_state r = StAccepted) epoch s;
                      s = changed channel_id s
                  in case outcome of
                       GoOn \<Rightarrow> (Sent, 1, s)
                     | HoldOff after \<Rightarrow>
                         (Slept (case after of None \<Rightarrow> bo | Some w \<Rightarrow> w), min (bo * 2) max_backoff,
                          snd (pass env s)))
           | (_, s) \<Rightarrow> (IdleRound, bo, snd (pass env s)))))"

text \<open>\<open>run_channel\<close> for a number of rounds: it has no end of its own but the client's.\<close>

fun run_channel :: "env \<Rightarrow> nat \<Rightarrow> string \<Rightarrow> nat \<Rightarrow> outbox \<Rightarrow> sender_round list \<times> outbox" where
  "run_channel env 0 channel_id bo s = ([], s)"
| "run_channel env (Suc n) channel_id bo s =
     (case run_round env channel_id bo s of
        (Shutdown, _, s) \<Rightarrow> ([Shutdown], s)
      | (r, bo, s) \<Rightarrow> (let (rs, s) = run_channel env n channel_id bo s in (r # rs, s)))"

end
