(* ===== verification/Outbox_Kept.thy ===== *)
theory Outbox_Kept
  imports Outbox_Facts
begin

text \<open>
  No row is lost and none overtakes: each operation is placed in a relation between the state
  before and after, which composes. \<open>kept\<close> is what everything but a removal satisfies.
\<close>

section \<open>Well-formed tables\<close>

definition tables_ok :: "outbox \<Rightarrow> bool" where
  "tables_ok s \<longleftrightarrow>
     rows_unique ow_client_id (ob_rows s) \<and> sorted_wrt (<) (map ow_ordinal (ob_rows s)) \<and>
     (\<forall>r \<in> set (ob_rows s). ow_ordinal r < ob_next s) \<and>
     rows_unique fw_file_client_id (ob_files s) \<and>
     (\<forall>f \<in> set (ob_files s). fw_client_id f \<in> ow_client_id ` set (ob_rows s))"

lemma tables_ok_fresh: "tables_ok (fresh_outbox c se)"
  by (simp add: tables_ok_def fresh_outbox_def)

text \<open>What a row keeps while its own attempt writes to it: everything but state, count and error.\<close>

definition face :: "string \<Rightarrow> outbox_row \<Rightarrow> outbox_row" where
  "face cid r = (if ow_client_id r = cid
     then r\<lparr>ow_state := StPending, ow_attempts := 0, ow_error := None\<rparr> else r)"

definition kept_rows :: "string \<Rightarrow> (post_request \<Rightarrow> bool) \<Rightarrow> outbox \<Rightarrow> outbox \<Rightarrow> bool" where
  "kept_rows cid P s s' \<longleftrightarrow>
     (\<exists>new. map (face cid) (ob_rows s') = map (face cid) (ob_rows s) @ new \<and>
        (\<forall>r \<in> set new. ob_next s \<le> ow_ordinal r)) \<and> ob_next s \<le> ob_next s' \<and>
     (\<exists>sent. ob_posts s' = ob_posts s @ sent \<and> list_all P sent) \<and>
     (tables_ok s \<longrightarrow> tables_ok s')"

definition kept :: "string \<Rightarrow> (post_request \<Rightarrow> bool) \<Rightarrow> outbox \<Rightarrow> outbox \<Rightarrow> bool" where
  "kept cid P s s' \<longleftrightarrow> kept_rows cid P s s' \<and> ob_cache s' = ob_cache s"

lemma kept_rows_refl [simp, intro]: "kept_rows cid P s s"
  by (simp add: kept_rows_def)

lemma kept_rows_trans [trans]:
  assumes "kept_rows cid P s t" and "kept_rows cid P t u"
  shows "kept_rows cid P s u"
proof -
  from assms obtain n1 n2 p1 p2 where
    n: "map (face cid) (ob_rows t) = map (face cid) (ob_rows s) @ n1"
      "\<forall>r \<in> set n1. ob_next s \<le> ow_ordinal r"
      "map (face cid) (ob_rows u) = map (face cid) (ob_rows t) @ n2"
      "\<forall>r \<in> set n2. ob_next t \<le> ow_ordinal r" and
    p: "ob_posts t = ob_posts s @ p1" "list_all P p1" "ob_posts u = ob_posts t @ p2" "list_all P p2"
    by (auto simp: kept_rows_def)
  have le: "ob_next s \<le> ob_next t" "ob_next t \<le> ob_next u"
    and ok: "tables_ok s \<longrightarrow> tables_ok t" "tables_ok t \<longrightarrow> tables_ok u"
    using assms by (simp_all add: kept_rows_def)
  have "map (face cid) (ob_rows u) = map (face cid) (ob_rows s) @ (n1 @ n2) \<and>
      (\<forall>r \<in> set (n1 @ n2). ob_next s \<le> ow_ordinal r)"
    using n le by (auto intro: order_trans)
  moreover have "ob_posts u = ob_posts s @ (p1 @ p2) \<and> list_all P (p1 @ p2)" using p by simp
  ultimately show ?thesis using le ok unfolding kept_rows_def by (meson order_trans)
qed

lemma kept_refl [simp, intro]: "kept cid P s s"
  by (simp add: kept_def)

lemma kept_trans [trans]: "kept cid P s t \<Longrightarrow> kept cid P t u \<Longrightarrow> kept cid P s u"
  by (auto simp: kept_def intro: kept_rows_trans)

lemma kept_rowsI [intro]: "kept cid P s t \<Longrightarrow> kept_rows cid P s t"
  by (simp add: kept_def)

lemma kept_mono: "kept cid P s t \<Longrightarrow> (\<And>p. P p \<Longrightarrow> Q p) \<Longrightarrow> kept cid Q s t"
  by (auto simp: kept_def kept_rows_def list_all_iff)

text \<open>No post at all: \<open>kept\<close> of a \<open>P\<close> nothing satisfies.\<close>

lemma kept_silent: "kept cid (\<lambda>_. False) s t \<Longrightarrow> ob_posts t = ob_posts s"
  by (auto simp: kept_def kept_rows_def list_all_iff)

lemma kept_quiet: "kept cid (\<lambda>_. False) s t \<Longrightarrow> kept cid P s t"
  by (erule kept_mono) simp

lemma kept_same:
  assumes "ob_rows s' = ob_rows s" "ob_posts s' = ob_posts s" "ob_cache s' = ob_cache s"
    and "ob_next s' = ob_next s" "map fw_file_client_id (ob_files s') = map fw_file_client_id (ob_files s)"
    and "map fw_client_id (ob_files s') = map fw_client_id (ob_files s)"
  shows "kept cid P s s'"
proof -
  have "fw_client_id ` set (ob_files s') = fw_client_id ` set (ob_files s)"
    using arg_cong [OF assms(6), of set] by simp
  then have "fw_client_id ` set (ob_files s') \<subseteq> A \<longleftrightarrow> fw_client_id ` set (ob_files s) \<subseteq> A" for A
    by simp
  then have "(\<forall>f \<in> set (ob_files s'). fw_client_id f \<in> A) = (\<forall>f \<in> set (ob_files s). fw_client_id f \<in> A)" for A
    by (simp add: image_subset_iff)
  with assms show ?thesis by (simp add: kept_def kept_rows_def tables_ok_def)
qed

section \<open>The primitives\<close>

lemma face_key [simp]: "ow_client_id (face cid r) = ow_client_id r" "ow_ordinal (face cid r) = ow_ordinal r"
  "ow_channel (face cid r) = ow_channel r" "ow_body (face cid r) = ow_body r"
  "ow_reply_to (face cid r) = ow_reply_to r"
  by (simp_all add: face_def)

lemma tables_ok_rows:
  assumes "map (\<lambda>r. (ow_client_id r, ow_ordinal r)) rows = map (\<lambda>r. (ow_client_id r, ow_ordinal r)) (ob_rows s)"
  shows "tables_ok (s\<lparr>ob_rows := rows\<rparr>) = tables_ok s"
proof -
  have c: "map ow_client_id rows = map ow_client_id (ob_rows s)"
    and n: "map ow_ordinal rows = map ow_ordinal (ob_rows s)"
    using arg_cong [OF assms, of "map fst"] arg_cong [OF assms, of "map snd"] by (simp_all add: comp_def)
  have "ow_client_id ` set rows = ow_client_id ` set (ob_rows s)" using c by (metis set_map)
  moreover have "(\<forall>r \<in> set rows. ow_ordinal r < k) = (\<forall>r \<in> set (ob_rows s). ow_ordinal r < k)" for k
    using arg_cong [OF n, of "\<lambda>xs. \<forall>x \<in> set xs. x < k"] by simp
  ultimately show ?thesis using c n by (simp add: tables_ok_def)
qed

lemma numbered_names:
  "map fw_file_client_id (map (\<lambda>(i, f). f\<lparr>fw_client_id := c, fw_ordinal := i, fw_file_id := None,
      fw_error := None\<rparr>) (enumerate k fs)) = map fw_file_client_id fs"
  by (induction fs arbitrary: k) simp_all

lemma insert_message_kept:
  assumes "insert_message m s = Some (s', n)"
  shows "kept cid P s s'"
proof (cases "n = 0")
  case True
  with assms show ?thesis by (auto simp: insert_message_def split: if_splits)
next
  case False
  define fs where "fs = map (\<lambda>(i, f). f\<lparr>fw_client_id := nm_client_id m, fw_ordinal := i, fw_file_id := None,
      fw_error := None\<rparr>) (enumerate 0 (nm_files m))"
  have absent: "nm_client_id m \<notin> ow_client_id ` set (ob_rows s)"
    using assms False by (auto simp: insert_message_def split: if_split_asm)
  have "\<not> (\<not> distinct (map fw_file_client_id (nm_files m)) \<or>
              fw_file_client_id ` set (nm_files m) \<inter> fw_file_client_id ` set (ob_files s) \<noteq> {})"
    using assms absent by (simp add: insert_message_def split: if_split_asm)
  then have fresh: "distinct (map fw_file_client_id (nm_files m))"
    "fw_file_client_id ` set (nm_files m) \<inter> fw_file_client_id ` set (ob_files s) = {}" by blast+
  have names: "map fw_file_client_id fs = map fw_file_client_id (nm_files m)"
    unfolding fs_def by (rule numbered_names)
  have set: "fw_file_client_id ` set fs = fw_file_client_id ` set (nm_files m)"
    using arg_cong [OF names, of set] unfolding set_map .
  have mine: "\<forall>f \<in> set fs. fw_client_id f = nm_client_id m" by (auto simp: fs_def)
  have s': "s' = s\<lparr>ob_rows := ob_rows s @
        [\<lparr>ow_ordinal = ob_next s, ow_client_id = nm_client_id m, ow_channel = nm_channel m,
          ow_body = nm_body m, ow_reply_to = nm_reply_to m, ow_state = StPending,
          ow_attempts = 0, ow_error = None, ow_created_at = nm_created_at m\<rparr>],
      ob_files := ob_files s @ fs, ob_next := Suc (ob_next s)\<rparr>"
    using assms absent fresh by (simp add: insert_message_def fs_def)
  have files: "rows_unique fw_file_client_id (ob_files s @ fs)" if "rows_unique fw_file_client_id (ob_files s)"
    using that fresh unfolding map_append distinct_append names set_map set
    by (simp add: Int_commute)
  have "tables_ok s'" if ok: "tables_ok s"
    unfolding tables_ok_def
  proof (intro conjI)
    show "rows_unique ow_client_id (ob_rows s')" using ok absent by (simp add: s' tables_ok_def)
    show "sorted_wrt (<) (map ow_ordinal (ob_rows s'))" using ok by (simp add: s' tables_ok_def sorted_wrt_append)
    show "\<forall>r \<in> set (ob_rows s'). ow_ordinal r < ob_next s'" using ok by (auto simp: s' tables_ok_def)
    show "rows_unique fw_file_client_id (ob_files s')" using ok files by (simp add: s' tables_ok_def)
    show "\<forall>f \<in> set (ob_files s'). fw_client_id f \<in> ow_client_id ` set (ob_rows s')"
      using ok mine by (simp add: s' tables_ok_def ball_Un)
  qed
  then show ?thesis by (simp add: kept_def kept_rows_def s' face_def)
qed

lemma flags_kept [simp]:
  "kept cid P s (set_flags r f s)" "kept cid P s (make_flags r s)" "kept cid P s (cancel_row_flags r s)"
  "kept cid P s (pause_uploads s)" "kept cid P s (changed c s)" "kept cid P s (emit t st s)"
  by (auto intro!: kept_same simp: set_flags_def make_flags_def cancel_row_flags_def pause_uploads_def
      changed_def emit_def split: option.splits)

lemma fold_kept: "(\<And>x s. kept cid P s (f x s)) \<Longrightarrow> kept cid P s (fold f xs s)"
  by (induction xs arbitrary: s) (auto intro: kept_trans)

lemma queue_other_kept [simp]: "kept cid P s (queue_other m s)"
  by (auto simp: queue_other_def intro: insert_message_kept split: option.splits)

lemma pass_kept [simp]: "kept cid P s (snd (pass env s))"
proof -
  let ?t = "en_turn env (ob_clock s)"
  let ?s1 = "s\<lparr>ob_clock := Suc (ob_clock s)\<rparr>"
  let ?s2 = "fold queue_other (tn_queued ?t) ?s1"
  let ?s3 = "fold cancel_row_flags (tn_cancelled ?t) ?s2"
  let ?s4 = "case tn_session ?t of None \<Rightarrow> ?s3 | Some v \<Rightarrow> ?s3\<lparr>ob_session := v\<rparr>"
  let ?s5 = "if tn_gone ?t then ?s4\<lparr>ob_alive := False\<rparr> else ?s4"
  have "kept cid P s ?s1" by (rule kept_same) simp_all
  also have "kept cid P ?s1 ?s2" by (rule fold_kept) simp
  also have "kept cid P ?s2 ?s3" by (rule fold_kept) simp
  also have "kept cid P ?s3 ?s4" by (rule kept_same) (simp_all split: option.split)
  also have "kept cid P ?s4 ?s5" by (rule kept_same) simp_all
  also have "kept cid P ?s5 (snd (pass env s))" by (simp add: pass_def Let_def)
  finally show ?thesis .
qed

lemma pass_kept' [intro]: "pass env s = (t, s') \<Longrightarrow> kept cid P s s'"
  using pass_kept [of cid P s env] by simp

lemma db_call_kept:
  assumes "\<And>s. kept cid P s (f s)"
  shows "kept cid P s (snd (db_call env f s))"
  using assms by (auto simp: db_call_def split: prod.splits intro: kept_trans [OF pass_kept'])

lemma rows_map_kept:
  assumes "\<And>r. ow_client_id (g r) = ow_client_id r" "\<And>r. ow_ordinal (g r) = ow_ordinal r"
    and "\<And>r. face cid (g r) = face cid r"
  shows "kept cid P s (s\<lparr>ob_rows := map g (ob_rows s)\<rparr>)"
  using assms tables_ok_rows [of "map g (ob_rows s)" s] by (simp add: kept_def kept_rows_def comp_def)

lemma files_map_kept:
  assumes "\<And>f. fw_client_id (g f) = fw_client_id f" "\<And>f. fw_file_client_id (g f) = fw_file_client_id f"
  shows "kept cid P s (s\<lparr>ob_files := map g (ob_files s)\<rparr>)"
  by (rule kept_same) (simp_all add: assms comp_def)

lemma set_state_kept [simp]: "kept cid P s (snd (set_state env cid st err s))"
  unfolding set_state_def by (rule db_call_kept, rule rows_map_kept) (auto simp: face_def)

lemma set_file_kept [simp]: "kept cid P s (snd (set_file env name i err s))"
  unfolding set_file_def by (rule db_call_kept, rule files_map_kept) simp_all

lemma fail_kept [simp]: "kept cid P s (snd (fail env cid code s))"
  using set_state_kept [of cid P s env StFailed "Some code"]
  by (cases "set_state env cid StFailed (Some code) s") (simp add: fail_def split: bool.split)

lemma waits_as_kept [simp]: "kept cid P s (snd (waits_as env cid w out s))"
  by (simp add: waits_as_def)

lemma files_of_kept [simp]: "kept cid P s (snd (files_of env r s))"
  using db_call_kept [of cid P id s env] by (cases "db_call env id s") (simp add: files_of_def split: bool.split)

lemma transfer_id_kept [simp]: "kept cid P s (snd (transfer_id env r name s))"
  by (rule kept_same)
    (auto simp: transfer_id_def Let_def make_flags_def set_flags_def split: option.splits prod.splits)

lemma clear_file_ids_kept [simp]: "kept cid P s (clear_file_ids r s)"
  unfolding clear_file_ids_def by (rule files_map_kept) simp_all

end
