(* ===== verification/Outbox_Delivery.thy ===== *)
theory Outbox_Delivery
  imports Outbox_Kept
begin

text \<open>
  One attempt of the sender. Until the answer, every step satisfies \<open>kept\<close>; a row only goes
  once the server answered for it, and the message is then in the cache.
\<close>

section \<open>Steps in a row\<close>

lemma field_kept [simp]:
  "kept cid P s (s\<lparr>ob_verified := v\<rparr>)" "kept cid P s (s\<lparr>ob_pauser := p\<rparr>)"
  by (rule kept_same; simp)+

lemmas kept_steps [intro] =
  set_state_kept [THEN kept_trans [rotated]] set_file_kept [THEN kept_trans [rotated]]
  fail_kept [THEN kept_trans [rotated]] files_of_kept [THEN kept_trans [rotated]]
  transfer_id_kept [THEN kept_trans [rotated]] clear_file_ids_kept [THEN kept_trans [rotated]]
  pass_kept [THEN kept_trans [rotated]] flags_kept [THEN kept_trans [rotated]]
  field_kept [THEN kept_trans [rotated]] waits_as_kept [THEN kept_trans [rotated]]

section \<open>Uploading\<close>

lemma verify_first_kept: "kept cid P s t \<Longrightarrow> kept cid P s (snd (verify_first env cid tid f t))"
  by (auto simp: verify_first_def Let_def split_def)

lemma upload_failed_kept:
  "kept cid P s t \<Longrightarrow> kept cid P s (snd (upload_failed env cid w tid f err broken t))"
  by (auto simp: upload_failed_def Let_def split_def split: bool.split)

lemma upload_each_kept:
  "kept cid P s t \<Longrightarrow> kept cid P s (snd (upload_each env ch cid w epoch fs ids t))"
proof (induction fs arbitrary: ids t)
  case Nil
  then show ?case by (auto simp: Let_def split_def)
next
  case (Cons f fs)
  show ?case
  proof (cases "fw_file_id f = None \<and> current epoch t")
    case False
    with Cons show ?thesis by (auto simp: Let_def split_def split: option.split)
  next
    case True
    let ?v = "verify_first env cid (fst (transfer_id env cid (fw_file_client_id f) t)) f
                (snd (transfer_id env cid (fw_file_client_id f) t))"
    have v: "kept cid P s (snd ?v)" by (rule verify_first_kept) (use Cons.prems in blast)
    show ?thesis
    proof (cases "fst ?v")
      case None
      let ?u = "en_upload env (ob_clock (snd ?v)) ch f epoch"
      have p: "kept cid P s (snd (pass env (snd ?v)))" using v by blast
      show ?thesis
      proof (cases "fst ?u")
        case (Inl err)
        have "kept cid P s (snd (upload_failed env cid w
            (fst (transfer_id env cid (fw_file_client_id f) t)) f err (snd ?u) (snd (pass env (snd ?v)))))"
          by (rule upload_failed_kept) (rule p)
        with True None Inl show ?thesis by (simp add: Let_def split_def)
      next
        case (Inr info)
        let ?sf = "set_file env (fw_file_client_id f) (Some (fi_id info)) None (snd (pass env (snd ?v)))"
        have sf: "kept cid P s (snd ?sf)" using p by blast
        then have "kept cid P s (snd (upload_each env ch cid w epoch fs (ids @ [fi_id info])
            (emit (fst (transfer_id env cid (fw_file_client_id f) t)) TransferDone (snd ?sf))))"
          by (intro Cons.IH) blast
        moreover have "kept cid P s (snd (waits_as env cid w (HoldOff None) (snd ?sf)))" using sf by blast
        ultimately show ?thesis using True None Inr by (simp add: Let_def split_def split: bool.split)
      qed
    next
      case (Some outcome)
      with True v show ?thesis by (simp add: Let_def split_def)
    qed
  qed
qed

lemma upload_files_kept:
  assumes "kept cid P s t"
  shows "kept cid P s (snd (upload_files env ch cid fs w epoch t))"
proof -
  let ?a = "set_flags cid ((flags_of cid (make_flags cid t))\<lparr>fg_pause := False\<rparr>) (make_flags cid t)"
  have a: "kept cid P s ?a" using assms by blast
  then have "kept cid P s (snd (upload_each env ch cid w epoch fs [] (?a\<lparr>ob_pauser := Some (cid, epoch)\<rparr>)))"
    by (intro upload_each_kept) blast
  with a show ?thesis by (auto simp: upload_files_def Let_def split_def)
qed

section \<open>The request\<close>

text \<open>What a request of this attempt is, and the server's answer to it.\<close>

definition ours :: "string \<Rightarrow> string \<Rightarrow> outgoing \<Rightarrow> nat \<Rightarrow> post_request \<Rightarrow> bool" where
  "ours ch cid msg epoch p \<longleftrightarrow>
     pr_channel p = ch \<and> pr_client_id p = cid \<and> og_body (pr_message p) = og_body msg \<and>
     og_reply_to (pr_message p) = og_reply_to msg \<and> pr_epoch p = epoch \<and> pr_session p = Some epoch"

definition answer_of :: "env \<Rightarrow> post_request \<Rightarrow> send_failure + json" where
  "answer_of env p = en_post env (pr_at p) (pr_channel p) (pr_message p) (pr_client_id p) (pr_epoch p)"

lemma post_kept:
  assumes "current epoch s" "og_body m = og_body msg" "og_reply_to m = og_reply_to msg"
  shows "kept cid (ours ch cid msg epoch) s (snd (post env ch m cid epoch s)) \<and>
    (\<exists>p. ob_posts (snd (post env ch m cid epoch s)) = ob_posts s @ [p] \<and> ours ch cid msg epoch p \<and>
         fst (post env ch m cid epoch s) = answer_of env p)"
proof -
  let ?p = "\<lparr>pr_channel = ch, pr_message = m, pr_client_id = cid, pr_epoch = epoch,
    pr_session = ob_session s, pr_at = ob_clock s\<rparr>"
  let ?s = "s\<lparr>ob_posts := ob_posts s @ [?p]\<rparr>"
  have o: "ours ch cid msg epoch ?p" using assms by (simp add: ours_def current_def)
  then have "kept cid (ours ch cid msg epoch) s ?s" by (simp add: kept_def kept_rows_def tables_ok_def)
  then have "kept cid (ours ch cid msg epoch) s (snd (pass env ?s))" by blast
  moreover have "ob_posts (snd (pass env ?s)) = ob_posts s @ [?p]"
    using kept_silent [OF pass_kept [of cid _ ?s env]] by simp
  ultimately show ?thesis using o by (simp add: post_def Let_def split_def answer_of_def)
qed

text \<open>One pass: nothing but its own row changes; at most one request, and its answer is the pass's.\<close>

lemma send_once_kept:
  "kept cid (ours ch cid msg epoch) s (snd (send_once env ch cid msg fs u w epoch s)) \<and>
   (\<exists>sent. ob_posts (snd (send_once env ch cid msg fs u w epoch s)) = ob_posts s @ sent \<and> length sent \<le> 1 \<and>
      (\<forall>answer. fst (send_once env ch cid msg fs u w epoch s) = Inr answer \<longrightarrow>
         (\<exists>p. sent = [p] \<and> ours ch cid msg epoch p \<and> answer = answer_of env p)))"
proof -
  define K where "K r \<longleftrightarrow> kept cid (ours ch cid msg epoch) s (snd r) \<and>
    (\<exists>sent. ob_posts (snd r) = ob_posts s @ sent \<and> length sent \<le> 1 \<and>
      (\<forall>answer. fst r = Inr answer \<longrightarrow>
         (\<exists>p. sent = [p] \<and> ours ch cid msg epoch p \<and> answer = answer_of env p)))"
    for r :: "(attempt + (send_failure + json)) \<times> outbox"
  text \<open>After the uploads.\<close>
  define R where "R m t = (if \<not> current epoch t
      then (let (outcome, t) = waits_as env cid w GoOn t in (Inl outcome, t))
      else (let (answer, t) = post env ch m cid epoch t
            in if \<not> current epoch t then (let (outcome, t) = waits_as env cid w GoOn t in (Inl outcome, t))
               else (Inr answer, t)))" for m t
  have tail: "K (R m t)"
    if t: "kept cid (\<lambda>_. False) s t" and m: "og_body m = og_body msg" "og_reply_to m = og_reply_to msg" for t m
  proof -
    have st: "kept cid (ours ch cid msg epoch) s t" "ob_posts t = ob_posts s"
      using t kept_quiet kept_silent by blast+
    show ?thesis
    proof (cases "current epoch t")
      case False
      have "kept cid (\<lambda>_. False) s (snd (waits_as env cid w GoOn t))" using t by blast
      with False show ?thesis
        using kept_quiet [of cid s _ "ours ch cid msg epoch"] kept_silent by (simp add: K_def R_def Let_def split_def)
    next
      case True
      obtain p where p: "kept cid (ours ch cid msg epoch) t (snd (post env ch m cid epoch t))"
        "ob_posts (snd (post env ch m cid epoch t)) = ob_posts t @ [p]" "ours ch cid msg epoch p"
        "fst (post env ch m cid epoch t) = answer_of env p"
        using post_kept [OF True m] by blast
      let ?u = "snd (post env ch m cid epoch t)"
      have k: "kept cid (ours ch cid msg epoch) s ?u" using st(1) p(1) kept_trans by blast
      moreover have "kept cid (ours ch cid msg epoch) s (snd (waits_as env cid w GoOn ?u))" using k by blast
      moreover have "ob_posts (snd (waits_as env cid w GoOn ?u)) = ob_posts ?u"
        by (rule kept_silent) (rule waits_as_kept)
      ultimately show ?thesis using True p(2-4) st(2) by (simp add: K_def R_def Let_def split_def)
    qed
  qed
  have "K (send_once env ch cid msg fs u w epoch s)"
  proof (cases u)
    case False
    then have "send_once env ch cid msg fs u w epoch s = R msg s" by (simp add: send_once_def R_def Let_def)
    then show ?thesis using tail [of s msg] by simp
  next
    case True
    let ?f = "upload_files env ch cid fs w epoch s"
    have f: "kept cid (\<lambda>_. False) s (snd ?f)" by (rule upload_files_kept) simp
    show ?thesis
    proof (cases "fst ?f")
      case (Inl outcome)
      with True f show ?thesis
        using kept_quiet [of cid s _ "ours ch cid msg epoch"] kept_silent [OF f]
        by (simp add: K_def send_once_def Let_def split_def)
    next
      case (Inr ids)
      let ?g = "make_flags cid (snd ?f)"
      have g: "kept cid (\<lambda>_. False) s ?g" using f by blast
      have h: "kept cid (\<lambda>_. False) s (snd (fail env cid ''transfer.cancelled'' ?g))" using g by blast
      have "K (Inl (fst (fail env cid ''transfer.cancelled'' ?g)), snd (fail env cid ''transfer.cancelled'' ?g))"
        using kept_quiet [OF h] kept_silent [OF h] by (simp add: K_def)
      moreover have "send_once env ch cid msg fs u w epoch s =
          (if fg_cancel (flags_of cid ?g)
           then (Inl (fst (fail env cid ''transfer.cancelled'' ?g)), snd (fail env cid ''transfer.cancelled'' ?g))
           else R (msg\<lparr>og_attachments := ids\<rparr>) ?g)"
        using True Inr by (simp add: send_once_def R_def Let_def split_def)
      moreover have "K (R (msg\<lparr>og_attachments := ids\<rparr>) ?g)" by (rule tail [OF g]) simp_all
      ultimately show ?thesis by simp
    qed
  qed
  then show ?thesis by (simp add: K_def)
qed

section \<open>Removing the row\<close>

definition others :: "string \<Rightarrow> outbox_row list \<Rightarrow> outbox_row list" where
  "others cid rows = filter (\<lambda>r. ow_client_id r \<noteq> cid) rows"

lemma others_append [simp]: "others cid (xs @ ys) = others cid xs @ others cid ys"
  by (simp add: others_def)

lemma others_face: "others cid (map (face cid) rows) = others cid rows"
  by (induction rows) (auto simp: others_def face_def)

text \<open>What even a removal keeps: the other rows, their order, the log, the well-formedness.\<close>

definition order_kept :: "string \<Rightarrow> outbox \<Rightarrow> outbox \<Rightarrow> bool" where
  "order_kept cid s s' \<longleftrightarrow>
     (\<exists>new. others cid (ob_rows s') = others cid (ob_rows s) @ new) \<and>
     (\<forall>r \<in> set (ob_rows s'). ow_ordinal r < ob_next s \<longrightarrow> face cid r \<in> face cid ` set (ob_rows s)) \<and>
     ob_next s \<le> ob_next s' \<and> (tables_ok s \<longrightarrow> tables_ok s')"

lemma order_kept_trans [trans]:
  assumes "order_kept cid s t" and "order_kept cid t u"
  shows "order_kept cid s u"
proof -
  have "face cid r \<in> face cid ` set (ob_rows s)"
    if "r \<in> set (ob_rows u)" "ow_ordinal r < ob_next s" for r
  proof -
    have "ow_ordinal r < ob_next t" using assms(1) that(2) by (simp add: order_kept_def)
    then have "face cid r \<in> face cid ` set (ob_rows t)" using assms(2) that(1) unfolding order_kept_def by blast
    then obtain r' where r': "r' \<in> set (ob_rows t)" "face cid r = face cid r'" by blast
    then have "ow_ordinal r' = ow_ordinal r" by (metis face_key(2))
    with r' assms(1) that(2) show ?thesis by (auto simp: order_kept_def)
  qed
  with assms show ?thesis by (auto simp: order_kept_def)
qed

lemma kept_rows_order:
  assumes "kept_rows cid P s t"
  shows "order_kept cid s t"
proof -
  from assms obtain new where n: "map (face cid) (ob_rows t) = map (face cid) (ob_rows s) @ new"
    "\<forall>r \<in> set new. ob_next s \<le> ow_ordinal r"
    by (auto simp: kept_rows_def)
  have "others cid (ob_rows t) = others cid (ob_rows s) @ others cid new"
    using arg_cong [OF n(1), of "others cid"] by (simp add: others_face)
  moreover have "face cid r \<in> face cid ` set (ob_rows s)"
    if "r \<in> set (ob_rows t)" "ow_ordinal r < ob_next s" for r
  proof -
    have "face cid r \<in> set (map (face cid) (ob_rows t))" using that(1) by simp
    then have "face cid r \<in> face cid ` set (ob_rows s) \<or> face cid r \<in> set new" unfolding n(1) by simp
    with n(2) that(2) show ?thesis by force
  qed
  ultimately show ?thesis using assms by (auto simp: order_kept_def kept_rows_def)
qed

lemma kept_order: "kept cid P s t \<Longrightarrow> order_kept cid s t"
  by (blast intro: kept_rows_order)

text \<open>A row that is there stays there under \<open>kept_rows\<close>.\<close>

lemma kept_rows_present:
  assumes "kept_rows cid P s t" and "c \<in> ow_client_id ` set (ob_rows s)"
  shows "c \<in> ow_client_id ` set (ob_rows t)"
proof -
  from assms(1) obtain new where "map (face cid) (ob_rows t) = map (face cid) (ob_rows s) @ new"
    by (auto simp: kept_rows_def)
  then have "map ow_client_id (map (face cid) (ob_rows t)) =
      map ow_client_id (map (face cid) (ob_rows s)) @ map ow_client_id new" by simp
  then have "map ow_client_id (ob_rows t) = map ow_client_id (ob_rows s) @ map ow_client_id new"
    by (simp add: comp_def)
  then have "set (map ow_client_id (ob_rows s)) \<subseteq> set (map ow_client_id (ob_rows t))" by simp
  with assms(2) show ?thesis by (auto simp del: set_map simp: set_map [symmetric])
qed

lemma delete_row_order: "order_kept cid s (delete_row cid s)"
proof -
  have "tables_ok (delete_row cid s)" if "tables_ok s"
    using that unfolding tables_ok_def
    by (auto simp: delete_row_def distinct_map_filter sorted_wrt_map sorted_wrt_filter)
  then show ?thesis by (auto simp: order_kept_def delete_row_def others_def)
qed

lemma same_tables_order:
  assumes "ob_rows t = ob_rows s" "ob_next t = ob_next s" "ob_files t = ob_files s"
  shows "order_kept cid s t"
  using assms by (simp add: order_kept_def tables_ok_def)

lemma remove_row_order:
  "order_kept cid s (snd (remove_row env cid s)) \<and>
   ob_posts (snd (remove_row env cid s)) = ob_posts s \<and> ob_cache (snd (remove_row env cid s)) = ob_cache s \<and>
   (isl (fst (remove_row env cid s)) \<longrightarrow> kept cid (\<lambda>_. False) s (snd (remove_row env cid s)))"
proof -
  let ?s1 = "snd (pass env s)"
  have k: "kept cid (\<lambda>_. False) s ?s1" by simp
  then have p: "ob_posts ?s1 = ob_posts s" "ob_cache ?s1 = ob_cache s" "order_kept cid s ?s1"
    using kept_silent kept_order by (blast, simp add: kept_def, blast)
  show ?thesis
  proof (cases "tn_fault (fst (pass env s))")
    case (Some e)
    with k p show ?thesis by (simp add: remove_row_def split_def)
  next
    case None
    define names where "names = map fw_file_client_id (filter (\<lambda>f. fw_client_id f = cid) (ob_files ?s1))"
    define s2 where "s2 = forget_row cid names (delete_row cid ?s1)"
    define s3 where "s3 = remove_snapshots env names s2"
    define s4 where "s4 = snd (db_call env (\<lambda>s. s\<lparr>ob_deletions := filter (\<lambda>n. n \<notin> set names) (ob_deletions s)\<rparr>) s3)"
    have "order_kept cid (delete_row cid ?s1) s2"
      by (rule same_tables_order) (simp_all add: s2_def forget_row_def drop_ids_def Let_def)
    then have o2: "order_kept cid s s2"
      using order_kept_trans [OF order_kept_trans [OF p(3) delete_row_order]] by blast
    have f2: "ob_posts s2 = ob_posts s" "ob_cache s2 = ob_cache s"
      using p by (simp_all add: s2_def forget_row_def drop_ids_def Let_def delete_row_def)
    have "order_kept cid s2 s3" by (rule same_tables_order) (simp_all add: s3_def remove_snapshots_def)
    with o2 have o3: "order_kept cid s s3" by (rule order_kept_trans)
    have f3: "ob_posts s3 = ob_posts s" "ob_cache s3 = ob_cache s" using f2 by (simp_all add: s3_def remove_snapshots_def)
    have k4: "kept cid (\<lambda>_. False) s3 s4" unfolding s4_def by (rule db_call_kept) (rule kept_same; simp)
    have f4: "ob_posts s4 = ob_posts s" "ob_cache s4 = ob_cache s"
      using kept_silent [OF k4] k4 f3 by (simp_all add: kept_def)
    have o4: "order_kept cid s s4" using o3 kept_order [OF k4] by (rule order_kept_trans)
    have "remove_row env cid s = (Inr (map_option ow_state (find_row cid ?s1)), if names = [] then s2 else s4)"
      using None by (simp add: remove_row_def split_def Let_def names_def s2_def s3_def s4_def)
    then show ?thesis using o2 f2 o4 f4 by simp
  qed
qed

section \<open>Settling an answer\<close>

text \<open>A row whose words are in the table no more.\<close>

definition lost :: "string \<Rightarrow> outbox \<Rightarrow> outbox \<Rightarrow> bool" where
  "lost cid s s' \<longleftrightarrow> \<not> face cid ` set (ob_rows s) \<subseteq> face cid ` set (ob_rows s')"

lemma kept_rows_not_lost: "kept_rows cid P s t \<Longrightarrow> \<not> lost cid s t"
  by (auto simp: lost_def kept_rows_def simp del: set_map simp: set_map [symmetric])

lemma lost_after: "kept_rows cid P s t \<Longrightarrow> lost cid s u \<Longrightarrow> lost cid t u"
  using kept_rows_not_lost [of cid P s t] by (auto simp: lost_def)

text \<open>The answers after which the server has the message.\<close>

definition taken :: "string \<Rightarrow> bool \<Rightarrow> send_failure + json \<Rightarrow> bool" where
  "taken cid acc answer \<longleftrightarrow> (case answer of
       Inr message \<Rightarrow> jget_str ''client_id'' message = Some cid
     | Inl (Refused _) \<Rightarrow> acc
     | Inl (Transient _) \<Rightarrow> False)"

definition settled :: "string \<Rightarrow> bool \<Rightarrow> send_failure + json \<Rightarrow> outbox \<Rightarrow> outbox \<Rightarrow> bool" where
  "settled cid acc answer s s' \<longleftrightarrow>
     order_kept cid s s' \<and> ob_posts s' = ob_posts s \<and>
     (lost cid s s' \<longrightarrow> taken cid acc answer \<and>
        (\<not> acc \<longrightarrow> (\<exists>message. answer = Inr message \<and>
           apply_ack None message (ob_cache s) = (ob_cache s', Inr ())))) \<and>
     (ob_cache s' \<noteq> ob_cache s \<longrightarrow> (\<exists>message f. answer = Inr message \<and> taken cid acc answer \<and>
        ob_cache s' = fst (apply_ack f message (ob_cache s))))"

lemma kept_settled: "kept cid (\<lambda>_. False) s t \<Longrightarrow> settled cid acc answer s t"
  using kept_silent [of cid s t] kept_order [of cid _ s t] kept_rows_not_lost [of cid _ s t]
  by (auto simp: settled_def kept_def)

lemma drop_row_order:
  "order_kept cid s (snd (drop_row env cid acc s)) \<and> ob_posts (snd (drop_row env cid acc s)) = ob_posts s \<and>
   ob_cache (snd (drop_row env cid acc s)) = ob_cache s"
proof -
  let ?r = "remove_row env cid s"
  note r = remove_row_order [of cid s env]
  show ?thesis
  proof (cases "isl (fst ?r)")
    case False
    with r show ?thesis by (auto simp: drop_row_def split: prod.splits sum.splits)
  next
    case True
    let ?t = "snd (set_state env cid StAccepted None (snd ?r))"
    have t: "kept cid (\<lambda>_. False) s ?t" using True r by blast
    show ?thesis
      using True r kept_silent [OF t] kept_order [OF t] t
      by (auto simp: drop_row_def split_def kept_def split: sum.split)
  qed
qed

lemma ack_cases:
  "\<exists>t. kept cid (\<lambda>_. False) s t \<and>
    (case apply_ack (tn_fault (fst (pass env s))) message (ob_cache s) of
       (c, r) \<Rightarrow> ack env message s = (\<not> isl r, t\<lparr>ob_cache := c\<rparr>))"
proof -
  have k: "kept cid (\<lambda>_. False) s (snd (pass env s))" by simp
  then have "ob_cache (snd (pass env s)) = ob_cache s" by (simp add: kept_def)
  with k show ?thesis by (intro exI [of _ "snd (pass env s)"]) (simp add: ack_def split_def)
qed

lemma apply_ack_ok: "apply_ack f message c = (c', Inr u) \<Longrightarrow> apply_ack None message c = (c', Inr ())"
  by (auto simp: apply_ack_def split: option.splits)

lemma settle_settled: "settled cid acc answer s (snd (settle env cid acc w answer s))"
proof -
  have failing: "settled cid acc answer s (snd (fail env cid code s))" for code
    by (rule kept_settled) simp
  have waiting: "settled cid acc answer s (snd (set_state env cid w None s))"
    by (rule kept_settled) simp
  show ?thesis
  proof (cases answer)
    case (Inl e)
    show ?thesis
    proof (cases e)
      case (Transient after)
      with Inl waiting show ?thesis by (simp add: settle_def split_def split: bool.split)
    next
      case (Refused code)
      show ?thesis
      proof (cases acc)
        case True
        then have "taken cid acc answer" using Inl Refused by (simp add: taken_def)
        with True Inl Refused drop_row_order [of cid s env True] show ?thesis
          by (simp add: settle_def settled_def)
      next
        case False
        with Inl Refused failing show ?thesis by (simp add: settle_def)
      qed
    qed
  next
    case (Inr message)
    show ?thesis
    proof (cases "jget_str ''client_id'' message = Some cid")
      case False
      with Inr failing show ?thesis by (simp add: settle_def)
    next
      case True
      then have took: "taken cid acc answer" using Inr by (simp add: taken_def)
      obtain c r where ap: "apply_ack (tn_fault (fst (pass env s))) message (ob_cache s) = (c, r)"
        by (rule prod.exhaust)
      obtain t where t: "kept cid (\<lambda>_. False) s t"
        and ack: "ack env message s = (\<not> isl r, t\<lparr>ob_cache := c\<rparr>)"
        using ack_cases [of cid s env message] unfolding ap by (auto simp del: pass_kept)
      let ?t = "t\<lparr>ob_cache := c\<rparr>"
      let ?u = "snd (settle env cid acc w answer s)"
      have "kept_rows cid (\<lambda>_. False) t ?t" by (simp add: kept_rows_def tables_ok_def)
      then have kt: "kept_rows cid (\<lambda>_. False) s ?t" using t by (blast intro: kept_rows_trans)
      have c: "c = fst (apply_ack (tn_fault (fst (pass env s))) message (ob_cache s))" using ap by simp
      have stepped: "settled cid acc answer s u"
        if "order_kept cid ?t u" "ob_posts u = ob_posts ?t" "ob_cache u = c"
          "lost cid s u \<Longrightarrow> acc \<or> \<not> isl r" for u
      proof -
        have "apply_ack None message (ob_cache s) = (c, Inr ())" if "\<not> isl r"
          using apply_ack_ok [of _ message "ob_cache s" c] ap that by (cases r) auto
        then show ?thesis
          using that kept_silent [OF t] order_kept_trans [OF kept_rows_order [OF kt]] took Inr c
          by (auto simp: settled_def)
      qed
      show ?thesis
      proof (cases "isl r \<and> \<not> acc")
        case wait: True
        then have u: "?u = snd (waits_as env cid StAccepted (HoldOff None) ?t)"
          using Inr True ack by (simp add: settle_def)
        have k: "kept cid (\<lambda>_. False) ?t ?u" unfolding u by simp
        have nl: "\<not> lost cid s ?u"
          using kt kept_rowsI [OF k] kept_rows_trans kept_rows_not_lost by blast
        show ?thesis by (rule stepped) (use kept_order [OF k] kept_silent [OF k] k nl in \<open>auto simp: kept_def\<close>)
      next
        case drop: False
        then have u: "?u = snd (drop_row env cid acc ?t)" using Inr True ack by (auto simp: settle_def)
        show ?thesis
          by (rule stepped) (use drop_row_order [of cid ?t env acc] drop in \<open>auto simp: u\<close>)
      qed
    qed
  qed
qed

section \<open>The attempt\<close>

text \<open>What an attempt may do, whatever happens around it.\<close>

definition delivery ::
  "env \<Rightarrow> string \<Rightarrow> string \<Rightarrow> outgoing \<Rightarrow> bool \<Rightarrow> nat \<Rightarrow> outbox \<Rightarrow> outbox \<Rightarrow> bool" where
  "delivery env ch cid msg acc epoch s s' \<longleftrightarrow>
     order_kept cid s s' \<and>
     (\<exists>sent. ob_posts s' = ob_posts s @ sent \<and> length sent \<le> 2 \<and> list_all (ours ch cid msg epoch) sent \<and>
        (lost cid s s' \<longrightarrow> sent \<noteq> [] \<and> taken cid acc (answer_of env (last sent)) \<and>
           (\<not> acc \<longrightarrow> (\<exists>message. answer_of env (last sent) = Inr message \<and>
              apply_ack None message (ob_cache s) = (ob_cache s', Inr ())))) \<and>
        (ob_cache s' \<noteq> ob_cache s \<longrightarrow> (\<exists>message f. sent \<noteq> [] \<and> answer_of env (last sent) = Inr message \<and>
           taken cid acc (Inr message) \<and> ob_cache s' = fst (apply_ack f message (ob_cache s)))))"

lemma kept_delivery:
  assumes "kept cid (ours ch cid msg epoch) s t" and "length (ob_posts t) \<le> length (ob_posts s) + 2"
  shows "delivery env ch cid msg acc epoch s t"
proof -
  from assms(1) obtain sent where "ob_posts t = ob_posts s @ sent" "list_all (ours ch cid msg epoch) sent"
    by (auto simp: kept_def kept_rows_def)
  with assms(2) kept_order [OF assms(1)] kept_rows_not_lost [OF kept_rowsI [OF assms(1)]] assms(1)
  show ?thesis by (auto simp: delivery_def kept_def)
qed

lemma settled_delivery:
  assumes "kept cid (ours ch cid msg epoch) s t" and "ob_posts t = ob_posts s @ sent"
    and "length sent \<le> 2" "sent \<noteq> []" and "settled cid acc (answer_of env (last sent)) t u"
  shows "delivery env ch cid msg acc epoch s u"
proof -
  have "list_all (ours ch cid msg epoch) sent" using assms(1,2) by (auto simp: kept_def kept_rows_def)
  moreover have "ob_cache t = ob_cache s" using assms(1) by (simp add: kept_def)
  moreover have "lost cid s u \<Longrightarrow> lost cid t u" using assms(1) lost_after by blast
  moreover have "order_kept cid s u"
    using kept_order [OF assms(1)] assms(5) order_kept_trans by (auto simp: settled_def)
  ultimately show ?thesis using assms(2-5) unfolding delivery_def settled_def by auto
qed

lemma ours_attachments [simp]: "ours ch cid (msg\<lparr>og_attachments := a\<rparr>) = ours ch cid msg"
  by (simp add: ours_def fun_eq_iff)

lemma send_files_delivery:
  "delivery env ch cid msg acc epoch s (snd (send_files env ch cid msg acc w epoch fs s))"
proof -
  define one where "one = send_once env ch cid msg fs (fs \<noteq> [] \<and> \<not> acc) w epoch s"
  define res where "res = send_files env ch cid msg acc w epoch fs s"
  note res = res_def [unfolded send_files_def, folded one_def]
  note first = send_once_kept [of cid ch msg epoch s env fs "fs \<noteq> [] \<and> \<not> acc" w, folded one_def]
  obtain s1 where s1: "ob_posts (snd one) = ob_posts s @ s1" "length s1 \<le> 1"
    "\<forall>answer. fst one = Inr answer \<longrightarrow> (\<exists>p. s1 = [p] \<and> ours ch cid msg epoch p \<and> answer = answer_of env p)"
    using conjunct2 [OF first] by (elim exE conjE) (rule that)
  have k1: "kept cid (ours ch cid msg epoch) s (snd one)" using first by blast
  have "delivery env ch cid msg acc epoch s (snd res)"
  proof (cases "fst one")
    case (Inl outcome)
    with res kept_delivery [OF k1] s1 show ?thesis by (simp add: split_def)
  next
    case (Inr answer)
    then obtain p where p: "s1 = [p]" "answer = answer_of env p" using s1(3) by blast
    show ?thesis
    proof (cases "swept acc fs answer")
      case False
      have "settled cid acc answer (snd one) (snd (settle env cid acc w answer (snd one)))"
        by (rule settle_settled)
      with res Inr False settled_delivery [OF k1 s1(1)] p show ?thesis by (simp add: split_def)
    next
      case True
      define d where "d = db_call env (clear_file_ids cid) (snd one)"
      have kd: "kept cid (\<lambda>_. False) (snd one) (snd d)" unfolding d_def by (rule db_call_kept) simp
      define f where "f = files_of env cid (snd d)"
      have kf: "kept cid (\<lambda>_. False) (snd one) (snd f)" unfolding f_def using kd by blast
      have short: "delivery env ch cid msg acc epoch s u" if "kept cid (\<lambda>_. False) (snd one) u" for u
        using kept_delivery [OF kept_trans [OF k1 kept_quiet [OF that]]] kept_silent [OF that] s1 by simp
      have wd: "delivery env ch cid msg acc epoch s (snd (waits_as env cid w (HoldOff None) (snd d)))"
        and wf: "delivery env ch cid msg acc epoch s (snd (waits_as env cid w (HoldOff None) (snd f)))"
        using kd kf by (blast intro: short)+
      show ?thesis
      proof (cases "fst d")
        case False
        with res Inr True wd show ?thesis by (simp add: split_def d_def)
      next
        case d: True
        show ?thesis
        proof (cases "fst f")
          case None
          with res Inr True d wf show ?thesis by (simp add: split_def d_def f_def)
        next
          case (Some again)
          define two where "two = send_once env ch cid msg again True w epoch (snd f)"
          note second = send_once_kept [of cid ch msg epoch "snd f" env again True w, folded two_def]
          obtain s2 where s2: "ob_posts (snd two) = ob_posts (snd f) @ s2" "length s2 \<le> 1"
            "\<forall>answer. fst two = Inr answer \<longrightarrow> (\<exists>p. s2 = [p] \<and> ours ch cid msg epoch p \<and> answer = answer_of env p)"
            using conjunct2 [OF second] by (elim exE conjE) (rule that)
          have k2: "kept cid (ours ch cid msg epoch) s (snd two)"
            by (rule kept_trans [OF kept_trans [OF k1 kept_quiet [OF kf]] conjunct1 [OF second]])
          have posts: "ob_posts (snd two) = ob_posts s @ (s1 @ s2)" "length (s1 @ s2) \<le> 2"
            using s1 s2 kept_silent [OF kf] by simp_all
          have eq: "res =
              (case two of (Inl outcome, s) \<Rightarrow> (outcome, s) | (Inr answer, s) \<Rightarrow> settle env cid acc w answer s)"
            using res Inr True d Some by (simp add: split_def d_def f_def two_def)
          show ?thesis
          proof (cases "fst two")
            case (Inl outcome)
            with eq kept_delivery [OF k2] posts show ?thesis by (simp add: split_def)
          next
            case again: (Inr answer)
            then obtain q where "s2 = [q]" "answer = answer_of env q" using s2(3) by blast
            with eq again settled_delivery [OF k2 posts(1)] posts(2)
              settle_settled [of cid acc answer "snd two" env w]
            show ?thesis by (simp add: split_def)
          qed
        qed
      qed
    qed
  qed
  then show ?thesis by (simp add: res_def)
qed

lemma delivery_attachments [simp]:
  "delivery env ch cid (msg\<lparr>og_attachments := a\<rparr>) = delivery env ch cid msg"
  by (simp add: delivery_def fun_eq_iff)

lemma attempt_send_delivery:
  "delivery env ch cid msg acc epoch s (snd (attempt_send env ch cid msg acc epoch fs s))"
proof (cases acc)
  case True
  show ?thesis
    using send_files_delivery [of env ch cid "msg\<lparr>og_attachments := List.map_filter fw_file_id fs\<rparr>" True]
    by (simp add: attempt_send_def True)
next
  case False
  show ?thesis unfolding attempt_send_def by (simp add: False send_files_delivery)
qed

lemma delivery_after:
  assumes "kept cid (\<lambda>_. False) s t" and "delivery env ch cid msg acc epoch t u"
  shows "delivery env ch cid msg acc epoch s u"
proof -
  have "ob_posts t = ob_posts s" "ob_cache t = ob_cache s" "lost cid s u \<Longrightarrow> lost cid t u"
    using assms(1) kept_silent lost_after by (auto simp: kept_def)
  moreover have "order_kept cid s u"
    using kept_order [OF assms(1)] assms(2) order_kept_trans by (auto simp: delivery_def)
  ultimately show ?thesis using assms(2) unfolding delivery_def by auto
qed

lemma attempt_row_delivery:
  "delivery env ch cid msg acc epoch s (snd (attempt_row env ch cid msg acc epoch s))"
proof -
  define w where "w = (if acc then StAccepted else StPending)"
  define begun where "begun = (if acc then (True, s) else set_state env cid StSending None s)"
  define f where "f = files_of env cid (changed ch (snd begun))"
  have b: "kept cid (\<lambda>_. False) s (snd begun)" by (simp add: begun_def)
  then have c: "kept cid (\<lambda>_. False) s (changed ch (snd begun))" by blast
  then have f: "kept cid (\<lambda>_. False) s (snd f)" unfolding f_def by blast
  have short: "delivery env ch cid msg acc epoch s u" if "kept cid (\<lambda>_. False) s u" for u
    using kept_delivery [OF kept_quiet [OF that]] kept_silent [OF that] by simp
  have "delivery env ch cid msg acc epoch s (snd (waits_as env cid w GoOn (changed ch (snd begun))))"
    "delivery env ch cid msg acc epoch s (snd (waits_as env cid w (HoldOff None) (snd f)))"
    using c f by (blast intro: short)+
  moreover have "delivery env ch cid msg acc epoch s (snd (attempt_send env ch cid msg acc epoch fs (snd f)))" for fs
    by (rule delivery_after [OF f attempt_send_delivery])
  ultimately show ?thesis using short [OF b]
    unfolding attempt_row_def Let_def split_def w_def [symmetric] begun_def [symmetric] f_def [symmetric]
    by (simp split: option.split)
qed

end
