(* ===== verification/Outbox_Order.thy ===== *)
theory Outbox_Order
  imports Outbox_Delivery
begin

text \<open>
  The channel's loop: a round posts for the channel's first row only, so a channel's messages go
  out in the order they were queued. And what an accepted row becomes.
\<close>

section \<open>Rows only join at the end\<close>

lemma same_face: "c \<notin> ow_client_id ` set rows \<Longrightarrow> map (face c) rows = rows"
  by (induction rows) (auto simp: face_def)

lemma kept_all_grow:
  assumes "\<And>cid. kept cid P s t"
  shows "\<exists>new. ob_rows t = ob_rows s @ new \<and> (\<forall>r \<in> set new. ob_next s \<le> ow_ordinal r)"
proof -
  have "finite (ow_client_id ` set (ob_rows s @ ob_rows t))" by simp
  then obtain c where c: "c \<notin> ow_client_id ` set (ob_rows s @ ob_rows t)"
    using ex_new_if_finite [OF infinite_UNIV_listI] by blast
  then have "map (face c) (ob_rows s) = ob_rows s" "map (face c) (ob_rows t) = ob_rows t"
    by (auto intro!: same_face)
  with assms [of c] show ?thesis by (auto simp: kept_def kept_rows_def)
qed

lemma pass_grows:
  "\<exists>new. ob_rows (snd (pass env s)) = ob_rows s @ new \<and> (\<forall>r \<in> set new. ob_next s \<le> ow_ordinal r)"
  by (rule kept_all_grow [of "\<lambda>_. False"]) simp

lemma pass_tables: "tables_ok s \<Longrightarrow> tables_ok (snd (pass env s))"
  using pass_kept [of undefined "\<lambda>_. False" s env] by (simp add: kept_def kept_rows_def del: pass_kept)

lemma pass_next: "ob_next s \<le> ob_next (snd (pass env s))"
  using pass_kept [of undefined "\<lambda>_. False" s env] by (simp add: kept_def kept_rows_def del: pass_kept)

lemma pass_posts [simp]: "ob_posts (snd (pass env s)) = ob_posts s"
  by (rule kept_silent [of undefined]) simp

lemma channel_rows_filter:
  assumes "tables_ok s"
  shows "channel_rows ch s = filter (\<lambda>r. ow_channel r = ch) (ob_rows s)"
proof -
  have "sorted_wrt (<) (map ow_ordinal (ob_rows s))" using assms by (simp add: tables_ok_def)
  then have "sorted (map ow_ordinal (ob_rows s))" by (simp add: strict_sorted_iff)
  then have "sorted (map ow_ordinal (filter (\<lambda>r. ow_channel r = ch) (ob_rows s)))"
    by (simp add: sorted_wrt_map sorted_wrt_filter)
  then show ?thesis by (simp add: channel_rows_def sort_key_id_if_sorted)
qed

text \<open>The first row of a channel stays its first row while rows only join.\<close>

lemma head_stays:
  assumes "tables_ok s" and "tables_ok t" and "ob_rows t = ob_rows s @ new" and "channel_rows ch s = r # rest"
  shows "\<exists>rest'. channel_rows ch t = r # rest'"
  using assms by (simp add: channel_rows_filter)

section \<open>One round\<close>

lemma not_lost_trans: "\<not> lost c s t \<Longrightarrow> \<not> lost c t u \<Longrightarrow> \<not> lost c s u"
  by (auto simp: lost_def)

lemma next_row_grows:
  "\<exists>new. ob_rows (snd (next_row env ch s)) = ob_rows s @ new"
  "tables_ok s \<Longrightarrow> tables_ok (snd (next_row env ch s))"
  "ob_posts (snd (next_row env ch s)) = ob_posts s"
  "order_kept cid s (snd (next_row env ch s))"
  "fst (next_row env ch s) = Some (Some r) \<Longrightarrow>
     \<exists>rest. channel_rows ch (snd (next_row env ch s)) = r # rest"
proof -
  have eq: "snd (next_row env ch s) = snd (pass env s)"
    by (simp add: next_row_def db_call_def split_def)
  show "\<exists>new. ob_rows (snd (next_row env ch s)) = ob_rows s @ new"
    unfolding eq using pass_grows by blast
  show "tables_ok s \<Longrightarrow> tables_ok (snd (next_row env ch s))" unfolding eq by (rule pass_tables)
  show "ob_posts (snd (next_row env ch s)) = ob_posts s" unfolding eq by simp
  show "order_kept cid s (snd (next_row env ch s))" unfolding eq by (rule kept_order) (rule pass_kept)
  show "\<exists>rest. channel_rows ch (snd (next_row env ch s)) = r # rest"
    if "fst (next_row env ch s) = Some (Some r)"
    using that by (auto simp: next_row_def db_call_def split_def split: list.splits if_splits)
qed

text \<open>The posts of a round that began at \<open>s\<close>: for the channel's first row once its turn came (\<open>t\<close>).\<close>

definition head_posted ::
  "string \<Rightarrow> string \<Rightarrow> post_request list \<Rightarrow> outbox \<Rightarrow> outbox \<Rightarrow> bool" where
  "head_posted ch cid sent s s' \<longleftrightarrow>
     (\<exists>t rest head epoch. (\<exists>new. ob_rows t = ob_rows s @ new) \<and> order_kept cid t s' \<and>
       order_kept cid s t \<and> tables_ok t \<and> ob_session s = Some epoch \<and>
       channel_rows ch t = head # rest \<and> ow_client_id head = cid \<and> ow_state head \<noteq> StFailed \<and>
       list_all (ours ch cid (message_of (ow_body head) (ow_reply_to head)) epoch) sent)"

text \<open>
  What one round does: nothing is posted, or the channel's first row is (not a failed one), by
  the session there was when the round began.
\<close>

lemma run_round_posts:
  assumes "run_round env ch bo s = (rd, bo', s')" and "tables_ok s"
  shows "\<exists>sent cid. ob_posts s' = ob_posts s @ sent \<and> length sent \<le> 2 \<and> order_kept cid s s' \<and>
    (sent = [] \<longrightarrow> \<not> lost cid s s') \<and>
    (sent \<noteq> [] \<longrightarrow> head_posted ch cid sent s s')"
proof (cases "ob_alive s \<and> ob_session s \<noteq> None")
  case False
  have k: "order_kept [] s (snd (pass env s))" by (rule kept_order) (rule pass_kept)
  have "order_kept [] s s" by (simp add: order_kept_def)
  moreover have "\<not> lost [] s (snd (pass env s))" by (rule kept_rows_not_lost) (rule kept_rowsI, rule pass_kept)
  moreover have "\<not> lost [] s s" by (simp add: lost_def)
  ultimately have "ob_posts s' = ob_posts s \<and> order_kept [] s s' \<and> \<not> lost [] s s'"
    using False assms k by (auto simp: run_round_def split: if_splits)
  then show ?thesis by (intro exI [of _ "[]"]) auto
next
  case True
  then obtain epoch where ep: "ob_session s = Some epoch" and alive: "ob_alive s" by blast
  define t0 where "t0 = snd (pass env s)"
  define nr where "nr = next_row env ch t0"
  have t0: "tables_ok t0" "ob_posts t0 = ob_posts s" "order_kept cid s t0" "\<exists>new. ob_rows t0 = ob_rows s @ new" for cid
    using pass_tables [OF assms(2), of env] kept_order [OF pass_kept, of cid s env] pass_grows [where env = env and s = s]
    by (auto simp: t0_def)
  have t1: "tables_ok (snd nr)" "ob_posts (snd nr) = ob_posts s" "\<exists>new. ob_rows (snd nr) = ob_rows s @ new"
    using next_row_grows [where env = env and ch = ch and s = t0, folded nr_def] t0 by auto
  have o1: "order_kept cid s (snd nr)" for cid
    using next_row_grows(4) [where env = env and ch = ch and s = t0 and cid = cid, folded nr_def] t0(3) order_kept_trans by blast
  have nr_eq: "snd nr = snd (pass env (snd (pass env s)))"
    by (simp add: nr_def t0_def next_row_def db_call_def split_def)
  have n1: "kept cid (\<lambda>_. False) s (snd nr)" for cid
    unfolding nr_eq by (rule kept_trans [OF pass_kept pass_kept])
  have unfold: "run_round env ch bo s =
      (case nr of
         (Some (Some r), s) \<Rightarrow>
           if ow_state r = StFailed then (IdleRound, bo, snd (pass env s))
           else
             (let (outcome, s) = attempt_row env ch (ow_client_id r)
                    (message_of (ow_body r) (ow_reply_to r)) (ow_state r = StAccepted) epoch s;
                  s = changed ch s
              in case outcome of
                   GoOn \<Rightarrow> (Sent, 1, s)
                 | HoldOff after \<Rightarrow>
                     (Slept (case after of None \<Rightarrow> bo | Some w \<Rightarrow> w), min (bo * 2) max_backoff,
                      snd (pass env s)))
       | (_, s) \<Rightarrow> (IdleRound, bo, snd (pass env s)))"
    using alive ep by (simp add: run_round_def nr_def t0_def Let_def split_def)
  have quiet: "ob_posts (snd (pass env (snd nr))) = ob_posts s"
    "order_kept cid s (snd (pass env (snd nr)))" "\<not> lost cid s (snd (pass env (snd nr)))" for cid
    using t1(2) order_kept_trans [OF o1 kept_order [OF pass_kept]]
      kept_rows_not_lost [OF kept_rowsI [OF kept_trans [OF n1 pass_kept]]] by simp_all
  show ?thesis
  proof (cases "\<exists>head. fst nr = Some (Some head) \<and> ow_state head \<noteq> StFailed")
    case False
    then have "s' = snd (pass env (snd nr))"
      using assms(1) unfold by (auto simp: split_def split: option.splits if_splits)
    with quiet(1) quiet(2,3) [of "[]"] show ?thesis by (intro exI [of _ "[]"]) auto
  next
    case True
    then obtain head where h: "fst nr = Some (Some head)" "ow_state head \<noteq> StFailed" by blast
    obtain rest where rest: "channel_rows ch (snd nr) = head # rest"
      using next_row_grows(5) [where env = env and ch = ch and s = t0 and r = head, folded nr_def] h(1) by blast
    let ?cid = "ow_client_id head" and ?msg = "message_of (ow_body head) (ow_reply_to head)"
    define at where "at = attempt_row env ch ?cid ?msg (ow_state head = StAccepted) epoch (snd nr)"
    have d: "delivery env ch ?cid ?msg (ow_state head = StAccepted) epoch (snd nr) (snd at)"
      unfolding at_def by (rule attempt_row_delivery)
    then obtain sent where sent: "ob_posts (snd at) = ob_posts (snd nr) @ sent" "length sent \<le> 2"
      "list_all (ours ch ?cid ?msg epoch) sent" "sent = [] \<Longrightarrow> \<not> lost ?cid (snd nr) (snd at)"
      by (auto simp: delivery_def)
    have oat: "order_kept ?cid (snd nr) (snd at)" using d by (simp add: delivery_def)
    have "s' = changed ch (snd at) \<or> s' = snd (pass env (changed ch (snd at)))"
      using assms(1) h unfold by (auto simp: split_def Let_def at_def split: attempt.splits)
    moreover have "kept ?cid (\<lambda>_. False) (snd at) (changed ch (snd at))"
      "kept ?cid (\<lambda>_. False) (snd at) (snd (pass env (changed ch (snd at))))" by blast+
    ultimately have k: "kept ?cid (\<lambda>_. False) (snd at) s'" by blast
    have os: "order_kept ?cid (snd nr) s'" using oat kept_order [OF k] by (rule order_kept_trans)
    have "ob_posts s' = ob_posts s @ sent" using kept_silent [OF k] sent(1) t1(2) by simp
    moreover have "order_kept ?cid s s'" using o1 os by (rule order_kept_trans)
    moreover have "\<not> lost ?cid s s'" if "sent = []"
      using not_lost_trans [OF not_lost_trans [OF kept_rows_not_lost [OF kept_rowsI [OF n1]] sent(4) [OF that]]
          kept_rows_not_lost [OF kept_rowsI [OF k]]] .
    moreover have "head_posted ch ?cid sent s s'"
      unfolding head_posted_def
      by (intro exI [of _ "snd nr"] exI [of _ rest] exI [of _ head] exI [of _ epoch])
        (use sent(3) os o1 [of ?cid] t1 rest h(2) ep in simp)
    ultimately show ?thesis using sent(2) by blast
  qed
qed

section \<open>Many rounds\<close>

text \<open>A number is given to one row only, for good.\<close>

definition numbers_once :: "outbox \<Rightarrow> outbox \<Rightarrow> bool" where
  "numbers_once s s' \<longleftrightarrow> ob_next s \<le> ob_next s' \<and> tables_ok s' \<and>
     (\<forall>r \<in> set (ob_rows s'). ow_ordinal r < ob_next s \<longrightarrow> ow_ordinal r \<in> ow_ordinal ` set (ob_rows s))"

lemma order_numbers_once:
  assumes "order_kept cid s s'" and "tables_ok s"
  shows "numbers_once s s'"
proof -
  have "ow_ordinal r \<in> ow_ordinal ` set (ob_rows s)"
    if "r \<in> set (ob_rows s')" "ow_ordinal r < ob_next s" for r
  proof -
    have "face cid r \<in> face cid ` set (ob_rows s)" using assms(1) that unfolding order_kept_def by blast
    then obtain r0 where "r0 \<in> set (ob_rows s)" "face cid r = face cid r0" by blast
    then show ?thesis by (metis face_key(2) image_eqI)
  qed
  with assms show ?thesis by (simp add: numbers_once_def order_kept_def)
qed

lemma run_channel_unfold:
  assumes "run_channel env (Suc n) ch bo s = (rs, s')"
  shows "\<exists>rd bo1 s1. run_round env ch bo s = (rd, bo1, s1) \<and>
    (s1 = s' \<or> (\<exists>rs'. run_channel env n ch bo1 s1 = (rs', s')))"
proof -
  obtain rd bo1 s1 where "run_round env ch bo s = (rd, bo1, s1)" by (rule prod_cases3)
  with assms show ?thesis by (cases rd) (auto simp: split_def Let_def prod_eq_iff)
qed

lemma run_channel_numbers_once:
  assumes "run_channel env n ch bo s = (rs, s')" and "tables_ok s"
  shows "numbers_once s s'"
  using assms
proof (induction n arbitrary: rs bo s)
  case 0
  then show ?case by (auto simp: numbers_once_def)
next
  case (Suc n)
  from run_channel_unfold [OF Suc.prems(1)] obtain rd bo1 s1 where
    r: "run_round env ch bo s = (rd, bo1, s1)" and
    rest: "s1 = s' \<or> (\<exists>rs'. run_channel env n ch bo1 s1 = (rs', s'))" by blast
  have one: "numbers_once s s1"
    using run_round_posts [OF r Suc.prems(2)] order_numbers_once Suc.prems(2) by blast
  from rest show ?case
  proof
    assume "\<exists>rs'. run_channel env n ch bo1 s1 = (rs', s')"
    then have two: "numbers_once s1 s'" using Suc.IH one by (auto simp: numbers_once_def)
    have "ow_ordinal r \<in> ow_ordinal ` set (ob_rows s)"
      if "r \<in> set (ob_rows s')" "ow_ordinal r < ob_next s" for r
    proof -
      have "ow_ordinal r \<in> ow_ordinal ` set (ob_rows s1)"
        using two one that by (auto simp: numbers_once_def)
      with one that(2) show ?thesis by (auto simp: numbers_once_def)
    qed
    with one two show ?case by (auto simp: numbers_once_def)
  qed (use one in simp)
qed

lemma run_channel_posts:
  assumes "run_channel env n ch bo s = (rs, s')" and "tables_ok s"
  shows "\<exists>sent. ob_posts s' = ob_posts s @ sent"
  using assms
proof (induction n arbitrary: rs bo s)
  case (Suc n)
  from run_channel_unfold [OF Suc.prems(1)] obtain rd bo1 s1 where
    r: "run_round env ch bo s = (rd, bo1, s1)" and
    rest: "s1 = s' \<or> (\<exists>rs'. run_channel env n ch bo1 s1 = (rs', s'))" by blast
  obtain sent cid where "ob_posts s1 = ob_posts s @ sent" "order_kept cid s s1"
    using run_round_posts [OF r Suc.prems(2)] by blast
  with rest Suc.IH Suc.prems(2) show ?case by (force simp: order_kept_def)
qed simp

text \<open>The row as it was queued: its place, its channel, its id.\<close>

definition same_row :: "outbox_row \<Rightarrow> outbox_row \<Rightarrow> bool" where
  "same_row r r' \<longleftrightarrow> ow_ordinal r' = ow_ordinal r \<and> ow_channel r' = ow_channel r \<and> ow_client_id r' = ow_client_id r"

lemma same_face_row: "face c r = face c r' \<Longrightarrow> same_row r r'"
  unfolding same_row_def by (metis face_key(1-3))

lemma row_stays:
  assumes "order_kept cid s s'" and "r \<in> set (ob_rows s)" and "ow_client_id r \<noteq> cid \<or> \<not> lost cid s s'"
  shows "\<exists>r' \<in> set (ob_rows s'). same_row r r'"
proof (cases "ow_client_id r = cid")
  case False
  then have "r \<in> set (others cid (ob_rows s))" using assms(2) by (simp add: others_def)
  then have "r \<in> set (others cid (ob_rows s'))" using assms(1) by (auto simp: order_kept_def)
  then show ?thesis by (auto simp: others_def same_row_def)
next
  case True
  then have "face cid r \<in> face cid ` set (ob_rows s')" using assms(2,3) by (auto simp: lost_def)
  then obtain r' where "r' \<in> set (ob_rows s')" "face cid r = face cid r'" by blast
  then show ?thesis using same_face_row by blast
qed

lemma ordinal_unique:
  assumes "tables_ok s" and "x \<in> set (ob_rows s)" "y \<in> set (ob_rows s)" and "ow_ordinal x = ow_ordinal y"
  shows "x = y"
proof -
  have "distinct (map ow_ordinal (ob_rows s))" using assms(1) by (simp add: tables_ok_def strict_sorted_iff)
  with assms show ?thesis by (simp add: distinct_map inj_on_def)
qed

lemma head_least:
  assumes "tables_ok t" and "channel_rows ch t = head # rest" and "a \<in> set (ob_rows t)" "ow_channel a = ch"
  shows "ow_ordinal head \<le> ow_ordinal a"
proof -
  have c: "filter (\<lambda>r. ow_channel r = ch) (ob_rows t) = head # rest"
    using assms(1,2) channel_rows_filter by simp
  have "sorted_wrt (<) (map ow_ordinal (filter (\<lambda>r. ow_channel r = ch) (ob_rows t)))"
    using assms(1) by (simp add: tables_ok_def sorted_wrt_map sorted_wrt_filter)
  moreover have "a \<in> set (head # rest)" using assms(3,4) c [symmetric] by simp
  ultimately show ?thesis unfolding c by auto
qed

text \<open>Rows of one channel: while the earlier one waits, nothing is posted for the later one.\<close>

lemma round_in_order:
  assumes "run_round env ch bo s = (rd, bo', s')" and "tables_ok s"
    and "a \<in> set (ob_rows s)" "b \<in> set (ob_rows s)" "ow_channel a = ch" "ow_channel b = ch"
    and "ow_ordinal a < ow_ordinal b"
  shows "\<exists>sent. ob_posts s' = ob_posts s @ sent \<and> ow_client_id b \<notin> pr_client_id ` set sent \<and>
    (\<exists>b' \<in> set (ob_rows s'). same_row b b') \<and>
    ((\<forall>r \<in> set (ob_rows s'). ow_ordinal r \<noteq> ow_ordinal a) \<or> (\<exists>a' \<in> set (ob_rows s'). same_row a a'))"
proof -
  obtain sent cid where o: "ob_posts s' = ob_posts s @ sent" "order_kept cid s s'"
    and none: "sent = [] \<Longrightarrow> \<not> lost cid s s'"
    and posts: "sent \<noteq> [] \<Longrightarrow> head_posted ch cid sent s s'"
    using run_round_posts [OF assms(1,2)] by blast
  have b: "ow_client_id b \<noteq> cid \<and> list_all (\<lambda>p. pr_client_id p = cid) sent" if ne: "sent \<noteq> []"
  proof -
    obtain t rest head epoch new where t: "ob_rows t = ob_rows s @ new" "tables_ok t"
      "channel_rows ch t = head # rest" "ow_client_id head = cid"
      "list_all (ours ch cid (message_of (ow_body head) (ow_reply_to head)) epoch) sent"
      using posts [OF ne] unfolding head_posted_def by blast
    have "ow_ordinal head \<le> ow_ordinal a" using head_least [OF t(2,3)] assms(3,5) t(1) by simp
    then have "b \<noteq> head" using assms(7) by auto
    moreover have "head \<in> set (ob_rows t)"
      using channel_rows_filter [OF t(2), of ch] t(3) by (metis filter_is_subset list.set_intros(1) subsetD)
    moreover have "inj_on ow_client_id (set (ob_rows t))" using t(2) by (simp add: tables_ok_def distinct_map)
    ultimately have "ow_client_id b \<noteq> cid" using t(1,4) assms(4) by (auto dest: inj_onD)
    then show ?thesis using t(5) by (auto simp: list_all_iff ours_def)
  qed
  have "\<exists>b' \<in> set (ob_rows s'). same_row b b'"
    by (rule row_stays [OF o(2) assms(4)]) (use b none in blast)
  moreover have "ow_client_id b \<notin> pr_client_id ` set sent" using b by (cases "sent = []") (auto simp: list_all_iff)
  moreover have "same_row a r" if r: "r \<in> set (ob_rows s')" "ow_ordinal r = ow_ordinal a" for r
  proof -
    have "ow_ordinal a < ob_next s" using assms(2,3) by (auto simp: tables_ok_def)
    then have "face cid r \<in> face cid ` set (ob_rows s)" using o(2) r unfolding order_kept_def by simp
    then obtain r0 where r0: "r0 \<in> set (ob_rows s)" "same_row r r0" using same_face_row by blast
    then have "r0 = a" using ordinal_unique [OF assms(2) _ assms(3)] r(2) by (simp add: same_row_def)
    with r0(2) show ?thesis by (simp add: same_row_def)
  qed
  ultimately show ?thesis using o(1) by blast
qed

lemma run_channel_in_order:
  assumes "run_channel env n ch bo s = (rs, s')" and "tables_ok s"
    and "a \<in> set (ob_rows s)" "b \<in> set (ob_rows s)" "ow_channel a = ch" "ow_channel b = ch"
    and "ow_ordinal a < ow_ordinal b"
  shows "\<exists>sent. ob_posts s' = ob_posts s @ sent \<and>
    (ow_client_id b \<in> pr_client_id ` set sent \<longrightarrow> (\<forall>r \<in> set (ob_rows s'). ow_ordinal r \<noteq> ow_ordinal a))"
  using assms
proof (induction n arbitrary: rs bo s a b)
  case 0
  then show ?case by auto
next
  case (Suc n)
  from run_channel_unfold [OF Suc.prems(1)] obtain rd bo1 s1 where
    r: "run_round env ch bo s = (rd, bo1, s1)" and
    rest: "s1 = s' \<or> (\<exists>rs'. run_channel env n ch bo1 s1 = (rs', s'))" by blast
  have one: "numbers_once s s1"
    using run_round_posts [OF r Suc.prems(2)] order_numbers_once Suc.prems(2) by blast
  obtain sent b' where s1: "ob_posts s1 = ob_posts s @ sent" "ow_client_id b \<notin> pr_client_id ` set sent"
    "b' \<in> set (ob_rows s1)" "same_row b b'"
    "(\<forall>r \<in> set (ob_rows s1). ow_ordinal r \<noteq> ow_ordinal a) \<or> (\<exists>a' \<in> set (ob_rows s1). same_row a a')"
    using round_in_order [OF r Suc.prems(2-7)] by blast
  from rest show ?case
  proof
    assume "\<exists>rs'. run_channel env n ch bo1 s1 = (rs', s')"
    then obtain rs' where rs': "run_channel env n ch bo1 s1 = (rs', s')" by blast
    have t1: "tables_ok s1" using one by (simp add: numbers_once_def)
    from s1(5) show ?case
    proof
      assume gone: "\<forall>r \<in> set (ob_rows s1). ow_ordinal r \<noteq> ow_ordinal a"
      have "ow_ordinal a < ob_next s1" using one Suc.prems(2,3) by (force simp: numbers_once_def tables_ok_def)
      then have "\<forall>r \<in> set (ob_rows s'). ow_ordinal r \<noteq> ow_ordinal a"
        using run_channel_numbers_once [OF rs' t1] gone by (force simp: numbers_once_def)
      moreover obtain more_sent where "ob_posts s' = ob_posts s1 @ more_sent"
        using run_channel_posts [OF rs' t1] by blast
      ultimately show ?case using s1(1) by (intro exI [of _ "sent @ more_sent"]) simp
    next
      assume "\<exists>a' \<in> set (ob_rows s1). same_row a a'"
      then obtain a' where a': "a' \<in> set (ob_rows s1)" "same_row a a'" by blast
      obtain sent2 where "ob_posts s' = ob_posts s1 @ sent2"
        "ow_client_id b' \<in> pr_client_id ` set sent2 \<longrightarrow> (\<forall>r \<in> set (ob_rows s'). ow_ordinal r \<noteq> ow_ordinal a')"
        using Suc.IH [OF rs' t1 a'(1) s1(3)] Suc.prems(5-7) a'(2) s1(4) by (auto simp: same_row_def)
      then show ?case using s1(1,2,4) a'(2)
        by (intro exI [of _ "sent @ sent2"]) (auto simp: same_row_def)
    qed
  qed (use s1(1,2) in auto)
qed

end
