(* ===== verification/Outbox_Properties.thy ===== *)
theory Outbox_Properties
  imports Outbox_Order
begin

text \<open>
  The properties of the outbox: what is queued is sent, in order, once, and only goes when the
  server has it.
\<close>

section \<open>Two messages waiting\<close>

definition id_a :: string where "id_a = ''00000000-0000-4000-8000-00000000000a''"
definition id_b :: string where "id_b = ''00000000-0000-4000-8000-00000000000b''"

definition waiting_row :: "nat \<Rightarrow> string \<Rightarrow> string \<Rightarrow> outbox_row" where
  "waiting_row n cid body = \<lparr>ow_ordinal = n, ow_client_id = cid, ow_channel = ''c1'', ow_body = body,
     ow_reply_to = None, ow_state = StPending, ow_attempts = 0, ow_error = None, ow_created_at = ''t''\<rparr>"

definition two_waiting :: outbox where
  "two_waiting = (fresh_outbox (new_cache empty_cache ''me'') (Some 1))
     \<lparr>ob_rows := [waiting_row 1 id_a ''one'', waiting_row 2 id_b ''two''], ob_next := 3\<rparr>"

definition echo :: "string \<Rightarrow> outgoing \<Rightarrow> string \<Rightarrow> send_failure + json" where
  "echo ch m cid = Inr (JObj [(''id'', JStr ''m1''), (''channel_id'', JStr ch), (''seq'', JInt 4),
     (''created_at'', JStr ''t''), (''client_id'', JStr cid), (''body'', JStr (og_body m))])"

lemma two_waiting_ok: "tables_ok two_waiting"
  by (simp add: tables_ok_def two_waiting_def fresh_outbox_def waiting_row_def id_a_def id_b_def)

section \<open>Sending\<close>

text \<open>
  C1. One attempt to send a row, whatever the server answers and whatever else happens
  meanwhile (faults of the store, the session ending, other calls queueing and cancelling): the
  other rows stay, in their order; at most two requests are made, all of them this row's, in the
  session the attempt began with; a row the server had not accepted before goes only after an answer
  that carries its message, and once that answer is in the cache; a row it had accepted earlier goes
  after any such answer, also one the cache could not take, or a refusal; and the cache changes for
  an answer with the row's message only.
\<close>

theorem attempt_loses_nothing:
  "delivery env ch cid msg acc epoch s (snd (attempt_row env ch cid msg acc epoch s))"
  by (rule attempt_row_delivery)

text \<open>
  C2. A channel's messages reach the server in the order they were queued: over any number of
  rounds, a later row's message is requested only once the earlier row is gone.
\<close>

theorem messages_go_in_order:
  assumes "run_channel env n ch bo s = (rs, s')" and "tables_ok s"
    and "a \<in> set (ob_rows s)" "b \<in> set (ob_rows s)" "ow_channel a = ch" "ow_channel b = ch"
    and "ow_ordinal a < ow_ordinal b"
  shows "\<exists>sent. ob_posts s' = ob_posts s @ sent \<and>
    (ow_client_id b \<in> pr_client_id ` set sent \<longrightarrow> (\<forall>r \<in> set (ob_rows s'). ow_ordinal r \<noteq> ow_ordinal a))"
  using assms by (rule run_channel_in_order)

theorem messages_go_in_order_witness:
  "\<exists>rs s'. run_channel (calm_env echo) 2 ''c1'' 1 two_waiting = (rs, s') \<and>
     map pr_client_id (ob_posts s') = [id_a, id_b] \<and> (\<forall>r \<in> set (ob_rows s'). ow_ordinal r \<noteq> 1)"
proof -
  obtain rs s' where r: "run_channel (calm_env echo) 2 ''c1'' 1 two_waiting = (rs, s')" by force
  have p: "map pr_client_id (ob_posts (snd (run_channel (calm_env echo) 2 ''c1'' 1 two_waiting))) = [id_a, id_b]"
    by code_simp
  obtain sent where sent: "ob_posts s' = ob_posts two_waiting @ sent"
    "id_b \<in> pr_client_id ` set sent \<longrightarrow> (\<forall>r \<in> set (ob_rows s'). ow_ordinal r \<noteq> 1)"
    using messages_go_in_order [OF r two_waiting_ok, of "waiting_row 1 id_a ''one''" "waiting_row 2 id_b ''two''"]
    by (auto simp: two_waiting_def waiting_row_def)
  have "ob_posts two_waiting = []" by (simp add: two_waiting_def fresh_outbox_def)
  then have "map pr_client_id sent = [id_a, id_b]" using p sent(1) r by simp
  then have "id_b \<in> pr_client_id ` set sent" using arg_cong [of _ _ set] by fastforce
  with r p sent(2) show ?thesis by simp
qed

text \<open>
  A client id, in any case and with or without its dashes, has one canonical form of 36
  characters, the form the server echoes, and that form is its own.
\<close>

lemma ids_are_canonical:
  assumes "canonical_client_id s = Some c"
  shows "canonical_client_id c = Some c \<and> canonical_client_id (map ascii_lower s) = Some c \<and> length c = 36"
  using canonical_idempotent [OF assms] canonical_case [OF assms] by simp

lemma ids_are_canonical_witness:
  "canonical_client_id ''0000000000004000800000000000000A'' = Some id_a \<and> length id_a = 36"
proof
  show c: "canonical_client_id ''0000000000004000800000000000000A'' = Some id_a" by code_simp
  show "length id_a = 36" using ids_are_canonical [OF c] by simp
qed

end
