(* ===== verification/Call_Types.thy ===== *)
theory Call_Types
  imports Core_Types
begin

text \<open>
  \<open>core/src/call_types.rs\<close>: the wire vocabulary of calls, the labels of a publish offer, and the
  call's state as the apps see it. The parsers read the object form serde reads. An engine
  operation is what \<open>MediaEngine\<close> declares; what it answers is a parameter of the call task.
\<close>

section \<open>The vocabulary\<close>

datatype pc_kind = Publish | Subscribe

datatype media_kind = Audio | Video | UnknownKind

datatype media_source = Mic | Camera | Screen | UnknownSource

record ice_candidate =
  ic_candidate :: string
  ic_sdp_mid :: "string option"
  ic_sdp_mline_index :: "nat option"

record ice_server =
  is_urls :: "string list"
  is_username :: "string option"
  is_credential :: "string option"

record sub_stream =
  ss_mid :: string
  ss_participant_id :: string
  ss_kind :: media_kind
  ss_source :: media_source

record publishing =
  pb_kind :: media_kind
  pb_source :: media_source

record participant =
  pt_participant_id :: string
  pt_user_id :: string
  pt_display_name :: string
  pt_audio :: bool
  pt_video :: bool
  pt_publishing :: "publishing list"

record track_label =
  tl_mid :: string
  tl_kind :: media_kind
  tl_source :: media_source

record publish_offer =
  po_sdp :: string
  po_tracks :: "track_label list"

section \<open>Reading and writing it\<close>

definition parse_pc_kind :: "json \<Rightarrow> pc_kind option" where
  "parse_pc_kind j = (case j of
       JStr s \<Rightarrow> if s = ''publish'' then Some Publish
                 else if s = ''subscribe'' then Some Subscribe else None
     | _ \<Rightarrow> None)"

fun pc_name :: "pc_kind \<Rightarrow> string" where
  "pc_name Publish = ''publish''"
| "pc_name Subscribe = ''subscribe''"

definition parse_media_kind :: "json \<Rightarrow> media_kind option" where
  "parse_media_kind j = (case j of
       JStr s \<Rightarrow> Some (if s = ''audio'' then Audio else if s = ''video'' then Video else UnknownKind)
     | _ \<Rightarrow> None)"

fun kind_name :: "media_kind \<Rightarrow> string" where
  "kind_name Audio = ''audio''"
| "kind_name Video = ''video''"
| "kind_name UnknownKind = ''unknown''"

definition parse_media_source :: "json \<Rightarrow> media_source option" where
  "parse_media_source j = (case j of
       JStr s \<Rightarrow> Some (if s = ''mic'' then Mic else if s = ''camera'' then Camera
                      else if s = ''screen'' then Screen else UnknownSource)
     | _ \<Rightarrow> None)"

fun source_name :: "media_source \<Rightarrow> string" where
  "source_name Mic = ''mic''"
| "source_name Camera = ''camera''"
| "source_name Screen = ''screen''"
| "source_name UnknownSource = ''unknown''"

definition parse_ice_candidate :: "json \<Rightarrow> ice_candidate option" where
  "parse_ice_candidate j =
     (case (jget_str ''candidate'' j, field_opt_str ''sdpMid'' j, field_opt_u32 ''sdpMLineIndex'' j) of
        (Some c, Some m, Some i) \<Rightarrow>
          Some \<lparr>ic_candidate = c, ic_sdp_mid = m, ic_sdp_mline_index = i\<rparr>
      | _ \<Rightarrow> None)"

definition ice_candidate_json :: "ice_candidate \<Rightarrow> json" where
  "ice_candidate_json c =
     JObj [(''candidate'', JStr (ic_candidate c)), (''sdpMid'', opt_json JStr (ic_sdp_mid c)),
           (''sdpMLineIndex'', opt_json (\<lambda>n. JInt (int n)) (ic_sdp_mline_index c))]"

definition parse_ice_server :: "json \<Rightarrow> ice_server option" where
  "parse_ice_server j =
     (case (field_list as_str ''urls'' j, field_opt_str ''username'' j, field_opt_str ''credential'' j) of
        (Some u, Some n, Some c) \<Rightarrow> Some \<lparr>is_urls = u, is_username = n, is_credential = c\<rparr>
      | _ \<Rightarrow> None)"

definition field_media_kind :: "string \<Rightarrow> json \<Rightarrow> media_kind option" where
  "field_media_kind k j = Option.bind (jget k j) parse_media_kind"

definition field_media_source :: "string \<Rightarrow> json \<Rightarrow> media_source option" where
  "field_media_source k j = Option.bind (jget k j) parse_media_source"

definition parse_sub_stream :: "json \<Rightarrow> sub_stream option" where
  "parse_sub_stream j =
     (case (jget_str ''mid'' j, jget_str ''participant_id'' j, field_media_kind ''kind'' j,
            field_media_source ''source'' j) of
        (Some m, Some p, Some k, Some s) \<Rightarrow>
          Some \<lparr>ss_mid = m, ss_participant_id = p, ss_kind = k, ss_source = s\<rparr>
      | _ \<Rightarrow> None)"

definition parse_publishing :: "json \<Rightarrow> publishing option" where
  "parse_publishing j =
     (case (field_media_kind ''kind'' j, field_media_source ''source'' j) of
        (Some k, Some s) \<Rightarrow> Some \<lparr>pb_kind = k, pb_source = s\<rparr>
      | _ \<Rightarrow> None)"

definition parse_participant :: "json \<Rightarrow> participant option" where
  "parse_participant j =
     (case (jget_str ''participant_id'' j, jget_str ''user_id'' j, jget_str ''display_name'' j,
            field_bool ''audio'' j, field_bool ''video'' j,
            field_list_or_empty parse_publishing ''publishing'' j) of
        (Some p, Some u, Some d, Some a, Some v, Some ps) \<Rightarrow>
          Some \<lparr>pt_participant_id = p, pt_user_id = u, pt_display_name = d, pt_audio = a,
                pt_video = v, pt_publishing = ps\<rparr>
      | _ \<Rightarrow> None)"

definition track_label_json :: "track_label \<Rightarrow> json" where
  "track_label_json t =
     JObj [(''mid'', JStr (tl_mid t)), (''kind'', JStr (kind_name (tl_kind t))),
           (''source'', JStr (source_name (tl_source t)))]"

section \<open>Labels of an offer\<close>

text \<open>
  The loop of \<open>default_labels\<close>: the media section being read (its position and kind, when it is
  audio or video), the mid seen in it, and how many sections came before.
\<close>

record label_scan =
  ls_out :: "track_label list"
  ls_current :: "(nat \<times> media_kind) option"
  ls_mid :: "string option"
  ls_position :: nat

definition label_flush :: "label_scan \<Rightarrow> label_scan" where
  "label_flush s =
     (case ls_current s of
        None \<Rightarrow> s\<lparr>ls_mid := None\<rparr>
      | Some (pos, kind) \<Rightarrow>
          s\<lparr>ls_out := ls_out s @
               [\<lparr>tl_mid = (case ls_mid s of Some m \<Rightarrow> m | None \<Rightarrow> dec_string pos), tl_kind = kind,
                 tl_source = (if kind = Audio then Mic else Camera)\<rparr>],
            ls_current := None, ls_mid := None\<rparr>)"

definition section_kind :: "string \<Rightarrow> media_kind option" where
  "section_kind rest =
     (case first_word rest of
        Some w \<Rightarrow> if w = ''audio'' then Some Audio else if w = ''video'' then Some Video else None
      | None \<Rightarrow> None)"

definition label_line :: "string \<Rightarrow> label_scan \<Rightarrow> label_scan" where
  "label_line line s =
     (case strip_prefix line ''m='' of
        Some rest \<Rightarrow>
          (let s = label_flush s
           in s\<lparr>ls_current := map_option (Pair (ls_position s)) (section_kind rest),
                ls_position := ls_position s + 1\<rparr>)
      | None \<Rightarrow>
          (case strip_prefix line ''a=mid:'' of
             Some m \<Rightarrow> if ls_current s \<noteq> None then s\<lparr>ls_mid := Some m\<rparr> else s
           | None \<Rightarrow> s))"

definition default_labels :: "string \<Rightarrow> track_label list" where
  "default_labels sdp =
     ls_out (label_flush (fold label_line (map trim (lines sdp))
       \<lparr>ls_out = [], ls_current = None, ls_mid = None, ls_position = 0\<rparr>))"

definition create_labelled_offer :: "string + string \<Rightarrow> string + publish_offer" where
  "create_labelled_offer offer =
     (case offer of
        Inl e \<Rightarrow> Inl e
      | Inr sdp \<Rightarrow> Inr \<lparr>po_sdp = sdp, po_tracks = default_labels sdp\<rparr>)"

text \<open>The mids of an SDP's media sections, in order (\<open>mids_of\<close> in \<open>call.rs\<close>).\<close>

definition mids_of :: "string \<Rightarrow> string list" where
  "mids_of sdp = List.map_filter (\<lambda>l. strip_prefix (trim l) ''a=mid:'') (lines sdp)"

section \<open>The call as the apps see it\<close>

datatype end_reason =
    Left
  | SfuRestart
  | Removed
  | LeftChannel
  | Replaced
  | Expired
  | SessionChanged
  | EngineFailed string
  | Server string

datatype call_status = Joining | Connected | Reconnecting | Ended end_reason

record call_state =
  cs_status :: call_status
  cs_call_id :: "string option"
  cs_self :: "string option"
  cs_participants :: "participant list"

section \<open>Facts\<close>

lemma parse_pc_kind_name: "parse_pc_kind (JStr (pc_name pc)) = Some pc"
  by (cases pc) (simp_all add: parse_pc_kind_def)

lemma parse_ice_candidate_json:
  assumes "\<And>n. ic_sdp_mline_index c = Some n \<Longrightarrow> n < 2 ^ 32"
  shows "parse_ice_candidate (ice_candidate_json c) = Some c"
proof (cases "ic_sdp_mline_index c")
  case None
  then show ?thesis
    by (simp add: parse_ice_candidate_def ice_candidate_json_def opt_json_def field_opt_str_def
        field_opt_u32_def jget_str_def split: option.split)
next
  case (Some n)
  with assms have "int n < 4294967296" by simp
  with Some show ?thesis
    by (simp add: parse_ice_candidate_def ice_candidate_json_def opt_json_def field_opt_str_def
        field_opt_u32_def jget_str_def split: option.split)
qed

text \<open>
  One label for each audio and video section of the offer, in order: the kinds of the labels and
  the section being read are the kinds of the \<open>m=\<close> lines read so far.
\<close>

definition section_kinds :: "string list \<Rightarrow> media_kind list" where
  "section_kinds ls =
     List.map_filter (\<lambda>l. Option.bind (strip_prefix l ''m='') section_kind) ls"

definition scan_kinds :: "label_scan \<Rightarrow> media_kind list" where
  "scan_kinds s = map tl_kind (ls_out s) @ (case ls_current s of None \<Rightarrow> [] | Some (_, k) \<Rightarrow> [k])"

lemma label_flush_kinds [simp]:
  "map tl_kind (ls_out (label_flush s)) = scan_kinds s" "ls_position (label_flush s) = ls_position s"
  by (auto simp: label_flush_def scan_kinds_def split: option.split)

lemma label_line_kinds: "scan_kinds (label_line l s) = scan_kinds s @ section_kinds [l]"
proof (cases "strip_prefix l ''m=''")
  case (Some rest)
  then show ?thesis
    by (cases "section_kind rest")
      (simp_all add: label_line_def scan_kinds_def [of "_\<lparr>ls_current := _, ls_position := _\<rparr>"]
        section_kinds_def Let_def map_filter_simps)
qed (auto simp: label_line_def scan_kinds_def section_kinds_def map_filter_simps split: option.split)

lemma section_kinds_append: "section_kinds (xs @ ys) = section_kinds xs @ section_kinds ys"
  by (simp add: section_kinds_def map_filter_def)

lemma label_lines_kinds: "scan_kinds (fold label_line ls s) = scan_kinds s @ section_kinds ls"
proof (induction ls arbitrary: s)
  case (Cons l ls)
  then show ?case using section_kinds_append [of "[l]" ls] by (simp add: label_line_kinds)
qed (simp add: section_kinds_def map_filter_def)

lemma default_labels_kinds: "map tl_kind (default_labels sdp) = section_kinds (map trim (lines sdp))"
  unfolding default_labels_def label_flush_kinds label_lines_kinds by (simp add: scan_kinds_def)

definition labels_sourced :: "track_label list \<Rightarrow> bool" where
  "labels_sourced ts \<longleftrightarrow> (\<forall>t \<in> set ts. tl_source t = (if tl_kind t = Audio then Mic else Camera))"

lemma label_flush_sourced: "labels_sourced (ls_out s) \<Longrightarrow> labels_sourced (ls_out (label_flush s))"
  by (auto simp: label_flush_def labels_sourced_def split: option.split)

lemma label_line_sourced: "labels_sourced (ls_out s) \<Longrightarrow> labels_sourced (ls_out (label_line l s))"
  by (auto simp: label_line_def Let_def label_flush_sourced split: option.split)

lemma label_lines_sourced: "labels_sourced (ls_out s) \<Longrightarrow> labels_sourced (ls_out (fold label_line ls s))"
  by (induction ls arbitrary: s) (simp_all add: label_line_sourced)

lemma default_labels_sourced: "labels_sourced (default_labels sdp)"
  unfolding default_labels_def
  by (intro label_flush_sourced label_lines_sourced) (simp add: labels_sourced_def)

end
