(* ===== verification/Call_Task.thy ===== *)
theory Call_Task
  imports Call_Types
begin

text \<open>
  \<open>core/src/call.rs\<close>: the task that drives one call. The task's fields are one record (those of
  \<open>Subscribe\<close> and \<open>Media\<close> inlined as \<open>sb_\<close> and \<open>md_\<close>); each method is a function from state to
  state, and what it does to the outside (frames handed to the socket, calls of the media engine,
  replies to callers) is appended to a log. Work the task spawns waits in \<open>ct_work\<close> until its
  result comes back as a \<open>Done\<close>. What the socket's queue and the engine answer on the spot is
  the environment: any function of what happened so far.
\<close>

section \<open>State\<close>

datatype publish_state =
    Idle
  | Offering nat
  | AwaitingAnswer nat
  | ApplyingAnswer nat
  | Stable
  | NeedsRestart

text \<open>Work in flight, each with what its \<open>Done\<close> will be tagged with.\<close>

datatype work =
    OfferWork nat
  | AnswerWork nat
  | ApplyWork nat string
  | SubscribeWork nat nat "sub_stream list"
  | AckWork nat
  | ResumeWork nat
  | MediaWork "bool \<times> bool" "bool \<times> bool"
  | LeaveWork nat

type_synonym cmd_result = "command_error + cmd_reply"

datatype done_result =
    PublishOffered nat "string + publish_offer"
  | PublishAnswered nat cmd_result
  | PublishApplied nat string "string option"
  | SubscribeApplied nat nat "sub_stream list" "string + string"
  | SubscribeAck nat cmd_result
  | Resumed nat cmd_result
  | MediaAck "bool \<times> bool" "bool \<times> bool" cmd_result

datatype effect =
    Started nat json
  | Notified nat json
  | EngineCandidate pc_kind "ice_candidate option"
  | EngineMedia bool bool
  | EngineIce "ice_server list"
  | EngineClosed
  | Answered nat "core_error option"
  | RouteRemoved string

record call =
  ct_state :: call_state
  ct_call_id :: string
  ct_participant_id :: string
  ct_resume_token :: string
  ct_generation :: nat
  ct_connected :: bool
  ct_resuming :: bool
  ct_epoch :: nat
  ct_publish_wanted :: bool
  ct_publish :: publish_state
  ct_republish_pending :: bool
  ct_pub_seq :: nat
  ct_unsent_offer :: "(nat \<times> publish_offer) option"
  ct_pub_candidates :: "ice_candidate option list"
  sb_seq :: nat
  sb_latest :: "(nat \<times> string \<times> sub_stream list) option"
  sb_applying :: "(nat \<times> nat) option"
  sb_retained :: "(nat \<times> string) option"
  sb_acked :: nat
  ct_applied_mids :: "pc_kind \<Rightarrow> string list option"
  ct_remote_buf :: "pc_kind \<Rightarrow> ice_candidate option list"
  md_engine :: "(bool \<times> bool) option"
  md_in_flight :: bool
  md_queued :: "(bool \<times> bool \<times> nat) option"
  md_dirty :: bool
  md_reannounce :: bool
  ct_media_reply :: "nat option"
  ct_ended :: bool
  ct_work :: "work list"
  ct_log :: "effect list"

text \<open>
  What answers on the spot: \<open>Commands::start\<close> and \<open>notify\<close> accept the frame or not,
  \<open>add_remote_candidate\<close> and \<open>set_local_media\<close> fail with a message or not, and the watch
  channel holds the connection of the moment.
\<close>

record call_env =
  ce_start :: "effect list \<Rightarrow> nat \<Rightarrow> json \<Rightarrow> bool"
  ce_notify :: "effect list \<Rightarrow> nat \<Rightarrow> json \<Rightarrow> bool"
  ce_candidate :: "effect list \<Rightarrow> pc_kind \<Rightarrow> ice_candidate option \<Rightarrow> string option"
  ce_media :: "effect list \<Rightarrow> bool \<Rightarrow> bool \<Rightarrow> string option"
  ce_conn :: "effect list \<Rightarrow> conn"

section \<open>Primitives\<close>

definition emit :: "effect \<Rightarrow> call \<Rightarrow> call" where
  "emit e s = s\<lparr>ct_log := ct_log s @ [e]\<rparr>"

definition spawn :: "work \<Rightarrow> call \<Rightarrow> call" where
  "spawn w s = s\<lparr>ct_work := ct_work s @ [w]\<rparr>"

text \<open>\<open>commands.start(..)\<close> followed, when it was accepted, by \<open>await_reply\<close>.\<close>

definition start_command :: "call_env \<Rightarrow> nat \<Rightarrow> json \<Rightarrow> work \<Rightarrow> call \<Rightarrow> bool \<times> call" where
  "start_command env g frame w s =
     (if ce_start env (ct_log s) g frame then (True, spawn w (emit (Started g frame) s))
      else (False, s))"

definition notify_command :: "call_env \<Rightarrow> nat \<Rightarrow> json \<Rightarrow> call \<Rightarrow> call" where
  "notify_command env g frame s =
     (if ce_notify env (ct_log s) g frame then emit (Notified g frame) s else s)"

definition frame_of :: "string \<Rightarrow> (string \<times> json) list \<Rightarrow> json" where
  "frame_of ty kvs = JObj [(''type'', JStr ty), (''data'', JObj kvs)]"

definition leave_frame :: "call \<Rightarrow> json" where
  "leave_frame s = frame_of ''call.leave'' [(''call_id'', JStr (ct_call_id s))]"

definition answer :: "nat option \<Rightarrow> core_error option \<Rightarrow> call \<Rightarrow> call" where
  "answer t e s = (case t of None \<Rightarrow> s | Some t \<Rightarrow> emit (Answered t e) s)"

definition set_status :: "call_status \<Rightarrow> call \<Rightarrow> call" where
  "set_status st s = s\<lparr>ct_state := (ct_state s)\<lparr>cs_status := st\<rparr>\<rparr>"

text \<open>The single end path: the first reason wins.\<close>

definition finish_call :: "call_env \<Rightarrow> end_reason \<Rightarrow> bool \<Rightarrow> call \<Rightarrow> call" where
  "finish_call env reason tell_server s =
     (if ct_ended s then s
      else
        (let s = set_status (Ended reason) (s\<lparr>ct_ended := True\<rparr>);
             s = (if ct_call_id s \<noteq> [] then emit (RouteRemoved (ct_call_id s)) s else s);
             s = emit EngineClosed s;
             s = (if tell_server \<and> ct_connected s
                  then notify_command env (ct_generation s) (leave_frame s) s else s);
             s = (answer (ct_media_reply s) (Some CallEnded) s)\<lparr>ct_media_reply := None\<rparr>
         in (answer (map_option (\<lambda>(_, _, t). t) (md_queued s)) (Some CallEnded) s)\<lparr>md_queued := None\<rparr>))"

definition code_of :: "command_error \<Rightarrow> string" where
  "code_of err =
     (case err of
        Rejected code _ \<Rightarrow> code
      | CmdTimeout \<Rightarrow> ''timeout''
      | UnexpectedReply \<Rightarrow> ''unexpected_response''
      | CmdTooLarge \<Rightarrow> ''too_large''
      | CmdBusy \<Rightarrow> ''busy''
      | NotSent \<Rightarrow> ''disconnected''
      | Unknown \<Rightarrow> ''disconnected'')"

section \<open>ICE\<close>

definition candidate_frame :: "pc_kind \<Rightarrow> ice_candidate option \<Rightarrow> call \<Rightarrow> json" where
  "candidate_frame pc c s = frame_of ''call.ice''
     [(''call_id'', JStr (ct_call_id s)), (''pc'', JStr (pc_name pc)),
      (''candidate'', opt_json ice_candidate_json c)]"

definition send_candidate :: "call_env \<Rightarrow> pc_kind \<Rightarrow> ice_candidate option \<Rightarrow> call \<Rightarrow> call" where
  "send_candidate env pc c s =
     (if \<not> ct_connected s then s
      else notify_command env (ct_generation s) (candidate_frame pc c s) s)"

definition on_local_candidate :: "call_env \<Rightarrow> pc_kind \<Rightarrow> ice_candidate option \<Rightarrow> call \<Rightarrow> call" where
  "on_local_candidate env pc c s =
     (if pc = Publish \<and> (case ct_publish s of Offering _ \<Rightarrow> True | _ \<Rightarrow> False)
      then s\<lparr>ct_pub_candidates := ct_pub_candidates s @ [c]\<rparr>
      else send_candidate env pc c s)"

definition applicable :: "call \<Rightarrow> pc_kind \<Rightarrow> ice_candidate option \<Rightarrow> bool" where
  "applicable s pc candidate =
     (case ct_applied_mids s pc of
        None \<Rightarrow> False
      | Some mids \<Rightarrow>
          (case candidate of
             None \<Rightarrow> True
           | Some c \<Rightarrow>
               (case (ic_sdp_mid c, ic_sdp_mline_index c) of
                  (Some mid, _) \<Rightarrow> mid \<in> set mids
                | (None, Some index) \<Rightarrow> index < length mids
                | (None, None) \<Rightarrow> False)))"

definition add_remote :: "call_env \<Rightarrow> pc_kind \<Rightarrow> ice_candidate option \<Rightarrow> call \<Rightarrow> call" where
  "add_remote env pc c s =
     (let r = ce_candidate env (ct_log s) pc c;
          s = emit (EngineCandidate pc c) s
      in case r of None \<Rightarrow> s | Some msg \<Rightarrow> finish_call env (EngineFailed msg) True s)"

definition on_remote_candidate :: "call_env \<Rightarrow> pc_kind \<Rightarrow> ice_candidate option \<Rightarrow> call \<Rightarrow> call" where
  "on_remote_candidate env pc c s =
     (if ct_remote_buf s pc \<noteq> [] \<or> \<not> applicable s pc c
      then s\<lparr>ct_remote_buf := (ct_remote_buf s)(pc := ct_remote_buf s pc @ [c])\<rparr>
      else add_remote env pc c s)"

text \<open>The loop of \<open>flush_remote\<close>; \<open>None\<close> is its early return when the engine refused one.\<close>

fun flush_buffered ::
  "call_env \<Rightarrow> pc_kind \<Rightarrow> ice_candidate option list \<Rightarrow> ice_candidate option list \<Rightarrow> call \<Rightarrow>
     ice_candidate option list option \<times> call" where
  "flush_buffered env pc [] rest s = (Some rest, s)"
| "flush_buffered env pc (c # cs) rest s =
     (if rest = [] \<and> applicable s pc c
      then (let s = add_remote env pc c s
            in if ct_ended s then (None, s) else flush_buffered env pc cs rest s)
      else flush_buffered env pc cs (rest @ [c]) s)"

definition flush_remote :: "call_env \<Rightarrow> pc_kind \<Rightarrow> call \<Rightarrow> call" where
  "flush_remote env pc s =
     (case flush_buffered env pc (ct_remote_buf s pc) []
         (s\<lparr>ct_remote_buf := (ct_remote_buf s)(pc := [])\<rparr>) of
        (None, s) \<Rightarrow> s
      | (Some rest, s) \<Rightarrow> s\<lparr>ct_remote_buf := (ct_remote_buf s)(pc := rest)\<rparr>)"

section \<open>Publish\<close>

definition start_publish_offer :: "call \<Rightarrow> call" where
  "start_publish_offer s =
     spawn (OfferWork (ct_pub_seq s + 1))
       (s\<lparr>ct_republish_pending := False, ct_pub_seq := ct_pub_seq s + 1,
          ct_publish := Offering (ct_pub_seq s + 1), ct_pub_candidates := []\<rparr>)"

definition publish_frame :: "publish_offer \<Rightarrow> call \<Rightarrow> json" where
  "publish_frame off s = frame_of ''call.publish''
     [(''call_id'', JStr (ct_call_id s)), (''sdp'', JStr (po_sdp off)),
      (''tracks'', JArr (map track_label_json (po_tracks off)))]"

definition send_publish :: "call_env \<Rightarrow> nat \<Rightarrow> publish_offer \<Rightarrow> call \<Rightarrow> call" where
  "send_publish env q off s =
     (if \<not> ct_connected s then s\<lparr>ct_unsent_offer := Some (q, off)\<rparr>
      else
        (case start_command env (ct_generation s) (publish_frame off s) (AnswerWork q) s of
           (True, s) \<Rightarrow>
             fold (send_candidate env Publish) (ct_pub_candidates s)
               (s\<lparr>ct_publish := AwaitingAnswer q, ct_pub_candidates := []\<rparr>)
         | (False, s) \<Rightarrow> s\<lparr>ct_unsent_offer := Some (q, off)\<rparr>))"

section \<open>Subscribe\<close>

definition subscribe_frame :: "nat \<Rightarrow> string \<Rightarrow> call \<Rightarrow> json" where
  "subscribe_frame v sdp s = frame_of ''call.subscribe.answer''
     [(''call_id'', JStr (ct_call_id s)), (''version'', JInt (int v)), (''sdp'', JStr sdp)]"

definition send_retained_answer :: "call_env \<Rightarrow> call \<Rightarrow> call" where
  "send_retained_answer env s =
     (case sb_retained s of
        None \<Rightarrow> s
      | Some (v, sdp) \<Rightarrow>
          if \<not> ct_connected s then s
          else snd (start_command env (ct_generation s) (subscribe_frame v sdp s) (AckWork v) s))"

text \<open>Spawning the engine's \<open>apply_subscribe_offer\<close>.\<close>

definition maybe_apply_offer :: "call \<Rightarrow> call" where
  "maybe_apply_offer s =
     (if sb_applying s \<noteq> None then s
      else
        (case sb_latest s of
           None \<Rightarrow> s
         | Some (v, sdp, streams) \<Rightarrow>
             spawn (SubscribeWork (sb_seq s + 1) v streams)
               (s\<lparr>sb_latest := None, sb_seq := sb_seq s + 1, sb_applying := Some (sb_seq s + 1, v)\<rparr>)))"

definition on_offer :: "call_env \<Rightarrow> nat \<Rightarrow> string \<Rightarrow> sub_stream list \<Rightarrow> call \<Rightarrow> call" where
  "on_offer env v sdp streams s =
     (if v \<le> sb_acked s then s
      else if (case sb_retained s of Some (r, _) \<Rightarrow> r = v | None \<Rightarrow> False)
      then send_retained_answer env s
      else if (case sb_latest s of Some (l, _) \<Rightarrow> v \<le> l | None \<Rightarrow> False) \<or>
              (case sb_applying s of Some (_, a) \<Rightarrow> v \<le> a | None \<Rightarrow> False)
      then s
      else maybe_apply_offer (s\<lparr>sb_latest := Some (v, sdp, streams)\<rparr>))"

section \<open>Media\<close>

definition media_frame :: "bool \<Rightarrow> bool \<Rightarrow> call \<Rightarrow> json" where
  "media_frame audio video s = frame_of ''call.media''
     [(''call_id'', JStr (ct_call_id s)), (''audio'', JBool audio), (''video'', JBool video)]"

definition send_media :: "call_env \<Rightarrow> bool \<Rightarrow> bool \<Rightarrow> bool \<times> bool \<Rightarrow> nat option \<Rightarrow> call \<Rightarrow> call" where
  "send_media env audio video prev reply s =
     (case (if ct_connected s
            then start_command env (ct_generation s) (media_frame audio video s)
              (MediaWork (audio, video) prev) s
            else (False, s)) of
        (True, s) \<Rightarrow> s\<lparr>md_reannounce := False, md_in_flight := True, ct_media_reply := reply\<rparr>
      | (False, s) \<Rightarrow> answer reply None (s\<lparr>md_dirty := True, md_reannounce := False\<rparr>))"

definition set_media :: "call_env \<Rightarrow> bool \<Rightarrow> bool \<Rightarrow> nat \<Rightarrow> call \<Rightarrow> call" where
  "set_media env audio video t s =
     (if md_in_flight s
      then answer (map_option (\<lambda>(_, _, t). t) (md_queued s)) None
             (s\<lparr>md_queued := Some (audio, video, t)\<rparr>)
      else
        (let prev = (case md_engine s of Some p \<Rightarrow> p | None \<Rightarrow> (True, True));
             r = ce_media env (ct_log s) audio video;
             s = emit (EngineMedia audio video) s
         in case r of
              Some msg \<Rightarrow> answer (Some t) (Some (Api ''engine'' msg)) s
            | None \<Rightarrow>
                send_media env audio video prev (Some t) (s\<lparr>md_engine := Some (audio, video)\<rparr>)))"

definition flush_reannounce :: "call_env \<Rightarrow> call \<Rightarrow> call" where
  "flush_reannounce env s =
     (if \<not> md_reannounce s \<or> ct_ended s \<or> md_in_flight s \<or> \<not> ct_connected s then s
      else (case md_engine s of None \<Rightarrow> s | Some (a, v) \<Rightarrow> send_media env a v (a, v) None s))"

definition reannounce_media :: "call_env \<Rightarrow> call \<Rightarrow> call" where
  "reannounce_media env s =
     (if md_engine s \<noteq> None then flush_reannounce env (s\<lparr>md_reannounce := True\<rparr>) else s)"

section \<open>Connection changes and resume\<close>

definition resume_frame :: "call \<Rightarrow> json" where
  "resume_frame s = frame_of ''call.resume''
     [(''call_id'', JStr (ct_call_id s)), (''participant_id'', JStr (ct_participant_id s)),
      (''resume_token'', JStr (ct_resume_token s))]"

definition on_conn :: "call_env \<Rightarrow> conn \<Rightarrow> call \<Rightarrow> call" where
  "on_conn env c s =
     (if ct_ended s then s
      else
        (let s = (if (\<not> cn_ready c \<or> cn_generation c \<noteq> ct_generation s) \<and> ct_connected s
                  then set_status Reconnecting (s\<lparr>ct_connected := False\<rparr>) else s)
         in if cn_ready c \<and> ct_generation s < cn_generation c \<and> \<not> ct_resuming s
            then (case start_command env (cn_generation c) (resume_frame s)
                    (ResumeWork (cn_generation c)) s of
                    (True, s) \<Rightarrow> s\<lparr>ct_resuming := True\<rparr>
                  | (False, s) \<Rightarrow> s)
            else s))"

definition after_resume :: "call_env \<Rightarrow> call \<Rightarrow> call" where
  "after_resume env s =
     (let s = (case ct_publish s of
                 NeedsRestart \<Rightarrow> start_publish_offer s
               | AwaitingAnswer _ \<Rightarrow> start_publish_offer s
               | Stable \<Rightarrow> if ct_republish_pending s then start_publish_offer s else s
               | _ \<Rightarrow> s);
          s = (case ct_unsent_offer s of
                 None \<Rightarrow> s
               | Some (q, off) \<Rightarrow>
                   (let s = s\<lparr>ct_unsent_offer := None\<rparr>
                    in if ct_publish s = Offering q then send_publish env q off s else s));
          s = send_retained_answer env s;
          s = (if md_dirty s \<and> \<not> md_in_flight s
               then (let s = s\<lparr>md_dirty := False\<rparr>
                     in case md_engine s of None \<Rightarrow> s | Some (a, v) \<Rightarrow> send_media env a v (a, v) None s)
               else s)
      in flush_reannounce env s)"

section \<open>Server frames\<close>

record joined =
  jn_call_id :: string
  jn_participant_id :: string
  jn_resume_token :: string
  jn_participants :: "participant list"
  jn_ice_servers :: "ice_server list"

definition parse_joined :: "json \<Rightarrow> joined option" where
  "parse_joined j =
     (case (jget_str ''call_id'' j, Option.bind (jget ''self'' j) (jget_str ''participant_id''),
            Option.bind (jget ''self'' j) (jget_str ''resume_token''),
            field_list_or_empty parse_participant ''participants'' j,
            field_list_or_empty parse_ice_server ''ice_servers'' j) of
        (Some c, Some p, Some t, Some ps, Some ice) \<Rightarrow>
          Some \<lparr>jn_call_id = c, jn_participant_id = p, jn_resume_token = t, jn_participants = ps,
                jn_ice_servers = ice\<rparr>
      | _ \<Rightarrow> None)"

definition on_joined :: "call_env \<Rightarrow> json \<Rightarrow> call \<Rightarrow> call" where
  "on_joined env data s =
     (case parse_joined data of
        None \<Rightarrow> finish_call env (Server ''unexpected_response'') True s
      | Some j \<Rightarrow>
          (let is_first = (ct_call_id s = []);
               s = s\<lparr>ct_call_id := jn_call_id j, ct_participant_id := jn_participant_id j,
                     ct_resume_token := jn_resume_token j\<rparr>;
               s = (if jn_ice_servers j \<noteq> [] then emit (EngineIce (jn_ice_servers j)) s else s);
               s = s\<lparr>ct_state := (ct_state s)\<lparr>cs_call_id := Some (jn_call_id j),
                       cs_self := Some (jn_participant_id j), cs_participants := jn_participants j\<rparr>\<rparr>;
               s = (if is_first then set_status Connected s else s)
           in if is_first \<and> ct_publish_wanted s then start_publish_offer s else s))"

definition end_reason_of :: "string \<Rightarrow> end_reason" where
  "end_reason_of r =
     (if r = ''sfu_restart'' then SfuRestart
      else if r = ''removed'' then Removed
      else if r = ''left'' then LeftChannel
      else if r = ''replaced'' then Replaced
      else Server r)"

definition text_at :: "string \<Rightarrow> json \<Rightarrow> string" where
  "text_at k j = (case jget_str k j of Some s \<Rightarrow> s | None \<Rightarrow> [])"

definition on_participant :: "json \<Rightarrow> call \<Rightarrow> call" where
  "on_participant data s =
     (case parse_participant (jindex ''participant'' data) of
        None \<Rightarrow> s
      | Some p \<Rightarrow>
          (let others = filter (\<lambda>x. pt_participant_id x \<noteq> pt_participant_id p) (cs_participants (ct_state s))
           in s\<lparr>ct_state := (ct_state s)\<lparr>cs_participants :=
                  (if text_at ''event'' data \<noteq> ''left'' then others @ [p] else others)\<rparr>\<rparr>))"

definition on_frame :: "call_env \<Rightarrow> call_frame \<Rightarrow> call \<Rightarrow> call" where
  "on_frame env f s =
     (let data = cf_data f
      in if cf_ty f = ''call.joined'' then on_joined env data s
         else if cf_ty f = ''call.subscribe.offer''
         then on_offer env (case as_u64 (jindex ''version'' data) of Some v \<Rightarrow> v | None \<Rightarrow> 0)
                (text_at ''sdp'' data)
                (case field_list parse_sub_stream ''streams'' data of Some ss \<Rightarrow> ss | None \<Rightarrow> []) s
         else if cf_ty f = ''call.ice''
         then (case parse_pc_kind (jindex ''pc'' data) of
                 None \<Rightarrow> s
               | Some pc \<Rightarrow>
                   on_remote_candidate env pc (parse_ice_candidate (jindex ''candidate'' data)) s)
         else if cf_ty f = ''call.participant'' then on_participant data s
         else if cf_ty f = ''call.ended''
         then finish_call env (end_reason_of (text_at ''reason'' data)) False s
         else s)"

section \<open>Inputs\<close>

datatype call_input =
    LocalCandidate pc_kind "ice_candidate option"
  | EngineFailedInput string
  | SetMedia bool bool nat
  | Republish nat
  | Leave nat
  | HandleDropped

definition on_input :: "call_env \<Rightarrow> call_input \<Rightarrow> call \<Rightarrow> call" where
  "on_input env i s =
     (case i of
        LocalCandidate pc c \<Rightarrow> on_local_candidate env pc c s
      | EngineFailedInput msg \<Rightarrow> finish_call env (EngineFailed msg) True s
      | SetMedia audio video t \<Rightarrow> set_media env audio video t s
      | Republish t \<Rightarrow>
          if \<not> ct_publish_wanted s then answer (Some t) (Some Busy) s
          else if ct_publish s = Stable \<and> ct_connected s
          then answer (Some t) None (start_publish_offer s)
          else answer (Some t) None (s\<lparr>ct_republish_pending := True\<rparr>)
      | Leave t \<Rightarrow>
          (let (confirm, s) =
             (if ct_connected s \<and> \<not> ct_ended s \<and>
                 ce_start env (ct_log s) (ct_generation s) (leave_frame s)
              then (True, emit (Started (ct_generation s) (leave_frame s)) s)
              else (False, s))
           in spawn (LeaveWork t) (finish_call env Left (\<not> confirm) s))
      | HandleDropped \<Rightarrow> finish_call env Left True s)"

section \<open>Results\<close>

definition on_publish_applied :: "call_env \<Rightarrow> nat \<Rightarrow> string \<Rightarrow> string option \<Rightarrow> call \<Rightarrow> call" where
  "on_publish_applied env q sdp res s =
     (if ct_publish s \<noteq> ApplyingAnswer q then s
      else
        (case res of
           None \<Rightarrow>
             (let s = s\<lparr>ct_applied_mids := (ct_applied_mids s)(Publish := Some (mids_of sdp)),
                        ct_publish := Stable\<rparr>;
                  s = flush_remote env Publish s;
                  s = reannounce_media env s
              in if ct_republish_pending s \<and> ct_connected s \<and> \<not> ct_ended s
                 then start_publish_offer s else s)
         | Some err \<Rightarrow> finish_call env (EngineFailed err) True s))"

definition on_subscribe_applied ::
  "call_env \<Rightarrow> nat \<Rightarrow> nat \<Rightarrow> sub_stream list \<Rightarrow> string + string \<Rightarrow> call \<Rightarrow> call" where
  "on_subscribe_applied env q v streams res s =
     (if map_option fst (sb_applying s) \<noteq> Some q then s
      else
        (let s = s\<lparr>sb_applying := None\<rparr>
         in case res of
              Inr sdp \<Rightarrow>
                (let s = flush_remote env Subscribe
                       (s\<lparr>ct_applied_mids := (ct_applied_mids s)(Subscribe := Some (map ss_mid streams))\<rparr>)
                 in if ct_ended s then s
                    else if sb_latest s \<noteq> None then maybe_apply_offer s
                    else send_retained_answer env (s\<lparr>sb_retained := Some (v, sdp)\<rparr>))
            | Inl err \<Rightarrow> finish_call env (EngineFailed err) True s))"

definition on_subscribe_ack :: "call_env \<Rightarrow> nat \<Rightarrow> cmd_result \<Rightarrow> call \<Rightarrow> call" where
  "on_subscribe_ack env v res s =
     (let holds = (case sb_retained s of Some (r, _) \<Rightarrow> r = v | None \<Rightarrow> False);
          settled = (if holds then s\<lparr>sb_retained := None\<rparr> else s)
      in case res of
           Inr _ \<Rightarrow> settled\<lparr>sb_acked := max (sb_acked s) v\<rparr>
         | Inl err \<Rightarrow>
             if (case err of Rejected code _ \<Rightarrow> code = ''stale'' | _ \<Rightarrow> False) then settled
             else if err \<in> {Unknown, NotSent, CmdTimeout} then s
             else finish_call env (Server (code_of err)) True s)"

definition on_resumed :: "call_env \<Rightarrow> nat \<Rightarrow> cmd_result \<Rightarrow> call \<Rightarrow> call" where
  "on_resumed env g res s =
     (let s = s\<lparr>ct_resuming := False\<rparr>
      in case res of
           Inr _ \<Rightarrow> after_resume env (set_status Connected (s\<lparr>ct_generation := g, ct_connected := True\<rparr>))
         | Inl (Rejected code _) \<Rightarrow>
             finish_call env (if code = ''not_in_call'' then Expired else Server code) False s
         | Inl _ \<Rightarrow> on_conn env (ce_conn env (ct_log s)) s)"

definition on_media_ack :: "call_env \<Rightarrow> bool \<times> bool \<Rightarrow> bool \<times> bool \<Rightarrow> cmd_result \<Rightarrow> call \<Rightarrow> call" where
  "on_media_ack env intent prev res s =
     (let reply = ct_media_reply s;
          s = s\<lparr>md_in_flight := False, ct_media_reply := None\<rparr>;
          s = (case res of
                 Inr _ \<Rightarrow> answer reply None s
               | Inl (Rejected code message) \<Rightarrow>
                   answer reply (Some (Api code message))
                     (if md_engine s = Some intent \<and> md_queued s = None
                      then (let r = ce_media env (ct_log s) (fst prev) (snd prev);
                                s = emit (EngineMedia (fst prev) (snd prev)) s
                            in if r = None then s\<lparr>md_engine := Some prev\<rparr> else s)
                      else s)
               | Inl err \<Rightarrow> answer reply (Some (of_command_error err)) (s\<lparr>md_dirty := True\<rparr>));
          s = (case md_queued s of
                 None \<Rightarrow> s
               | Some (a, v, t) \<Rightarrow> set_media env a v t (s\<lparr>md_queued := None\<rparr>))
      in flush_reannounce env s)"

definition on_done :: "call_env \<Rightarrow> done_result \<Rightarrow> call \<Rightarrow> call" where
  "on_done env d s =
     (case d of
        PublishOffered q res \<Rightarrow>
          if q \<noteq> ct_pub_seq s \<or> ct_publish s \<noteq> Offering q then s
          else (case res of
                  Inr off \<Rightarrow> send_publish env q off s
                | Inl err \<Rightarrow> finish_call env (EngineFailed err) True s)
      | PublishAnswered q res \<Rightarrow>
          if ct_publish s \<noteq> AwaitingAnswer q then s
          else (case res of
                  Inr reply \<Rightarrow>
                    spawn (ApplyWork q (text_at ''sdp'' (cr_data reply))) (s\<lparr>ct_publish := ApplyingAnswer q\<rparr>)
                | Inl err \<Rightarrow>
                    if err \<in> {Unknown, NotSent} then s\<lparr>ct_publish := NeedsRestart\<rparr>
                    else finish_call env (Server (code_of err)) True s)
      | PublishApplied q sdp res \<Rightarrow> on_publish_applied env q sdp res s
      | SubscribeApplied q v streams res \<Rightarrow> on_subscribe_applied env q v streams res s
      | SubscribeAck v res \<Rightarrow> on_subscribe_ack env v res s
      | Resumed g res \<Rightarrow> on_resumed env g res s
      | MediaAck intent prev res \<Rightarrow> on_media_ack env intent prev res s)"

section \<open>Joining and the loop\<close>

text \<open>
  \<open>join\<close>: with the connection read at the start and what the \<open>call.join\<close> request came to; the
  task it spawns begins in this state.
\<close>

definition fresh_call :: "nat \<Rightarrow> nat \<Rightarrow> bool \<Rightarrow> call" where
  "fresh_call g epoch publish =
     \<lparr>ct_state = \<lparr>cs_status = Joining, cs_call_id = None, cs_self = None, cs_participants = []\<rparr>,
      ct_call_id = [], ct_participant_id = [], ct_resume_token = [], ct_generation = g,
      ct_connected = True, ct_resuming = False, ct_epoch = epoch, ct_publish_wanted = publish,
      ct_publish = Idle, ct_republish_pending = False, ct_pub_seq = 0, ct_unsent_offer = None,
      ct_pub_candidates = [], sb_seq = 0, sb_latest = None, sb_applying = None, sb_retained = None,
      sb_acked = 0, ct_applied_mids = (\<lambda>_. None), ct_remote_buf = (\<lambda>_. []), md_engine = None,
      md_in_flight = False, md_queued = None, md_dirty = False, md_reannounce = False,
      ct_media_reply = None, ct_ended = False, ct_work = [], ct_log = []\<rparr>"

definition join_call :: "conn \<Rightarrow> nat \<Rightarrow> cmd_result \<Rightarrow> bool \<Rightarrow> core_error + call" where
  "join_call c epoch res publish =
     (if \<not> cn_ready c then Inl Disconnected
      else (case res of
              Inl err \<Rightarrow> Inl (of_command_error err)
            | Inr _ \<Rightarrow> Inr (fresh_call (cn_generation c) epoch publish)))"

text \<open>
  One turn of \<open>run\<close>: a routed frame, an input, a result of spawned work, a change of the
  connection, a change of the session's revision (\<open>None\<close>: its channel closed). A \<open>leave\<close> that was
  answered or timed out replies to its caller in a task of its own.
\<close>

datatype call_event =
    FrameEvent call_frame
  | InputEvent call_input
  | DoneEvent work done_result
  | ConnEvent conn
  | RevisionEvent "nat option"
  | LeaveEvent nat

fun work_done :: "work \<Rightarrow> done_result \<Rightarrow> bool" where
  "work_done (OfferWork q) (PublishOffered q' _) = (q = q')"
| "work_done (AnswerWork q) (PublishAnswered q' _) = (q = q')"
| "work_done (ApplyWork q sdp) (PublishApplied q' sdp' _) = (q = q' \<and> sdp = sdp')"
| "work_done (SubscribeWork q v ss) (SubscribeApplied q' v' ss' _) = (q = q' \<and> v = v' \<and> ss = ss')"
| "work_done (AckWork v) (SubscribeAck v' _) = (v = v')"
| "work_done (ResumeWork g) (Resumed g' _) = (g = g')"
| "work_done (MediaWork i p) (MediaAck i' p' _) = (i = i' \<and> p = p')"
| "work_done _ _ = False"

definition call_next :: "call_env \<Rightarrow> call_event \<Rightarrow> call \<Rightarrow> call" where
  "call_next env ev s =
     (case ev of
        FrameEvent f \<Rightarrow> on_frame env f s
      | InputEvent i \<Rightarrow> on_input env i s
      | DoneEvent w d \<Rightarrow> on_done env d (s\<lparr>ct_work := remove1 w (ct_work s)\<rparr>)
      | ConnEvent c \<Rightarrow> on_conn env c s
      | RevisionEvent e \<Rightarrow> if e \<noteq> Some (ct_epoch s) then finish_call env SessionChanged False s else s
      | LeaveEvent t \<Rightarrow> answer (Some t) None (s\<lparr>ct_work := remove1 (LeaveWork t) (ct_work s)\<rparr>))"

definition enabled :: "call \<Rightarrow> call_event \<Rightarrow> bool" where
  "enabled s ev =
     (case ev of
        DoneEvent w d \<Rightarrow> \<not> ct_ended s \<and> w \<in> set (ct_work s) \<and> work_done w d
      | LeaveEvent t \<Rightarrow> LeaveWork t \<in> set (ct_work s)
      | _ \<Rightarrow> \<not> ct_ended s)"

inductive call_runs :: "call_env \<Rightarrow> call \<Rightarrow> call_event list \<Rightarrow> call \<Rightarrow> bool" for env s where
  begins: "call_runs env s [] s"
| turn: "call_runs env s evs s' \<Longrightarrow> enabled s' ev \<Longrightarrow> call_runs env s (evs @ [ev]) (call_next env ev s')"

inductive_cases call_runsE: "call_runs env s evs s'"

end
