(* ===== verification/Call_Views.thy ===== *)
theory Call_Views
  imports Call_Task
begin

text \<open>
  What each method of the call task leaves alone. The task's fields fall into views (publishing,
  subscribing, media, the connection), and a method outside a view does not touch it: these
  equations, as simplification rules, carry the invariants.
\<close>

fun publish_work :: "work \<Rightarrow> bool" where
  "publish_work (OfferWork _) = True"
| "publish_work (ApplyWork _ _) = True"
| "publish_work _ = False"

fun subscribe_work :: "work \<Rightarrow> bool" where
  "subscribe_work (SubscribeWork _ _ _) = True"
| "subscribe_work _ = False"

fun media_work :: "work \<Rightarrow> bool" where
  "media_work (MediaWork _ _) = True"
| "media_work _ = False"

fun resume_work :: "work \<Rightarrow> bool" where
  "resume_work (ResumeWork _) = True"
| "resume_work _ = False"

fun leave_work :: "work \<Rightarrow> bool" where
  "leave_work (LeaveWork _) = True"
| "leave_work _ = False"

definition publish_view where
  "publish_view s = (ct_call_id s, ct_publish_wanted s, ct_publish s, ct_republish_pending s,
     ct_pub_seq s, ct_unsent_offer s, filter publish_work (ct_work s))"

definition subscribe_view where
  "subscribe_view s = (sb_seq s, sb_latest s, sb_applying s, sb_retained s, sb_acked s,
     filter subscribe_work (ct_work s))"

definition media_view where
  "media_view s = (md_in_flight s, ct_media_reply s, md_queued s, filter media_work (ct_work s))"

definition link_view where
  "link_view s = (ct_generation s, ct_connected s, ct_resuming s, ct_epoch s,
     filter resume_work (ct_work s))"

definition remote_view where
  "remote_view s = (ct_applied_mids s, ct_remote_buf s)"

lemmas views = publish_view_def subscribe_view_def media_view_def link_view_def remote_view_def

section \<open>Updates outside a view\<close>

lemma publish_view_update [simp]:
  "publish_view (s\<lparr>ct_state := v_state\<rparr>) = publish_view s"
  "publish_view (s\<lparr>ct_participant_id := v_participant_id\<rparr>) = publish_view s"
  "publish_view (s\<lparr>ct_resume_token := v_resume_token\<rparr>) = publish_view s"
  "publish_view (s\<lparr>ct_generation := v_generation\<rparr>) = publish_view s"
  "publish_view (s\<lparr>ct_connected := v_connected\<rparr>) = publish_view s"
  "publish_view (s\<lparr>ct_resuming := v_resuming\<rparr>) = publish_view s"
  "publish_view (s\<lparr>ct_epoch := v_epoch\<rparr>) = publish_view s"
  "publish_view (s\<lparr>ct_pub_candidates := v_pub_candidates\<rparr>) = publish_view s"
  "publish_view (s\<lparr>sb_seq := v_seq\<rparr>) = publish_view s"
  "publish_view (s\<lparr>sb_latest := v_latest\<rparr>) = publish_view s"
  "publish_view (s\<lparr>sb_applying := v_applying\<rparr>) = publish_view s"
  "publish_view (s\<lparr>sb_retained := v_retained\<rparr>) = publish_view s"
  "publish_view (s\<lparr>sb_acked := v_acked\<rparr>) = publish_view s"
  "publish_view (s\<lparr>ct_applied_mids := v_applied_mids\<rparr>) = publish_view s"
  "publish_view (s\<lparr>ct_remote_buf := v_remote_buf\<rparr>) = publish_view s"
  "publish_view (s\<lparr>md_engine := v_engine\<rparr>) = publish_view s"
  "publish_view (s\<lparr>md_in_flight := v_in_flight\<rparr>) = publish_view s"
  "publish_view (s\<lparr>md_queued := v_queued\<rparr>) = publish_view s"
  "publish_view (s\<lparr>md_dirty := v_dirty\<rparr>) = publish_view s"
  "publish_view (s\<lparr>md_reannounce := v_reannounce\<rparr>) = publish_view s"
  "publish_view (s\<lparr>ct_media_reply := v_media_reply\<rparr>) = publish_view s"
  "publish_view (s\<lparr>ct_ended := v_ended\<rparr>) = publish_view s"
  "publish_view (s\<lparr>ct_log := v_log\<rparr>) = publish_view s"
  by (simp_all add: publish_view_def)

lemma subscribe_view_update [simp]:
  "subscribe_view (s\<lparr>ct_state := v_state\<rparr>) = subscribe_view s"
  "subscribe_view (s\<lparr>ct_call_id := v_call_id\<rparr>) = subscribe_view s"
  "subscribe_view (s\<lparr>ct_participant_id := v_participant_id\<rparr>) = subscribe_view s"
  "subscribe_view (s\<lparr>ct_resume_token := v_resume_token\<rparr>) = subscribe_view s"
  "subscribe_view (s\<lparr>ct_generation := v_generation\<rparr>) = subscribe_view s"
  "subscribe_view (s\<lparr>ct_connected := v_connected\<rparr>) = subscribe_view s"
  "subscribe_view (s\<lparr>ct_resuming := v_resuming\<rparr>) = subscribe_view s"
  "subscribe_view (s\<lparr>ct_epoch := v_epoch\<rparr>) = subscribe_view s"
  "subscribe_view (s\<lparr>ct_publish_wanted := v_publish_wanted\<rparr>) = subscribe_view s"
  "subscribe_view (s\<lparr>ct_publish := v_publish\<rparr>) = subscribe_view s"
  "subscribe_view (s\<lparr>ct_republish_pending := v_republish_pending\<rparr>) = subscribe_view s"
  "subscribe_view (s\<lparr>ct_pub_seq := v_pub_seq\<rparr>) = subscribe_view s"
  "subscribe_view (s\<lparr>ct_unsent_offer := v_unsent_offer\<rparr>) = subscribe_view s"
  "subscribe_view (s\<lparr>ct_pub_candidates := v_pub_candidates\<rparr>) = subscribe_view s"
  "subscribe_view (s\<lparr>ct_applied_mids := v_applied_mids\<rparr>) = subscribe_view s"
  "subscribe_view (s\<lparr>ct_remote_buf := v_remote_buf\<rparr>) = subscribe_view s"
  "subscribe_view (s\<lparr>md_engine := v_engine\<rparr>) = subscribe_view s"
  "subscribe_view (s\<lparr>md_in_flight := v_in_flight\<rparr>) = subscribe_view s"
  "subscribe_view (s\<lparr>md_queued := v_queued\<rparr>) = subscribe_view s"
  "subscribe_view (s\<lparr>md_dirty := v_dirty\<rparr>) = subscribe_view s"
  "subscribe_view (s\<lparr>md_reannounce := v_reannounce\<rparr>) = subscribe_view s"
  "subscribe_view (s\<lparr>ct_media_reply := v_media_reply\<rparr>) = subscribe_view s"
  "subscribe_view (s\<lparr>ct_ended := v_ended\<rparr>) = subscribe_view s"
  "subscribe_view (s\<lparr>ct_log := v_log\<rparr>) = subscribe_view s"
  by (simp_all add: subscribe_view_def)

lemma media_view_update [simp]:
  "media_view (s\<lparr>ct_state := v_state\<rparr>) = media_view s"
  "media_view (s\<lparr>ct_call_id := v_call_id\<rparr>) = media_view s"
  "media_view (s\<lparr>ct_participant_id := v_participant_id\<rparr>) = media_view s"
  "media_view (s\<lparr>ct_resume_token := v_resume_token\<rparr>) = media_view s"
  "media_view (s\<lparr>ct_generation := v_generation\<rparr>) = media_view s"
  "media_view (s\<lparr>ct_connected := v_connected\<rparr>) = media_view s"
  "media_view (s\<lparr>ct_resuming := v_resuming\<rparr>) = media_view s"
  "media_view (s\<lparr>ct_epoch := v_epoch\<rparr>) = media_view s"
  "media_view (s\<lparr>ct_publish_wanted := v_publish_wanted\<rparr>) = media_view s"
  "media_view (s\<lparr>ct_publish := v_publish\<rparr>) = media_view s"
  "media_view (s\<lparr>ct_republish_pending := v_republish_pending\<rparr>) = media_view s"
  "media_view (s\<lparr>ct_pub_seq := v_pub_seq\<rparr>) = media_view s"
  "media_view (s\<lparr>ct_unsent_offer := v_unsent_offer\<rparr>) = media_view s"
  "media_view (s\<lparr>ct_pub_candidates := v_pub_candidates\<rparr>) = media_view s"
  "media_view (s\<lparr>sb_seq := v_seq\<rparr>) = media_view s"
  "media_view (s\<lparr>sb_latest := v_latest\<rparr>) = media_view s"
  "media_view (s\<lparr>sb_applying := v_applying\<rparr>) = media_view s"
  "media_view (s\<lparr>sb_retained := v_retained\<rparr>) = media_view s"
  "media_view (s\<lparr>sb_acked := v_acked\<rparr>) = media_view s"
  "media_view (s\<lparr>ct_applied_mids := v_applied_mids\<rparr>) = media_view s"
  "media_view (s\<lparr>ct_remote_buf := v_remote_buf\<rparr>) = media_view s"
  "media_view (s\<lparr>md_engine := v_engine\<rparr>) = media_view s"
  "media_view (s\<lparr>md_dirty := v_dirty\<rparr>) = media_view s"
  "media_view (s\<lparr>md_reannounce := v_reannounce\<rparr>) = media_view s"
  "media_view (s\<lparr>ct_ended := v_ended\<rparr>) = media_view s"
  "media_view (s\<lparr>ct_log := v_log\<rparr>) = media_view s"
  by (simp_all add: media_view_def)

lemma link_view_update [simp]:
  "link_view (s\<lparr>ct_state := v_state\<rparr>) = link_view s"
  "link_view (s\<lparr>ct_call_id := v_call_id\<rparr>) = link_view s"
  "link_view (s\<lparr>ct_participant_id := v_participant_id\<rparr>) = link_view s"
  "link_view (s\<lparr>ct_resume_token := v_resume_token\<rparr>) = link_view s"
  "link_view (s\<lparr>ct_publish_wanted := v_publish_wanted\<rparr>) = link_view s"
  "link_view (s\<lparr>ct_publish := v_publish\<rparr>) = link_view s"
  "link_view (s\<lparr>ct_republish_pending := v_republish_pending\<rparr>) = link_view s"
  "link_view (s\<lparr>ct_pub_seq := v_pub_seq\<rparr>) = link_view s"
  "link_view (s\<lparr>ct_unsent_offer := v_unsent_offer\<rparr>) = link_view s"
  "link_view (s\<lparr>ct_pub_candidates := v_pub_candidates\<rparr>) = link_view s"
  "link_view (s\<lparr>sb_seq := v_seq\<rparr>) = link_view s"
  "link_view (s\<lparr>sb_latest := v_latest\<rparr>) = link_view s"
  "link_view (s\<lparr>sb_applying := v_applying\<rparr>) = link_view s"
  "link_view (s\<lparr>sb_retained := v_retained\<rparr>) = link_view s"
  "link_view (s\<lparr>sb_acked := v_acked\<rparr>) = link_view s"
  "link_view (s\<lparr>ct_applied_mids := v_applied_mids\<rparr>) = link_view s"
  "link_view (s\<lparr>ct_remote_buf := v_remote_buf\<rparr>) = link_view s"
  "link_view (s\<lparr>md_engine := v_engine\<rparr>) = link_view s"
  "link_view (s\<lparr>md_in_flight := v_in_flight\<rparr>) = link_view s"
  "link_view (s\<lparr>md_queued := v_queued\<rparr>) = link_view s"
  "link_view (s\<lparr>md_dirty := v_dirty\<rparr>) = link_view s"
  "link_view (s\<lparr>md_reannounce := v_reannounce\<rparr>) = link_view s"
  "link_view (s\<lparr>ct_media_reply := v_media_reply\<rparr>) = link_view s"
  "link_view (s\<lparr>ct_ended := v_ended\<rparr>) = link_view s"
  "link_view (s\<lparr>ct_log := v_log\<rparr>) = link_view s"
  by (simp_all add: link_view_def)

lemma remote_view_update [simp]:
  "remote_view (s\<lparr>ct_state := v_state\<rparr>) = remote_view s"
  "remote_view (s\<lparr>ct_call_id := v_call_id\<rparr>) = remote_view s"
  "remote_view (s\<lparr>ct_participant_id := v_participant_id\<rparr>) = remote_view s"
  "remote_view (s\<lparr>ct_resume_token := v_resume_token\<rparr>) = remote_view s"
  "remote_view (s\<lparr>ct_generation := v_generation\<rparr>) = remote_view s"
  "remote_view (s\<lparr>ct_connected := v_connected\<rparr>) = remote_view s"
  "remote_view (s\<lparr>ct_resuming := v_resuming\<rparr>) = remote_view s"
  "remote_view (s\<lparr>ct_epoch := v_epoch\<rparr>) = remote_view s"
  "remote_view (s\<lparr>ct_publish_wanted := v_publish_wanted\<rparr>) = remote_view s"
  "remote_view (s\<lparr>ct_publish := v_publish\<rparr>) = remote_view s"
  "remote_view (s\<lparr>ct_republish_pending := v_republish_pending\<rparr>) = remote_view s"
  "remote_view (s\<lparr>ct_pub_seq := v_pub_seq\<rparr>) = remote_view s"
  "remote_view (s\<lparr>ct_unsent_offer := v_unsent_offer\<rparr>) = remote_view s"
  "remote_view (s\<lparr>ct_pub_candidates := v_pub_candidates\<rparr>) = remote_view s"
  "remote_view (s\<lparr>sb_seq := v_seq\<rparr>) = remote_view s"
  "remote_view (s\<lparr>sb_latest := v_latest\<rparr>) = remote_view s"
  "remote_view (s\<lparr>sb_applying := v_applying\<rparr>) = remote_view s"
  "remote_view (s\<lparr>sb_retained := v_retained\<rparr>) = remote_view s"
  "remote_view (s\<lparr>sb_acked := v_acked\<rparr>) = remote_view s"
  "remote_view (s\<lparr>md_engine := v_engine\<rparr>) = remote_view s"
  "remote_view (s\<lparr>md_in_flight := v_in_flight\<rparr>) = remote_view s"
  "remote_view (s\<lparr>md_queued := v_queued\<rparr>) = remote_view s"
  "remote_view (s\<lparr>md_dirty := v_dirty\<rparr>) = remote_view s"
  "remote_view (s\<lparr>md_reannounce := v_reannounce\<rparr>) = remote_view s"
  "remote_view (s\<lparr>ct_media_reply := v_media_reply\<rparr>) = remote_view s"
  "remote_view (s\<lparr>ct_ended := v_ended\<rparr>) = remote_view s"
  "remote_view (s\<lparr>ct_work := v_work\<rparr>) = remote_view s"
  "remote_view (s\<lparr>ct_log := v_log\<rparr>) = remote_view s"
  by (simp_all add: remote_view_def)

section \<open>Primitives\<close>

lemma emit_simps [simp]:
  "remote_view (emit e s) = remote_view s"
  "publish_view (emit e s) = publish_view s" "subscribe_view (emit e s) = subscribe_view s"
  "media_view (emit e s) = media_view s" "link_view (emit e s) = link_view s"
  "ct_ended (emit e s) = ct_ended s" "ct_log (emit e s) = ct_log s @ [e]"
  "ct_remote_buf (emit e s) = ct_remote_buf s" "ct_work (emit e s) = ct_work s"
  "md_engine (emit e s) = md_engine s" "ct_state (emit e s) = ct_state s"
  "ct_applied_mids (emit e s) = ct_applied_mids s" "ct_call_id (emit e s) = ct_call_id s"
  "ct_pub_candidates (emit e s) = ct_pub_candidates s"
  by (simp_all add: emit_def views)

lemma spawn_simps [simp]:
  "remote_view (spawn w s) = remote_view s"
  "\<not> publish_work w \<Longrightarrow> publish_view (spawn w s) = publish_view s"
  "\<not> subscribe_work w \<Longrightarrow> subscribe_view (spawn w s) = subscribe_view s"
  "\<not> media_work w \<Longrightarrow> media_view (spawn w s) = media_view s"
  "\<not> resume_work w \<Longrightarrow> link_view (spawn w s) = link_view s"
  "ct_ended (spawn w s) = ct_ended s" "ct_log (spawn w s) = ct_log s"
  "ct_remote_buf (spawn w s) = ct_remote_buf s" "ct_work (spawn w s) = ct_work s @ [w]"
  "md_engine (spawn w s) = md_engine s" "ct_state (spawn w s) = ct_state s"
  "ct_applied_mids (spawn w s) = ct_applied_mids s" "ct_call_id (spawn w s) = ct_call_id s"
  "ct_pub_candidates (spawn w s) = ct_pub_candidates s"
  by (simp_all add: spawn_def views)

lemma set_status_simps [simp]:
  "remote_view (set_status st s) = remote_view s"
  "publish_view (set_status st s) = publish_view s"
  "subscribe_view (set_status st s) = subscribe_view s"
  "media_view (set_status st s) = media_view s" "link_view (set_status st s) = link_view s"
  "ct_ended (set_status st s) = ct_ended s" "ct_log (set_status st s) = ct_log s"
  "ct_remote_buf (set_status st s) = ct_remote_buf s" "ct_work (set_status st s) = ct_work s"
  "md_engine (set_status st s) = md_engine s" "cs_status (ct_state (set_status st s)) = st"
  "ct_applied_mids (set_status st s) = ct_applied_mids s"
  "ct_call_id (set_status st s) = ct_call_id s"
  "ct_pub_candidates (set_status st s) = ct_pub_candidates s"
  by (simp_all add: set_status_def views)

lemma answer_simps [simp]:
  "remote_view (answer t e s) = remote_view s"
  "publish_view (answer t e s) = publish_view s" "subscribe_view (answer t e s) = subscribe_view s"
  "media_view (answer t e s) = media_view s" "link_view (answer t e s) = link_view s"
  "ct_ended (answer t e s) = ct_ended s" "ct_remote_buf (answer t e s) = ct_remote_buf s"
  "ct_work (answer t e s) = ct_work s" "md_engine (answer t e s) = md_engine s"
  "ct_log (answer t e s) = ct_log s @ (case t of None \<Rightarrow> [] | Some t \<Rightarrow> [Answered t e])"
  "ct_state (answer t e s) = ct_state s" "ct_call_id (answer t e s) = ct_call_id s"
  "ct_applied_mids (answer t e s) = ct_applied_mids s"
  by (cases t; simp add: answer_def)+

lemma notify_simps [simp]:
  "remote_view (notify_command env g f s) = remote_view s"
  "publish_view (notify_command env g f s) = publish_view s"
  "subscribe_view (notify_command env g f s) = subscribe_view s"
  "media_view (notify_command env g f s) = media_view s"
  "link_view (notify_command env g f s) = link_view s"
  "ct_ended (notify_command env g f s) = ct_ended s"
  "ct_remote_buf (notify_command env g f s) = ct_remote_buf s"
  "ct_work (notify_command env g f s) = ct_work s"
  "md_engine (notify_command env g f s) = md_engine s"
  "ct_state (notify_command env g f s) = ct_state s"
  "ct_applied_mids (notify_command env g f s) = ct_applied_mids s"
  "ct_call_id (notify_command env g f s) = ct_call_id s"
  "ct_log (notify_command env g f s) =
     ct_log s @ (if ce_notify env (ct_log s) g f then [Notified g f] else [])"
  by (simp_all add: notify_command_def)

lemma start_commandE:
  assumes "start_command env g f w s = (ok, s')"
  obtains "ok" "ce_start env (ct_log s) g f" "s' = spawn w (emit (Started g f) s)"
    | "\<not> ok" "\<not> ce_start env (ct_log s) g f" "s' = s"
  using assms by (auto simp: start_command_def split: if_splits)

text \<open>The views read single fields back.\<close>

lemma publish_view_eq:
  "publish_view s = publish_view s' \<longleftrightarrow> ct_call_id s = ct_call_id s' \<and>
     ct_publish_wanted s = ct_publish_wanted s' \<and> ct_publish s = ct_publish s' \<and>
     ct_republish_pending s = ct_republish_pending s' \<and> ct_pub_seq s = ct_pub_seq s' \<and>
     ct_unsent_offer s = ct_unsent_offer s' \<and>
     filter publish_work (ct_work s) = filter publish_work (ct_work s')"
  by (simp add: publish_view_def)

lemma link_view_eq:
  "link_view s = link_view s' \<longleftrightarrow> ct_generation s = ct_generation s' \<and>
     ct_connected s = ct_connected s' \<and> ct_resuming s = ct_resuming s' \<and>
     ct_epoch s = ct_epoch s' \<and>
     filter resume_work (ct_work s) = filter resume_work (ct_work s')"
  by (simp add: link_view_def)

lemma media_view_eq:
  "media_view s = media_view s' \<longleftrightarrow> md_in_flight s = md_in_flight s' \<and>
     ct_media_reply s = ct_media_reply s' \<and> md_queued s = md_queued s' \<and>
     filter media_work (ct_work s) = filter media_work (ct_work s')"
  by (simp add: media_view_def)

lemma subscribe_view_eq:
  "subscribe_view s = subscribe_view s' \<longleftrightarrow> sb_seq s = sb_seq s' \<and> sb_latest s = sb_latest s' \<and>
     sb_applying s = sb_applying s' \<and> sb_retained s = sb_retained s' \<and> sb_acked s = sb_acked s' \<and>
     filter subscribe_work (ct_work s) = filter subscribe_work (ct_work s')"
  by (simp add: subscribe_view_def)

section \<open>Methods\<close>

text \<open>\<open>finish\<close> ends the call, releases the callers it holds, and leaves everything else.\<close>

lemma finish_ended [simp]: "ct_ended (finish_call env r t s)"
  by (simp add: finish_call_def Let_def)

lemma finish_views [simp]:
  "remote_view (finish_call env r t s) = remote_view s"
  "publish_view (finish_call env r t s) = publish_view s"
  "subscribe_view (finish_call env r t s) = subscribe_view s"
  "link_view (finish_call env r t s) = link_view s"
  "ct_work (finish_call env r t s) = ct_work s" "md_engine (finish_call env r t s) = md_engine s"
  "ct_remote_buf (finish_call env r t s) = ct_remote_buf s"
  "ct_applied_mids (finish_call env r t s) = ct_applied_mids s"
  by (simp_all add: finish_call_def Let_def)

lemma finish_again: "ct_ended s \<Longrightarrow> finish_call env r t s = s"
  by (simp add: finish_call_def)

lemma send_candidate_views [simp]:
  "remote_view (send_candidate env pc c s) = remote_view s"
  "publish_view (send_candidate env pc c s) = publish_view s"
  "subscribe_view (send_candidate env pc c s) = subscribe_view s"
  "media_view (send_candidate env pc c s) = media_view s"
  "link_view (send_candidate env pc c s) = link_view s"
  "ct_ended (send_candidate env pc c s) = ct_ended s"
  "ct_remote_buf (send_candidate env pc c s) = ct_remote_buf s"
  "ct_work (send_candidate env pc c s) = ct_work s"
  by (simp_all add: send_candidate_def)

lemma send_candidates_views [simp]:
  "remote_view (fold (send_candidate env pc) cs s) = remote_view s"
  "publish_view (fold (send_candidate env pc) cs s) = publish_view s"
  "subscribe_view (fold (send_candidate env pc) cs s) = subscribe_view s"
  "media_view (fold (send_candidate env pc) cs s) = media_view s"
  "link_view (fold (send_candidate env pc) cs s) = link_view s"
  "ct_ended (fold (send_candidate env pc) cs s) = ct_ended s"
  "ct_remote_buf (fold (send_candidate env pc) cs s) = ct_remote_buf s"
  by (induction cs arbitrary: s) simp_all

lemma on_local_candidate_views [simp]:
  "remote_view (on_local_candidate env pc c s) = remote_view s"
  "publish_view (on_local_candidate env pc c s) = publish_view s"
  "subscribe_view (on_local_candidate env pc c s) = subscribe_view s"
  "media_view (on_local_candidate env pc c s) = media_view s"
  "link_view (on_local_candidate env pc c s) = link_view s"
  "ct_ended (on_local_candidate env pc c s) = ct_ended s"
  "ct_remote_buf (on_local_candidate env pc c s) = ct_remote_buf s"
  by (simp_all add: on_local_candidate_def)

lemma add_remote_views [simp]:
  "remote_view (add_remote env pc c s) = remote_view s"
  "publish_view (add_remote env pc c s) = publish_view s"
  "subscribe_view (add_remote env pc c s) = subscribe_view s"
  "link_view (add_remote env pc c s) = link_view s"
  "ct_work (add_remote env pc c s) = ct_work s"
  "ct_remote_buf (add_remote env pc c s) = ct_remote_buf s"
  "ct_applied_mids (add_remote env pc c s) = ct_applied_mids s"
  "\<not> ct_ended (add_remote env pc c s) \<Longrightarrow> media_view (add_remote env pc c s) = media_view s"
  by (simp_all add: add_remote_def Let_def split: option.splits)

lemma on_remote_candidate_views [simp]:
  "publish_view (on_remote_candidate env pc c s) = publish_view s"
  "subscribe_view (on_remote_candidate env pc c s) = subscribe_view s"
  "link_view (on_remote_candidate env pc c s) = link_view s"
  "\<not> ct_ended (on_remote_candidate env pc c s) \<Longrightarrow>
     media_view (on_remote_candidate env pc c s) = media_view s"
  by (auto simp: on_remote_candidate_def)

lemma flush_buffered_views:
  assumes "flush_buffered env pc cs rest s = (r, s')"
  shows "publish_view s' = publish_view s" "subscribe_view s' = subscribe_view s"
    "link_view s' = link_view s" "\<not> ct_ended s' \<Longrightarrow> media_view s' = media_view s"
    "remote_view s' = remote_view s" "ct_work s' = ct_work s"
proof -
  have "publish_view s' = publish_view s \<and> subscribe_view s' = subscribe_view s \<and>
    link_view s' = link_view s \<and> (\<not> ct_ended s' \<longrightarrow> media_view s' = media_view s) \<and>
    remote_view s' = remote_view s \<and> ct_work s' = ct_work s"
    using assms
  proof (induction env pc cs rest s arbitrary: r rule: flush_buffered.induct)
    case (2 env pc c cs rest s)
    show ?case
    proof (cases "rest = [] \<and> applicable s pc c \<and> \<not> ct_ended (add_remote env pc c s)")
      case True
      with 2 show ?thesis by (simp add: Let_def)
    next
      case False
      with 2 show ?thesis by (auto simp: Let_def split: if_splits)
    qed
  qed simp
  then show "publish_view s' = publish_view s" "subscribe_view s' = subscribe_view s"
    "link_view s' = link_view s" "\<not> ct_ended s' \<Longrightarrow> media_view s' = media_view s"
    "remote_view s' = remote_view s" "ct_work s' = ct_work s" by blast+
qed

lemma flush_remote_views [simp]:
  "publish_view (flush_remote env pc s) = publish_view s"
  "subscribe_view (flush_remote env pc s) = subscribe_view s"
  "link_view (flush_remote env pc s) = link_view s"
  "\<not> ct_ended (flush_remote env pc s) \<Longrightarrow> media_view (flush_remote env pc s) = media_view s"
  "ct_work (flush_remote env pc s) = ct_work s"
proof -
  obtain r s' where f: "flush_buffered env pc (ct_remote_buf s pc) []
      (s\<lparr>ct_remote_buf := (ct_remote_buf s)(pc := [])\<rparr>) = (r, s')" by force
  note k = flush_buffered_views [OF f]
  show "publish_view (flush_remote env pc s) = publish_view s"
    "subscribe_view (flush_remote env pc s) = subscribe_view s"
    "link_view (flush_remote env pc s) = link_view s"
    "ct_work (flush_remote env pc s) = ct_work s"
    using k f by (cases r; simp add: flush_remote_def)+
  show "media_view (flush_remote env pc s) = media_view s" if "\<not> ct_ended (flush_remote env pc s)"
    using that k(4) f by (cases r; simp add: flush_remote_def)
qed

lemma start_publish_offer_views [simp]:
  "subscribe_view (start_publish_offer s) = subscribe_view s"
  "media_view (start_publish_offer s) = media_view s"
  "link_view (start_publish_offer s) = link_view s"
  "remote_view (start_publish_offer s) = remote_view s"
  "ct_ended (start_publish_offer s) = ct_ended s" "ct_log (start_publish_offer s) = ct_log s"
  "md_engine (start_publish_offer s) = md_engine s"
  by (simp_all add: start_publish_offer_def)

lemma start_command_views:
  assumes "start_command env g f w s = (ok, s')"
  shows "\<not> publish_work w \<Longrightarrow> publish_view s' = publish_view s"
    "\<not> subscribe_work w \<Longrightarrow> subscribe_view s' = subscribe_view s"
    "\<not> media_work w \<Longrightarrow> media_view s' = media_view s"
    "\<not> resume_work w \<Longrightarrow> link_view s' = link_view s"
    "remote_view s' = remote_view s" "ct_ended s' = ct_ended s" "md_engine s' = md_engine s"
  using assms by (auto elim!: start_commandE)

lemma send_publish_views [simp]:
  "subscribe_view (send_publish env q off s) = subscribe_view s"
  "media_view (send_publish env q off s) = media_view s"
  "link_view (send_publish env q off s) = link_view s"
  "remote_view (send_publish env q off s) = remote_view s"
  "ct_ended (send_publish env q off s) = ct_ended s"
  by (auto simp: send_publish_def elim!: start_commandE dest: start_command_views split: option.splits prod.splits bool.splits)

lemma send_retained_views [simp]:
  "publish_view (send_retained_answer env s) = publish_view s"
  "subscribe_view (send_retained_answer env s) = subscribe_view s"
  "media_view (send_retained_answer env s) = media_view s"
  "link_view (send_retained_answer env s) = link_view s"
  "remote_view (send_retained_answer env s) = remote_view s"
  "ct_ended (send_retained_answer env s) = ct_ended s"
  "md_engine (send_retained_answer env s) = md_engine s"
  by (auto simp: send_retained_answer_def start_command_def split: option.splits)

lemma maybe_apply_views [simp]:
  "publish_view (maybe_apply_offer s) = publish_view s"
  "media_view (maybe_apply_offer s) = media_view s"
  "link_view (maybe_apply_offer s) = link_view s"
  "remote_view (maybe_apply_offer s) = remote_view s"
  "ct_ended (maybe_apply_offer s) = ct_ended s" "ct_log (maybe_apply_offer s) = ct_log s"
  by (auto simp: maybe_apply_offer_def split: option.splits)

lemma on_offer_views [simp]:
  "publish_view (on_offer env v sdp ss s) = publish_view s"
  "media_view (on_offer env v sdp ss s) = media_view s"
  "link_view (on_offer env v sdp ss s) = link_view s"
  "remote_view (on_offer env v sdp ss s) = remote_view s"
  "ct_ended (on_offer env v sdp ss s) = ct_ended s"
  by (auto simp: on_offer_def)

lemma send_media_views [simp]:
  "publish_view (send_media env a v p t s) = publish_view s"
  "subscribe_view (send_media env a v p t s) = subscribe_view s"
  "link_view (send_media env a v p t s) = link_view s"
  "remote_view (send_media env a v p t s) = remote_view s"
  "ct_ended (send_media env a v p t s) = ct_ended s" "md_engine (send_media env a v p t s) = md_engine s"
  by (auto simp: send_media_def elim!: start_commandE dest: start_command_views split: option.splits prod.splits bool.splits)

lemma set_media_views [simp]:
  "publish_view (set_media env a v t s) = publish_view s"
  "subscribe_view (set_media env a v t s) = subscribe_view s"
  "link_view (set_media env a v t s) = link_view s"
  "remote_view (set_media env a v t s) = remote_view s"
  "ct_ended (set_media env a v t s) = ct_ended s"
  by (auto simp: set_media_def Let_def split: option.splits)

lemma flush_reannounce_views [simp]:
  "publish_view (flush_reannounce env s) = publish_view s"
  "subscribe_view (flush_reannounce env s) = subscribe_view s"
  "link_view (flush_reannounce env s) = link_view s"
  "remote_view (flush_reannounce env s) = remote_view s"
  "ct_ended (flush_reannounce env s) = ct_ended s"
  by (auto simp: flush_reannounce_def split: option.splits)

lemma reannounce_views [simp]:
  "publish_view (reannounce_media env s) = publish_view s"
  "subscribe_view (reannounce_media env s) = subscribe_view s"
  "link_view (reannounce_media env s) = link_view s"
  "remote_view (reannounce_media env s) = remote_view s"
  "ct_ended (reannounce_media env s) = ct_ended s"
  by (auto simp: reannounce_media_def)

lemma on_conn_views [simp]:
  "publish_view (on_conn env c s) = publish_view s"
  "subscribe_view (on_conn env c s) = subscribe_view s"
  "media_view (on_conn env c s) = media_view s"
  "remote_view (on_conn env c s) = remote_view s"
  "ct_ended (on_conn env c s) = ct_ended s"
  by (auto simp: on_conn_def Let_def elim!: start_commandE dest: start_command_views split: option.splits prod.splits bool.splits)

end
