(* ===== verification/Call_Facts.thy ===== *)
theory Call_Facts
  imports Call_Views
begin

text \<open>
  The call task's invariant: at most one piece of work of each kind is in flight, and the task's
  state says which. Each part of it is a predicate on one view of the state.
\<close>

fun publish_ok where
  "publish_ok (cid, wanted, p, pending, n, unsent, ws) \<longleftrightarrow>
     (cid = [] \<or> \<not> wanted \<longrightarrow> p = Idle) \<and>
     (case p of
        Offering q \<Rightarrow> q = n \<and>
          (case unsent of None \<Rightarrow> ws = [OfferWork q] | Some (q', _) \<Rightarrow> q' = q \<and> ws = [])
      | ApplyingAnswer q \<Rightarrow> unsent = None \<and> (\<exists>sdp. ws = [ApplyWork q sdp])
      | _ \<Rightarrow> unsent = None \<and> ws = [])"

fun subscribe_ok where
  "subscribe_ok (n, latest, applying, retained, acked, ws) \<longleftrightarrow>
     (case applying of
        None \<Rightarrow> ws = [] \<and> latest = None
      | Some (q, v) \<Rightarrow> q = n \<and> (\<exists>ss. ws = [SubscribeWork q v ss]) \<and>
          (case latest of None \<Rightarrow> True | Some (l, _) \<Rightarrow> v < l))"

fun media_ok where
  "media_ok (in_flight, reply, queued, ws) \<longleftrightarrow>
     (if in_flight then \<exists>i p. ws = [MediaWork i p] else ws = [] \<and> reply = None \<and> queued = None)"

fun link_ok where
  "link_ok (g, connected, resuming, e, ws) \<longleftrightarrow>
     (if resuming then \<exists>g'. ws = [ResumeWork g'] \<and> g < g' else ws = [])"

definition call_ok :: "call \<Rightarrow> bool" where
  "call_ok s \<longleftrightarrow> ct_ended s \<or>
     (publish_ok (publish_view s) \<and> subscribe_ok (subscribe_view s) \<and> media_ok (media_view s) \<and>
      link_ok (link_view s))"

text \<open>The server names the calls it lets one join.\<close>

definition call_named :: "call_event \<Rightarrow> bool" where
  "call_named ev \<longleftrightarrow>
     (\<forall>f j. ev = FrameEvent f \<longrightarrow> cf_ty f = ''call.joined'' \<longrightarrow> parse_joined (cf_data f) = Some j \<longrightarrow>
        jn_call_id j \<noteq> [])"

text \<open>A result takes its work out of the view it belongs to, and of no other.\<close>

lemma work_taken:
  "publish_view (s\<lparr>ct_work := remove1 w (ct_work s)\<rparr>) = publish_view s" if "\<not> publish_work w"
  using that by (simp add: publish_view_def filter_remove1 remove1_idem)

lemma work_taken_subscribe:
  "subscribe_view (s\<lparr>ct_work := remove1 w (ct_work s)\<rparr>) = subscribe_view s" if "\<not> subscribe_work w"
  using that by (simp add: subscribe_view_def filter_remove1 remove1_idem)

lemma work_taken_media:
  "media_view (s\<lparr>ct_work := remove1 w (ct_work s)\<rparr>) = media_view s" if "\<not> media_work w"
  using that by (simp add: media_view_def filter_remove1 remove1_idem)

lemma work_taken_link:
  "link_view (s\<lparr>ct_work := remove1 w (ct_work s)\<rparr>) = link_view s" if "\<not> resume_work w"
  using that by (simp add: link_view_def filter_remove1 remove1_idem)

lemmas works_taken [simp] = work_taken work_taken_subscribe work_taken_media work_taken_link

section \<open>Publishing\<close>

lemma start_publish_offer_ok:
  assumes "publish_ok (publish_view s)" and "ct_call_id s \<noteq> []" and "ct_publish_wanted s"
    and "\<And>q. ct_publish s \<noteq> Offering q" and "\<And>q. ct_publish s \<noteq> ApplyingAnswer q"
  shows "publish_ok (publish_view (start_publish_offer s))"
proof -
  have "filter publish_work (ct_work s) = []" "ct_unsent_offer s = None"
    using assms by (auto simp: publish_view_def split: publish_state.splits)
  then show ?thesis using assms(2,3) by (simp add: publish_view_def start_publish_offer_def spawn_def)
qed

text \<open>An offer in hand, and nothing else under way: what \<open>send_publish\<close> is called with.\<close>

definition offer_ready :: "nat \<Rightarrow> call \<Rightarrow> bool" where
  "offer_ready q s \<longleftrightarrow> filter publish_work (ct_work s) = [] \<and> ct_call_id s \<noteq> [] \<and>
     ct_publish_wanted s \<and> q = ct_pub_seq s \<and> ct_publish s = Offering q \<and> ct_unsent_offer s = None"

lemma send_publish_ok:
  "offer_ready q s \<Longrightarrow> publish_ok (publish_view (send_publish env q off s))"
  by (auto simp: offer_ready_def send_publish_def start_command_def)
    (simp_all add: publish_view_def emit_def spawn_def)

lemma publish_started:
  assumes "publish_ok (publish_view s)" and "ct_publish s \<in> {NeedsRestart, Stable} \<or> (\<exists>q. ct_publish s = AwaitingAnswer q)"
  shows "publish_ok (publish_view (start_publish_offer s))"
  using assms by (intro start_publish_offer_ok) (auto simp: publish_view_def)

definition resume_publish :: "call \<Rightarrow> call" where
  "resume_publish s =
     (case ct_publish s of
        NeedsRestart \<Rightarrow> start_publish_offer s
      | AwaitingAnswer _ \<Rightarrow> start_publish_offer s
      | Stable \<Rightarrow> if ct_republish_pending s then start_publish_offer s else s
      | _ \<Rightarrow> s)"

definition resume_offer :: "call_env \<Rightarrow> call \<Rightarrow> call" where
  "resume_offer env s =
     (case ct_unsent_offer s of
        None \<Rightarrow> s
      | Some (q, off) \<Rightarrow>
          if ct_publish s = Offering q then send_publish env q off (s\<lparr>ct_unsent_offer := None\<rparr>)
          else s\<lparr>ct_unsent_offer := None\<rparr>)"

definition resume_media :: "call_env \<Rightarrow> call \<Rightarrow> call" where
  "resume_media env s =
     (if md_dirty s \<and> \<not> md_in_flight s
      then (case md_engine s of None \<Rightarrow> s\<lparr>md_dirty := False\<rparr>
            | Some (a, v) \<Rightarrow> send_media env a v (a, v) None (s\<lparr>md_dirty := False\<rparr>))
      else s)"

lemma after_resume_steps:
  "after_resume env s =
     flush_reannounce env (resume_media env (send_retained_answer env (resume_offer env (resume_publish s))))"
proof -
  have o: "(case ct_unsent_offer u of None \<Rightarrow> u
      | Some (q, off) \<Rightarrow> (let u = u\<lparr>ct_unsent_offer := None\<rparr>
          in if ct_publish u = Offering q then send_publish env q off u else u)) = resume_offer env u" for u
    by (simp add: resume_offer_def Let_def split: option.split)
  have m: "(if md_dirty u \<and> \<not> md_in_flight u
      then (let u = u\<lparr>md_dirty := False\<rparr>
            in case md_engine u of None \<Rightarrow> u | Some (a, v) \<Rightarrow> send_media env a v (a, v) None u)
      else u) = resume_media env u" for u
    by (simp add: resume_media_def Let_def split: option.split)
  show ?thesis unfolding after_resume_def resume_publish_def [symmetric] o m by (simp add: Let_def o m)
qed

lemma resume_media_views [simp]:
  "publish_view (resume_media env s) = publish_view s"
  "subscribe_view (resume_media env s) = subscribe_view s"
  "link_view (resume_media env s) = link_view s" "remote_view (resume_media env s) = remote_view s"
  "ct_ended (resume_media env s) = ct_ended s"
  by (auto simp: resume_media_def split: option.splits)

lemma resume_publish_views [simp]:
  "subscribe_view (resume_publish s) = subscribe_view s" "media_view (resume_publish s) = media_view s"
  "link_view (resume_publish s) = link_view s" "remote_view (resume_publish s) = remote_view s"
  "ct_ended (resume_publish s) = ct_ended s" "ct_log (resume_publish s) = ct_log s"
  by (auto simp: resume_publish_def split: publish_state.splits)

lemma resume_offer_views [simp]:
  "subscribe_view (resume_offer env s) = subscribe_view s" "media_view (resume_offer env s) = media_view s"
  "link_view (resume_offer env s) = link_view s" "remote_view (resume_offer env s) = remote_view s"
  "ct_ended (resume_offer env s) = ct_ended s"
  by (auto simp: resume_offer_def split: option.splits)

lemma resume_publish_ok:
  "publish_ok (publish_view s) \<Longrightarrow> publish_ok (publish_view (resume_publish s))"
  unfolding resume_publish_def by (auto intro!: publish_started split: publish_state.splits)

lemma resume_offer_ok:
  assumes "publish_ok (publish_view s)"
  shows "publish_ok (publish_view (resume_offer env s))"
proof (cases "ct_unsent_offer s")
  case (Some u)
  then obtain q off where u: "ct_unsent_offer s = Some (q, off)" by (cases u) blast
  with assms have "offer_ready q (s\<lparr>ct_unsent_offer := None\<rparr>)"
    by (auto simp: publish_view_def offer_ready_def split: publish_state.splits)
  moreover from this have "ct_publish s = Offering q" by (simp add: offer_ready_def)
  ultimately show ?thesis using u by (simp add: resume_offer_def send_publish_ok)
qed (use assms in \<open>simp add: resume_offer_def\<close>)

lemma after_resume_publish_ok:
  "publish_ok (publish_view s) \<Longrightarrow> publish_ok (publish_view (after_resume env s))"
  by (simp add: after_resume_steps resume_publish_ok resume_offer_ok)

text \<open>The results that move the publish connection on.\<close>

lemma publish_work_found:
  assumes "publish_ok (publish_view s)" and "w \<in> set (ct_work s)" and "publish_work w"
  shows "filter publish_work (ct_work s) = [w]" "ct_unsent_offer s = None" "ct_call_id s \<noteq> []"
    "ct_publish_wanted s"
    "ct_publish s = (case w of OfferWork q \<Rightarrow> Offering q | ApplyWork q _ \<Rightarrow> ApplyingAnswer q)"
    "w = OfferWork q \<Longrightarrow> q = ct_pub_seq s"
proof -
  define ws where "ws = filter publish_work (ct_work s)"
  have "w \<in> set ws" using assms(2,3) by (simp add: ws_def)
  moreover have "publish_ok (ct_call_id s, ct_publish_wanted s, ct_publish s, ct_republish_pending s,
      ct_pub_seq s, ct_unsent_offer s, ws)"
    using assms(1) by (simp add: publish_view_def ws_def)
  ultimately have "ws = [w] \<and> ct_unsent_offer s = None \<and> ct_call_id s \<noteq> [] \<and> ct_publish_wanted s \<and>
    ct_publish s = (case w of OfferWork q \<Rightarrow> Offering q | ApplyWork q _ \<Rightarrow> ApplyingAnswer q) \<and>
    (\<forall>q. w = OfferWork q \<longrightarrow> q = ct_pub_seq s)"
    by (auto split: publish_state.splits option.splits)
  then show "filter publish_work (ct_work s) = [w]" "ct_unsent_offer s = None" "ct_call_id s \<noteq> []"
    "ct_publish_wanted s"
    "ct_publish s = (case w of OfferWork q \<Rightarrow> Offering q | ApplyWork q _ \<Rightarrow> ApplyingAnswer q)"
    "w = OfferWork q \<Longrightarrow> q = ct_pub_seq s"
    by (simp_all add: ws_def)
qed

lemma on_publish_applied_ok:
  assumes "publish_ok (publish_view s)" and "ApplyWork q sdp \<in> set (ct_work s)"
    and "\<not> ct_ended (on_publish_applied env q sdp res (s\<lparr>ct_work := remove1 (ApplyWork q sdp) (ct_work s)\<rparr>))"
  shows "publish_ok (publish_view
    (on_publish_applied env q sdp res (s\<lparr>ct_work := remove1 (ApplyWork q sdp) (ct_work s)\<rparr>)))"
proof -
  define s0 where "s0 = s\<lparr>ct_work := remove1 (ApplyWork q sdp) (ct_work s)\<rparr>"
  note found = publish_work_found [OF assms(1,2), simplified]
  define t where "t = s0\<lparr>ct_applied_mids := (ct_applied_mids s0)(Publish := Some (mids_of sdp)), ct_publish := Stable\<rparr>"
  have ok: "publish_ok (publish_view t)" "ct_publish t = Stable"
    using found by (simp_all add: t_def s0_def publish_view_def filter_remove1)
  define u where "u = reannounce_media env (flush_remote env Publish t)"
  have v: "publish_view u = publish_view t" by (simp add: u_def)
  then have "ct_publish u = Stable" using ok(2) by (simp add: publish_view_eq)
  with v ok have u: "publish_ok (publish_view (start_publish_offer u))" "publish_ok (publish_view u)"
    by (simp_all add: publish_started)
  have "ct_publish s0 = ApplyingAnswer q" using found by (simp add: s0_def)
  moreover from this have "res = None" using assms(3) by (cases res) (simp_all add: on_publish_applied_def s0_def)
  ultimately have "on_publish_applied env q sdp res s0 =
      (if ct_republish_pending u \<and> ct_connected u \<and> \<not> ct_ended u then start_publish_offer u else u)"
    by (simp add: on_publish_applied_def u_def t_def Let_def)
  with u show ?thesis by (simp add: s0_def)
qed

lemma on_done_publish_ok:
  assumes "publish_ok (publish_view s)" and "w \<in> set (ct_work s)" and "work_done w d"
    and "\<not> ct_ended (on_done env d (s\<lparr>ct_work := remove1 w (ct_work s)\<rparr>))"
  shows "publish_ok (publish_view (on_done env d (s\<lparr>ct_work := remove1 w (ct_work s)\<rparr>)))"
proof (cases d)
  case (PublishOffered q res)
  with assms(3) have w: "w = OfferWork q" by (cases w) auto
  note found = publish_work_found [OF assms(1,2), unfolded w, simplified]
  have "offer_ready q (s\<lparr>ct_work := remove1 w (ct_work s)\<rparr>)"
    using found w by (simp add: offer_ready_def filter_remove1)
  moreover obtain off where "res = Inr off"
    using assms(4) found PublishOffered w by (cases res) (auto simp: on_done_def)
  ultimately show ?thesis using PublishOffered found by (simp add: on_done_def send_publish_ok)
next
  case (PublishAnswered q res)
  with assms(3) have w: "w = AnswerWork q" by (cases w) auto
  define s0 where "s0 = s\<lparr>ct_work := remove1 w (ct_work s)\<rparr>"
  have ok: "publish_ok (publish_view s0)" using assms(1) w by (simp add: s0_def)
  have live: "\<not> ct_ended (on_done env d s0)" using assms(4) by (simp add: s0_def)
  have "publish_ok (publish_view (on_done env d s0))"
  proof (cases "ct_publish s0 = AwaitingAnswer q")
    case True
    with ok live PublishAnswered show ?thesis
      by (auto simp: on_done_def publish_view_def spawn_def split: sum.splits)
  qed (use ok PublishAnswered in \<open>simp add: on_done_def\<close>)
  then show ?thesis by (simp add: s0_def)
next
  case (PublishApplied q sdp res)
  with assms(3) have w: "w = ApplyWork q sdp" by (cases w) auto
  with assms PublishApplied show ?thesis by (simp add: on_done_def on_publish_applied_ok)
next
  case (SubscribeApplied q v ss res)
  with assms(3) have "\<not> publish_work w" by (cases w) auto
  with assms(1) SubscribeApplied show ?thesis
    by (simp add: on_done_def on_subscribe_applied_def Let_def split: sum.split)
next
  case (SubscribeAck v res)
  with assms(3) have "\<not> publish_work w" by (cases w) auto
  with assms(1) SubscribeAck show ?thesis
    by (simp add: on_done_def on_subscribe_ack_def Let_def split: sum.split option.split)
next
  case (Resumed g res)
  with assms(3) have "\<not> publish_work w" by (cases w) auto
  with assms(1) Resumed show ?thesis
    by (simp add: on_done_def on_resumed_def Let_def after_resume_publish_ok split: sum.split command_error.split)
next
  case (MediaAck i p res)
  with assms(3) have "\<not> publish_work w" by (cases w) auto
  with assms(1) MediaAck show ?thesis
    by (simp add: on_done_def on_media_ack_def Let_def split: sum.split option.split command_error.split)
qed

lemma publish_view_call_id [simp]:
  "publish_view (s\<lparr>ct_call_id := c\<rparr>) = (c, snd (publish_view s))"
  by (simp add: publish_view_def)

text \<open>The first \<open>call.joined\<close> starts the first offer; later ones only renew the token and the roster.\<close>

lemma on_joined_publish_ok:
  assumes "publish_ok (publish_view s)" and "\<not> ct_ended (on_joined env data s)"
    and "\<And>j. parse_joined data = Some j \<Longrightarrow> jn_call_id j \<noteq> []"
  shows "publish_ok (publish_view (on_joined env data s))"
proof (cases "parse_joined data")
  case (Some j)
  with assms(3) have j: "jn_call_id j \<noteq> []" by simp
  show ?thesis
  proof (cases "ct_call_id s = []")
    case True
    define u where "u = set_status Connected ((if jn_ice_servers j \<noteq> [] then emit (EngineIce (jn_ice_servers j))
        (s\<lparr>ct_call_id := jn_call_id j, ct_participant_id := jn_participant_id j,
           ct_resume_token := jn_resume_token j\<rparr>)
        else s\<lparr>ct_call_id := jn_call_id j, ct_participant_id := jn_participant_id j,
           ct_resume_token := jn_resume_token j\<rparr>)\<lparr>ct_state :=
             (ct_state s)\<lparr>cs_call_id := Some (jn_call_id j),
                cs_self := Some (jn_participant_id j), cs_participants := jn_participants j\<rparr>\<rparr>)"
    have v: "publish_view u = (jn_call_id j, snd (publish_view s))" by (simp add: u_def)
    have "ct_publish s = Idle" using assms(1) True by (auto simp: publish_view_def)
    with v j assms(1) have "publish_ok (publish_view u)" "ct_publish u = Idle" "ct_call_id u \<noteq> []"
      by (simp_all add: publish_view_def)
    moreover have "on_joined env data s = (if ct_publish_wanted u then start_publish_offer u else u)"
      using True Some by (simp add: on_joined_def u_def Let_def emit_def set_status_def)
    ultimately show ?thesis by (auto intro: start_publish_offer_ok)
  next
    case False
    with assms(1) j have "publish_ok (jn_call_id j, snd (publish_view s))"
      by (simp add: publish_view_def)
    with Some False show ?thesis by (simp add: on_joined_def Let_def)
  qed
qed (use assms in \<open>simp add: on_joined_def\<close>)

lemma publish_ok_turn:
  assumes "publish_ok (publish_view s)" and "enabled s ev" and "call_named ev"
    and "\<not> ct_ended (call_next env ev s)"
  shows "publish_ok (publish_view (call_next env ev s))"
proof (cases ev)
  case (FrameEvent f)
  show ?thesis
  proof (cases "cf_ty f = ''call.joined''")
    case True
    with FrameEvent assms(1,3,4) show ?thesis
      by (auto simp: call_next_def on_frame_def call_named_def intro: on_joined_publish_ok)
  qed (use FrameEvent assms(1) in
      \<open>simp add: call_next_def on_frame_def Let_def on_participant_def split: option.split\<close>)
next
  case (InputEvent i)
  show ?thesis
  proof (cases i)
    case (Republish t)
    show ?thesis
    proof (cases "ct_publish_wanted s \<and> ct_publish s = Stable \<and> ct_connected s")
      case True
      with assms(1) have "publish_ok (publish_view (start_publish_offer s))" by (simp add: publish_started)
      with True InputEvent Republish show ?thesis by (simp add: call_next_def on_input_def)
    next
      case False
      have "publish_ok (publish_view (s\<lparr>ct_republish_pending := True\<rparr>))"
        using assms(1) by (simp add: publish_view_def)
      with False assms(1) InputEvent Republish show ?thesis
        by (auto simp: call_next_def on_input_def)
    qed
  qed (use InputEvent assms(1,4) in
      \<open>auto simp: call_next_def on_input_def Let_def split: if_splits\<close>)
next
  case (DoneEvent w d)
  with assms show ?thesis by (simp add: call_next_def enabled_def on_done_publish_ok)
next
  case (LeaveEvent t)
  with assms(1) show ?thesis by (simp add: call_next_def)
qed (use assms(1) in \<open>simp_all add: call_next_def\<close>)

section \<open>Subscribing\<close>

lemma maybe_apply_ok:
  assumes "filter subscribe_work (ct_work s) = []" and "sb_applying s = None"
  shows "subscribe_ok (subscribe_view (maybe_apply_offer s))"
  using assms by (cases "sb_latest s") (auto simp: maybe_apply_offer_def subscribe_view_def spawn_def)

lemma on_offer_ok:
  assumes "subscribe_ok (subscribe_view s)"
  shows "subscribe_ok (subscribe_view (on_offer env v sdp ss s))"
proof (cases "sb_applying s")
  case None
  with assms have "filter subscribe_work (ct_work s) = []" "sb_latest s = None"
    by (simp_all add: subscribe_view_def)
  with assms None show ?thesis by (simp add: on_offer_def maybe_apply_ok split: option.split)
next
  case (Some qa)
  then obtain q a where qa: "sb_applying s = Some (q, a)" by (cases qa) auto
  have "subscribe_ok (subscribe_view (s\<lparr>sb_latest := Some (v, sdp, ss)\<rparr>))" if "a < v"
    using assms qa that by (auto simp: subscribe_view_def)
  with assms qa show ?thesis by (auto simp: on_offer_def maybe_apply_offer_def)
qed

lemma subscribe_work_found:
  assumes "subscribe_ok (subscribe_view s)" and "SubscribeWork q v ss \<in> set (ct_work s)"
  shows "sb_applying s = Some (q, v)" "filter subscribe_work (ct_work s) = [SubscribeWork q v ss]"
proof -
  define ws where "ws = filter subscribe_work (ct_work s)"
  have "SubscribeWork q v ss \<in> set ws" using assms(2) by (simp add: ws_def)
  moreover have "subscribe_ok (sb_seq s, sb_latest s, sb_applying s, sb_retained s, sb_acked s, ws)"
    using assms(1) by (simp add: subscribe_view_def ws_def)
  ultimately have "sb_applying s = Some (q, v) \<and> ws = [SubscribeWork q v ss]"
    by (auto split: option.splits)
  then show "sb_applying s = Some (q, v)" "filter subscribe_work (ct_work s) = [SubscribeWork q v ss]"
    by (simp_all add: ws_def)
qed

lemma on_subscribe_applied_ok:
  assumes "subscribe_ok (subscribe_view s)" and w: "w = SubscribeWork q v ss" and "w \<in> set (ct_work s)"
    and "\<not> ct_ended (on_subscribe_applied env q v ss res (s\<lparr>ct_work := remove1 w (ct_work s)\<rparr>))"
  shows "subscribe_ok (subscribe_view (on_subscribe_applied env q v ss res (s\<lparr>ct_work := remove1 w (ct_work s)\<rparr>)))"
proof -
  note found = subscribe_work_found [OF assms(1) assms(3) [unfolded w]]
  define t where "t = s\<lparr>ct_work := remove1 w (ct_work s), sb_applying := None,
      ct_applied_mids := (ct_applied_mids s)(Subscribe := Some (map ss_mid ss))\<rparr>"
  define u where "u = flush_remote env Subscribe t"
  have "subscribe_view u = subscribe_view t" by (simp add: u_def)
  moreover have "filter subscribe_work (ct_work t) = []" "sb_applying t = None"
    using found w by (simp_all add: t_def filter_remove1)
  ultimately have u: "filter subscribe_work (ct_work u) = []" "sb_applying u = None"
    by (simp_all add: subscribe_view_eq)
  have red: "on_subscribe_applied env q v ss (Inr sdp) (s\<lparr>ct_work := remove1 w (ct_work s)\<rparr>) =
      (if ct_ended u then u else if sb_latest u \<noteq> None then maybe_apply_offer u
       else send_retained_answer env (u\<lparr>sb_retained := Some (v, sdp)\<rparr>))" for sdp
    using found by (simp add: on_subscribe_applied_def u_def t_def Let_def)
  obtain sdp where res: "res = Inr sdp"
    using assms(4) found by (cases res) (auto simp: on_subscribe_applied_def Let_def)
  have live: "\<not> ct_ended u" using assms(4) by (auto simp: res red split: if_splits)
  show ?thesis
  proof (cases "sb_latest u")
    case None
    with u have "subscribe_ok (subscribe_view (u\<lparr>sb_retained := Some (v, sdp)\<rparr>))"
      by (simp add: subscribe_view_def)
    with None live show ?thesis by (simp add: res red)
  next
    case (Some l)
    with u live show ?thesis by (simp add: res red maybe_apply_ok)
  qed
qed

lemma subscribe_ok_fields:
  "subscribe_ok (subscribe_view (s\<lparr>sb_retained := r\<rparr>)) = subscribe_ok (subscribe_view s)"
  "subscribe_ok (subscribe_view (s\<lparr>sb_acked := a\<rparr>)) = subscribe_ok (subscribe_view s)"
  by (simp_all add: subscribe_view_def)

lemma on_done_subscribe_ok:
  assumes "subscribe_ok (subscribe_view s)" and "w \<in> set (ct_work s)" and "work_done w d"
    and "\<not> ct_ended (on_done env d (s\<lparr>ct_work := remove1 w (ct_work s)\<rparr>))"
  shows "subscribe_ok (subscribe_view (on_done env d (s\<lparr>ct_work := remove1 w (ct_work s)\<rparr>)))"
proof (cases "\<exists>q v ss res. d = SubscribeApplied q v ss res")
  case True
  then obtain q v ss res where d: "d = SubscribeApplied q v ss res" by blast
  with assms(3) have "w = SubscribeWork q v ss" by (cases w) auto
  with d assms(1,2,4) show ?thesis by (simp add: on_done_def on_subscribe_applied_ok)
next
  case False
  with assms(3) have "\<not> subscribe_work w" by (cases w; cases d) auto
  then have kept: "subscribe_ok (subscribe_view (s\<lparr>ct_work := remove1 w (ct_work s)\<rparr>))"
    using assms(1) by simp
  define s0 where "s0 = s\<lparr>ct_work := remove1 w (ct_work s)\<rparr>"
  have "subscribe_ok (subscribe_view (on_done env d s0))"
  proof (cases d)
    case (SubscribeAck v res)
    then show ?thesis using kept [folded s0_def]
      by (auto simp: on_done_def on_subscribe_ack_def Let_def subscribe_ok_fields split: sum.split option.split)
  next
    case (SubscribeApplied q v ss res)
    with False show ?thesis by blast
  qed (use kept [folded s0_def] in \<open>auto simp: on_done_def on_resumed_def after_resume_steps
      on_publish_applied_def on_media_ack_def Let_def
      split: sum.split option.split command_error.split\<close>)
  then show ?thesis by (simp add: s0_def)
qed

lemma subscribe_ok_turn:
  assumes "subscribe_ok (subscribe_view s)" and "enabled s ev" and "\<not> ct_ended (call_next env ev s)"
  shows "subscribe_ok (subscribe_view (call_next env ev s))"
proof (cases ev)
  case (FrameEvent f)
  with assms(1) show ?thesis
    by (auto simp: call_next_def on_frame_def Let_def on_participant_def on_joined_def on_offer_ok
        split: option.split)
next
  case (InputEvent i)
  with assms(1) show ?thesis
    by (cases i) (auto simp: call_next_def on_input_def Let_def split: if_splits)
next
  case (DoneEvent w d)
  with assms show ?thesis by (simp add: call_next_def enabled_def on_done_subscribe_ok)
qed (use assms in \<open>auto simp: call_next_def\<close>)

section \<open>Media\<close>

lemma send_media_ok:
  assumes "media_ok (media_view s)" and "\<not> md_in_flight s"
  shows "media_ok (media_view (send_media env a v p t s))"
  using assms by (cases t) (auto simp: send_media_def start_command_def media_view_def answer_def spawn_def emit_def)

lemma set_media_ok:
  assumes "media_ok (media_view s)"
  shows "media_ok (media_view (set_media env a v t s))"
proof (cases "md_in_flight s")
  case True
  with assms have "media_ok (media_view (s\<lparr>md_queued := Some (a, v, t)\<rparr>))" by (simp add: media_view_def)
  with True show ?thesis by (simp add: set_media_def)
next
  case False
  moreover have "\<not> md_in_flight ((emit e s)\<lparr>md_engine := m\<rparr>)" for e m using False by (simp add: emit_def)
  ultimately show ?thesis using assms by (auto simp: set_media_def Let_def send_media_ok split: option.split)
qed

lemma flush_reannounce_ok:
  "media_ok (media_view s) \<Longrightarrow> media_ok (media_view (flush_reannounce env s))"
  by (auto simp: flush_reannounce_def send_media_ok split: option.split)

lemma reannounce_ok: "media_ok (media_view s) \<Longrightarrow> media_ok (media_view (reannounce_media env s))"
  by (simp add: reannounce_media_def flush_reannounce_ok)

lemma resume_media_ok: "media_ok (media_view s) \<Longrightarrow> media_ok (media_view (resume_media env s))"
  by (auto simp: resume_media_def send_media_ok split: option.split)

lemma media_work_found:
  assumes "media_ok (media_view s)" and "MediaWork i p \<in> set (ct_work s)"
  shows "filter media_work (ct_work s) = [MediaWork i p]" "md_in_flight s"
proof -
  define ws where "ws = filter media_work (ct_work s)"
  have "MediaWork i p \<in> set ws" using assms(2) by (simp add: ws_def)
  moreover have "media_ok (md_in_flight s, ct_media_reply s, md_queued s, ws)"
    using assms(1) by (simp add: media_view_def ws_def)
  ultimately have "ws = [MediaWork i p] \<and> md_in_flight s" by (auto split: if_splits)
  then show "filter media_work (ct_work s) = [MediaWork i p]" "md_in_flight s" by (simp_all add: ws_def)
qed

text \<open>Answering the caller of the \<open>call.media\<close> that came back, before a queued one goes out.\<close>

definition ack_answered :: "call_env \<Rightarrow> bool \<times> bool \<Rightarrow> bool \<times> bool \<Rightarrow> cmd_result \<Rightarrow> call \<Rightarrow> call" where
  "ack_answered env intent prev res s =
     (let reply = ct_media_reply s;
          s = s\<lparr>md_in_flight := False, ct_media_reply := None\<rparr>
      in case res of
           Inr _ \<Rightarrow> answer reply None s
         | Inl (Rejected code message) \<Rightarrow>
             answer reply (Some (Api code message))
               (if md_engine s = Some intent \<and> md_queued s = None
                then (let r = ce_media env (ct_log s) (fst prev) (snd prev);
                          s = emit (EngineMedia (fst prev) (snd prev)) s
                      in if r = None then s\<lparr>md_engine := Some prev\<rparr> else s)
                else s)
         | Inl err \<Rightarrow> answer reply (Some (of_command_error err)) (s\<lparr>md_dirty := True\<rparr>))"

lemma on_media_ack_steps:
  "on_media_ack env intent prev res s =
     (let s = ack_answered env intent prev res s
      in flush_reannounce env (case md_queued s of None \<Rightarrow> s
           | Some (a, v, t) \<Rightarrow> set_media env a v t (s\<lparr>md_queued := None\<rparr>)))"
  by (simp add: on_media_ack_def ack_answered_def Let_def)

lemma ack_answered_views [simp]:
  "media_view (ack_answered env i p res s) =
     (False, None, md_queued s, filter media_work (ct_work s))"
  "link_view (ack_answered env i p res s) = link_view s"
  "publish_view (ack_answered env i p res s) = publish_view s"
  "subscribe_view (ack_answered env i p res s) = subscribe_view s"
  "remote_view (ack_answered env i p res s) = remote_view s"
  "ct_ended (ack_answered env i p res s) = ct_ended s"
  by (simp_all add: ack_answered_def Let_def split: sum.split command_error.split)
    (simp_all add: media_view_def)

lemma on_media_ack_ok:
  assumes "filter media_work (ct_work s) = []"
  shows "media_ok (media_view (on_media_ack env i p res s))"
proof -
  define u where "u = ack_answered env i p res s"
  have u: "media_view u = (False, None, md_queued s, [])" using assms by (simp add: u_def)
  have "media_ok (media_view (u\<lparr>md_queued := None\<rparr>))" using u by (simp add: media_view_def)
  moreover have "media_ok (media_view u)" if "md_queued u = None" using u that by (simp add: media_view_def)
  ultimately show ?thesis
    by (auto simp: on_media_ack_steps u_def [symmetric] Let_def flush_reannounce_ok set_media_ok
        split: option.split)
qed

lemma on_done_media_ok:
  assumes "media_ok (media_view s)" and "w \<in> set (ct_work s)" and "work_done w d"
    and "\<not> ct_ended (on_done env d (s\<lparr>ct_work := remove1 w (ct_work s)\<rparr>))"
  shows "media_ok (media_view (on_done env d (s\<lparr>ct_work := remove1 w (ct_work s)\<rparr>)))"
proof (cases "\<exists>i p res. d = MediaAck i p res")
  case True
  then obtain i p res where d: "d = MediaAck i p res" by blast
  with assms(3) have w: "w = MediaWork i p" by (cases w) auto
  with media_work_found [OF assms(1)] assms(2)
  have "filter media_work (ct_work (s\<lparr>ct_work := remove1 w (ct_work s)\<rparr>)) = []"
    by (simp add: filter_remove1)
  with d show ?thesis by (simp add: on_done_def on_media_ack_ok)
next
  case False
  with assms(3) have "\<not> media_work w" by (cases w; cases d) auto
  then have kept: "media_ok (media_view (s\<lparr>ct_work := remove1 w (ct_work s)\<rparr>))" using assms(1) by simp
  define s0 where "s0 = s\<lparr>ct_work := remove1 w (ct_work s)\<rparr>"
  have live: "\<not> ct_ended (on_done env d s0)" using assms(4) by (simp add: s0_def)
  have "media_ok (media_view (on_done env d s0))"
  proof (cases d)
    case (PublishApplied q sdp res)
    show ?thesis
    proof (cases "ct_publish s0 = ApplyingAnswer q \<and> res = None")
      case True
      define u where "u = flush_remote env Publish (s0\<lparr>ct_applied_mids :=
          (ct_applied_mids s0)(Publish := Some (mids_of sdp)), ct_publish := Stable\<rparr>)"
      have "on_done env d s0 = (let s = reannounce_media env u
          in if ct_republish_pending s \<and> ct_connected s \<and> \<not> ct_ended s then start_publish_offer s else s)"
        using True PublishApplied by (simp add: on_done_def on_publish_applied_def u_def Let_def)
      moreover from this live have "\<not> ct_ended u" by (auto simp: Let_def split: if_splits)
      then have "media_view u = media_view s0" by (simp add: u_def)
      ultimately show ?thesis using kept by (simp add: Let_def reannounce_ok s0_def)
    qed (use live kept PublishApplied in
        \<open>auto simp: on_done_def on_publish_applied_def s0_def split: option.splits\<close>)
  next
    case (SubscribeApplied q v ss res)
    define u where "u = flush_remote env Subscribe (s0\<lparr>sb_applying := None, ct_applied_mids :=
        (ct_applied_mids s0)(Subscribe := Some (map ss_mid ss))\<rparr>)"
    show ?thesis
    proof (cases "map_option fst (sb_applying s0) = Some q \<and> (\<exists>sdp. res = Inr sdp)")
      case True
      then obtain sdp where sdp: "res = Inr sdp" by blast
      with True have r: "on_done env d s0 = (if ct_ended u then u
          else if sb_latest u \<noteq> None then maybe_apply_offer u
          else send_retained_answer env (u\<lparr>sb_retained := Some (v, sdp)\<rparr>))"
        using SubscribeApplied by (simp add: on_done_def on_subscribe_applied_def u_def Let_def)
      with live have "\<not> ct_ended u" by (auto split: if_splits)
      then have "media_view u = media_view s0" by (simp add: u_def)
      with r \<open>\<not> ct_ended u\<close> kept show ?thesis by (simp add: s0_def)
    qed (use live kept SubscribeApplied in
        \<open>auto simp: on_done_def on_subscribe_applied_def s0_def Let_def split: sum.splits\<close>)
  next
    case (SubscribeAck v res)
    with live kept show ?thesis
      by (auto simp: on_done_def on_subscribe_ack_def s0_def Let_def split: sum.splits option.splits if_splits)
  next
    case (Resumed g res)
    with live kept show ?thesis
      by (auto simp: on_done_def on_resumed_def after_resume_steps s0_def Let_def resume_media_ok
          flush_reannounce_ok split: sum.splits command_error.splits)
  next
    case (MediaAck i p res)
    with False show ?thesis by blast
  qed (use live kept in \<open>auto simp: on_done_def s0_def split: sum.splits if_splits\<close>)
  then show ?thesis by (simp add: s0_def)
qed

lemma media_ok_turn:
  assumes "media_ok (media_view s)" and "enabled s ev" and "\<not> ct_ended (call_next env ev s)"
  shows "media_ok (media_view (call_next env ev s))"
proof (cases ev)
  case (FrameEvent f)
  with assms(1,3) show ?thesis
    by (auto simp: call_next_def on_frame_def Let_def on_participant_def on_joined_def
        split: option.splits if_splits)
next
  case (InputEvent i)
  with assms(1,3) show ?thesis
    by (cases i) (auto simp: call_next_def on_input_def Let_def set_media_ok split: if_splits)
next
  case (DoneEvent w d)
  with assms show ?thesis by (simp add: call_next_def enabled_def on_done_media_ok)
next
  case (RevisionEvent e)
  with assms(1,3) show ?thesis by (auto simp: call_next_def split: if_splits)
qed (use assms in \<open>auto simp: call_next_def\<close>)

section \<open>The connection\<close>

lemma on_conn_ok:
  assumes "link_ok (link_view s)"
  shows "link_ok (link_view (on_conn env c s))"
  using assms
  by (auto simp: on_conn_def Let_def start_command_def set_status_def link_view_def spawn_def emit_def)

lemma resume_work_found:
  assumes "link_ok (link_view s)" and "ResumeWork g \<in> set (ct_work s)"
  shows "filter resume_work (ct_work s) = [ResumeWork g]" "ct_resuming s" "ct_generation s < g"
proof -
  define ws where "ws = filter resume_work (ct_work s)"
  have "ResumeWork g \<in> set ws" using assms(2) by (simp add: ws_def)
  moreover have "link_ok (ct_generation s, ct_connected s, ct_resuming s, ct_epoch s, ws)"
    using assms(1) by (simp add: link_view_def ws_def)
  ultimately have "ws = [ResumeWork g] \<and> ct_resuming s \<and> ct_generation s < g" by (auto split: if_splits)
  then show "filter resume_work (ct_work s) = [ResumeWork g]" "ct_resuming s" "ct_generation s < g"
    by (simp_all add: ws_def)
qed

lemma on_resumed_ok:
  assumes "filter resume_work (ct_work s) = []"
  shows "link_ok (link_view (on_resumed env g res s))"
proof -
  have "link_ok (link_view (s\<lparr>ct_resuming := False\<rparr>))"
    "link_ok (link_view (s\<lparr>ct_resuming := False, ct_generation := g, ct_connected := True\<rparr>))"
    using assms by (simp_all add: link_view_def)
  then show ?thesis
    by (auto simp: on_resumed_def after_resume_steps Let_def on_conn_ok split: sum.split command_error.split)
qed

lemma on_done_link_ok:
  assumes "link_ok (link_view s)" and "w \<in> set (ct_work s)" and "work_done w d"
  shows "link_ok (link_view (on_done env d (s\<lparr>ct_work := remove1 w (ct_work s)\<rparr>)))"
proof (cases "\<exists>g res. d = Resumed g res")
  case True
  then obtain g res where d: "d = Resumed g res" by blast
  with assms(3) have "w = ResumeWork g" by (cases w) auto
  with d resume_work_found [OF assms(1)] assms(2) show ?thesis
    by (simp add: on_done_def on_resumed_ok filter_remove1)
next
  case False
  with assms(3) have "\<not> resume_work w" by (cases w; cases d) auto
  with assms(1) False show ?thesis
    by (cases d) (auto simp: on_done_def on_publish_applied_def on_subscribe_applied_def
        on_subscribe_ack_def on_media_ack_steps Let_def split: sum.split option.split)
qed

lemma link_ok_turn:
  assumes "link_ok (link_view s)" and "enabled s ev"
  shows "link_ok (link_view (call_next env ev s))"
proof (cases ev)
  case (FrameEvent f)
  with assms(1) show ?thesis
    by (auto simp: call_next_def on_frame_def Let_def on_participant_def on_joined_def split: option.split)
next
  case (InputEvent i)
  with assms(1) show ?thesis
    by (cases i) (auto simp: call_next_def on_input_def Let_def)
next
  case (DoneEvent w d)
  with assms show ?thesis by (simp add: call_next_def enabled_def on_done_link_ok)
qed (use assms in \<open>auto simp: call_next_def on_conn_ok\<close>)

section \<open>The invariant of a run\<close>

lemma call_ok_turn:
  assumes "call_ok s" and "enabled s ev" and "call_named ev"
  shows "call_ok (call_next env ev s)"
proof (cases "ct_ended s")
  case True
  with assms(2) have "\<exists>t. ev = LeaveEvent t" by (cases ev) (auto simp: enabled_def)
  with True show ?thesis by (auto simp: call_ok_def call_next_def)
next
  case False
  with assms show ?thesis
    by (auto simp: call_ok_def intro: publish_ok_turn subscribe_ok_turn media_ok_turn link_ok_turn)
qed

lemma call_ok_fresh: "call_ok (fresh_call g epoch publish)"
  by (simp add: call_ok_def fresh_call_def views)

lemma call_runs_ok:
  assumes "call_runs env s evs s'" and "call_ok s" and "\<forall>ev \<in> set evs. call_named ev"
  shows "call_ok s'"
  using assms by (induction rule: call_runs.induct) (auto intro: call_ok_turn)

end
