(* ===== verification/Call_Log.thy ===== *)
theory Call_Log
  imports Call_Facts "HOL-Library.Multiset"
begin

text \<open>
  What the call task does to the outside. A locale states what an invariant of the log must allow
  (the effects each state may have), its lemmas carry such an invariant through every method and
  turn; two invariants are its interpretations: after the engine is closed nothing but a
  farewell happens, and frames go out on joined connections only.
\<close>

definition frame_type :: "json \<Rightarrow> string" where
  "frame_type f = text_at ''type'' f"

lemma frame_type_of [simp]: "frame_type (frame_of ty kvs) = ty"
  by (simp add: frame_type_def frame_of_def text_at_def jget_str_def)

lemma frame_types [simp]:
  "frame_type (leave_frame s) = ''call.leave''" "frame_type (candidate_frame pc c s) = ''call.ice''"
  "frame_type (publish_frame off s) = ''call.publish''"
  "frame_type (subscribe_frame v sdp s) = ''call.subscribe.answer''"
  "frame_type (media_frame a b s) = ''call.media''" "frame_type (resume_frame s) = ''call.resume''"
  by (simp_all add: leave_frame_def candidate_frame_def publish_frame_def subscribe_frame_def
      media_frame_def resume_frame_def)

fun engine_effect :: "effect \<Rightarrow> bool" where
  "engine_effect (EngineCandidate _ _) = True"
| "engine_effect (EngineMedia _ _) = True"
| "engine_effect (EngineIce _) = True"
| "engine_effect _ = False"

section \<open>Invariants of the log\<close>

locale log_invariant =
  fixes ok :: "bool \<Rightarrow> bool \<Rightarrow> nat \<Rightarrow> effect list \<Rightarrow> bool"
  assumes command: "ok False True g l \<Longrightarrow> frame_type f \<noteq> ''call.resume'' \<Longrightarrow>
      ok False True g (l @ [Started g f])"
    and notified: "ok False True g l \<Longrightarrow> frame_type f \<noteq> ''call.resume'' \<Longrightarrow>
      ok False True g (l @ [Notified g f])"
    and resuming: "ok False c g l \<Longrightarrow> frame_type f = ''call.resume'' \<Longrightarrow> g < g' \<Longrightarrow>
      ok False c g (l @ [Started g' f])"
    and engine: "ok False c g l \<Longrightarrow> engine_effect e \<Longrightarrow> ok False c g (l @ [e])"
    and answered: "ok ended c g l \<Longrightarrow> ok ended c g (l @ [Answered t r])"
    and unrouted: "ok False c g l \<Longrightarrow> ok False c g (l @ [RouteRemoved x])"
    and closed: "ok False c g l \<Longrightarrow> ok True c g (l @ [EngineClosed])"
    and farewell: "ok True True g l \<Longrightarrow> frame_type f = ''call.leave'' \<Longrightarrow>
      ok True True g (l @ [Notified g f])"
    and dropped: "ok ended c g l \<Longrightarrow> ok ended False g l"
begin

definition holds :: "call \<Rightarrow> bool" where
  "holds s \<longleftrightarrow> ok (ct_ended s) (ct_connected s) (ct_generation s) (ct_log s)"

lemma holds_cong:
  "ct_ended s' = ct_ended s \<Longrightarrow> ct_connected s' = ct_connected s \<Longrightarrow>
   ct_generation s' = ct_generation s \<Longrightarrow> ct_log s' = ct_log s \<Longrightarrow> holds s' = holds s"
  by (simp add: holds_def)

lemma holds_update [simp]:
  "holds (s\<lparr>ct_state := v_state\<rparr>) = holds s"
  "holds (s\<lparr>ct_call_id := v_call_id\<rparr>) = holds s"
  "holds (s\<lparr>ct_participant_id := v_participant_id\<rparr>) = holds s"
  "holds (s\<lparr>ct_resume_token := v_resume_token\<rparr>) = holds s"
  "holds (s\<lparr>ct_resuming := v_resuming\<rparr>) = holds s"
  "holds (s\<lparr>ct_epoch := v_epoch\<rparr>) = holds s"
  "holds (s\<lparr>ct_publish_wanted := v_publish_wanted\<rparr>) = holds s"
  "holds (s\<lparr>ct_publish := v_publish\<rparr>) = holds s"
  "holds (s\<lparr>ct_republish_pending := v_republish_pending\<rparr>) = holds s"
  "holds (s\<lparr>ct_pub_seq := v_pub_seq\<rparr>) = holds s"
  "holds (s\<lparr>ct_unsent_offer := v_unsent_offer\<rparr>) = holds s"
  "holds (s\<lparr>ct_pub_candidates := v_pub_candidates\<rparr>) = holds s"
  "holds (s\<lparr>sb_seq := v_seq\<rparr>) = holds s"
  "holds (s\<lparr>sb_latest := v_latest\<rparr>) = holds s"
  "holds (s\<lparr>sb_applying := v_applying\<rparr>) = holds s"
  "holds (s\<lparr>sb_retained := v_retained\<rparr>) = holds s"
  "holds (s\<lparr>sb_acked := v_acked\<rparr>) = holds s"
  "holds (s\<lparr>ct_applied_mids := v_applied_mids\<rparr>) = holds s"
  "holds (s\<lparr>ct_remote_buf := v_remote_buf\<rparr>) = holds s"
  "holds (s\<lparr>md_engine := v_engine\<rparr>) = holds s"
  "holds (s\<lparr>md_in_flight := v_in_flight\<rparr>) = holds s"
  "holds (s\<lparr>md_queued := v_queued\<rparr>) = holds s"
  "holds (s\<lparr>md_dirty := v_dirty\<rparr>) = holds s"
  "holds (s\<lparr>md_reannounce := v_reannounce\<rparr>) = holds s"
  "holds (s\<lparr>ct_media_reply := v_media_reply\<rparr>) = holds s"
  "holds (s\<lparr>ct_work := v_work\<rparr>) = holds s"
  by (rule holds_cong; simp)+

lemma holds_spawn [simp]: "holds (spawn w s) = holds s"
  by (rule holds_cong) (simp_all add: spawn_def)

lemma holds_status [simp]: "holds (set_status st s) = holds s"
  by (rule holds_cong) (simp_all add: set_status_def)

lemma holds_answer: "holds s \<Longrightarrow> holds (answer t e s)"
  by (cases t) (simp_all add: holds_def answer_def emit_def answered)

lemma holds_engine: "holds s \<Longrightarrow> \<not> ct_ended s \<Longrightarrow> engine_effect e \<Longrightarrow> holds (emit e s)"
  by (simp add: holds_def emit_def engine)

lemma holds_notify:
  "holds s \<Longrightarrow> \<not> ct_ended s \<Longrightarrow> ct_connected s \<Longrightarrow> frame_type f \<noteq> ''call.resume'' \<Longrightarrow>
   holds (notify_command env (ct_generation s) f s)"
  by (simp add: holds_def notify_command_def emit_def notified)

lemma holds_start:
  "holds s \<Longrightarrow> \<not> ct_ended s \<Longrightarrow> ct_connected s \<Longrightarrow> frame_type f \<noteq> ''call.resume'' \<Longrightarrow>
   start_command env (ct_generation s) f w s = (b, s') \<Longrightarrow> holds s'"
  by (auto simp: start_command_def holds_def emit_def spawn_def command split: if_splits)

lemma holds_finish: "holds s \<Longrightarrow> holds (finish_call env r t s)"
proof (cases "ct_ended s")
  case False
  assume s: "holds s"
  define u where "u = set_status (Ended r) (s\<lparr>ct_ended := True\<rparr>)"
  define v where "v = emit EngineClosed (if ct_call_id u \<noteq> [] then emit (RouteRemoved (ct_call_id u)) u else u)"
  define w where "w = (if t \<and> ct_connected v then notify_command env (ct_generation v) (leave_frame v) v else v)"
  have u: "ct_log u = ct_log s" "ct_call_id u = ct_call_id s" by (simp_all add: u_def set_status_def)
  have "ok True (ct_connected s) (ct_generation s) ((ct_log s @ [RouteRemoved x]) @ [EngineClosed])" for x
    using s False by (intro closed unrouted) (simp add: holds_def)
  moreover have "ok True (ct_connected s) (ct_generation s) (ct_log s @ [EngineClosed])"
    using s False by (intro closed) (simp add: holds_def)
  ultimately have "ok True (ct_connected s) (ct_generation s) (ct_log v)" by (simp add: v_def u)
  moreover have "ct_ended v" "ct_connected v = ct_connected s" "ct_generation v = ct_generation s"
    by (simp_all add: v_def u_def set_status_def emit_def)
  ultimately have v: "holds v" "ct_ended v" by (simp_all add: holds_def)
  then have w: "holds w" by (auto simp: w_def holds_def notify_command_def emit_def farewell)
  have "finish_call env r t s = (answer (map_option (\<lambda>(_, _, t). t) (md_queued
      ((answer (ct_media_reply w) (Some CallEnded) w)\<lparr>ct_media_reply := None\<rparr>))) (Some CallEnded)
      ((answer (ct_media_reply w) (Some CallEnded) w)\<lparr>ct_media_reply := None\<rparr>))\<lparr>md_queued := None\<rparr>"
    using False by (simp add: finish_call_def Let_def u_def v_def w_def)
  then show ?thesis using w by (simp add: holds_answer)
qed (simp add: finish_again)

lemma holds_candidate: "holds s \<Longrightarrow> \<not> ct_ended s \<Longrightarrow> holds (send_candidate env pc c s)"
  by (simp add: send_candidate_def holds_notify)

lemma holds_candidates: "holds s \<Longrightarrow> \<not> ct_ended s \<Longrightarrow> holds (fold (send_candidate env pc) cs s)"
  by (induction cs arbitrary: s) (simp_all add: holds_candidate)

lemma holds_local: "holds s \<Longrightarrow> \<not> ct_ended s \<Longrightarrow> holds (on_local_candidate env pc c s)"
  by (simp add: on_local_candidate_def holds_candidate)

lemma holds_add_remote: "holds s \<Longrightarrow> \<not> ct_ended s \<Longrightarrow> holds (add_remote env pc c s)"
  by (auto simp: add_remote_def Let_def holds_engine holds_finish split: option.split)

lemma holds_remote: "holds s \<Longrightarrow> \<not> ct_ended s \<Longrightarrow> holds (on_remote_candidate env pc c s)"
  by (simp add: on_remote_candidate_def holds_add_remote)

lemma holds_flush_buffered:
  "holds s \<Longrightarrow> \<not> ct_ended s \<Longrightarrow> flush_buffered env pc cs rest s = (r, s') \<Longrightarrow> holds s'"
proof (induction env pc cs rest s arbitrary: r rule: flush_buffered.induct)
  case (2 env pc c cs rest s)
  then show ?case by (auto simp: Let_def holds_add_remote split: if_splits)
qed simp

lemma holds_flush: "holds s \<Longrightarrow> \<not> ct_ended s \<Longrightarrow> holds (flush_remote env pc s)"
  by (cases "flush_buffered env pc (ct_remote_buf s pc) [] (s\<lparr>ct_remote_buf := (ct_remote_buf s)(pc := [])\<rparr>)")
    (auto simp: flush_remote_def split: option.split dest: holds_flush_buffered [rotated 2])

lemma holds_offer [simp]: "holds (start_publish_offer s) = holds s"
  by (simp add: start_publish_offer_def)

lemma holds_publish: "holds s \<Longrightarrow> \<not> ct_ended s \<Longrightarrow> holds (send_publish env q off s)"
proof -
  assume h: "holds s" "\<not> ct_ended s"
  obtain b u where c: "start_command env (ct_generation s) (publish_frame off s) (AnswerWork q) s = (b, u)"
    by force
  have "holds u" "\<not> ct_ended u" if "ct_connected s"
    using holds_start [OF h that _ c] start_command_views(6) [OF c] h(2) by simp_all
  then show ?thesis
    using h(1) by (cases b) (simp_all add: send_publish_def c holds_candidates)
qed

lemma holds_retained: "holds s \<Longrightarrow> \<not> ct_ended s \<Longrightarrow> holds (send_retained_answer env s)"
proof -
  assume h: "holds s" "\<not> ct_ended s"
  have "holds (snd (start_command env (ct_generation s) (subscribe_frame v sdp s) (AckWork v) s))"
    if "ct_connected s" for v sdp
    by (rule holds_start [OF h that _ prod.collapse [symmetric]]) simp
  with h show ?thesis by (auto simp: send_retained_answer_def split: option.split)
qed

lemma holds_apply [simp]: "holds (maybe_apply_offer s) = holds s"
  by (auto simp: maybe_apply_offer_def split: option.split)

lemma holds_on_offer: "holds s \<Longrightarrow> \<not> ct_ended s \<Longrightarrow> holds (on_offer env v sdp ss s)"
  by (simp add: on_offer_def holds_retained)

lemma holds_send_media: "holds s \<Longrightarrow> \<not> ct_ended s \<Longrightarrow> holds (send_media env a b p t s)"
  by (auto simp: send_media_def holds_answer dest: holds_start [rotated 4] split: prod.split bool.split)

lemma holds_set_media: "holds s \<Longrightarrow> \<not> ct_ended s \<Longrightarrow> holds (set_media env a b t s)"
  by (auto simp: set_media_def Let_def holds_answer holds_engine holds_send_media split: option.split)

lemma holds_flush_reannounce: "holds s \<Longrightarrow> holds (flush_reannounce env s)"
  by (auto simp: flush_reannounce_def holds_send_media split: option.split)

lemma holds_reannounce: "holds s \<Longrightarrow> holds (reannounce_media env s)"
  by (simp add: reannounce_media_def holds_flush_reannounce)

lemma holds_dropped: "holds s \<Longrightarrow> holds (s\<lparr>ct_connected := False\<rparr>)"
  by (simp add: holds_def dropped)

lemma holds_conn: "holds s \<Longrightarrow> holds (on_conn env c s)"
  by (auto simp: on_conn_def Let_def start_command_def holds_dropped)
    (auto simp: holds_def emit_def set_status_def intro: resuming dropped)

lemma holds_after_resume: "holds s \<Longrightarrow> \<not> ct_ended s \<Longrightarrow> holds (after_resume env s)"
proof -
  assume h: "holds s" "\<not> ct_ended s"
  then have "holds (resume_publish s)" by (auto simp: resume_publish_def split: publish_state.split)
  then have "holds (resume_offer env (resume_publish s))"
    using h(2) by (auto simp: resume_offer_def holds_publish split: option.split)
  then have "holds (resume_media env (send_retained_answer env (resume_offer env (resume_publish s))))"
    using h(2) by (auto simp: resume_media_def holds_retained holds_send_media split: option.split)
  then show ?thesis by (simp add: after_resume_steps holds_flush_reannounce)
qed

lemma holds_joined: "holds s \<Longrightarrow> \<not> ct_ended s \<Longrightarrow> holds (on_joined env data s)"
  by (auto simp: on_joined_def Let_def holds_finish intro!: holds_engine split: option.split)

lemma holds_frame: "holds s \<Longrightarrow> \<not> ct_ended s \<Longrightarrow> holds (on_frame env f s)"
  by (auto simp: on_frame_def Let_def holds_joined holds_on_offer holds_remote on_participant_def
      holds_finish split: option.split)

lemma holds_input: "holds s \<Longrightarrow> \<not> ct_ended s \<Longrightarrow> holds (on_input env i s)"
proof (cases i)
  case (Leave t)
  assume h: "holds s" "\<not> ct_ended s"
  then have "holds (emit (Started (ct_generation s) (leave_frame s)) s)" if "ct_connected s"
    using that by (simp add: holds_def emit_def command)
  with h Leave show ?thesis by (auto simp: on_input_def Let_def holds_finish)
qed (auto simp: on_input_def holds_local holds_finish holds_set_media holds_answer)

text \<open>A resumed call goes on at the connection it resumed on.\<close>

definition rejoins :: "call_event \<Rightarrow> call \<Rightarrow> bool" where
  "rejoins ev s \<longleftrightarrow>
     (\<forall>w g r. ev = DoneEvent w (Resumed g (Inr r)) \<longrightarrow> ok False True g (ct_log s))"

lemma holds_ack: "holds s \<Longrightarrow> \<not> ct_ended s \<Longrightarrow> holds (on_media_ack env i p res s)"
proof -
  assume h: "holds s" "\<not> ct_ended s"
  then have "holds (ack_answered env i p res s)"
    by (auto simp: ack_answered_def Let_def holds_answer holds_engine split: sum.split command_error.split)
  with h(2) show ?thesis
    by (auto simp: on_media_ack_steps Let_def holds_flush_reannounce holds_set_media split: option.split)
qed

lemma holds_done:
  assumes "holds s" and "\<not> ct_ended s"
    and "\<And>g r. d = Resumed g (Inr r) \<Longrightarrow> ok False True g (ct_log s)"
  shows "holds (on_done env d s)"
proof (cases d)
  case (Resumed g res)
  have "holds (after_resume env (set_status Connected
      (s\<lparr>ct_resuming := False, ct_generation := g, ct_connected := True\<rparr>)))" if "res = Inr r" for r
    using assms(2) assms(3) [of g r] Resumed that
    by (intro holds_after_resume) (simp_all add: holds_def set_status_def)
  with assms Resumed show ?thesis
    by (auto simp: on_done_def on_resumed_def Let_def holds_finish holds_conn
        split: sum.split command_error.split)
qed (use assms in \<open>auto simp: on_done_def on_publish_applied_def on_subscribe_applied_def on_subscribe_ack_def
      Let_def holds_publish holds_finish holds_reannounce holds_flush holds_retained holds_ack
      split: sum.split option.split\<close>)

lemma holds_turn:
  assumes "holds s" and "enabled s ev" and "rejoins ev s"
  shows "holds (call_next env ev s)"
  using assms
  by (cases ev) (auto simp: call_next_def enabled_def rejoins_def holds_frame holds_input holds_conn
      holds_finish holds_answer intro!: holds_done)

end

section \<open>After the engine is closed\<close>

text \<open>Answers to callers, and telling the server that one left.\<close>

fun quiet :: "effect \<Rightarrow> bool" where
  "quiet (Answered _ _) = True"
| "quiet (Notified _ f) = (frame_type f = ''call.leave'')"
| "quiet _ = False"

definition shut_ok :: "bool \<Rightarrow> bool \<Rightarrow> nat \<Rightarrow> effect list \<Rightarrow> bool" where
  "shut_ok ended c g log \<longleftrightarrow> (ended \<longleftrightarrow> EngineClosed \<in> set log) \<and>
     list_all quiet (tl (dropWhile (\<lambda>e. e \<noteq> EngineClosed) log))"

lemma drop_to_append:
  "dropWhile (\<lambda>e. e \<noteq> z) (xs @ [y]) =
     (if z \<in> set xs then dropWhile (\<lambda>e. e \<noteq> z) xs @ [y] else if y = z then [y] else [])"
  by (induction xs) auto

lemma drop_to_some: "z \<in> set xs \<Longrightarrow> dropWhile (\<lambda>e. e \<noteq> z) xs \<noteq> []"
  by (induction xs) auto

lemma shut_ok_live:
  "shut_ok False c g l \<Longrightarrow> e \<noteq> EngineClosed \<Longrightarrow> shut_ok False c' g' (l @ [e])"
  by (simp add: shut_ok_def drop_to_append)

lemma shut_ok_quiet:
  assumes "shut_ok ended c g l" and "quiet e"
  shows "shut_ok ended c g (l @ [e])"
proof -
  have "e \<noteq> EngineClosed" using assms(2) by auto
  moreover have "tl (xs @ [e]) = tl xs @ [e]" if "xs \<noteq> []" for xs using that by (cases xs) auto
  ultimately show ?thesis using assms by (auto simp: shut_ok_def drop_to_append drop_to_some)
qed

interpretation shut: log_invariant shut_ok
proof
  show "shut_ok False c g (l @ [e])" if "shut_ok False c g l" "engine_effect e" for c g l e
    using that by (intro shut_ok_live) auto
  show "shut_ok True c g (l @ [EngineClosed])" if "shut_ok False c g l" for c g l
    using that by (simp add: shut_ok_def drop_to_append)
  show "shut_ok ended False g l" if "shut_ok ended c g l" for ended c g l
    using that by (simp add: shut_ok_def)
qed (auto intro: shut_ok_live shut_ok_quiet)

lemma shut_turn:
  assumes "shut.holds s" and "enabled s ev"
  shows "shut.holds (call_next env ev s)"
proof (rule shut.holds_turn [OF assms])
  show "shut.rejoins ev s"
    using assms unfolding shut.rejoins_def shut.holds_def
    by (auto simp: enabled_def shut_ok_def)
qed

lemma shut_fresh: "shut.holds (fresh_call g epoch publish)"
  by (simp add: shut.holds_def fresh_call_def shut_ok_def)

lemma shut_runs: "call_runs env s evs s' \<Longrightarrow> shut.holds s \<Longrightarrow> shut.holds s'"
  by (induction rule: call_runs.induct) (auto intro: shut_turn)

section \<open>Frames and connections\<close>

text \<open>The connections the server confirmed the call on: the one it was joined on, and those resumed on.\<close>

definition joined_on :: "nat \<Rightarrow> call_event list \<Rightarrow> nat set" where
  "joined_on g evs = insert g {g'. \<exists>w r. DoneEvent w (Resumed g' (Inr r)) \<in> set evs}"

fun frame_within :: "nat set \<Rightarrow> effect \<Rightarrow> bool" where
  "frame_within G (Started g f) = (frame_type f = ''call.resume'' \<or> g \<in> G)"
| "frame_within G (Notified g f) = (g \<in> G)"
| "frame_within G _ = True"

definition frames_ok :: "nat set \<Rightarrow> bool \<Rightarrow> bool \<Rightarrow> nat \<Rightarrow> effect list \<Rightarrow> bool" where
  "frames_ok G ended c g log \<longleftrightarrow> (c \<longrightarrow> g \<in> G) \<and> list_all (frame_within G) log"

interpretation frames: log_invariant "frames_ok G" for G
proof
  show "frames_ok G False c g (l @ [e])" if "frames_ok G False c g l" "engine_effect e" for c g l e
    using that by (cases e) (auto simp: frames_ok_def)
qed (auto simp: frames_ok_def)

lemma frames_runs:
  assumes "call_runs env s evs s'" and "frames.holds G s" and "joined_on g evs \<subseteq> G"
  shows "frames.holds G s'"
  using assms
proof (induction rule: call_runs.induct)
  case (turn evs s' ev)
  have h: "frames.holds G s'" using turn by (auto simp: joined_on_def)
  have "frames.rejoins G ev s'"
    using turn.prems(2) h by (auto simp: frames.rejoins_def frames.holds_def frames_ok_def joined_on_def)
  with h turn.hyps(2) show ?case by (rule frames.holds_turn)
qed simp

section \<open>Callers\<close>

text \<open>
  A caller is a token: answered in the log, or held (waiting for \<open>call.media\<close>, queued behind one,
  or waiting for the server to confirm a leave).
\<close>

fun answered_token :: "effect \<Rightarrow> nat option" where
  "answered_token (Answered t _) = Some t"
| "answered_token _ = None"

fun leaving_token :: "work \<Rightarrow> nat option" where
  "leaving_token (LeaveWork t) = Some t"
| "leaving_token _ = None"

definition answered_tokens :: "call \<Rightarrow> nat multiset" where
  "answered_tokens s = mset (List.map_filter answered_token (ct_log s))"

definition held_tokens :: "call \<Rightarrow> nat multiset" where
  "held_tokens s = opt_mset (ct_media_reply s) + opt_mset (map_option (\<lambda>(_, _, t). t) (md_queued s)) +
     mset (List.map_filter leaving_token (ct_work s))"

definition tokens :: "call \<Rightarrow> nat multiset" where
  "tokens s = answered_tokens s + held_tokens s"

fun asks :: "call_event \<Rightarrow> nat multiset" where
  "asks (InputEvent (SetMedia _ _ t)) = {#t#}"
| "asks (InputEvent (Republish t)) = {#t#}"
| "asks (InputEvent (Leave t)) = {#t#}"
| "asks _ = {#}"

lemma map_filter_append [simp]: "List.map_filter f (xs @ ys) = List.map_filter f xs @ List.map_filter f ys"
  by (simp add: map_filter_def)

lemma tokens_update [simp]:
  "tokens (s\<lparr>ct_state := v_state\<rparr>) = tokens s"
  "tokens (s\<lparr>ct_call_id := v_call_id\<rparr>) = tokens s"
  "tokens (s\<lparr>ct_participant_id := v_participant_id\<rparr>) = tokens s"
  "tokens (s\<lparr>ct_resume_token := v_resume_token\<rparr>) = tokens s"
  "tokens (s\<lparr>ct_generation := v_generation\<rparr>) = tokens s"
  "tokens (s\<lparr>ct_connected := v_connected\<rparr>) = tokens s"
  "tokens (s\<lparr>ct_resuming := v_resuming\<rparr>) = tokens s"
  "tokens (s\<lparr>ct_epoch := v_epoch\<rparr>) = tokens s"
  "tokens (s\<lparr>ct_publish_wanted := v_publish_wanted\<rparr>) = tokens s"
  "tokens (s\<lparr>ct_publish := v_publish\<rparr>) = tokens s"
  "tokens (s\<lparr>ct_republish_pending := v_republish_pending\<rparr>) = tokens s"
  "tokens (s\<lparr>ct_pub_seq := v_pub_seq\<rparr>) = tokens s"
  "tokens (s\<lparr>ct_unsent_offer := v_unsent_offer\<rparr>) = tokens s"
  "tokens (s\<lparr>ct_pub_candidates := v_pub_candidates\<rparr>) = tokens s"
  "tokens (s\<lparr>sb_seq := v_seq\<rparr>) = tokens s"
  "tokens (s\<lparr>sb_latest := v_latest\<rparr>) = tokens s"
  "tokens (s\<lparr>sb_applying := v_applying\<rparr>) = tokens s"
  "tokens (s\<lparr>sb_retained := v_retained\<rparr>) = tokens s"
  "tokens (s\<lparr>sb_acked := v_acked\<rparr>) = tokens s"
  "tokens (s\<lparr>ct_applied_mids := v_applied_mids\<rparr>) = tokens s"
  "tokens (s\<lparr>ct_remote_buf := v_remote_buf\<rparr>) = tokens s"
  "tokens (s\<lparr>md_engine := v_engine\<rparr>) = tokens s"
  "tokens (s\<lparr>md_in_flight := v_in_flight\<rparr>) = tokens s"
  "tokens (s\<lparr>md_dirty := v_dirty\<rparr>) = tokens s"
  "tokens (s\<lparr>md_reannounce := v_reannounce\<rparr>) = tokens s"
  "tokens (s\<lparr>ct_ended := v_ended\<rparr>) = tokens s"
  by (simp_all add: tokens_def answered_tokens_def held_tokens_def)

lemma tokens_primitives [simp]:
  "answered_token e = None \<Longrightarrow> tokens (emit e s) = tokens s"
  "leaving_token w = None \<Longrightarrow> tokens (spawn w s) = tokens s"
  "tokens (set_status st s) = tokens s"
  "tokens (notify_command env g f s) = tokens s"
  "tokens (answer t r s) = tokens s + opt_mset t"
  by (simp_all add: tokens_def answered_tokens_def held_tokens_def emit_def spawn_def set_status_def
      notify_command_def answer_def map_filter_simps split: option.split)

lemma tokens_release [simp]:
  "tokens (s\<lparr>ct_media_reply := None\<rparr>) = tokens s - opt_mset (ct_media_reply s)"
  "tokens (s\<lparr>md_queued := None\<rparr>) = tokens s - opt_mset (map_option (\<lambda>(_, _, t). t) (md_queued s))"
  by (simp_all add: tokens_def answered_tokens_def held_tokens_def)

lemma callers_kept [simp]:
  "ct_media_reply (emit e s) = ct_media_reply s" "md_queued (emit e s) = md_queued s"
  "ct_media_reply (set_status st s) = ct_media_reply s" "md_queued (set_status st s) = md_queued s"
  "ct_media_reply (answer t r s) = ct_media_reply s" "md_queued (answer t r s) = md_queued s"
  "ct_media_reply (notify_command env g f s) = ct_media_reply s"
  "md_queued (notify_command env g f s) = md_queued s"
  "ct_media_reply (spawn w s) = ct_media_reply s" "md_queued (spawn w s) = md_queued s"
  by (simp_all add: emit_def set_status_def answer_def notify_command_def spawn_def split: option.split)

lemma tokens_held: "opt_mset (ct_media_reply s) + opt_mset (map_option (\<lambda>(_, _, t). t) (md_queued s)) \<subseteq># tokens s"
  by (simp add: tokens_def held_tokens_def add.assoc add.left_commute [of "answered_tokens s"])

lemma tokens_finish [simp]: "tokens (finish_call env r t s) = tokens s"
  by (simp add: finish_call_def Let_def if_distrib [of tokens])

lemma tokens_start:
  "start_command env g f w s = (b, s') \<Longrightarrow> leaving_token w = None \<Longrightarrow> tokens s' = tokens s"
  by (auto elim!: start_commandE)

lemma tokens_candidate [simp]: "tokens (send_candidate env pc c s) = tokens s"
  by (simp add: send_candidate_def)

lemma tokens_candidates [simp]: "tokens (fold (send_candidate env pc) cs s) = tokens s"
  by (induction cs arbitrary: s) simp_all

lemma tokens_local [simp]: "tokens (on_local_candidate env pc c s) = tokens s"
  by (simp add: on_local_candidate_def)

lemma tokens_add_remote [simp]: "tokens (add_remote env pc c s) = tokens s"
  by (simp add: add_remote_def Let_def split: option.split)

lemma tokens_remote [simp]: "tokens (on_remote_candidate env pc c s) = tokens s"
  by (simp add: on_remote_candidate_def)

lemma tokens_flush_buffered:
  "flush_buffered env pc cs rest s = (r, s') \<Longrightarrow> tokens s' = tokens s"
proof (induction env pc cs rest s arbitrary: r rule: flush_buffered.induct)
  case (2 env pc c cs rest s)
  then show ?case by (auto simp: Let_def split: if_splits)
qed simp

lemma tokens_flush [simp]: "tokens (flush_remote env pc s) = tokens s"
  by (cases "flush_buffered env pc (ct_remote_buf s pc) [] (s\<lparr>ct_remote_buf := (ct_remote_buf s)(pc := [])\<rparr>)")
    (auto simp: flush_remote_def split: option.split dest: tokens_flush_buffered)

lemma tokens_offer [simp]: "tokens (start_publish_offer s) = tokens s"
  by (simp add: start_publish_offer_def)

lemma tokens_publish [simp]: "tokens (send_publish env q off s) = tokens s"
  by (auto simp: send_publish_def tokens_start split: prod.split bool.split)

lemma tokens_retained [simp]: "tokens (send_retained_answer env s) = tokens s"
  by (auto simp: send_retained_answer_def tokens_start [OF prod.collapse [symmetric]] split: option.split)

lemma tokens_apply [simp]: "tokens (maybe_apply_offer s) = tokens s"
  by (auto simp: maybe_apply_offer_def split: option.split)

lemma tokens_on_offer [simp]: "tokens (on_offer env v sdp ss s) = tokens s"
  by (simp add: on_offer_def)

text \<open>\<open>send_media\<close> takes the caller of the frame it sends, and must not drop another.\<close>

lemma tokens_send_media:
  assumes "ct_media_reply s = None"
  shows "tokens (send_media env a b p t s) = tokens s + opt_mset t"
proof -
  have "tokens (u\<lparr>ct_media_reply := t\<rparr>) = tokens u + opt_mset t" if "ct_media_reply u = None" for u
    using that by (simp add: tokens_def answered_tokens_def held_tokens_def)
  then show ?thesis
    using assms by (auto simp: send_media_def start_command_def)
qed

lemma tokens_set_media:
  assumes "media_ok (media_view s)"
  shows "tokens (set_media env a b t s) = tokens s + {#t#}"
proof (cases "md_in_flight s")
  case True
  have "tokens (s\<lparr>md_queued := Some (a, b, t)\<rparr>) + opt_mset (map_option (\<lambda>(_, _, t). t) (md_queued s)) =
      tokens s + {#t#}"
    by (simp add: tokens_def answered_tokens_def held_tokens_def)
  with True show ?thesis by (simp add: set_media_def)
next
  case False
  with assms have "ct_media_reply s = None" by (simp add: media_view_def)
  with False show ?thesis by (auto simp: set_media_def Let_def tokens_send_media split: option.split)
qed

lemma tokens_flush_reannounce:
  "ct_ended s \<or> media_ok (media_view s) \<Longrightarrow> tokens (flush_reannounce env s) = tokens s"
  by (auto simp: flush_reannounce_def media_view_def tokens_send_media split: option.split)

lemma tokens_reannounce:
  "ct_ended s \<or> media_ok (media_view s) \<Longrightarrow> tokens (reannounce_media env s) = tokens s"
  by (simp add: reannounce_media_def tokens_flush_reannounce)

lemma tokens_conn [simp]: "tokens (on_conn env c s) = tokens s"
  by (auto simp: on_conn_def Let_def start_command_def)

lemma tokens_after_resume:
  assumes "media_ok (media_view s)"
  shows "tokens (after_resume env s) = tokens s"
proof -
  define u where "u = send_retained_answer env (resume_offer env (resume_publish s))"
  have u: "tokens u = tokens s" "media_ok (media_view u)"
    using assms by (auto simp: u_def resume_offer_def resume_publish_def split: option.split publish_state.split)
  have "ct_media_reply (u\<lparr>md_dirty := False\<rparr>) = None" if "\<not> md_in_flight u"
    using u(2) that by (simp add: media_view_def)
  then have "tokens (resume_media env u) = tokens u"
    by (auto simp: resume_media_def tokens_send_media split: option.split)
  moreover have "media_ok (media_view (resume_media env u))" using u(2) by (rule resume_media_ok)
  ultimately show ?thesis by (simp add: after_resume_steps u_def [symmetric] u(1) tokens_flush_reannounce)
qed

lemma tokens_joined [simp]: "tokens (on_joined env data s) = tokens s"
  by (auto simp: on_joined_def Let_def split: option.split)

lemma tokens_frame [simp]: "tokens (on_frame env f s) = tokens s"
  by (auto simp: on_frame_def Let_def on_participant_def split: option.split)

lemma tokens_leaving: "tokens (spawn (LeaveWork t) s) = tokens s + {#t#}"
  by (simp add: tokens_def answered_tokens_def held_tokens_def spawn_def map_filter_simps)

lemma tokens_input:
  "media_ok (media_view s) \<Longrightarrow> tokens (on_input env i s) = tokens s + asks (InputEvent i)"
  by (cases i) (auto simp: on_input_def Let_def tokens_set_media tokens_leaving)

lemma tokens_ack:
  assumes "filter media_work (ct_work s) = []"
  shows "tokens (on_media_ack env i p res s) = tokens s"
proof -
  define u where "u = ack_answered env i p res s"
  have h: "opt_mset (ct_media_reply s) \<subseteq># tokens s"
    using tokens_held [of s] by (rule subset_mset.order_trans [rotated]) simp
  have u: "tokens u = tokens s"
    using h by (auto simp: u_def ack_answered_def Let_def split: sum.split command_error.split)
  have v: "media_view u = (False, None, md_queued s, [])" using assms by (simp add: u_def)
  show ?thesis
  proof (cases "md_queued u")
    case None
    then have "media_ok (media_view u)" using v by (simp add: media_view_def)
    with None u show ?thesis
      by (simp add: on_media_ack_steps u_def [symmetric] tokens_flush_reannounce)
  next
    case (Some q)
    obtain a b t where q: "md_queued u = Some (a, b, t)" using Some by (cases q) auto
    have m: "media_ok (media_view (u\<lparr>md_queued := None\<rparr>))" using v by (simp add: media_view_def)
    have "{#t#} \<subseteq># tokens u" using tokens_held [of u] q by (auto dest: mset_subset_eq_insertD)
    then show ?thesis
      using q u m by (simp add: on_media_ack_steps u_def [symmetric] tokens_flush_reannounce
          tokens_set_media set_media_ok)
  qed
qed

text \<open>An ended call holds no caller of \<open>set_media\<close> back.\<close>

definition released :: "call \<Rightarrow> bool" where
  "released s \<longleftrightarrow> ct_ended s \<longrightarrow> ct_media_reply s = None \<and> md_queued s = None"

lemma released_cong:
  "media_view s' = media_view s \<Longrightarrow> ct_ended s' = ct_ended s \<Longrightarrow> released s' = released s"
  by (simp add: released_def media_view_eq)

lemma released_live: "\<not> ct_ended s \<Longrightarrow> released s"
  by (simp add: released_def)

lemma released_update [simp]:
  "released (s\<lparr>ct_remote_buf := b\<rparr>) = released s" "released (s\<lparr>ct_applied_mids := m\<rparr>) = released s"
  "released (s\<lparr>ct_publish := p\<rparr>) = released s" "released (s\<lparr>sb_applying := a\<rparr>) = released s"
  "released (s\<lparr>ct_resuming := r\<rparr>) = released s" "released (emit e s) = released s"
  "released (spawn w s) = released s"
  by (simp_all add: released_def)

lemma released_finish: "released s \<Longrightarrow> released (finish_call env r t s)"
  by (simp add: finish_call_def released_def Let_def)

lemma released_add_remote: "released s \<Longrightarrow> released (add_remote env pc c s)"
  by (auto simp: add_remote_def Let_def released_finish released_cong [of "emit _ _"] split: option.split)

lemma released_flush_buffered:
  "released s \<Longrightarrow> flush_buffered env pc cs rest s = (r, s') \<Longrightarrow> released s'"
proof (induction env pc cs rest s arbitrary: r rule: flush_buffered.induct)
  case (2 env pc c cs rest s)
  then show ?case by (auto simp: Let_def released_add_remote split: if_splits)
qed simp

lemma released_flush: "released s \<Longrightarrow> released (flush_remote env pc s)"
  by (cases "flush_buffered env pc (ct_remote_buf s pc) [] (s\<lparr>ct_remote_buf := (ct_remote_buf s)(pc := [])\<rparr>)")
    (auto simp: flush_remote_def split: option.split dest: released_flush_buffered [rotated])

lemma released_reannounce: "released s \<Longrightarrow> released (reannounce_media env s)"
proof (cases "ct_ended s")
  case True
  assume "released s"
  with True show ?thesis by (simp add: released_def reannounce_media_def flush_reannounce_def)
qed (simp add: released_live)

lemma released_kept [simp]:
  "released (on_offer env v sdp ss s) = released s" "released (start_publish_offer s) = released s"
  "released (set_status st s) = released s" "released (on_participant data s) = released s"
  by (rule released_cong; auto simp: on_participant_def Let_def split: option.split)+

lemma released_joined: "released s \<Longrightarrow> released (on_joined env data s)"
  by (cases "parse_joined data") (simp_all add: on_joined_def Let_def released_finish, simp add: released_def)

lemma released_frame: "released s \<Longrightarrow> released (on_frame env f s)"
  by (simp add: on_frame_def Let_def released_joined on_remote_candidate_def released_add_remote
      released_finish split: option.split)

lemma released_turn:
  assumes "released s" and "enabled s ev"
  shows "released (call_next env ev s)"
proof (cases "ct_ended (call_next env ev s) \<and> \<not> ct_ended s")
  case True
  note live = True [THEN conjunct2, THEN released_live]
  show ?thesis
  proof (cases ev)
    case (FrameEvent f)
    with live show ?thesis by (simp add: call_next_def released_frame)
  next
    case (InputEvent i)
    with live True show ?thesis
      by (cases i) (auto simp: call_next_def on_input_def Let_def released_finish split: if_splits)
  next
    case (DoneEvent w d)
    define s0 where "s0 = s\<lparr>ct_work := remove1 w (ct_work s)\<rparr>"
    have s0: "\<not> ct_ended s0" "ct_ended (on_done env d s0)" "released s0"
      using True DoneEvent by (simp_all add: s0_def call_next_def released_live)
    have "released (on_done env d s0)"
    proof (cases d)
      case (PublishApplied q sdp res)
      with s0 show ?thesis
        by (auto simp: on_done_def on_publish_applied_def Let_def released_finish split: option.splits)
          (simp_all add: released_reannounce released_flush)
    next
      case (SubscribeApplied q v ss res)
      with s0 show ?thesis
        by (auto simp: on_done_def on_subscribe_applied_def Let_def released_finish released_flush
            split: sum.splits if_splits)
    next
      case (SubscribeAck v res)
      with s0 show ?thesis
        by (auto simp: on_done_def on_subscribe_ack_def Let_def released_finish split: sum.splits option.splits if_splits)
    next
      case (Resumed g res)
      with s0 show ?thesis
        by (auto simp: on_done_def on_resumed_def after_resume_steps Let_def released_finish
            split: sum.splits command_error.splits)
    next
      case (MediaAck i p res)
      with s0 show ?thesis
        by (auto simp: on_done_def on_media_ack_steps Let_def split: option.splits)
    qed (use s0 in \<open>auto simp: on_done_def released_finish split: sum.splits if_splits\<close>)
    with DoneEvent show ?thesis by (simp add: call_next_def s0_def)
  qed (use live True in \<open>auto simp: call_next_def released_finish split: if_splits\<close>)
next
  case False
  then show ?thesis
  proof (cases "ct_ended s")
    case True
    with assms(2) obtain t where "ev = LeaveEvent t" by (cases ev) (auto simp: enabled_def)
    with assms(1) show ?thesis by (simp add: call_next_def released_def)
  qed (use False in \<open>simp add: released_live\<close>)
qed

text \<open>Every turn hands on the callers it has, and takes in those that ask.\<close>

lemma tokens_work: "leaving_token w = None \<Longrightarrow> tokens (s\<lparr>ct_work := remove1 w (ct_work s)\<rparr>) = tokens s"
proof -
  have "List.map_filter f (remove1 w xs) = List.map_filter f xs" if "f w = None" for f :: "work \<Rightarrow> nat option" and xs
    using that by (induction xs) (auto simp: map_filter_simps split: option.split)
  then show "leaving_token w = None \<Longrightarrow> tokens (s\<lparr>ct_work := remove1 w (ct_work s)\<rparr>) = tokens s"
    by (simp add: tokens_def answered_tokens_def held_tokens_def)
qed

lemma tokens_left:
  assumes "LeaveWork t \<in> set (ct_work s)"
  shows "add_mset t (tokens (s\<lparr>ct_work := remove1 (LeaveWork t) (ct_work s)\<rparr>)) = tokens s"
proof -
  have "mset (List.map_filter leaving_token xs) =
      add_mset t (mset (List.map_filter leaving_token (remove1 (LeaveWork t) xs)))"
    if "LeaveWork t \<in> set xs" for xs
    using that by (induction xs) (auto simp: map_filter_simps split: option.split)
  from this [OF assms] show ?thesis
    by (simp add: tokens_def answered_tokens_def held_tokens_def)
qed

lemma tokens_done:
  assumes "call_ok s" and "\<not> ct_ended s" and "w \<in> set (ct_work s)" and "work_done w d"
  shows "tokens (on_done env d (s\<lparr>ct_work := remove1 w (ct_work s)\<rparr>)) = tokens s"
proof -
  define s0 where "s0 = s\<lparr>ct_work := remove1 w (ct_work s)\<rparr>"
  have "leaving_token w = None" using assms(4) by (cases w) auto
  then have s0: "tokens s0 = tokens s" by (simp add: s0_def tokens_work)
  have ok: "media_ok (media_view s)" using assms(1,2) by (simp add: call_ok_def)
  then have m: "media_ok (media_view s0)" if "\<not> media_work w" using that by (simp add: s0_def)
  have "tokens (on_done env d s0) = tokens s0"
  proof (cases d)
    case (PublishApplied q sdp res)
    with assms(4) have "\<not> media_work w" by (cases w) auto
    note ok0 = m [OF this]
    define u where "u = flush_remote env Publish (s0\<lparr>ct_applied_mids :=
        (ct_applied_mids s0)(Publish := Some (mids_of sdp)), ct_publish := Stable\<rparr>)"
    have "media_view u = media_view s0" if "\<not> ct_ended u" using that by (simp add: u_def)
    then have "ct_ended u \<or> media_ok (media_view u)" using ok0 by metis
    then have "tokens (reannounce_media env u) = tokens s0" by (simp add: tokens_reannounce u_def)
    with PublishApplied show ?thesis
      by (auto simp: on_done_def on_publish_applied_def Let_def u_def split: option.split)
  next
    case (Resumed g res)
    with assms(4) have "\<not> media_work w" by (cases w) auto
    note ok0 = m [OF this]
    from Resumed ok0 show ?thesis
      by (auto simp: on_done_def on_resumed_def Let_def tokens_after_resume
          split: sum.split command_error.split)
  next
    case (MediaAck i p res)
    with assms(4) have "w = MediaWork i p" by (cases w) auto
    with media_work_found [OF ok] assms(3) have "filter media_work (ct_work s0) = []"
      by (simp add: s0_def filter_remove1)
    with MediaAck show ?thesis by (simp add: on_done_def tokens_ack)
  qed (auto simp: on_done_def on_subscribe_applied_def on_subscribe_ack_def Let_def
      split: sum.split option.split)
  with s0 show ?thesis by (simp add: s0_def)
qed

lemma tokens_turn:
  assumes "call_ok s" and "enabled s ev"
  shows "tokens (call_next env ev s) = tokens s + asks ev"
proof (cases ev)
  case (InputEvent i)
  with assms have "media_ok (media_view s)" by (auto simp: call_ok_def enabled_def)
  with InputEvent show ?thesis by (simp add: call_next_def tokens_input)
next
  case (DoneEvent w d)
  with assms show ?thesis by (simp add: call_next_def enabled_def tokens_done)
next
  case (LeaveEvent t)
  with assms show ?thesis by (simp add: call_next_def enabled_def tokens_left)
qed (simp_all add: call_next_def)

lemma tokens_runs:
  assumes "call_runs env s evs s'" and "call_ok s" and "\<forall>ev \<in> set evs. call_named ev"
  shows "tokens s' = tokens s + (\<Sum>ev\<leftarrow>evs. asks ev)"
  using assms
proof (induction rule: call_runs.induct)
  case (turn evs s' ev)
  then have "call_ok s'" by (auto intro: call_runs_ok)
  with turn show ?case by (simp add: tokens_turn)
qed simp

lemma released_runs: "call_runs env s evs s' \<Longrightarrow> released s \<Longrightarrow> released s'"
  by (induction rule: call_runs.induct) (auto intro: released_turn)

end
