(* ===== verification/Call_Order.thy ===== *)
theory Call_Order
  imports Call_Log
begin

text \<open>
  The orders the call task keeps: remote candidates reach the engine as they came, local ones
  follow their offer, and a renegotiation asked for is followed by an offer.
\<close>

section \<open>Remote candidates\<close>

definition candidate_of :: "pc_kind \<Rightarrow> effect \<Rightarrow> ice_candidate option option" where
  "candidate_of pc e =
     (case e of EngineCandidate pc' c \<Rightarrow> if pc' = pc then Some c else None | _ \<Rightarrow> None)"

text \<open>What the engine was given for a connection, in order, and what the server sent for it.\<close>

definition added :: "pc_kind \<Rightarrow> call \<Rightarrow> ice_candidate option list" where
  "added pc s = List.map_filter (candidate_of pc) (ct_log s)"

definition received_in :: "pc_kind \<Rightarrow> call_event \<Rightarrow> ice_candidate option list" where
  "received_in pc ev =
     (case ev of
        FrameEvent f \<Rightarrow>
          if cf_ty f = ''call.ice'' \<and> parse_pc_kind (jindex ''pc'' (cf_data f)) = Some pc
          then [parse_ice_candidate (jindex ''candidate'' (cf_data f))] else []
      | _ \<Rightarrow> [])"

definition received :: "pc_kind \<Rightarrow> call_event list \<Rightarrow> ice_candidate option list" where
  "received pc evs = concat (map (received_in pc) evs)"

lemma added_log: "ct_log s' = ct_log s \<Longrightarrow> added pc s' = added pc s"
  by (simp add: added_def)

lemma added_emit [simp]:
  "candidate_of pc e = None \<Longrightarrow> added pc (emit e s) = added pc s"
  "added pc (emit (EngineCandidate pc' c) s) = added pc s @ (if pc' = pc then [c] else [])"
  by (simp_all add: added_def emit_def map_filter_simps candidate_of_def)

lemma candidate_of_simps [simp]:
  "candidate_of pc (Started g f) = None" "candidate_of pc (Notified g f) = None"
  "candidate_of pc (EngineMedia a b) = None" "candidate_of pc (EngineIce i) = None"
  "candidate_of pc EngineClosed = None" "candidate_of pc (Answered t r) = None"
  "candidate_of pc (RouteRemoved x) = None"
  by (simp_all add: candidate_of_def)

lemma added_update [simp]:
  "added pc (s\<lparr>ct_state := v_state\<rparr>) = added pc s"
  "added pc (s\<lparr>ct_call_id := v_call_id\<rparr>) = added pc s"
  "added pc (s\<lparr>ct_participant_id := v_participant_id\<rparr>) = added pc s"
  "added pc (s\<lparr>ct_resume_token := v_resume_token\<rparr>) = added pc s"
  "added pc (s\<lparr>ct_generation := v_generation\<rparr>) = added pc s"
  "added pc (s\<lparr>ct_connected := v_connected\<rparr>) = added pc s"
  "added pc (s\<lparr>ct_resuming := v_resuming\<rparr>) = added pc s"
  "added pc (s\<lparr>ct_epoch := v_epoch\<rparr>) = added pc s"
  "added pc (s\<lparr>ct_publish_wanted := v_publish_wanted\<rparr>) = added pc s"
  "added pc (s\<lparr>ct_publish := v_publish\<rparr>) = added pc s"
  "added pc (s\<lparr>ct_republish_pending := v_republish_pending\<rparr>) = added pc s"
  "added pc (s\<lparr>ct_pub_seq := v_pub_seq\<rparr>) = added pc s"
  "added pc (s\<lparr>ct_unsent_offer := v_unsent_offer\<rparr>) = added pc s"
  "added pc (s\<lparr>ct_pub_candidates := v_pub_candidates\<rparr>) = added pc s"
  "added pc (s\<lparr>sb_seq := v_seq\<rparr>) = added pc s"
  "added pc (s\<lparr>sb_latest := v_latest\<rparr>) = added pc s"
  "added pc (s\<lparr>sb_applying := v_applying\<rparr>) = added pc s"
  "added pc (s\<lparr>sb_retained := v_retained\<rparr>) = added pc s"
  "added pc (s\<lparr>sb_acked := v_acked\<rparr>) = added pc s"
  "added pc (s\<lparr>ct_applied_mids := v_applied_mids\<rparr>) = added pc s"
  "added pc (s\<lparr>ct_remote_buf := v_remote_buf\<rparr>) = added pc s"
  "added pc (s\<lparr>md_engine := v_engine\<rparr>) = added pc s"
  "added pc (s\<lparr>md_in_flight := v_in_flight\<rparr>) = added pc s"
  "added pc (s\<lparr>md_queued := v_queued\<rparr>) = added pc s"
  "added pc (s\<lparr>md_dirty := v_dirty\<rparr>) = added pc s"
  "added pc (s\<lparr>md_reannounce := v_reannounce\<rparr>) = added pc s"
  "added pc (s\<lparr>ct_media_reply := v_media_reply\<rparr>) = added pc s"
  "added pc (s\<lparr>ct_ended := v_ended\<rparr>) = added pc s"
  "added pc (s\<lparr>ct_work := v_work\<rparr>) = added pc s"
  by (rule added_log; simp)+

lemma added_primitives [simp]:
  "added pc (spawn w s) = added pc s" "added pc (set_status st s) = added pc s"
  "added pc (answer t r s) = added pc s" "added pc (notify_command env g f s) = added pc s"
  by (simp_all add: spawn_def set_status_def answer_def notify_command_def split: option.split)

lemma added_start: "start_command env g f w s = (b, s') \<Longrightarrow> added pc s' = added pc s"
  by (auto elim!: start_commandE)

lemma added_finish [simp]: "added pc (finish_call env r t s) = added pc s"
  by (simp add: finish_call_def Let_def)

lemma added_candidate [simp]:
  "added pc (send_candidate env pc' c s) = added pc s"
  "added pc (fold (send_candidate env pc') cs s) = added pc s"
  "added pc (on_local_candidate env pc' c s) = added pc s"
proof -
  show one: "added pc (send_candidate env pc' c s) = added pc s" for c s by (simp add: send_candidate_def)
  show "added pc (fold (send_candidate env pc') cs s) = added pc s"
    by (induction cs arbitrary: s) (simp_all add: one)
  show "added pc (on_local_candidate env pc' c s) = added pc s" by (simp add: on_local_candidate_def one)
qed

lemma added_offers [simp]:
  "added pc (start_publish_offer s) = added pc s" "added pc (send_publish env q off s) = added pc s"
  "added pc (send_retained_answer env s) = added pc s" "added pc (maybe_apply_offer s) = added pc s"
  "added pc (on_offer env v sdp ss s) = added pc s"
proof -
  show "added pc (start_publish_offer s) = added pc s" by (simp add: start_publish_offer_def)
  show "added pc (send_publish env q off s) = added pc s"
    by (auto simp: send_publish_def added_start split: prod.split bool.split)
  show r: "added pc (send_retained_answer env s) = added pc s"
    by (auto simp: send_retained_answer_def added_start [OF prod.collapse [symmetric]] split: option.split)
  show m: "added pc (maybe_apply_offer s) = added pc s" for s
    by (auto simp: maybe_apply_offer_def split: option.split)
  show "added pc (on_offer env v sdp ss s) = added pc s" by (simp add: on_offer_def r m)
qed

lemma added_media [simp]:
  "added pc (send_media env a b p t s) = added pc s" "added pc (set_media env a b t' s) = added pc s"
  "added pc (flush_reannounce env s) = added pc s" "added pc (reannounce_media env s) = added pc s"
  "added pc (ack_answered env i p res s) = added pc s" "added pc (on_media_ack env i p res s) = added pc s"
proof -
  show sm: "added pc (send_media env a b p t s) = added pc s" for a b p t s
    by (auto simp: send_media_def added_start split: prod.split bool.split)
  show st: "added pc (set_media env a b t' s) = added pc s" for a b t' s
    by (auto simp: set_media_def Let_def sm split: option.split)
  show fr: "added pc (flush_reannounce env s) = added pc s" for s
    by (auto simp: flush_reannounce_def sm split: option.split)
  show "added pc (reannounce_media env s) = added pc s" by (simp add: reannounce_media_def fr)
  show aa: "added pc (ack_answered env i p res s) = added pc s"
    by (auto simp: ack_answered_def Let_def split: sum.split command_error.split)
  show "added pc (on_media_ack env i p res s) = added pc s"
    by (auto simp: on_media_ack_steps Let_def fr st aa split: option.split)
qed

lemma added_link [simp]:
  "added pc (on_conn env c s) = added pc s" "added pc (after_resume env s) = added pc s"
  "added pc (on_joined env data s) = added pc s"
proof -
  show "added pc (on_conn env c s) = added pc s" by (auto simp: on_conn_def Let_def start_command_def)
  show "added pc (after_resume env s) = added pc s"
    by (auto simp: after_resume_steps resume_media_def resume_offer_def resume_publish_def
        split: option.split publish_state.split)
  show "added pc (on_joined env data s) = added pc s" by (auto simp: on_joined_def Let_def split: option.split)
qed

text \<open>Given to the engine, then waiting for a description.\<close>

definition remote_seq :: "pc_kind \<Rightarrow> call \<Rightarrow> ice_candidate option list" where
  "remote_seq pc s = added pc s @ ct_remote_buf s pc"

lemma remote_seq_kept:
  "added pc s' = added pc s \<Longrightarrow> remote_view s' = remote_view s \<Longrightarrow> remote_seq pc s' = remote_seq pc s"
  by (simp add: remote_seq_def remote_view_def)

lemma add_remote_added:
  "added pc (add_remote env pc' c s) = added pc s @ (if pc' = pc then [c] else [])"
  by (simp add: add_remote_def Let_def split: option.split)

lemma remote_buf_view: "remote_view s' = remote_view s \<Longrightarrow> ct_remote_buf s' = ct_remote_buf s"
  by (simp add: remote_view_def)

lemma remote_candidate_seq:
  "remote_seq pc (on_remote_candidate env pc' c s) = remote_seq pc s @ (if pc' = pc then [c] else [])"
  by (auto simp: on_remote_candidate_def remote_seq_def add_remote_added
      remote_buf_view [OF add_remote_views(1)])

lemma flush_buffered_seq:
  "flush_buffered env pc cs rest s = (r, s') \<Longrightarrow> \<not> ct_ended s' \<or> r \<noteq> None \<Longrightarrow>
   \<exists>rest'. r = Some rest' \<and> added pc s' @ rest' = added pc s @ rest @ cs"
proof (induction env pc cs rest s arbitrary: r rule: flush_buffered.induct)
  case (2 env pc c cs rest s)
  then show ?case by (auto simp: Let_def add_remote_added split: if_splits option.splits)
qed simp

lemma flush_buffered_other:
  "flush_buffered env pc' cs rest s = (r, s') \<Longrightarrow> pc \<noteq> pc' \<Longrightarrow> added pc s' = added pc s"
proof (induction env pc' cs rest s arbitrary: r rule: flush_buffered.induct)
  case (2 env pc' c cs rest s)
  then show ?case by (auto simp: Let_def add_remote_added split: if_splits)
qed simp

lemma flush_remote_seq:
  assumes "\<not> ct_ended (flush_remote env pc' s)"
  shows "remote_seq pc (flush_remote env pc' s) = remote_seq pc s"
proof -
  define s0 where "s0 = s\<lparr>ct_remote_buf := (ct_remote_buf s)(pc' := [])\<rparr>"
  obtain r s' where f: "flush_buffered env pc' (ct_remote_buf s pc') [] s0 = (r, s')" by force
  have live: "\<not> ct_ended s'" using assms f by (cases r) (simp_all add: flush_remote_def s0_def)
  obtain rest where r: "r = Some rest" and seq: "added pc' s' @ rest = added pc' s @ ct_remote_buf s pc'"
    using flush_buffered_seq [OF f] live by (cases r) (auto simp: s0_def)
  have b: "ct_remote_buf s' = (ct_remote_buf s)(pc' := [])"
    using flush_buffered_views(5) [OF f] by (simp add: remote_view_def s0_def)
  have fl: "flush_remote env pc' s = s'\<lparr>ct_remote_buf := (ct_remote_buf s')(pc' := rest)\<rparr>"
    using f r by (simp add: flush_remote_def s0_def)
  show ?thesis
  proof (cases "pc = pc'")
    case True
    with seq show ?thesis by (simp add: fl remote_seq_def)
  next
    case False
    with flush_buffered_other [OF f False] show ?thesis by (simp add: fl remote_seq_def b s0_def)
  qed
qed

lemma remote_seq_update [simp]:
  "remote_seq pc (s\<lparr>ct_applied_mids := m\<rparr>) = remote_seq pc s"
  "remote_seq pc (s\<lparr>ct_work := w\<rparr>) = remote_seq pc s"
  by (simp_all add: remote_seq_def)

lemma remote_view_more [simp]:
  "remote_view (on_media_ack env i p res s) = remote_view s"
  "remote_view (after_resume env s) = remote_view s"
  "remote_view (on_joined env data s) = remote_view s"
  "remote_view (on_participant data s) = remote_view s"
  by (auto simp: on_media_ack_steps after_resume_steps on_joined_def on_participant_def Let_def
      split: option.split)

lemma added_participant [simp]: "added pc (on_participant data s) = added pc s"
  by (auto simp: on_participant_def Let_def split: option.split)

lemma remote_seq_methods [simp]:
  "remote_seq pc (finish_call env r t s) = remote_seq pc s"
  "remote_seq pc (send_publish env q off s) = remote_seq pc s"
  "remote_seq pc (on_media_ack env i p res s) = remote_seq pc s"
  "remote_seq pc (after_resume env s) = remote_seq pc s"
  "remote_seq pc (on_joined env data s) = remote_seq pc s"
  "remote_seq pc (on_participant data s) = remote_seq pc s"
  "remote_seq pc (on_offer env v sdp ss s) = remote_seq pc s"
  "remote_seq pc (on_conn env c s) = remote_seq pc s"
  "remote_seq pc (on_local_candidate env pc' c' s) = remote_seq pc s"
  "remote_seq pc (set_media env a b t' s) = remote_seq pc s"
  "remote_seq pc (answer t'' r' s) = remote_seq pc s"
  "remote_seq pc (start_publish_offer s) = remote_seq pc s"
  "remote_seq pc (spawn w s) = remote_seq pc s"
  "remote_seq pc (set_status st s) = remote_seq pc s"
  "candidate_of pc e = None \<Longrightarrow> remote_seq pc (emit e s) = remote_seq pc s"
  "remote_seq pc (s\<lparr>ct_resuming := x\<rparr>) = remote_seq pc s"
  "remote_seq pc (s\<lparr>ct_generation := g\<rparr>) = remote_seq pc s"
  "remote_seq pc (s\<lparr>ct_connected := x\<rparr>) = remote_seq pc s"
  "remote_seq pc (s\<lparr>ct_publish := p'\<rparr>) = remote_seq pc s"
  "remote_seq pc (s\<lparr>ct_republish_pending := x\<rparr>) = remote_seq pc s"
  "remote_seq pc (s\<lparr>sb_applying := a'\<rparr>) = remote_seq pc s"
  "remote_seq pc (s\<lparr>sb_retained := r''\<rparr>) = remote_seq pc s"
  "remote_seq pc (s\<lparr>sb_acked := n\<rparr>) = remote_seq pc s"
  by (rule remote_seq_kept; simp)+

lemma remote_seq_done:
  assumes "\<not> ct_ended (on_done env d s)"
  shows "remote_seq pc (on_done env d s) = remote_seq pc s"
proof (cases d)
  case (PublishApplied q sdp res)
  define t where "t = s\<lparr>ct_applied_mids := (ct_applied_mids s)(Publish := Some (mids_of sdp)), ct_publish := Stable\<rparr>"
  define u where "u = flush_remote env Publish t"
  show ?thesis
  proof (cases "ct_publish s = ApplyingAnswer q \<and> res = None")
    case True
    with PublishApplied have r: "on_done env d s = (let s = reannounce_media env u
        in if ct_republish_pending s \<and> ct_connected s \<and> \<not> ct_ended s then start_publish_offer s else s)"
      by (simp add: on_done_def on_publish_applied_def u_def t_def Let_def)
    with assms have "\<not> ct_ended u" by (auto simp: Let_def split: if_splits)
    then have "remote_seq pc u = remote_seq pc s"
      unfolding u_def by (subst flush_remote_seq) (simp_all add: t_def)
    moreover have "remote_seq pc (on_done env d s) = remote_seq pc u"
      by (rule remote_seq_kept) (simp_all add: r Let_def)
    ultimately show ?thesis by simp
  qed (use PublishApplied assms in \<open>auto simp: on_done_def on_publish_applied_def split: option.splits\<close>)
next
  case (SubscribeApplied q v ss res)
  define t where "t = s\<lparr>sb_applying := None, ct_applied_mids := (ct_applied_mids s)(Subscribe := Some (map ss_mid ss))\<rparr>"
  define u where "u = flush_remote env Subscribe t"
  show ?thesis
  proof (cases "map_option fst (sb_applying s) = Some q \<and> (\<exists>sdp. res = Inr sdp)")
    case True
    then obtain sdp where "res = Inr sdp" by blast
    with True SubscribeApplied have r: "on_done env d s = (if ct_ended u then u
        else if sb_latest u \<noteq> None then maybe_apply_offer u
        else send_retained_answer env (u\<lparr>sb_retained := Some (v, sdp)\<rparr>))"
      by (simp add: on_done_def on_subscribe_applied_def u_def t_def Let_def)
    with assms have "\<not> ct_ended u" by (auto split: if_splits)
    then have "remote_seq pc u = remote_seq pc s"
      unfolding u_def by (subst flush_remote_seq) (simp_all add: t_def)
    moreover have "remote_seq pc (on_done env d s) = remote_seq pc u"
      by (rule remote_seq_kept) (simp_all add: r)
    ultimately show ?thesis by simp
  qed (use SubscribeApplied assms in \<open>auto simp: on_done_def on_subscribe_applied_def Let_def
      split: sum.splits\<close>)
qed (auto simp: on_done_def on_subscribe_ack_def on_resumed_def Let_def
    split: sum.split option.split command_error.split)

lemma remote_seq_turn:
  assumes "enabled s ev" and "\<not> ct_ended (call_next env ev s)"
  shows "remote_seq pc (call_next env ev s) = remote_seq pc s @ received_in pc ev"
proof (cases ev)
  case (FrameEvent f)
  show ?thesis
  proof (cases "cf_ty f = ''call.ice''")
    case True
    with FrameEvent show ?thesis
      by (auto simp: call_next_def on_frame_def Let_def received_in_def remote_candidate_seq split: option.split)
  next
    case False
    with FrameEvent show ?thesis
      by (auto simp: call_next_def on_frame_def Let_def received_in_def split: option.split)
  qed
next
  case (InputEvent i)
  then show ?thesis
    by (cases i) (auto simp: call_next_def on_input_def Let_def received_in_def)
next
  case (DoneEvent w d)
  with assms show ?thesis by (simp add: call_next_def received_in_def remote_seq_done)
qed (use assms in \<open>auto simp: call_next_def received_in_def\<close>)

lemma ended_stays: "ct_ended s \<Longrightarrow> enabled s ev \<Longrightarrow> ct_ended (call_next env ev s)"
  by (cases ev) (auto simp: enabled_def call_next_def)

lemma remote_seq_runs:
  assumes "call_runs env s evs s'" and "\<not> ct_ended s'"
  shows "remote_seq pc s' = remote_seq pc s @ received pc evs"
  using assms
proof (induction rule: call_runs.induct)
  case (turn evs s' ev)
  then have "\<not> ct_ended s'" using ended_stays by blast
  with turn show ?case by (simp add: remote_seq_turn received_def)
qed (simp add: received_def)

section \<open>Renegotiation\<close>

text \<open>
  A renegotiation asked for at offer \<open>n\<close> is either still pending or was followed by a newer offer;
  and none is pending once the publish connection is stable and the call connected.
\<close>

definition renewed :: "nat \<Rightarrow> call \<Rightarrow> bool" where
  "renewed n s \<longleftrightarrow> n \<le> ct_pub_seq s \<and> (ct_republish_pending s \<or> n < ct_pub_seq s)"

definition settled :: "call \<Rightarrow> bool" where
  "settled s \<longleftrightarrow>
     (\<not> ct_ended s \<and> ct_connected s \<and> ct_publish s = Stable \<longrightarrow> \<not> ct_republish_pending s)"

lemma renewed_cong: "publish_view s' = publish_view s \<Longrightarrow> renewed n s' = renewed n s"
  by (simp add: renewed_def publish_view_eq)

lemma renewed_offer: "renewed n s \<Longrightarrow> renewed n (start_publish_offer s)"
  by (simp add: renewed_def start_publish_offer_def spawn_def)

lemma renewed_update [simp]:
  "renewed n (s\<lparr>ct_publish := p\<rparr>) = renewed n s" "renewed n (s\<lparr>ct_unsent_offer := u\<rparr>) = renewed n s"
  "renewed n (s\<lparr>ct_work := w\<rparr>) = renewed n s" "renewed n (s\<lparr>ct_applied_mids := m\<rparr>) = renewed n s"
  "renewed n (s\<lparr>ct_call_id := c\<rparr>) = renewed n s" "renewed n (s\<lparr>ct_resuming := r\<rparr>) = renewed n s"
  "renewed n (spawn x s) = renewed n s"
  by (simp_all add: renewed_def spawn_def)

lemma renewed_kept [simp]:
  "renewed n (finish_call env r t s) = renewed n s" "renewed n (flush_remote env pc s) = renewed n s"
  "renewed n (reannounce_media env s) = renewed n s" "renewed n (on_conn env c s) = renewed n s"
  "renewed n (on_media_ack env i p res s) = renewed n s" "renewed n (answer t' r' s) = renewed n s"
  "renewed n (on_offer env v sdp ss s) = renewed n s" "renewed n (set_media env a b t'' s) = renewed n s"
  "renewed n (on_local_candidate env pc c' s) = renewed n s"
  "renewed n (on_remote_candidate env pc c' s) = renewed n s"
  "renewed n (on_subscribe_ack env v res s) = renewed n s" "renewed n (on_participant data s) = renewed n s"
  "renewed n (on_subscribe_applied env q v ss res' s) = renewed n s"
  by (rule renewed_cong; auto simp: on_media_ack_steps on_subscribe_ack_def on_participant_def
      on_subscribe_applied_def Let_def split: option.split sum.split)+

lemma renewed_publish: "renewed n (send_publish env q off s) = renewed n s"
proof -
  have "renewed n (fold (send_candidate env Publish) cs u) = renewed n u" for cs u
    by (rule renewed_cong) simp
  moreover have "renewed n (emit e u) = renewed n u" for e u by (rule renewed_cong) simp
  ultimately show ?thesis by (auto simp: send_publish_def start_command_def)
      (simp_all add: renewed_def emit_def spawn_def)
qed

lemma renewed_after_resume: "renewed n s \<Longrightarrow> renewed n (after_resume env s)"
proof -
  assume s: "renewed n s"
  then have "renewed n (resume_publish s)"
    by (auto simp: resume_publish_def renewed_offer split: publish_state.split)
  then have "renewed n (resume_offer env (resume_publish s))"
    by (auto simp: resume_offer_def renewed_publish split: option.split)
  then show ?thesis unfolding after_resume_steps by (subst renewed_cong [where s' = "flush_reannounce _ _"]) auto
qed

lemma renewed_joined: "renewed n s \<Longrightarrow> renewed n (on_joined env data s)"
proof -
  have u: "renewed n (emit e x) = renewed n x" "renewed n (set_status st x) = renewed n x"
    "renewed n (x\<lparr>ct_state := c\<rparr>) = renewed n x" "renewed n (x\<lparr>ct_participant_id := pid\<rparr>) = renewed n x"
    "renewed n (x\<lparr>ct_resume_token := tok\<rparr>) = renewed n x" for e x st c pid tok
    by (rule renewed_cong; simp)+
  show "renewed n s \<Longrightarrow> renewed n (on_joined env data s)"
    by (auto simp: on_joined_def Let_def u intro!: renewed_offer split: option.split)
qed

lemma renewed_turn: "renewed n s \<Longrightarrow> renewed n (call_next env ev s)"
proof (cases ev)
  case (FrameEvent f)
  then show "renewed n s \<Longrightarrow> renewed n (call_next env ev s)"
    by (simp add: call_next_def on_frame_def Let_def renewed_joined split: option.split)
next
  case (InputEvent i)
  have "renewed n (emit e x) = renewed n x" for e x by (rule renewed_cong) simp
  moreover have "renewed n s \<Longrightarrow> renewed n (s\<lparr>ct_republish_pending := True\<rparr>)" by (simp add: renewed_def)
  ultimately show "renewed n s \<Longrightarrow> renewed n (call_next env ev s)"
    using InputEvent by (cases i) (auto simp: call_next_def on_input_def Let_def renewed_offer)
next
  case (DoneEvent w d)
  have "renewed n (set_status st (x\<lparr>ct_generation := g, ct_connected := c\<rparr>)) = renewed n x" for x st g c
    by (rule renewed_cong) simp
  with DoneEvent show "renewed n s \<Longrightarrow> renewed n (call_next env ev s)"
    by (cases d) (auto simp: call_next_def on_done_def on_publish_applied_def on_resumed_def Let_def
        renewed_publish intro!: renewed_offer renewed_after_resume
        split: option.split sum.split command_error.split)
qed (auto simp: call_next_def)

lemma renewed_runs: "call_runs env s evs s' \<Longrightarrow> renewed n s \<Longrightarrow> renewed n s'"
  by (induction rule: call_runs.induct) (auto intro: renewed_turn)

lemma settled_cong:
  "publish_view s' = publish_view s \<Longrightarrow> link_view s' = link_view s \<Longrightarrow> \<not> ct_ended s \<Longrightarrow>
   settled s \<Longrightarrow> settled s'"
  by (simp add: settled_def publish_view_eq link_view_eq)

lemma settled_moving: "ct_publish s \<noteq> Stable \<Longrightarrow> settled s"
  by (simp add: settled_def)

lemma settled_quiet: "\<not> ct_republish_pending s \<Longrightarrow> settled s"
  by (simp add: settled_def)

lemma settled_away: "\<not> ct_connected s \<Longrightarrow> settled s"
  by (simp add: settled_def)

lemma not_pending_offer [simp]: "\<not> ct_republish_pending (start_publish_offer s)"
  by (simp add: start_publish_offer_def spawn_def)

lemma not_stable_publish: "ct_publish s = Offering q \<Longrightarrow> ct_publish (send_publish env q' off s) \<noteq> Stable"
proof -
  have f: "ct_publish (fold (send_candidate env Publish) cs u) = ct_publish u" for cs u
    using publish_view_eq [THEN iffD1, of "fold (send_candidate env Publish) cs u" u] by simp
  show "ct_publish s = Offering q \<Longrightarrow> ct_publish (send_publish env q' off s) \<noteq> Stable"
    by (auto simp: send_publish_def f start_command_def emit_def spawn_def)
qed

lemma settled_after_resume: "settled (after_resume env s)"
proof -
  define u where "u = resume_offer env (resume_publish s)"
  have "ct_publish (resume_publish s) = Stable \<longrightarrow> \<not> ct_republish_pending (resume_publish s)"
    by (auto simp: resume_publish_def split: publish_state.split)
  then have "ct_publish u = Stable \<longrightarrow> \<not> ct_republish_pending u"
    using not_stable_publish by (auto simp: u_def resume_offer_def split: option.split) 
  moreover have "publish_view (after_resume env s) = publish_view u" by (simp add: after_resume_steps u_def)
  ultimately show ?thesis by (simp add: settled_def publish_view_eq)
qed

lemma settled_finish [simp]: "settled (finish_call env r t s)"
  by (simp add: settled_def)

lemma settled_update [simp]:
  "settled (s\<lparr>ct_work := w\<rparr>) = settled s" "settled (s\<lparr>ct_state := c\<rparr>) = settled s"
  "settled (s\<lparr>ct_call_id := i\<rparr>) = settled s" "settled (s\<lparr>ct_participant_id := i\<rparr>) = settled s"
  "settled (s\<lparr>ct_resume_token := i\<rparr>) = settled s" "settled (emit e s) = settled s"
  "settled (set_status st s) = settled s" "settled (spawn x s) = settled s"
  "settled (answer t r s) = settled s" "settled (s\<lparr>ct_resuming := b\<rparr>) = settled s"
  by (simp_all add: settled_def emit_def set_status_def spawn_def answer_def split: option.split)

lemma settled_remote: "settled s \<Longrightarrow> settled (on_remote_candidate env pc c s)"
  by (cases "ct_ended s"; cases "ct_ended (on_remote_candidate env pc c s)")
    (auto simp: settled_def [of "on_remote_candidate _ _ _ _"] on_remote_candidate_def add_remote_def
      Let_def finish_again split: option.splits if_splits, auto simp: settled_def emit_def)

lemma settled_frame:
  assumes "settled s" and "\<not> ct_ended s"
  shows "settled (on_frame env f s)"
proof -
  have "settled (on_joined env data s)" for data
    using assms(1) by (auto simp: on_joined_def Let_def settled_quiet split: option.split)
  moreover have "settled (on_participant data s)" for data
    using assms(1) by (auto simp: on_participant_def Let_def split: option.split)
  moreover have "settled (on_offer env v sdp ss s)" for v sdp ss
    by (rule settled_cong [OF _ _ assms(2,1)]) simp_all
  ultimately show ?thesis
    using assms(1) by (auto simp: on_frame_def Let_def settled_remote split: option.split)
qed

lemma settled_done:
  assumes "settled s" and "\<not> ct_ended s"
  shows "settled (on_done env d s)"
proof (cases d)
  case (PublishOffered q res)
  with assms show ?thesis
    by (auto simp: on_done_def settled_moving not_stable_publish split: sum.split)
next
  case (PublishAnswered q res)
  with assms show ?thesis
    by (auto simp: on_done_def settled_moving split: sum.split)
next
  case (PublishApplied q sdp res)
  with assms show ?thesis
    by (auto simp: on_done_def on_publish_applied_def Let_def settled_quiet settled_def
        [of "reannounce_media _ _"] split: option.split)
next
  case (SubscribeApplied q v ss res)
  have "settled (on_subscribe_applied env q v ss res s)"
    by (rule settled_cong [OF _ _ assms(2,1)])
      (simp_all add: on_subscribe_applied_def Let_def split: sum.split)
  with SubscribeApplied show ?thesis by (simp add: on_done_def)
next
  case (SubscribeAck v res)
  have "settled (s\<lparr>sb_retained := r\<rparr>) = settled s" "settled (s\<lparr>sb_acked := a\<rparr>) = settled s"
    "settled (s\<lparr>sb_retained := r, sb_acked := a\<rparr>) = settled s" for r a by (simp_all add: settled_def)
  with SubscribeAck assms show ?thesis
    by (auto simp: on_done_def on_subscribe_ack_def Let_def split: sum.split option.split)
next
  case (Resumed g res)
  have "settled (on_conn env c s')" if "settled s'" for c s'
  proof (cases "ct_ended s'")
    case False
    with that show ?thesis
      by (auto simp: on_conn_def Let_def start_command_def) (simp_all add: settled_def emit_def set_status_def spawn_def)
  qed (simp add: settled_def)
  with Resumed assms show ?thesis
    by (auto simp: on_done_def on_resumed_def Let_def settled_after_resume split: sum.split command_error.split)
next
  case (MediaAck i p res)
  have "settled (on_media_ack env i p res s)"
    by (rule settled_cong [OF _ _ assms(2,1)]) (auto simp: on_media_ack_steps Let_def split: option.split)
  with MediaAck show ?thesis by (simp add: on_done_def)
qed

lemma settled_turn:
  assumes "settled s" and "enabled s ev"
  shows "settled (call_next env ev s)"
proof (cases "ct_ended s")
  case True
  with ended_stays [OF _ assms(2)] show ?thesis by (simp add: settled_def)
next
  case False
  note kept = settled_cong [OF _ _ False assms(1)]
  show ?thesis
  proof (cases ev)
    case (FrameEvent f)
    with assms(1) False show ?thesis by (simp add: call_next_def settled_frame)
  next
    case (InputEvent i)
    have "settled (on_local_candidate env pc c s)" "settled (set_media env a b t s)" for pc c a b t
      by (rule kept; simp)+
    moreover have "settled (s\<lparr>ct_republish_pending := True\<rparr>)"
      if "ct_publish s = Stable \<longrightarrow> \<not> ct_connected s" using that by (auto simp: settled_def)
    ultimately show ?thesis
      using InputEvent assms(1) by (cases i) (auto simp: call_next_def on_input_def Let_def settled_quiet)
  next
    case (DoneEvent w d)
    with assms(1) False show ?thesis by (simp add: call_next_def settled_done)
  next
    case (ConnEvent c)
    have "settled (on_conn env c s)"
      using False assms(1) by (auto simp: on_conn_def Let_def start_command_def)
        (simp_all add: settled_def emit_def set_status_def spawn_def)
    with ConnEvent show ?thesis by (simp add: call_next_def)
  qed (use assms(1) in \<open>auto simp: call_next_def\<close>)
qed

lemma settled_runs: "call_runs env s evs s' \<Longrightarrow> settled s \<Longrightarrow> settled s'"
  by (induction rule: call_runs.induct) (auto intro: settled_turn)

section \<open>Status\<close>

text \<open>Picking work up after a resume does not touch the state the apps see.\<close>

lemma after_resume_state: "ct_state (after_resume env s) = ct_state s"
proof -
  have c: "ct_state (fold (send_candidate env pc) cs u) = ct_state u" for pc cs u
    by (induction cs arbitrary: u) (simp_all add: send_candidate_def)
  have p: "ct_state (send_publish env q off u) = ct_state u" for q off u
    by (auto simp: send_publish_def start_command_def c)
  have m: "ct_state (send_media env a b pr t u) = ct_state u" for a b pr t u
    by (auto simp: send_media_def start_command_def)
  have "ct_state (resume_publish u) = ct_state u" for u
    by (auto simp: resume_publish_def start_publish_offer_def split: publish_state.split)
  moreover have "ct_state (resume_offer env u) = ct_state u" for u
    by (auto simp: resume_offer_def p split: option.split)
  moreover have "ct_state (send_retained_answer env u) = ct_state u" for u
    by (auto simp: send_retained_answer_def start_command_def split: option.split)
  moreover have "ct_state (resume_media env u) = ct_state u" for u
    by (auto simp: resume_media_def m split: option.split)
  moreover have "ct_state (flush_reannounce env u) = ct_state u" for u
    by (auto simp: flush_reannounce_def m split: option.split)
  ultimately show ?thesis by (simp add: after_resume_steps)
qed

section \<open>Local candidates\<close>

lemma held_local_candidates:
  "ct_publish s = Offering q \<Longrightarrow>
   fold (\<lambda>c. call_next env (InputEvent (LocalCandidate Publish c))) cs s =
     s\<lparr>ct_pub_candidates := ct_pub_candidates s @ cs\<rparr>"
  by (induction cs arbitrary: s) (simp_all add: call_next_def on_input_def on_local_candidate_def)

lemma sent_candidates:
  assumes "\<And>l g f. ce_notify env l g f"
  shows "ct_connected s \<Longrightarrow> ct_log (fold (send_candidate env pc) cs s) =
    ct_log s @ map (\<lambda>c. Notified (ct_generation s) (candidate_frame pc c s)) cs"
  using assms
  by (induction cs arbitrary: s)
    (simp_all add: send_candidate_def notify_command_def candidate_frame_def emit_def)

end
