(* ===== verification/Call_Properties.thy ===== *)
theory Call_Properties
  imports Call_Order
begin

text \<open>
  The properties of a call: whatever the server, the engine, the connection and the app do, in
  any order, from joining on.
\<close>

section \<open>A call to look at\<close>

text \<open>A list of events played from a state, where each is enabled.\<close>

fun play :: "call_env \<Rightarrow> call_event list \<Rightarrow> call \<Rightarrow> call option" where
  "play env [] s = Some s"
| "play env (ev # evs) s = (if enabled s ev then play env evs (call_next env ev s) else None)"

lemma call_runs_then:
  "call_runs env t evs' s' \<Longrightarrow> call_runs env s evs t \<Longrightarrow> call_runs env s (evs @ evs') s'"
proof (induction rule: call_runs.induct)
  case (turn evs'' s'' ev)
  have "call_runs env s ((evs @ evs'') @ [ev]) (call_next env ev s'')"
    using turn by (intro call_runs.turn) auto
  then show ?case by simp
qed simp

lemma play_runs: "play env evs s = Some s' \<Longrightarrow> call_runs env s evs s'"
proof (induction evs arbitrary: s)
  case (Cons ev evs)
  then have "call_runs env (call_next env ev s) evs s'" "enabled s ev" by (simp_all split: if_splits)
  moreover have "call_runs env s [] s" by (rule call_runs.begins)
  ultimately have "call_runs env s ([] @ [ev]) (call_next env ev s)" by (intro call_runs.turn) 
  with \<open>call_runs env (call_next env ev s) evs s'\<close> have "call_runs env s (([] @ [ev]) @ evs) s'"
    by (rule call_runs_then)
  then show ?case by simp
qed (simp add: call_runs.begins)

definition willing :: call_env where
  "willing = \<lparr>ce_start = (\<lambda>_ _ _. True), ce_notify = (\<lambda>_ _ _. True), ce_candidate = (\<lambda>_ _ _. None),
     ce_media = (\<lambda>_ _ _. None), ce_conn = (\<lambda>_. \<lparr>cn_generation = 1, cn_ready = True\<rparr>)\<rparr>"

definition joined_event :: call_event where
  "joined_event = FrameEvent \<lparr>cf_ty = ''call.joined'', cf_data = JObj [(''call_id'', JStr ''k''),
     (''self'', JObj [(''participant_id'', JStr ''p''), (''resume_token'', JStr ''t'')])]\<rparr>"

definition a_candidate :: ice_candidate where
  "a_candidate = \<lparr>ic_candidate = ''candidate:1'', ic_sdp_mid = Some ''0'', ic_sdp_mline_index = None\<rparr>"

definition ice_event :: call_event where
  "ice_event = FrameEvent \<lparr>cf_ty = ''call.ice'', cf_data = JObj [(''pc'', JStr ''publish''),
     (''candidate'', ice_candidate_json a_candidate)]\<rparr>"

definition answer_sdp :: string where "answer_sdp = ''a=mid:0''"

definition offer_events :: "nat \<Rightarrow> call_event list" where
  "offer_events q =
     [DoneEvent (OfferWork q) (PublishOffered q (Inr \<lparr>po_sdp = ''o'', po_tracks = []\<rparr>)),
      DoneEvent (AnswerWork q) (PublishAnswered q (Inr \<lparr>cr_ty = ''call.publish.answer'',
         cr_data = JObj [(''sdp'', JStr answer_sdp)]\<rparr>)),
      DoneEvent (ApplyWork q answer_sdp) (PublishApplied q answer_sdp None)]"

definition started :: call where "started = fresh_call 1 7 True"

lemma named_events: "\<forall>ev \<in> set (joined_event # ice_event # offer_events q). call_named ev"
  by (simp add: call_named_def joined_event_def ice_event_def offer_events_def parse_joined_def
      jget_str_def field_list_or_empty_def split: option.split)

section \<open>The properties\<close>

text \<open>
  C32. At any moment of a call, at most one operation is in flight for
  each peer connection (an offer being made or an answer applied for the publishing one, an offer
  applied for the subscribing one), at most one \<open>call.media\<close> and at most one resume; and the
  call's state says which publishing operation it is.
\<close>

theorem one_operation_per_connection:
  assumes "call_runs env (fresh_call g epoch wanted) evs s" and "\<forall>ev \<in> set evs. call_named ev"
    and "\<not> ct_ended s"
  shows "length (filter publish_work (ct_work s)) \<le> 1 \<and> length (filter subscribe_work (ct_work s)) \<le> 1 \<and>
    length (filter media_work (ct_work s)) \<le> 1 \<and> length (filter resume_work (ct_work s)) \<le> 1 \<and>
    (\<forall>q. OfferWork q \<in> set (ct_work s) \<longrightarrow> ct_publish s = Offering q) \<and>
    (\<forall>q sdp. ApplyWork q sdp \<in> set (ct_work s) \<longrightarrow> ct_publish s = ApplyingAnswer q)"
proof -
  have "call_ok s" using call_runs_ok [OF assms(1) call_ok_fresh assms(2)] .
  with assms(3) have ok: "publish_ok (publish_view s)" "subscribe_ok (subscribe_view s)"
    "media_ok (media_view s)" "link_ok (link_view s)" by (simp_all add: call_ok_def)
  have "length (filter publish_work (ct_work s)) \<le> 1"
    using ok(1) by (auto simp: publish_view_def split: publish_state.splits option.splits)
  moreover have "length (filter subscribe_work (ct_work s)) \<le> 1"
    using ok(2) by (auto simp: subscribe_view_def split: option.splits)
  moreover have "length (filter media_work (ct_work s)) \<le> 1"
    using ok(3) by (auto simp: media_view_def split: if_splits)
  moreover have "length (filter resume_work (ct_work s)) \<le> 1"
    using ok(4) by (auto simp: link_view_def split: if_splits)
  ultimately show ?thesis
    using publish_work_found(5) [OF ok(1)] by fastforce
qed

theorem one_operation_per_connection_witness:
  "\<exists>s. call_runs willing started (joined_event # offer_events 1) s \<and> ct_publish s = Stable \<and>
     length (filter publish_work (ct_work s)) \<le> 1"
proof -
  have "map_option (\<lambda>s. (ct_publish s, ct_ended s)) (play willing (joined_event # offer_events 1) started) =
      Some (Stable, False)" by code_simp
  then obtain s where s: "play willing (joined_event # offer_events 1) started = Some s"
    "ct_publish s = Stable" "\<not> ct_ended s" by auto
  from play_runs [OF s(1)] have "call_runs willing started (joined_event # offer_events 1) s" .
  with s one_operation_per_connection [OF this [unfolded started_def] _ s(3)] show ?thesis
    using named_events [of 1] by auto
qed

text \<open>
  C34. The media engine is closed when the call ends and only then, exactly once,
  and after that neither the engine is called nor a frame sent, except to tell the server that
  one left and to answer callers.
\<close>

theorem engine_closed_once:
  assumes "call_runs env (fresh_call g epoch wanted) evs s"
  shows "if ct_ended s
    then \<exists>before after. ct_log s = before @ EngineClosed # after \<and> EngineClosed \<notin> set before \<and>
           list_all quiet after
    else EngineClosed \<notin> set (ct_log s)"
proof -
  have h: "(ct_ended s \<longleftrightarrow> EngineClosed \<in> set (ct_log s)) \<and>
      list_all quiet (tl (dropWhile (\<lambda>e. e \<noteq> EngineClosed) (ct_log s)))"
    using shut_runs [OF assms shut_fresh] by (simp add: shut.holds_def shut_ok_def)
  show ?thesis
  proof (cases "ct_ended s")
    case True
    with h have "EngineClosed \<in> set (ct_log s)" by simp
    then obtain before after where ba: "ct_log s = before @ EngineClosed # after" "EngineClosed \<notin> set before"
      by (meson split_list_first)
    moreover from ba have "dropWhile (\<lambda>e. e \<noteq> EngineClosed) (ct_log s) = EngineClosed # after"
      by (subst ba(1), subst dropWhile_append2) auto
    ultimately show ?thesis using True h by auto
  qed (use h in simp)
qed

theorem engine_closed_once_witness:
  "\<exists>s before after. call_runs willing started [joined_event, InputEvent (Leave 5), LeaveEvent 5] s \<and>
     ct_log s = before @ EngineClosed # after \<and> EngineClosed \<notin> set before \<and> list_all quiet after"
proof -
  have "map_option ct_ended (play willing [joined_event, InputEvent (Leave 5), LeaveEvent 5] started) = Some True"
    by code_simp
  then obtain s where s: "play willing [joined_event, InputEvent (Leave 5), LeaveEvent 5] started = Some s"
    "ct_ended s" by auto
  from play_runs [OF s(1)] engine_closed_once [OF play_runs [OF s(1), unfolded started_def]] s(2)
  show ?thesis by auto
qed

text \<open>
  C37. Every frame of a call other than a request to resume it goes
  out on a connection the server confirmed the call on, by joining or resuming.
\<close>

theorem call_frames_on_joined_connection:
  assumes "call_runs env (fresh_call g epoch wanted) evs s"
  shows "\<forall>e \<in> set (ct_log s). frame_within (joined_on g evs) e"
proof -
  have "frames.holds (joined_on g evs) (fresh_call g epoch wanted)"
    by (simp add: frames.holds_def frames_ok_def fresh_call_def joined_on_def)
  from frames_runs [OF assms this, of g] show ?thesis by (simp add: frames.holds_def frames_ok_def list_all_iff)
qed

theorem call_frames_on_joined_connection_witness:
  "\<exists>s. call_runs willing started (joined_event # offer_events 1) s \<and>
     (\<exists>f. Started 1 f \<in> set (ct_log s) \<and> frame_type f = ''call.publish'') \<and>
     (\<forall>e \<in> set (ct_log s). frame_within {1} e)"
proof -
  have "map_option (\<lambda>s. map (\<lambda>e. case e of Started g f \<Rightarrow> (g, frame_type f) | _ \<Rightarrow> (0, [])) (ct_log s))
      (play willing (joined_event # offer_events 1) started) = Some [(1, ''call.publish'')]" by code_simp
  then obtain s where s: "play willing (joined_event # offer_events 1) started = Some s"
    "map (\<lambda>e. case e of Started g f \<Rightarrow> (g, frame_type f) | _ \<Rightarrow> (0, [])) (ct_log s) = [(1, ''call.publish'')]"
    by auto
  have "joined_on 1 (joined_event # offer_events 1) = {1}"
    by (auto simp: joined_on_def joined_event_def offer_events_def)
  moreover from s(2) obtain f where "Started 1 f \<in> set (ct_log s)" "frame_type f = ''call.publish''"
    by (cases "ct_log s") (auto split: effect.splits)
  ultimately show ?thesis
    using call_frames_on_joined_connection [OF play_runs [OF s(1), unfolded started_def]]
      play_runs [OF s(1)] by auto
qed

text \<open>
  C33. Every call of \<open>set_media\<close>, \<open>republish\<close> and \<open>leave\<close> is answered once or
  still held, never dropped and never answered twice; and an ended call holds only those waiting
  for the server to confirm their leave.
\<close>

theorem callers_answered_once:
  assumes "call_runs env (fresh_call g epoch wanted) evs s" and "\<forall>ev \<in> set evs. call_named ev"
  shows "answered_tokens s + held_tokens s = (\<Sum>ev\<leftarrow>evs. asks ev) \<and>
    (ct_ended s \<longrightarrow> held_tokens s = mset (List.map_filter leaving_token (ct_work s)))"
proof -
  have "tokens (fresh_call g epoch wanted) = {#}"
    by (simp add: tokens_def answered_tokens_def held_tokens_def fresh_call_def map_filter_simps)
  moreover have "released s" using released_runs [OF assms(1)] by (simp add: released_def fresh_call_def)
  ultimately show ?thesis
    using tokens_runs [OF assms(1) call_ok_fresh assms(2)]
    by (auto simp: tokens_def released_def held_tokens_def)
qed

theorem callers_answered_once_witness:
  "\<exists>s. call_runs willing started [joined_event, InputEvent (SetMedia False True 4), InputEvent (Leave 5), LeaveEvent 5] s \<and>
     answered_tokens s = {#5, 4#}"
proof -
  let ?evs = "[joined_event, InputEvent (SetMedia False True 4), InputEvent (Leave 5), LeaveEvent 5]"
  have "map_option (\<lambda>s. (ct_ended s, List.map_filter leaving_token (ct_work s))) (play willing ?evs started) =
      Some (True, [])" by code_simp
  then obtain s where s: "play willing ?evs started = Some s" "ct_ended s"
    "List.map_filter leaving_token (ct_work s) = []" by auto
  have "\<forall>ev \<in> set ?evs. call_named ev" using named_events [of 1] by (auto simp: call_named_def)
  note all = callers_answered_once [OF play_runs [OF s(1), unfolded started_def] this]
  then have "held_tokens s = {#}" using s(2,3) by simp
  then have "answered_tokens s = (\<Sum>ev\<leftarrow>?evs. asks ev)" using all by (metis add.right_neutral)
  also have "\<dots> = {#5, 4#}" by (simp add: joined_event_def add_mset_commute)
  finally have "answered_tokens s = {#5, 4#}" .
  with play_runs [OF s(1)] show ?thesis by blast
qed

text \<open>
  C35. For each peer connection, the remote candidates given to the engine
  followed by those waiting for a description are exactly the ones the server sent, in order.
\<close>

theorem remote_candidates_in_order:
  assumes "call_runs env (fresh_call g epoch wanted) evs s" and "\<not> ct_ended s"
  shows "added pc s @ ct_remote_buf s pc = received pc evs"
  using remote_seq_runs [OF assms, of pc]
  by (simp add: remote_seq_def added_def fresh_call_def map_filter_simps)

theorem remote_candidates_in_order_witness:
  "\<exists>s. call_runs willing started (joined_event # ice_event # offer_events 1) s \<and>
     added Publish s = [Some a_candidate]"
proof -
  have "map_option (\<lambda>s. (ct_ended s, ct_remote_buf s Publish)) (play willing (joined_event # ice_event # offer_events 1) started) =
      Some (False, [])" by code_simp
  then obtain s where s: "play willing (joined_event # ice_event # offer_events 1) started = Some s"
    "\<not> ct_ended s" "ct_remote_buf s Publish = []" by auto
  have "received Publish (joined_event # ice_event # offer_events 1) = [Some a_candidate]" by code_simp
  with remote_candidates_in_order [OF play_runs [OF s(1), unfolded started_def] s(2), of Publish] s(3)
  show ?thesis using play_runs [OF s(1)] by auto
qed

text \<open>
  C36. A renegotiation asked for at any moment of a publishing call (a share
  started or stopped) is followed by a new offer: once the publish connection is stable again on
  a live connection, an offer was begun after the request.
\<close>

theorem renegotiation_not_lost:
  assumes "call_runs env (fresh_call g epoch True) evs s" and "enabled s (InputEvent (Republish t))"
    and "call_runs env (call_next env (InputEvent (Republish t)) s) evs' s'"
    and "ct_publish_wanted s" and "\<not> ct_ended s'" and "ct_connected s'" and "ct_publish s' = Stable"
  shows "ct_pub_seq s < ct_pub_seq s'"
proof -
  define s1 where "s1 = call_next env (InputEvent (Republish t)) s"
  have "settled (fresh_call g epoch True)" by (simp add: settled_def fresh_call_def)
  then have "settled s" using settled_runs [OF assms(1)] by blast
  then have "settled s1" using assms(2) by (simp add: s1_def settled_turn)
  then have "settled s'" using settled_runs [OF assms(3)] by (simp add: s1_def)
  moreover have "renewed (ct_pub_seq s) s1"
    using assms(4) by (auto simp: s1_def call_next_def on_input_def renewed_def answer_def emit_def
        start_publish_offer_def spawn_def)
  then have "renewed (ct_pub_seq s) s'" using renewed_runs [OF assms(3)] by (simp add: s1_def)
  ultimately show ?thesis using assms(5-7) by (simp add: settled_def renewed_def)
qed

theorem renegotiation_not_lost_witness:
  "\<exists>s. call_runs willing started (joined_event # InputEvent (Republish 3) # offer_events 1 @ offer_events 2) s \<and>
     ct_publish s = Stable \<and> 1 < ct_pub_seq s"
proof -
  let ?later = "offer_events 1 @ offer_events 2"
  have "map_option (\<lambda>s. (ct_publish s, ct_ended s, ct_connected s))
      (play willing (joined_event # InputEvent (Republish 3) # ?later) started) = Some (Stable, False, True)"
    by code_simp
  then obtain s where s: "play willing (joined_event # InputEvent (Republish 3) # ?later) started = Some s"
    "ct_publish s = Stable" "\<not> ct_ended s" "ct_connected s" by auto
  obtain u where u: "play willing [joined_event] started = Some u" "enabled u (InputEvent (Republish 3))"
    "play willing ?later (call_next willing (InputEvent (Republish 3)) u) = Some s"
    using s(1) by (simp split: if_splits)
  have "map_option (\<lambda>u. (ct_pub_seq u, ct_publish_wanted u)) (play willing [joined_event] started) = Some (1, True)"
    by code_simp
  with u(1) have "ct_pub_seq u = 1" "ct_publish_wanted u" by simp_all
  with renegotiation_not_lost [OF play_runs [OF u(1), unfolded started_def] u(2) play_runs [OF u(3)]] s
  show ?thesis using play_runs [OF s(1)] by auto
qed

text \<open>
  The publish connection's local candidates that the engine finds
  while its offer is being made go out right behind that offer, all of them and in order;
  nothing is sent before it.
\<close>

theorem local_candidates_follow_offer:
  assumes "ct_publish s = Offering q" and "q = ct_pub_seq s" and "ct_connected s"
    and "\<And>l g f. ce_start env l g f" and "\<And>l g f. ce_notify env l g f"
    and "s' = fold (\<lambda>c. call_next env (InputEvent (LocalCandidate Publish c))) cs s"
  shows "ct_log s' = ct_log s \<and>
    ct_log (on_done env (PublishOffered q (Inr off)) s') =
      ct_log s @ Started (ct_generation s) (publish_frame off s) #
        map (\<lambda>c. Notified (ct_generation s) (candidate_frame Publish c s)) (ct_pub_candidates s @ cs)"
proof -
  have s': "s' = s\<lparr>ct_pub_candidates := ct_pub_candidates s @ cs\<rparr>"
    using assms(1,6) by (simp add: held_local_candidates)
  define t where "t = (spawn (AnswerWork q) (emit (Started (ct_generation s) (publish_frame off s)) s'))
      \<lparr>ct_publish := AwaitingAnswer q, ct_pub_candidates := []\<rparr>"
  have t: "ct_connected t" "ct_generation t = ct_generation s" "candidate_frame pc c t = candidate_frame pc c s"
    "ct_log t = ct_log s @ [Started (ct_generation s) (publish_frame off s)]" for pc c
    using assms(3) by (simp_all add: t_def s' emit_def spawn_def candidate_frame_def)
  have "on_done env (PublishOffered q (Inr off)) s' =
      fold (send_candidate env Publish) (ct_pub_candidates s @ cs) t"
    using assms(1-4) by (simp add: on_done_def send_publish_def start_command_def t_def s'
        publish_frame_def emit_def spawn_def)
  moreover have "ct_log (fold (send_candidate env Publish) (ct_pub_candidates s @ cs) t) =
      ct_log s @ Started (ct_generation s) (publish_frame off s) #
        map (\<lambda>c. Notified (ct_generation s) (candidate_frame Publish c s)) (ct_pub_candidates s @ cs)"
    unfolding sent_candidates [OF assms(5) t(1)] t(2-4) by simp
  ultimately show ?thesis by (simp add: s')
qed

theorem local_candidates_follow_offer_witness:
  "\<exists>s. play willing [joined_event] started = Some s \<and>
     map (\<lambda>e. case e of Started _ f \<Rightarrow> frame_type f | Notified _ f \<Rightarrow> frame_type f | _ \<Rightarrow> [])
       (ct_log (on_done willing (PublishOffered 1 (Inr \<lparr>po_sdp = ''o'', po_tracks = []\<rparr>))
         (call_next willing (InputEvent (LocalCandidate Publish (Some a_candidate))) s))) =
     [''call.publish'', ''call.ice'']"
proof -
  have "map_option (\<lambda>s. (ct_publish s, ct_pub_seq s, ct_connected s, ct_pub_candidates s, ct_log s))
      (play willing [joined_event] started) = Some (Offering 1, 1, True, [], [])" by code_simp
  then obtain s where s: "play willing [joined_event] started = Some s" "ct_publish s = Offering 1"
    "ct_pub_seq s = 1" "ct_connected s" "ct_pub_candidates s = []" "ct_log s = []" by auto
  have w: "ce_start willing l g f" "ce_notify willing l g f" for l g f by (simp_all add: willing_def)
  define u where "u = call_next willing (InputEvent (LocalCandidate Publish (Some a_candidate))) s"
  have "u = fold (\<lambda>c. call_next willing (InputEvent (LocalCandidate Publish c))) [Some a_candidate] s"
    by (simp add: u_def)
  note sent = local_candidates_follow_offer [where off = "\<lparr>po_sdp = ''o'', po_tracks = []\<rparr>",
      OF s(2) s(3) [symmetric] s(4) w this, THEN conjunct2, unfolded s(5,6)]
  have "ct_log (on_done willing (PublishOffered 1 (Inr \<lparr>po_sdp = ''o'', po_tracks = []\<rparr>)) u) =
      [Started (ct_generation s) (publish_frame \<lparr>po_sdp = ''o'', po_tracks = []\<rparr> s),
       Notified (ct_generation s) (candidate_frame Publish (Some a_candidate) s)]"
    using sent by (simp only: append_Nil list.map)
  then show ?thesis using s(1) by (simp add: u_def [symmetric] del: play.simps)
qed

text \<open>
  C38. The confirmation of a resume that is handled after the socket it
  came on was reported gone puts the call back to connected, on the dead connection: the
  last thing the task heard of the connection does not count.
\<close>

theorem late_resume_reports_connected:
  assumes "ct_resuming s" and "\<not> ct_ended s"
  shows "\<exists>s'. s' = call_next env (DoneEvent (ResumeWork g) (Resumed g (Inr r)))
        (call_next env (ConnEvent \<lparr>cn_generation = g, cn_ready = False\<rparr>) s) \<and>
      cs_status (ct_state s') = Connected \<and> ct_connected s'"
proof -
  define t where "t = on_conn env \<lparr>cn_generation = g, cn_ready = False\<rparr> s"
  define u where "u = set_status Connected (t\<lparr>ct_work := remove1 (ResumeWork g) (ct_work t),
      ct_resuming := False, ct_generation := g, ct_connected := True\<rparr>)"
  have "ct_state (after_resume env u) = ct_state u"
    by (rule after_resume_state)
  moreover have "link_view (after_resume env u) = link_view u" by (simp add: after_resume_steps)
  then have "ct_connected (after_resume env u)" by (simp add: link_view_eq u_def set_status_def)
  ultimately show ?thesis by (simp add: call_next_def on_done_def on_resumed_def Let_def t_def u_def)
qed

theorem late_resume_reports_connected_witness:
  "\<exists>s s'. call_runs willing started [joined_event, ConnEvent \<lparr>cn_generation = 2, cn_ready = True\<rparr>] s \<and>
     cs_status (ct_state s) = Reconnecting \<and>
     s' = call_next willing (DoneEvent (ResumeWork 2) (Resumed 2 (Inr \<lparr>cr_ty = ''call.joined'', cr_data = JNull\<rparr>)))
        (call_next willing (ConnEvent \<lparr>cn_generation = 2, cn_ready = False\<rparr>) s) \<and>
     cs_status (ct_state s') = Connected"
proof -
  let ?evs = "[joined_event, ConnEvent \<lparr>cn_generation = 2, cn_ready = True\<rparr>]"
  have "map_option (\<lambda>s. (cs_status (ct_state s), ct_resuming s, ct_ended s)) (play willing ?evs started) =
      Some (Reconnecting, True, False)" by code_simp
  then obtain s where s: "play willing ?evs started = Some s" "cs_status (ct_state s) = Reconnecting"
    "ct_resuming s" "\<not> ct_ended s" by auto
  with late_resume_reports_connected [OF s(3,4), of willing 2] play_runs [OF s(1)] show ?thesis by blast
qed

end
