(* ===== verification/Session_Store.thy ===== *)
theory Session_Store
  imports Uploads
begin

text \<open>
  \<open>core/src/session_store.rs\<close> and \<open>core/src/persist.rs\<close>: who is signed in, with which credentials,
  and the copy that outlives the process. Every method runs its body inside the store's write
  lock, so it is one function from the client's store and the slot to both. The slot (a platform
  key store entry, its fence file, its owner and its login generation) is shared by every client
  of the process that uses the same origin; what the key store and the file system refuse is the
  \<open>slot_faults\<close> of a call. The stored JSON is the record itself.
\<close>

section \<open>The slot\<close>

datatype slot_error = SlotExists | SlotUnavailable | SlotFatal int

record stored =
  sd_user :: user
  sd_token :: string

record slot =
  sl_stored :: "stored option"
  sl_fenced :: bool
  sl_owner :: "nat option"
  sl_family :: nat

record slot_faults =
  sf_load :: "slot_error option"
  sf_replace :: bool
  sf_delete :: bool
  sf_fence :: bool
  sf_fence_stays :: bool
  sf_lift :: bool
  sf_unreadable :: bool

definition no_faults :: slot_faults where
  "no_faults = \<lparr>sf_load = None, sf_replace = False, sf_delete = False, sf_fence = False, sf_fence_stays = False,
     sf_lift = False, sf_unreadable = False\<rparr>"

definition slot_owns :: "nat \<Rightarrow> slot \<Rightarrow> bool" where
  "slot_owns i sl \<longleftrightarrow> sl_owner sl = Some i"

definition slot_claim :: "nat \<Rightarrow> slot \<Rightarrow> slot" where
  "slot_claim i sl = sl\<lparr>sl_owner := Some i\<rparr>"

definition new_family :: "slot \<Rightarrow> nat \<times> slot" where
  "new_family sl = (sl_family sl + 1, sl\<lparr>sl_family := sl_family sl + 1\<rparr>)"

definition guarded :: "nat \<Rightarrow> (slot \<Rightarrow> 'a \<times> slot) \<Rightarrow> slot \<Rightarrow> 'a option \<times> slot" where
  "guarded i op sl = (if sl_owner sl = Some i then (case op sl of (r, sl) \<Rightarrow> (Some r, sl)) else (None, sl))"

definition slot_load :: "slot_faults \<Rightarrow> slot \<Rightarrow> slot_error + stored option" where
  "slot_load f sl = (case sf_load f of Some e \<Rightarrow> Inl e | None \<Rightarrow> Inr (sl_stored sl))"

text \<open>A fence that fails may be there all the same: only the sync after its rename failed.\<close>

definition write_fence :: "slot_faults \<Rightarrow> slot \<Rightarrow> bool \<times> slot" where
  "write_fence f sl =
     (if sf_fence f then (False, if sf_fence_stays f then sl\<lparr>sl_fenced := True\<rparr> else sl)
      else (True, sl\<lparr>sl_fenced := True\<rparr>))"

definition lift_fence :: "slot_faults \<Rightarrow> slot \<Rightarrow> slot" where
  "lift_fence f sl = (if sf_lift f then sl else sl\<lparr>sl_fenced := False\<rparr>)"

definition slot_write :: "slot_faults \<Rightarrow> session \<Rightarrow> slot \<Rightarrow> bool \<times> slot" where
  "slot_write f s sl =
     (if sf_replace f then (False, snd (write_fence f sl))
      else (True, lift_fence f (sl\<lparr>sl_stored := Some \<lparr>sd_user = s_user s, sd_token = s_refresh_token s\<rparr>\<rparr>)))"

definition slot_clear :: "slot_faults \<Rightarrow> slot \<Rightarrow> bool \<times> slot" where
  "slot_clear f sl = (if sf_delete f then write_fence f sl else (True, sl\<lparr>sl_stored := None\<rparr>))"

definition slot_clear_if_holds :: "slot_faults \<Rightarrow> string \<Rightarrow> slot \<Rightarrow> slot" where
  "slot_clear_if_holds f token sl =
     (case slot_load f sl of
        Inr (Some st) \<Rightarrow> if sd_token st = token then snd (slot_clear f sl) else sl
      | _ \<Rightarrow> sl)"

definition follow_rotation :: "slot_faults \<Rightarrow> string \<Rightarrow> string \<Rightarrow> slot \<Rightarrow> bool \<times> slot" where
  "follow_rotation f rotated_from fresh sl =
     (case slot_load f sl of
        Inr (Some st) \<Rightarrow>
          if sd_token st \<noteq> rotated_from \<or> sf_replace f then (False, sl)
          else (True, sl\<lparr>sl_stored := Some \<lparr>sd_user = sd_user st, sd_token = fresh\<rparr>\<rparr>)
      | _ \<Rightarrow> (False, sl))"

text \<open>\<open>fenced\<close> fails closed: a fence directory that cannot be read is a fence.\<close>

definition fenced :: "slot_faults \<Rightarrow> slot \<Rightarrow> bool" where
  "fenced f sl \<longleftrightarrow> sl_fenced sl \<or> sf_unreadable f"

definition rewrite_user :: "slot_faults \<Rightarrow> session \<Rightarrow> slot \<Rightarrow> bool \<times> slot" where
  "rewrite_user f s sl =
     (if fenced f sl then (False, sl)
      else (case slot_load f sl of
              Inr (Some st) \<Rightarrow>
                if sd_token st \<noteq> s_refresh_token s \<or> sf_replace f then (False, sl)
                else (True, sl\<lparr>sl_stored := Some \<lparr>sd_user = s_user s, sd_token = sd_token st\<rparr>\<rparr>)
            | _ \<Rightarrow> (False, sl)))"

section \<open>A client's store\<close>

text \<open>
  The \<open>Cell\<close> under its lock, and the store's other fields. \<open>cl_sent\<close> are the refresh tokens this
  client asked the server to revoke, oldest first; \<open>cl_revoking\<close> those a flow is about to hand over
  to \<open>revoke_detached\<close>, once the lock of its last step is released.
\<close>

record client =
  cl_id :: nat
  cl_epoch :: nat
  cl_credential_rev :: nat
  cl_session :: "session option"
  cl_login_gen :: nat
  cl_challenge_open :: bool
  cl_persisted :: bool
  cl_closed :: bool
  cl_persistence :: bool
  cl_sign_out_complete :: bool
  cl_slot_tokens :: "string \<rightharpoonup> nat"
  cl_not_before :: "nat option"
  cl_state :: auth_state
  cl_runtime :: bool
  cl_sent :: "string list"
  cl_revoking :: "string list"

definition new_store :: "nat \<Rightarrow> client" where
  "new_store i = \<lparr>cl_id = i, cl_epoch = 0, cl_credential_rev = 0, cl_session = None, cl_login_gen = 0,
     cl_challenge_open = False, cl_persisted = False, cl_closed = False, cl_persistence = False,
     cl_sign_out_complete = True, cl_slot_tokens = Map.empty, cl_not_before = None,
     cl_state = LoggedOut, cl_runtime = False, cl_sent = [], cl_revoking = []\<rparr>"

type_synonym site = "client \<times> slot"

definition set_persistence :: "site \<Rightarrow> site" where
  "set_persistence w = (case w of (c, sl) \<Rightarrow> (c\<lparr>cl_persistence := True\<rparr>, slot_claim (cl_id c) sl))"

definition with_slot :: "client \<Rightarrow> (slot \<Rightarrow> 'a \<times> slot) \<Rightarrow> slot \<Rightarrow> 'a option \<times> slot" where
  "with_slot c op sl = (if cl_persistence c then guarded (cl_id c) op sl else (None, sl))"

definition owns :: "client \<Rightarrow> slot \<Rightarrow> bool" where
  "owns c sl \<longleftrightarrow> \<not> cl_persistence c \<or> slot_owns (cl_id c) sl"

definition mark_family :: "string \<Rightarrow> nat \<Rightarrow> client \<Rightarrow> client" where
  "mark_family token family c = c\<lparr>cl_slot_tokens := (cl_slot_tokens c)(token \<mapsto> family)\<rparr>"

definition mark_new_login :: "string \<Rightarrow> site \<Rightarrow> site" where
  "mark_new_login token w =
     (case w of (c, sl) \<Rightarrow>
        if cl_persistence c
        then (case new_family sl of (family, sl) \<Rightarrow> (mark_family token family c, sl))
        else (c, sl))"

definition new_epoch :: "client \<Rightarrow> client" where
  "new_epoch c = c\<lparr>cl_epoch := cl_epoch c + 1, cl_credential_rev := 0\<rparr>"

text \<open>
  Revoking a token core will not keep: one of the stored login is spared when this client no
  longer owns the slot.
\<close>

definition revoke_detached :: "string \<Rightarrow> site \<Rightarrow> site" where
  "revoke_detached token w =
     (case w of (c, sl) \<Rightarrow>
        (let family = cl_slot_tokens c token;
             c = c\<lparr>cl_slot_tokens := (cl_slot_tokens c)(token := None)\<rparr>
         in if family \<noteq> None \<and> cl_persistence c \<and> \<not> owns c sl \<and> family = Some (sl_family sl)
            then (c, sl)
            else if cl_runtime c then (c\<lparr>cl_sent := cl_sent c @ [token]\<rparr>, sl) else (c, sl)))"

text \<open>Other tasks run between the step that let go of a token and its \<open>revoke_detached\<close>.\<close>

definition revoke_later :: "string \<Rightarrow> site \<Rightarrow> site" where
  "revoke_later token w = ((fst w)\<lparr>cl_revoking := cl_revoking (fst w) @ [token]\<rparr>, snd w)"

definition revoke_now :: "string \<Rightarrow> site \<Rightarrow> site" where
  "revoke_now token w =
     (if token \<in> set (cl_revoking (fst w))
      then revoke_detached token ((fst w)\<lparr>cl_revoking := remove1 token (cl_revoking (fst w))\<rparr>, snd w)
      else w)"

section \<open>Login attempts\<close>

definition reserve_login :: "client \<Rightarrow> nat \<times> client" where
  "reserve_login c = (cl_login_gen c + 1, c\<lparr>cl_login_gen := cl_login_gen c + 1, cl_challenge_open := False\<rparr>)"

definition current :: "nat \<Rightarrow> client \<Rightarrow> bool" where
  "current g c \<longleftrightarrow> \<not> cl_closed c \<and> cl_login_gen c = g"

definition publish_failed_if_current :: "nat \<Rightarrow> string \<Rightarrow> client \<Rightarrow> client" where
  "publish_failed_if_current g message c = (if current g c then c\<lparr>cl_state := Failed message\<rparr> else c)"

definition take_out_for_login ::
  "slot_faults \<Rightarrow> nat \<Rightarrow> site \<Rightarrow> (session option) option \<times> site" where
  "take_out_for_login f g w =
     (case w of (c, sl) \<Rightarrow>
        if \<not> current g c then (None, c, sl)
        else
          (let old = cl_session c;
               c = c\<lparr>cl_session := None\<rparr>;
               (c, sl) = (if old \<noteq> None
                          then (c\<lparr>cl_persisted := False\<rparr>, snd (with_slot c (slot_clear f) sl))
                          else (c, sl))
           in (Some old, (new_epoch c)\<lparr>cl_not_before := None\<rparr>, sl)))"

definition open_challenge :: "nat \<Rightarrow> client \<Rightarrow> bool \<times> client" where
  "open_challenge g c = (if current g c then (True, c\<lparr>cl_challenge_open := True\<rparr>) else (False, c))"

definition challenge_current :: "nat \<Rightarrow> client \<Rightarrow> bool" where
  "challenge_current g c \<longleftrightarrow> current g c \<and> cl_challenge_open c"

definition end_challenge :: "nat \<Rightarrow> client \<Rightarrow> client" where
  "end_challenge g c =
     (if challenge_current g c
      then c\<lparr>cl_challenge_open := False, cl_login_gen := cl_login_gen c + 1, cl_state := LoggedOut\<rparr> else c)"

text \<open>What an install does to the cell, once it may.\<close>

definition installed :: "session \<Rightarrow> client \<Rightarrow> client" where
  "installed s c = (new_epoch (c\<lparr>cl_session := Some s, cl_state := LoggedIn (s_user s)\<rparr>))\<lparr>cl_not_before := None\<rparr>"

definition install_for_challenge :: "slot_faults \<Rightarrow> nat \<Rightarrow> session \<Rightarrow> site \<Rightarrow> bool \<times> site" where
  "install_for_challenge f g s w =
     (case w of (c, sl) \<Rightarrow>
        if \<not> challenge_current g c then (False, c, sl)
        else
          (let (ok, c, sl) =
             (if \<not> cl_persistence c then (True, c, sl)
              else (case with_slot c (slot_write f s) sl of
                      (None, sl) \<Rightarrow> (False, c, sl)
                    | (Some landed, sl) \<Rightarrow>
                        (True, if landed then mark_new_login (s_refresh_token s) (c, sl) else (c, sl))))
           in if ok
              then (True, installed s (c\<lparr>cl_challenge_open := False, cl_persisted := cl_persistence c\<rparr>), sl)
              else (False, c, sl)))"

datatype install = Installed nat | Stale | SlotTaken

definition install_for_login ::
  "slot_faults \<Rightarrow> nat \<Rightarrow> session \<Rightarrow> nat option \<Rightarrow> site \<Rightarrow> install \<times> site" where
  "install_for_login f g s restored w =
     (case w of (c, sl) \<Rightarrow>
        if \<not> current g c then (Stale, c, sl)
        else if \<not> cl_persistence c then (Installed (cl_epoch c + 1), installed s c, sl)
        else
          (case with_slot c (slot_write f s) sl of
             (None, sl) \<Rightarrow> (SlotTaken, c, sl)
           | (Some landed, sl) \<Rightarrow>
               (let (c, sl) =
                  (if landed
                   then (case restored of
                           Some family \<Rightarrow> (mark_family (s_refresh_token s) family c, sl)
                         | None \<Rightarrow> mark_new_login (s_refresh_token s) (c, sl))
                   else (c, sl))
                in (Installed (cl_epoch c + 1), installed s (c\<lparr>cl_persisted := True\<rparr>), sl))))"

section \<open>While signed in\<close>

definition replace_user :: "slot_faults \<Rightarrow> nat \<Rightarrow> user \<Rightarrow> site \<Rightarrow> bool \<times> site" where
  "replace_user f epoch u w =
     (case w of (c, sl) \<Rightarrow>
        if cl_closed c \<or> cl_epoch c \<noteq> epoch then (False, c, sl)
        else
          (case cl_session c of
             None \<Rightarrow> (False, c, sl)
           | Some s \<Rightarrow>
               if u_id (s_user s) \<noteq> u_id u then (False, c, sl)
               else if s_user s = u then (True, c, sl)
               else
                 (let s = s\<lparr>s_user := u\<rparr>
                  in (True, c\<lparr>cl_session := Some s\<rparr>,
                      if cl_persisted c then snd (with_slot c (rewrite_user f s) sl) else sl))))"

definition sign_out :: "slot_faults \<Rightarrow> bool \<Rightarrow> site \<Rightarrow> session option \<times> site" where
  "sign_out f close w =
     (case w of (c, sl) \<Rightarrow>
        (let c = c\<lparr>cl_login_gen := cl_login_gen c + 1, cl_challenge_open := False,
                   cl_closed := cl_closed c \<or> close\<rparr>;
             old = cl_session c;
             c = c\<lparr>cl_session := None\<rparr>;
             (c, sl) =
               (if \<not> close \<and> cl_persistence c
                then (case with_slot c (slot_clear f) sl of
                        (made_unusable, sl) \<Rightarrow>
                          (c\<lparr>cl_sign_out_complete := (case made_unusable of Some b \<Rightarrow> b | None \<Rightarrow> True),
                             cl_persisted := False\<rparr>, sl))
                else (c, sl))
         in (old, (new_epoch (c\<lparr>cl_state := LoggedOut\<rparr>))\<lparr>cl_not_before := None\<rparr>, sl)))"

text \<open>The two halves of \<open>close_detached\<close>: the fence at once, the cleanup in its own task.\<close>

definition close_fence :: "client \<Rightarrow> client" where
  "close_fence c = c\<lparr>cl_closed := True\<rparr>"

definition close_cleanup :: "slot_faults \<Rightarrow> site \<Rightarrow> site" where
  "close_cleanup f w =
     (if \<not> cl_runtime (fst w) then w
      else (case sign_out f True w of
              (Some old, w) \<Rightarrow>
                if cl_persistence (fst w) then w else revoke_later (s_refresh_token old) w
            | (None, w) \<Rightarrow> w))"

datatype refresh_applied = Committed | Discarded | Kept

definition carry :: "bool \<Rightarrow> nat option \<Rightarrow> string \<Rightarrow> client \<Rightarrow> client" where
  "carry rotation inherited token c =
     (case (rotation, inherited) of
        (True, Some family) \<Rightarrow> mark_family token family c
      | _ \<Rightarrow> c)"

definition commit_refresh ::
  "slot_faults \<Rightarrow> string \<Rightarrow> string \<Rightarrow> string \<Rightarrow> bool \<Rightarrow> site \<Rightarrow> refresh_applied \<times> site" where
  "commit_refresh f rotated_from access token rotation w =
     (case w of (c, sl) \<Rightarrow>
        (let inherited = cl_slot_tokens c rotated_from;
             c = c\<lparr>cl_slot_tokens := (cl_slot_tokens c)(rotated_from := None)\<rparr>
         in if cl_closed c
            then (case (if cl_persisted c then with_slot c (follow_rotation f rotated_from token) sl
                        else (None, sl)) of
                    (stored, sl) \<Rightarrow>
                      (if stored = Some True then Kept else Discarded, carry rotation inherited token c, sl))
            else
              (case cl_session c of
                 Some s \<Rightarrow>
                   if s_refresh_token s = rotated_from
                   then
                     (let s = s\<lparr>s_access_token := access, s_refresh_token := token\<rparr>;
                          c = c\<lparr>cl_session := Some s\<rparr>;
                          (c, sl) =
                            (if \<not> cl_persistence c then (c, sl)
                             else (case guarded (cl_id c) (slot_write f s) sl of
                                     (None, sl) \<Rightarrow> (carry rotation inherited token c, sl)
                                   | (Some landed, sl) \<Rightarrow>
                                       if \<not> landed then (c, sl)
                                       else if rotation then (carry rotation inherited token c, sl)
                                       else mark_new_login token (c, sl)))
                      in (Committed, c\<lparr>cl_credential_rev := cl_credential_rev c + 1, cl_not_before := None\<rparr>, sl))
                   else (Discarded, carry rotation inherited token c, sl)
               | None \<Rightarrow> (Discarded, carry rotation inherited token c, sl))))"

definition clear_if_holds :: "slot_faults \<Rightarrow> string \<Rightarrow> site \<Rightarrow> bool \<times> site" where
  "clear_if_holds f rejected w =
     (case w of (c, sl) \<Rightarrow>
        (case cl_session c of
           Some s \<Rightarrow>
             if s_refresh_token s = rejected
             then (True, new_epoch (c\<lparr>cl_persisted := False, cl_session := None, cl_state := LoggedOut\<rparr>),
                   snd (with_slot c (slot_clear f) sl))
             else (False, c, sl)
         | None \<Rightarrow> (False, c, sl)))"

definition clear_persisted_if_holds :: "slot_faults \<Rightarrow> nat \<Rightarrow> string \<Rightarrow> site \<Rightarrow> site" where
  "clear_persisted_if_holds f g token w =
     (case w of (c, sl) \<Rightarrow>
        if cl_login_gen c \<noteq> g \<or> \<not> cl_persistence c then (c, sl)
        else (c, snd (guarded (cl_id c) (\<lambda>sl. ((), slot_clear_if_holds f token sl)) sl)))"

section \<open>Restoring at launch\<close>

text \<open>
  What \<open>restore\<close> reads as the slot's owner: nothing for a newer client's slot (\<open>None\<close>), else the
  stored login with its generation, nothing, or the key store's error. A fence is cleaned up
  behind.
\<close>

definition restore_read ::
  "slot_faults \<Rightarrow> client \<Rightarrow> slot \<Rightarrow> (slot_error + (stored \<times> nat) option) option \<times> slot" where
  "restore_read f c sl = with_slot c (\<lambda>sl.
     if fenced f sl then (Inr None, snd (slot_clear f sl))
     else (map_sum id (map_option (\<lambda>st. (st, sl_family sl))) (slot_load f sl), sl)) sl"

section \<open>Refreshing\<close>

datatype refresh_outcome =
    RefreshCommitted
  | RefreshDiscarded
  | NoSession
  | RefreshRejected
  | RefreshLimited nat

text \<open>A \<open>Retry-After\<close> in whole seconds, within one second and an hour; else the usual retry.\<close>

definition parse_retry_after :: "string option \<Rightarrow> nat" where
  "parse_retry_after v =
     (case Option.bind v (\<lambda>s. parse_u64 (trim s)) of Some n \<Rightarrow> min 3600 (max 1 n) | None \<Rightarrow> 15)"

definition refused :: "nat \<Rightarrow> bool" where
  "refused status \<longleftrightarrow> status = 401 \<or> status = 422"

text \<open>
  \<open>refresh_once\<close> up to its request: an outcome without one, or the token sent. Times are in
  seconds.
\<close>

definition refresh_begin :: "slot_faults \<Rightarrow> nat \<Rightarrow> site \<Rightarrow> (refresh_outcome + string) \<times> site" where
  "refresh_begin f now w =
     (case cl_session (fst w) of
        None \<Rightarrow> (Inl NoSession, w)
      | Some s \<Rightarrow>
          if \<not> owns (fst w) (snd w)
          then (case sign_out f False w of
                  (Some old, w) \<Rightarrow> (Inl RefreshRejected, revoke_later (s_refresh_token old) w)
                | (None, w) \<Rightarrow> (Inl RefreshRejected, w))
          else (case cl_not_before (fst w) of
                  Some until \<Rightarrow>
                    if now < until then (Inl (RefreshLimited (until - now)), w)
                    else (Inr (s_refresh_token s), w)
                | None \<Rightarrow> (Inr (s_refresh_token s), w)))"

text \<open>
  The server's answer: a failure to reach it, a status outside 2xx with its \<open>Retry-After\<close>, or the
  pair of a success (\<open>None\<close>: not one that parses).
\<close>

datatype refresh_answer =
    NoAnswer string
  | AnswerStatus nat "string option"
  | AnswerPair "(string \<times> string) option"

definition refresh_end ::
  "slot_faults \<Rightarrow> nat \<Rightarrow> string \<Rightarrow> refresh_answer \<Rightarrow> site \<Rightarrow> (core_error + refresh_outcome) \<times> site" where
  "refresh_end f now token a w =
     (case a of
        NoAnswer e \<Rightarrow> (Inl (Http e), w)
      | AnswerStatus status hint \<Rightarrow>
          if status = 429
          then (let wait = parse_retry_after hint
                in (Inr (RefreshLimited wait),
                    if map_option s_refresh_token (cl_session (fst w)) = Some token
                    then ((fst w)\<lparr>cl_not_before := Some (now + wait)\<rparr>, snd w) else w))
          else if refused status then (Inr RefreshRejected, snd (clear_if_holds f token w))
          else (Inl (Api (''http_'' @ dec_string status) (''request failed with status '' @ dec_string status)), w)
      | AnswerPair None \<Rightarrow> (Inl UnexpectedResponse, w)
      | AnswerPair (Some (access, fresh)) \<Rightarrow>
          (case commit_refresh f token access fresh True w of
             (Committed, w) \<Rightarrow> (Inr RefreshCommitted, w)
           | (Kept, w) \<Rightarrow> (Inr RefreshDiscarded, w)
           | (Discarded, w) \<Rightarrow> (Inr RefreshDiscarded, revoke_later fresh w)))"

text \<open>
  \<open>Refresher::refresh\<close> under the flight: \<open>None\<close> when it must send \<open>refresh_begin\<close>'s token.
\<close>

definition refresh_needed :: "nat \<times> nat \<Rightarrow> client \<Rightarrow> refresh_outcome option" where
  "refresh_needed seen c =
     (if (cl_epoch c, cl_credential_rev c) \<noteq> seen
      then Some (if cl_epoch c = fst seen then RefreshCommitted else RefreshDiscarded) else None)"

definition next_refresh_delay :: "core_error + refresh_outcome \<Rightarrow> nat" where
  "next_refresh_delay r =
     (case r of
        Inr RefreshCommitted \<Rightarrow> 600
      | Inr (RefreshLimited wait) \<Rightarrow> max wait 15
      | _ \<Rightarrow> 15)"

end
