(* ===== verification/Session_Flows.thy ===== *)
theory Session_Flows
  imports Session_Store
begin

text \<open>
  The sign-in flows of \<open>core/src/client.rs\<close> and the credential changes of \<open>core/src/account.rs\<close>:
  each is a few atomic steps on the session store with requests in between, and other flows (a
  sign-out, a newer login, a background refresh) run between its steps. A step is a function; the
  server's answers are its arguments. Any number of clients share the slot: \<open>session_step\<close> lets
  every client take any step at any time.
\<close>

section \<open>Signing in\<close>

datatype issued = Pair string string | Totp string nat

text \<open>The body of a successful \<open>/auth/login\<close>.\<close>

definition parse_login :: "json \<Rightarrow> issued option" where
  "parse_login j =
     (case (if jget ''totp_required'' j = None then Some False else field_bool ''totp_required'' j,
            field_opt_str ''totp_token'' j,
            (case jget ''expires_in'' j of None \<Rightarrow> Some None | Some JNull \<Rightarrow> Some None
             | Some v \<Rightarrow> map_option Some (as_u64 v)),
            field_opt_str ''access_token'' j, field_opt_str ''refresh_token'' j) of
        (Some required, Some totp, Some expires, Some access, Some refresh) \<Rightarrow>
          (case (required, totp) of
             (True, Some token) \<Rightarrow> Some (Totp token (case expires of Some n \<Rightarrow> n | None \<Rightarrow> 300))
           | _ \<Rightarrow>
               (case (access, refresh) of
                  (Some a, Some r) \<Rightarrow> Some (Pair a r)
                | _ \<Rightarrow> None))
      | _ \<Rightarrow> None)"

text \<open>
  \<open>/auth/me\<close> for a fresh pair: one whose user cannot be read was issued but is never held, and
  the server is asked to revoke it.
\<close>

definition session_for ::
  "string \<Rightarrow> string \<Rightarrow> core_error + user \<Rightarrow> client \<Rightarrow> (core_error + session) \<times> client" where
  "session_for access refresh me c =
     (case me of
        Inl err \<Rightarrow> (Inl err, c\<lparr>cl_sent := cl_sent c @ [refresh]\<rparr>)
      | Inr u \<Rightarrow> (Inr \<lparr>s_access_token = access, s_refresh_token = refresh, s_user = u\<rparr>, c))"

text \<open>
  \<open>login\<close>: the attempt is reserved before anything is waited for; under the refresh lock the old
  session is taken out; then the password's answer decides.
\<close>

definition login_begin :: "client \<Rightarrow> nat \<times> client" where
  "login_begin c = reserve_login (c\<lparr>cl_state := Authenticating, cl_runtime := True\<rparr>)"

definition login_locked :: "slot_faults \<Rightarrow> nat \<Rightarrow> site \<Rightarrow> bool \<times> site" where
  "login_locked f g w =
     (case take_out_for_login f g w of
        (None, w) \<Rightarrow> (False, w)
      | (Some None, w) \<Rightarrow> (True, w)
      | (Some (Some old), w) \<Rightarrow> (True, revoke_later (s_refresh_token old) w))"

text \<open>The password's answer: an error, or what was issued with \<open>/auth/me\<close>'s answer to a pair.\<close>

datatype login_answer =
    LoginFails core_error
  | LoginIssued issued "core_error + user"

datatype login_outcome = LoginDone session | TotpRequired nat string

text \<open>An error's display, as a failed login publishes it.\<close>

fun error_text :: "core_error \<Rightarrow> string" where
  "error_text (Http m) = ''network error: '' @ m"
| "error_text (Url m) = ''invalid server URL: '' @ m"
| "error_text MissingHost = ''server URL is missing a host''"
| "error_text InsecureServerUrl = ''server URL must use https (http is allowed only for localhost)''"
| "error_text (Api code message) = ''server error ['' @ code @ '']: '' @ message"
| "error_text UnexpectedResponse = ''unexpected response from server''"
| "error_text NotAuthenticated = ''not authenticated''"
| "error_text ChallengeSuperseded = ''that sign-in attempt is no longer current''"
| "error_text (WebSocket m) = ''websocket error: '' @ m"
| "error_text Disconnected = ''not connected to the server''"
| "error_text Timeout = ''the server did not answer in time''"
| "error_text CallEnded = ''the call has ended''"
| "error_text Busy = ''too many pending commands''"
| "error_text TooLarge = ''message too large''"

definition login_end ::
  "slot_faults \<Rightarrow> nat \<Rightarrow> login_answer \<Rightarrow> site \<Rightarrow> (core_error + login_outcome) \<times> site" where
  "login_end f g a w =
     (case a of
        LoginFails err \<Rightarrow> (Inl err, publish_failed_if_current g (error_text err) (fst w), snd w)
      | LoginIssued (Totp token expires_in) _ \<Rightarrow>
          (case open_challenge g (fst w) of
             (False, c) \<Rightarrow> (Inl NotAuthenticated, c, snd w)
           | (True, c) \<Rightarrow> (Inr (TotpRequired g token), c, snd w))
      | LoginIssued (Pair access refresh) me \<Rightarrow>
          (case session_for access refresh me (fst w) of
             (Inl err, c) \<Rightarrow> (Inl err, publish_failed_if_current g (error_text err) c, snd w)
           | (Inr new, c) \<Rightarrow>
               (case install_for_login f g new None (c, snd w) of
                  (Installed _, w) \<Rightarrow> (Inr (LoginDone new), w)
                | (_, w) \<Rightarrow> (Inl NotAuthenticated, revoke_later (s_refresh_token new) w))))"

text \<open>
  \<open>complete_challenge\<close>: nothing is sent unless the challenge is this client's and current; a
  refusal counts only while it still is.
\<close>

definition challenge_begin :: "nat \<Rightarrow> nat \<Rightarrow> client \<Rightarrow> core_error option" where
  "challenge_begin store g c =
     (if store \<noteq> cl_id c \<or> \<not> challenge_current g c then Some ChallengeSuperseded else None)"

definition challenge_refusal :: "core_error \<Rightarrow> core_error" where
  "challenge_refusal err =
     (case err of
        Api code message \<Rightarrow>
          if code = ''validation'' then Api ''auth.invalid_code'' ''the code was refused'' else err
      | _ \<Rightarrow> err)"

datatype challenge_answer =
    ChallengeUnsent core_error
  | ChallengeRefused core_error
  | ChallengeUnread
  | ChallengePair "nat option" string string "core_error + user"

definition challenge_end ::
  "slot_faults \<Rightarrow> nat \<Rightarrow> challenge_answer \<Rightarrow> site \<Rightarrow> (core_error + nat option) \<times> site" where
  "challenge_end f g a w =
     (case a of
        ChallengeUnsent err \<Rightarrow> (Inl err, w)
      | ChallengeRefused refusal \<Rightarrow>
          (let err = challenge_refusal refusal
           in if \<not> challenge_current g (fst w) then (Inl ChallengeSuperseded, w)
              else if (case err of Api code _ \<Rightarrow> code = ''auth.totp_expired'' | _ \<Rightarrow> False)
              then (Inl err, end_challenge g (fst w), snd w)
              else (Inl err, w))
      | ChallengeUnread \<Rightarrow> (Inl UnexpectedResponse, w)
      | ChallengePair left access refresh me \<Rightarrow>
          (case session_for access refresh me (fst w) of
             (Inl err, c) \<Rightarrow> (Inl err, c, snd w)
           | (Inr new, c) \<Rightarrow>
               (case install_for_challenge f g new (c, snd w) of
                  (True, w) \<Rightarrow> (Inr left, w)
                | (False, w) \<Rightarrow> (Inl ChallengeSuperseded, revoke_later (s_refresh_token new) w))))"

definition cancel_totp :: "nat \<Rightarrow> nat \<Rightarrow> client \<Rightarrow> client" where
  "cancel_totp store g c = (if store = cl_id c then end_challenge g c else c)"

section \<open>Restoring, signing out\<close>

datatype restore_outcome =
    RestoredIn user
  | NotSignedIn
  | RestoreUnavailable
  | Offline
  | Superseded

definition restore_begin :: "client \<Rightarrow> nat \<times> client" where
  "restore_begin c = reserve_login (c\<lparr>cl_runtime := True\<rparr>)"

text \<open>Under the flight: an outcome at once, or the stored login whose token is sent.\<close>

definition restore_locked :: "slot_faults \<Rightarrow> site \<Rightarrow> (restore_outcome + stored \<times> nat) \<times> site" where
  "restore_locked f w =
     (case w of (c, sl) \<Rightarrow>
        if \<not> cl_persistence c then (Inl NotSignedIn, c, sl)
        else
          (case restore_read f c sl of
             (None, sl) \<Rightarrow> (Inl Superseded, c, sl)
           | (Some (Inr (Some st)), sl) \<Rightarrow> (Inr st, c, sl)
           | (Some (Inr None), sl) \<Rightarrow> (Inl NotSignedIn, c, sl)
           | (Some (Inl _), sl) \<Rightarrow> (Inl RestoreUnavailable, c, sl)))"

definition restore_end ::
  "slot_faults \<Rightarrow> nat \<Rightarrow> stored \<Rightarrow> nat \<Rightarrow> refresh_answer \<Rightarrow> site \<Rightarrow> restore_outcome \<times> nat option \<times> site" where
  "restore_end f g st family a w =
     (case a of
        NoAnswer _ \<Rightarrow> (Offline, None, w)
      | AnswerStatus status _ \<Rightarrow>
          if refused status then (NotSignedIn, None, clear_persisted_if_holds f g (sd_token st) w)
          else (Offline, None, w)
      | AnswerPair None \<Rightarrow> (Offline, None, w)
      | AnswerPair (Some (access, refresh)) \<Rightarrow>
          (let s = \<lparr>s_access_token = access, s_refresh_token = refresh, s_user = sd_user st\<rparr>
           in case install_for_login f g s (Some family) w of
                (Installed epoch, w) \<Rightarrow> (RestoredIn (sd_user st), Some epoch, w)
              | (Stale, (c, sl)) \<Rightarrow>
                  (Superseded, None, revoke_later refresh (mark_family refresh family c, sl))
              | (SlotTaken, w) \<Rightarrow> (Superseded, None, w)))"

text \<open>The profile check after a restore (\<open>None\<close>: no answer in time).\<close>

definition restore_profile ::
  "slot_faults \<Rightarrow> nat \<Rightarrow> user \<Rightarrow> user option \<Rightarrow> site \<Rightarrow> restore_outcome \<times> site" where
  "restore_profile f epoch stored_user me w =
     (case me of
        None \<Rightarrow> (RestoredIn stored_user, w)
      | Some u \<Rightarrow>
          if u_id u \<noteq> u_id stored_user then (RestoredIn stored_user, w)
          else (case replace_user f epoch u w of
                  (True, w) \<Rightarrow> (RestoredIn u, w)
                | (False, w) \<Rightarrow> (RestoredIn stored_user, w)))"

definition logout :: "slot_faults \<Rightarrow> site \<Rightarrow> site" where
  "logout f w =
     (case sign_out f False ((fst w)\<lparr>cl_runtime := True\<rparr>, snd w) of
        (Some old, w) \<Rightarrow> revoke_later (s_refresh_token old) w
      | (None, w) \<Rightarrow> w)"

section \<open>Account calls\<close>

text \<open>
  \<open>Ctx::credentials\<close> and \<open>Ctx::send\<close>: the store as it is at the first request, at the retry, and
  what the refresh between them came to.
\<close>

definition credentials :: "nat \<Rightarrow> client \<Rightarrow> core_error + (nat \<times> nat) \<times> string \<times> string" where
  "credentials epoch c =
     (case cl_session c of
        Some s \<Rightarrow>
          if cl_epoch c = epoch
          then Inr ((cl_epoch c, cl_credential_rev c), s_access_token s, s_refresh_token s)
          else Inl NotAuthenticated
      | None \<Rightarrow> Inl NotAuthenticated)"

definition account_send ::
  "nat \<Rightarrow> client \<Rightarrow> (string \<Rightarrow> core_error + response) \<Rightarrow> core_error + refresh_outcome \<Rightarrow>
     client \<Rightarrow> (string \<Rightarrow> core_error + response) \<Rightarrow> core_error + response \<times> string" where
  "account_send epoch c answer1 refreshed c' answer2 =
     (case credentials epoch c of
        Inl err \<Rightarrow> Inl err
      | Inr (sent, access, refresh) \<Rightarrow>
          (case answer1 access of
             Inl err \<Rightarrow> Inl err
           | Inr resp \<Rightarrow>
               if rp_status resp \<noteq> 401 then Inr (resp, refresh)
               else
                 (case refreshed of
                    Inl err \<Rightarrow> Inl err
                  | Inr RefreshCommitted \<Rightarrow>
                      (case credentials epoch c' of
                         Inl err \<Rightarrow> Inl err
                       | Inr (_, access, refresh) \<Rightarrow>
                           (case answer2 access of
                              Inl err \<Rightarrow> Inl err
                            | Inr resp \<Rightarrow>
                                if rp_status resp = 401 then Inl NotAuthenticated else Inr (resp, refresh)))
                  | Inr (RefreshLimited _) \<Rightarrow>
                      Inl (Api ''auth.rate_limited'' ''too many attempts; try again later'')
                  | Inr _ \<Rightarrow> Inl NotAuthenticated)))"

text \<open>
  The end of a password change or of a TOTP activation: the pair the server answers with is a
  login of its own, committed against the token the successful attempt used.
\<close>

definition credentials_changed ::
  "slot_faults \<Rightarrow> string \<Rightarrow> string \<Rightarrow> string \<Rightarrow> 'a \<Rightarrow> site \<Rightarrow> (core_error + 'a) \<times> site" where
  "credentials_changed f used access fresh out w =
     (case commit_refresh f used access fresh False w of
        (Committed, w) \<Rightarrow> (Inr out, w)
      | (Kept, w) \<Rightarrow> (Inl NotAuthenticated, w)
      | (Discarded, w) \<Rightarrow> (Inl NotAuthenticated, revoke_later fresh w))"

section \<open>Steps\<close>

datatype session_op =
    LoginBegin
  | LoginLocked slot_faults nat
  | LoginEnd slot_faults nat login_answer
  | ChallengeEnd slot_faults nat challenge_answer
  | CancelTotp nat nat
  | RestoreBegin
  | RestoreLocked slot_faults
  | RestoreEnd slot_faults nat stored nat refresh_answer
  | RestoreProfile slot_faults nat user "user option"
  | Logout slot_faults
  | RefreshBegin slot_faults nat
  | RefreshEnd slot_faults nat string refresh_answer
  | CredentialsChanged slot_faults string string string
  | UpdateUser slot_faults nat user
  | CloseFence
  | CloseCleanup slot_faults
  | EnablePersistence
  | Revokes string

definition session_step :: "session_op \<Rightarrow> site \<Rightarrow> site" where
  "session_step op w =
     (case op of
        LoginBegin \<Rightarrow> (snd (login_begin (fst w)), snd w)
      | LoginLocked f g \<Rightarrow> snd (login_locked f g w)
      | LoginEnd f g a \<Rightarrow> snd (login_end f g a w)
      | ChallengeEnd f g a \<Rightarrow> snd (challenge_end f g a w)
      | CancelTotp store g \<Rightarrow> (cancel_totp store g (fst w), snd w)
      | RestoreBegin \<Rightarrow> (snd (restore_begin (fst w)), snd w)
      | RestoreLocked f \<Rightarrow> snd (restore_locked f w)
      | RestoreEnd f g st family a \<Rightarrow> snd (snd (restore_end f g st family a w))
      | RestoreProfile f epoch u me \<Rightarrow> snd (restore_profile f epoch u me w)
      | Logout f \<Rightarrow> logout f w
      | RefreshBegin f now \<Rightarrow> snd (refresh_begin f now w)
      | RefreshEnd f now token a \<Rightarrow> snd (refresh_end f now token a w)
      | CredentialsChanged f used access fresh \<Rightarrow> snd (credentials_changed f used access fresh () w)
      | UpdateUser f epoch u \<Rightarrow> snd (replace_user f epoch u w)
      | CloseFence \<Rightarrow> (close_fence (fst w), snd w)
      | CloseCleanup f \<Rightarrow> close_cleanup f w
      | EnablePersistence \<Rightarrow> set_persistence w
      | Revokes token \<Rightarrow> revoke_now token w)"

text \<open>The clients of a process, each with its steps, over one slot.\<close>

record sessions =
  wd_client :: "nat \<Rightarrow> client"
  wd_slot :: slot

definition at_client :: "nat \<Rightarrow> session_op \<Rightarrow> sessions \<Rightarrow> sessions" where
  "at_client i op w =
     (case session_step op (wd_client w i, wd_slot w) of
        (c, sl) \<Rightarrow> \<lparr>wd_client = (wd_client w)(i := c), wd_slot = sl\<rparr>)"

end
