(* ===== verification/Session_Facts.thy ===== *)
theory Session_Facts
  imports Session_Flows
begin

text \<open>
  What every step of the session store keeps: the order of a client's revisions and what one
  revision means, the attempts that are over, and what the slot can hold.
\<close>

section \<open>Revisions\<close>

text \<open>
  How a client may look later: its attempts and revisions only move forward, one epoch is one
  user (or nobody), one revision is one pair of tokens.
\<close>

definition signed_in_as :: "client \<Rightarrow> string option" where
  "signed_in_as c = map_option (\<lambda>s. u_id (s_user s)) (cl_session c)"

definition held_tokens :: "client \<Rightarrow> (string \<times> string) option" where
  "held_tokens c = map_option (\<lambda>s. (s_access_token s, s_refresh_token s)) (cl_session c)"

definition client_later :: "client \<Rightarrow> client \<Rightarrow> bool" where
  "client_later c c' \<longleftrightarrow>
     cl_id c' = cl_id c \<and> cl_login_gen c \<le> cl_login_gen c' \<and> (cl_closed c \<longrightarrow> cl_closed c')
     \<and> (cl_persistence c \<longrightarrow> cl_persistence c')
     \<and> (cl_epoch c < cl_epoch c'
        \<or> cl_epoch c = cl_epoch c' \<and> signed_in_as c = signed_in_as c'
          \<and> (cl_credential_rev c < cl_credential_rev c'
             \<or> cl_credential_rev c = cl_credential_rev c' \<and> held_tokens c = held_tokens c'))"

named_theorems later_defs

lemma client_later_refl [simp]: "client_later c c"
  by (simp add: client_later_def)

lemma client_later_trans: "client_later a b \<Longrightarrow> client_later b c \<Longrightarrow> client_later a c"
  by (auto simp: client_later_def)

lemmas store_simps = signed_in_as_def held_tokens_def with_slot_def guarded_def new_epoch_def
  mark_new_login_def mark_family_def new_family_def current_def installed_def

lemma revoke_detached_fields [simp]:
  "cl_id (fst (revoke_detached t w)) = cl_id (fst w)"
  "cl_epoch (fst (revoke_detached t w)) = cl_epoch (fst w)"
  "cl_credential_rev (fst (revoke_detached t w)) = cl_credential_rev (fst w)"
  "cl_session (fst (revoke_detached t w)) = cl_session (fst w)"
  "cl_login_gen (fst (revoke_detached t w)) = cl_login_gen (fst w)"
  "cl_challenge_open (fst (revoke_detached t w)) = cl_challenge_open (fst w)"
  "cl_persisted (fst (revoke_detached t w)) = cl_persisted (fst w)"
  "cl_closed (fst (revoke_detached t w)) = cl_closed (fst w)"
  "cl_persistence (fst (revoke_detached t w)) = cl_persistence (fst w)"
  "cl_sign_out_complete (fst (revoke_detached t w)) = cl_sign_out_complete (fst w)"
  "cl_not_before (fst (revoke_detached t w)) = cl_not_before (fst w)"
  "cl_state (fst (revoke_detached t w)) = cl_state (fst w)"
  "snd (revoke_detached t w) = snd w"
  by (auto simp: revoke_detached_def Let_def split: prod.split)

lemma revoke_later_fields [simp]:
  "cl_id (fst (revoke_later t w)) = cl_id (fst w)"
  "cl_epoch (fst (revoke_later t w)) = cl_epoch (fst w)"
  "cl_credential_rev (fst (revoke_later t w)) = cl_credential_rev (fst w)"
  "cl_session (fst (revoke_later t w)) = cl_session (fst w)"
  "cl_login_gen (fst (revoke_later t w)) = cl_login_gen (fst w)"
  "cl_challenge_open (fst (revoke_later t w)) = cl_challenge_open (fst w)"
  "cl_persisted (fst (revoke_later t w)) = cl_persisted (fst w)"
  "cl_closed (fst (revoke_later t w)) = cl_closed (fst w)"
  "cl_persistence (fst (revoke_later t w)) = cl_persistence (fst w)"
  "cl_sign_out_complete (fst (revoke_later t w)) = cl_sign_out_complete (fst w)"
  "cl_not_before (fst (revoke_later t w)) = cl_not_before (fst w)"
  "cl_state (fst (revoke_later t w)) = cl_state (fst w)"
  "cl_slot_tokens (fst (revoke_later t w)) = cl_slot_tokens (fst w)"
  "cl_sent (fst (revoke_later t w)) = cl_sent (fst w)"
  "cl_runtime (fst (revoke_later t w)) = cl_runtime (fst w)"
  "cl_revoking (fst (revoke_later t w)) = cl_revoking (fst w) @ [t]"
  "snd (revoke_later t w) = snd w"
  by (simp_all add: revoke_later_def)

lemma revoke_now_fields [simp]:
  "cl_id (fst (revoke_now t w)) = cl_id (fst w)"
  "cl_epoch (fst (revoke_now t w)) = cl_epoch (fst w)"
  "cl_credential_rev (fst (revoke_now t w)) = cl_credential_rev (fst w)"
  "cl_session (fst (revoke_now t w)) = cl_session (fst w)"
  "cl_login_gen (fst (revoke_now t w)) = cl_login_gen (fst w)"
  "cl_challenge_open (fst (revoke_now t w)) = cl_challenge_open (fst w)"
  "cl_persisted (fst (revoke_now t w)) = cl_persisted (fst w)"
  "cl_closed (fst (revoke_now t w)) = cl_closed (fst w)"
  "cl_persistence (fst (revoke_now t w)) = cl_persistence (fst w)"
  "cl_sign_out_complete (fst (revoke_now t w)) = cl_sign_out_complete (fst w)"
  "cl_not_before (fst (revoke_now t w)) = cl_not_before (fst w)"
  "cl_state (fst (revoke_now t w)) = cl_state (fst w)"
  "snd (revoke_now t w) = snd w"
  by (simp_all add: revoke_now_def)

text \<open>What a sign-out leaves, whatever the slot does.\<close>

lemma sign_out_fields [simp]:
  "fst (sign_out f close w) = cl_session (fst w)"
  "cl_id (fst (snd (sign_out f close w))) = cl_id (fst w)"
  "cl_epoch (fst (snd (sign_out f close w))) = cl_epoch (fst w) + 1"
  "cl_session (fst (snd (sign_out f close w))) = None"
  "cl_login_gen (fst (snd (sign_out f close w))) = cl_login_gen (fst w) + 1"
  "cl_challenge_open (fst (snd (sign_out f close w))) = False"
  "cl_closed (fst (snd (sign_out f close w))) = (cl_closed (fst w) \<or> close)"
  "cl_persistence (fst (snd (sign_out f close w))) = cl_persistence (fst w)"
  "cl_state (fst (snd (sign_out f close w))) = LoggedOut"
  "cl_slot_tokens (fst (snd (sign_out f close w))) = cl_slot_tokens (fst w)"
  "cl_sent (fst (snd (sign_out f close w))) = cl_sent (fst w)"
  "cl_runtime (fst (snd (sign_out f close w))) = cl_runtime (fst w)"
  "cl_not_before (fst (snd (sign_out f close w))) = None"
  by (auto simp: sign_out_def Let_def new_epoch_def split: prod.split option.split)

lemma sign_out_slot [simp]:
  "snd (snd (sign_out f close w)) =
     (if close then snd w else snd (with_slot (fst w) (slot_clear f) (snd w)))"
  by (auto simp: sign_out_def Let_def new_epoch_def with_slot_def split: prod.split option.split)

lemma sign_out_later: "client_later (fst w) (fst (snd (sign_out f close w)))"
  by (simp add: client_later_def)

lemma revoke_later_later: "client_later (fst w) (fst (revoke_later t w))"
  by (simp add: client_later_def signed_in_as_def held_tokens_def)

lemma revoke_now_later: "client_later (fst w) (fst (revoke_now t w))"
  by (simp add: client_later_def signed_in_as_def held_tokens_def)

lemma later_revoke: "client_later c (fst w) \<Longrightarrow> client_later c (fst (revoke_later t w))"
  by (rule client_later_trans[OF _ revoke_later_later])

lemma client_id_cong:
  "cl_id c = cl_id c' \<Longrightarrow> cl_login_gen c' = cl_login_gen c \<Longrightarrow> cl_closed c' = cl_closed c \<Longrightarrow>
   cl_persistence c' = cl_persistence c \<Longrightarrow> cl_epoch c' = cl_epoch c \<Longrightarrow> cl_session c' = cl_session c \<Longrightarrow>
   cl_credential_rev c' = cl_credential_rev c \<Longrightarrow> client_later c c'"
  by (simp add: client_later_def signed_in_as_def held_tokens_def)

lemma take_out_later: "client_later (fst w) (fst (snd (take_out_for_login f g w)))"
  by (auto simp: take_out_for_login_def client_later_def Let_def new_epoch_def split: prod.split)

lemma install_for_challenge_later: "client_later (fst w) (fst (snd (install_for_challenge f g s w)))"
  by (auto simp: install_for_challenge_def client_later_def Let_def store_simps challenge_current_def
      split: prod.split option.split)

lemma install_for_login_later: "client_later (fst w) (fst (snd (install_for_login f g s r w)))"
  by (auto simp: install_for_login_def client_later_def Let_def store_simps
      split: prod.split option.split)

lemma replace_user_later: "client_later (fst w) (fst (snd (replace_user f e u w)))"
  by (auto simp: replace_user_def client_later_def Let_def store_simps split: prod.split option.split)

lemma carry_fields [simp]:
  "cl_id (carry b fam t c) = cl_id c" "cl_epoch (carry b fam t c) = cl_epoch c"
  "cl_credential_rev (carry b fam t c) = cl_credential_rev c" "cl_session (carry b fam t c) = cl_session c"
  "cl_login_gen (carry b fam t c) = cl_login_gen c" "cl_closed (carry b fam t c) = cl_closed c"
  "cl_persistence (carry b fam t c) = cl_persistence c" "cl_persisted (carry b fam t c) = cl_persisted c"
  "cl_challenge_open (carry b fam t c) = cl_challenge_open c" "cl_state (carry b fam t c) = cl_state c"
  "cl_not_before (carry b fam t c) = cl_not_before c" "cl_sent (carry b fam t c) = cl_sent c"
  "cl_runtime (carry b fam t c) = cl_runtime c"
  "cl_sign_out_complete (carry b fam t c) = cl_sign_out_complete c"
  by (auto simp: carry_def mark_family_def split: bool.split option.split)

lemma commit_refresh_later: "client_later (fst w) (fst (snd (commit_refresh f old a t b w)))"
  by (auto simp: commit_refresh_def client_later_def Let_def store_simps
      split: prod.split option.split)

lemma clear_if_holds_later: "client_later (fst w) (fst (snd (clear_if_holds f t w)))"
  by (auto simp: clear_if_holds_def client_later_def new_epoch_def split: prod.split option.split)

lemma clear_persisted_client [simp]: "fst (clear_persisted_if_holds f g t w) = fst w"
  by (auto simp: clear_persisted_if_holds_def split: prod.split)

lemma end_challenge_later: "client_later c (end_challenge g c)"
  by (auto simp: end_challenge_def client_later_def signed_in_as_def held_tokens_def)

lemma logout_later: "client_later (fst w) (fst (logout f w))"
proof -
  let ?w = "((fst w)\<lparr>cl_runtime := True\<rparr>, snd w)"
  have "client_later (fst w) (fst ?w)" by (simp add: client_later_def signed_in_as_def held_tokens_def)
  then have "client_later (fst w) (fst (snd (sign_out f False ?w)))"
    by (rule client_later_trans[OF _ sign_out_later])
  then show ?thesis
    by (auto simp: logout_def split_def split: option.split intro: later_revoke)
qed

lemma refresh_begin_later: "client_later (fst w) (fst (snd (refresh_begin f now w)))"
  using sign_out_later[of w f False]
  by (auto simp: refresh_begin_def split_def split: option.split intro: later_revoke)

lemma refresh_end_later: "client_later (fst w) (fst (snd (refresh_end f now t a w)))"
  using clear_if_holds_later[of w f t] commit_refresh_later[of w f t]
  by (auto simp: refresh_end_def split_def Let_def client_later_def signed_in_as_def held_tokens_def
      split: refresh_answer.split option.split refresh_applied.split)

lemma credentials_changed_later:
  "client_later (fst w) (fst (snd (credentials_changed f used access fresh out w)))"
  using commit_refresh_later[of w f used access fresh False]
  by (auto simp: credentials_changed_def split_def split: refresh_applied.split intro: later_revoke)

lemma login_locked_later: "client_later (fst w) (fst (snd (login_locked f g w)))"
  using take_out_later[of w f g]
  by (auto simp: login_locked_def split_def split: option.split intro: later_revoke)

lemma publish_failed_later: "client_later c (publish_failed_if_current g m c)"
  by (simp add: publish_failed_if_current_def client_later_def signed_in_as_def held_tokens_def)

lemma open_challenge_later: "client_later c (snd (open_challenge g c))"
  by (simp add: open_challenge_def client_later_def signed_in_as_def held_tokens_def)

lemma session_for_fields [simp]:
  "cl_id (snd (session_for x y me c)) = cl_id c" "cl_epoch (snd (session_for x y me c)) = cl_epoch c"
  "cl_credential_rev (snd (session_for x y me c)) = cl_credential_rev c"
  "cl_session (snd (session_for x y me c)) = cl_session c"
  "cl_login_gen (snd (session_for x y me c)) = cl_login_gen c"
  "cl_closed (snd (session_for x y me c)) = cl_closed c"
  "cl_persistence (snd (session_for x y me c)) = cl_persistence c"
  "cl_persisted (snd (session_for x y me c)) = cl_persisted c"
  "cl_challenge_open (snd (session_for x y me c)) = cl_challenge_open c"
  "cl_state (snd (session_for x y me c)) = cl_state c"
  "cl_not_before (snd (session_for x y me c)) = cl_not_before c"
  by (auto simp: session_for_def split: sum.split)

lemma session_for_later: "client_later c (snd (session_for x y me c))"
  by (rule client_id_cong) simp_all

lemma after_session_for: "client_later (snd (session_for x y me c)) c' \<Longrightarrow> client_later c c'"
  by (rule client_later_trans[OF session_for_later])

lemma login_end_later: "client_later (fst w) (fst (snd (login_end f g a w)))"
proof -
  have i: "client_later (fst w) (fst (snd (install_for_login f g s None (snd (session_for x y me (fst w)), snd w))))"
    for s x y me
    using after_session_for[OF install_for_login_later[of "(snd (session_for x y me (fst w)), snd w)", simplified]]
    by simp
  show ?thesis
    using open_challenge_later[of "fst w" g] publish_failed_later after_session_for[OF publish_failed_later] i
    by (auto simp: login_end_def split_def
      split: login_answer.split issued.split option.split sum.split bool.split install.split
      intro: later_revoke)
qed

lemma challenge_end_later: "client_later (fst w) (fst (snd (challenge_end f g a w)))"
proof -
  have i: "client_later (fst w) (fst (snd (install_for_challenge f g s (snd (session_for x y me (fst w)), snd w))))"
    for s x y me
    using after_session_for[OF install_for_challenge_later[of "(snd (session_for x y me (fst w)), snd w)", simplified]]
    by simp
  show ?thesis
    using end_challenge_later[of "fst w" g] i session_for_later
    by (auto simp: challenge_end_def split_def Let_def
      split: challenge_answer.split option.split sum.split bool.split intro: later_revoke)
qed

lemma restore_end_later: "client_later (fst w) (fst (snd (snd (restore_end f g st family a w))))"
proof -
  have "client_later (fst w) (fst (revoke_later t (mark_family t family (fst v), snd v)))"
    if "client_later (fst w) (fst v)" for t v
    using that by (simp add: client_later_def mark_family_def signed_in_as_def held_tokens_def)
  then show ?thesis
    using install_for_login_later[of w f g _ "Some family"]
    by (auto simp: restore_end_def split_def Let_def
      split: refresh_answer.split option.split install.split)
qed

lemma restore_locked_client [simp]: "fst (snd (restore_locked f w)) = fst w"
  by (auto simp: restore_locked_def split: prod.split option.split sum.split)

lemma restore_profile_later: "client_later (fst w) (fst (snd (restore_profile f e u me w)))"
  using replace_user_later[of w f e]
  by (auto simp: restore_profile_def split_def split: option.split bool.split)

lemma close_cleanup_later: "client_later (fst w) (fst (close_cleanup f w))"
  using sign_out_later[of w f True]
  by (auto simp: close_cleanup_def split_def split: option.split intro: later_revoke)

text \<open>Every step moves a client forward.\<close>

theorem session_step_later: "client_later (fst w) (fst (session_step op w))"
  by (cases op)
    (simp_all add: session_step_def login_locked_later login_end_later challenge_end_later
      restore_end_later restore_profile_later logout_later refresh_begin_later refresh_end_later
      credentials_changed_later replace_user_later close_cleanup_later,
     auto simp: login_begin_def restore_begin_def reserve_login_def client_later_def signed_in_as_def
       held_tokens_def cancel_totp_def end_challenge_def close_fence_def set_persistence_def
       split: prod.split)

definition run_clients :: "(nat \<times> session_op) list \<Rightarrow> sessions \<Rightarrow> sessions" where
  "run_clients ops w = fold (\<lambda>(i, op). at_client i op) ops w"

lemma run_clients_simps [simp]:
  "run_clients [] w = w"
  "run_clients ((i, op) # ops) w = run_clients ops (at_client i op w)"
  by (simp_all add: run_clients_def)

lemma at_client_parts:
  "wd_client (at_client i op w) j =
     (if j = i then fst (session_step op (wd_client w i, wd_slot w)) else wd_client w j)"
  "wd_slot (at_client i op w) = snd (session_step op (wd_client w i, wd_slot w))"
  by (simp_all add: at_client_def split: prod.split)

lemma at_client_later: "client_later (wd_client w j) (wd_client (at_client i op w) j)"
  using session_step_later[of "(wd_client w i, wd_slot w)" op] by (simp add: at_client_parts)

theorem run_clients_later: "client_later (wd_client w j) (wd_client (run_clients ops w) j)"
proof (induction ops arbitrary: w)
  case (Cons p ops)
  obtain i op where "p = (i, op)" by (cases p)
  then show ?case using Cons[of "at_client i op w"] at_client_later[of w j i op]
    by (auto intro: client_later_trans)
qed simp

section \<open>Attempts that are over\<close>

text \<open>What a stale sign-in may not touch: the session, its revision, the published state, the slot.\<close>

definition signed_in_view where
  "signed_in_view w =
     (case w of (c, sl) \<Rightarrow>
        (cl_session c, cl_epoch c, cl_credential_rev c, cl_state c, cl_challenge_open c, cl_persisted c,
         cl_login_gen c, cl_not_before c, sl))"

lemma view_revoke [simp]: "signed_in_view (revoke_later t w) = signed_in_view w"
  by (simp add: signed_in_view_def split_def)

lemma view_mark [simp]: "signed_in_view (mark_family t n c, sl) = signed_in_view (c, sl)"
  by (simp add: signed_in_view_def mark_family_def)

lemma stale_parts:
  assumes "\<not> current g (fst w)"
  shows "install_for_login f g s r w = (Stale, w)" "install_for_challenge f g s w = (False, w)"
    "take_out_for_login f g w = (None, w)" "publish_failed_if_current g m (fst w) = fst w"
    "open_challenge g (fst w) = (False, fst w)" "challenge_current g (fst w) = False"
    "end_challenge g (fst w) = fst w"
  using assms
  by (auto simp: install_for_login_def install_for_challenge_def take_out_for_login_def
      publish_failed_if_current_def open_challenge_def challenge_current_def end_challenge_def
      split: prod.split)

lemma view_session_for [simp]:
  "signed_in_view (snd (session_for x y me c), sl) = signed_in_view (c, sl)"
  by (simp add: signed_in_view_def)

lemma stale_session_for:
  "\<not> current g c \<Longrightarrow> \<not> current g (snd (session_for x y me c))"
  by (simp add: current_def)

lemma stale_login_end:
  assumes "\<not> current g (fst w)"
  shows "signed_in_view (snd (login_end f g a w)) = signed_in_view w"
    "\<exists>e. fst (login_end f g a w) = Inl e"
proof -
  note p = stale_parts[of g "(snd (session_for x y me (fst w)), snd w)" for x y me]
  show "signed_in_view (snd (login_end f g a w)) = signed_in_view w"
    "\<exists>e. fst (login_end f g a w) = Inl e"
    using stale_parts[OF assms] p(1,4) stale_session_for[OF assms]
    by (auto simp: login_end_def split_def split: login_answer.split issued.split sum.split)
qed

lemma stale_challenge_end:
  assumes "\<not> current g (fst w)"
  shows "signed_in_view (snd (challenge_end f g a w)) = signed_in_view w"
    "\<exists>e. fst (challenge_end f g a w) = Inl e"
proof -
  note p = stale_parts[of g "(snd (session_for x y me (fst w)), snd w)" for x y me]
  show "signed_in_view (snd (challenge_end f g a w)) = signed_in_view w"
    "\<exists>e. fst (challenge_end f g a w) = Inl e"
    using stale_parts[OF assms] p(2) stale_session_for[OF assms]
    by (auto simp: challenge_end_def split_def Let_def split: challenge_answer.split sum.split)
qed

lemma stale_restore_end:
  assumes "cl_login_gen (fst w) \<noteq> g"
  shows "signed_in_view (snd (snd (restore_end f g st family a w))) = signed_in_view w"
    "fst (restore_end f g st family a w) \<in> {Offline, NotSignedIn, Superseded}"
proof -
  have c: "\<not> current g (fst w)" using assms by (simp add: current_def)
  have p: "clear_persisted_if_holds f g t w = w" for t
    using assms by (cases w) (simp add: clear_persisted_if_holds_def)
  show "signed_in_view (snd (snd (restore_end f g st family a w))) = signed_in_view w"
    "fst (restore_end f g st family a w) \<in> {Offline, NotSignedIn, Superseded}"
    by (auto simp: restore_end_def stale_parts[OF c] p Let_def split_def
        split: refresh_answer.split option.split)
qed

section \<open>What the slot can bring back\<close>

definition restorable :: "slot \<Rightarrow> bool" where
  "restorable sl \<longleftrightarrow> \<not> sl_fenced sl \<and> sl_stored sl \<noteq> None"

lemma restore_needs_restorable:
  assumes "\<not> restorable sl"
  shows "fst (restore_read f c sl) \<noteq> Some (Inr (Some x))"
  using assms
  by (auto simp: restore_read_def with_slot_def guarded_def fenced_def restorable_def slot_load_def
      split: prod.split option.split)

lemma slot_clear_keeps: "\<not> restorable sl \<Longrightarrow> \<not> restorable (snd (slot_clear f sl))"
  by (auto simp: slot_clear_def restorable_def write_fence_def)

lemma slot_clear_usable: "fst (slot_clear f sl) \<Longrightarrow> \<not> restorable (snd (slot_clear f sl))"
  by (auto simp: slot_clear_def restorable_def write_fence_def split: if_splits)

lemma slot_clear_owner [simp]:
  "sl_owner (snd (slot_clear f sl)) = sl_owner sl" "sl_family (snd (slot_clear f sl)) = sl_family sl"
  by (auto simp: slot_clear_def write_fence_def)

lemma slot_write_owner [simp]:
  "sl_owner (snd (slot_write f s sl)) = sl_owner sl" "sl_family (snd (slot_write f s sl)) = sl_family sl"
  by (auto simp: slot_write_def write_fence_def lift_fence_def)

lemma slot_clear_if_holds_owner [simp]:
  "sl_owner (slot_clear_if_holds f t sl) = sl_owner sl"
  by (auto simp: slot_clear_if_holds_def split: sum.split option.split)

lemma follow_rotation_owner [simp]: "sl_owner (snd (follow_rotation f a b sl)) = sl_owner sl"
  by (auto simp: follow_rotation_def split: sum.split option.split)

lemma rewrite_user_owner [simp]: "sl_owner (snd (rewrite_user f s sl)) = sl_owner sl"
  by (auto simp: rewrite_user_def split: sum.split option.split)

lemma with_slot_owner:
  "(\<And>sl. sl_owner (snd (op sl)) = sl_owner sl) \<Longrightarrow> sl_owner (snd (with_slot c op sl)) = sl_owner sl"
  by (auto simp: with_slot_def guarded_def split_def)

lemma slot_clear_if_holds_keeps: "\<not> restorable sl \<Longrightarrow> \<not> restorable (slot_clear_if_holds f t sl)"
  by (auto simp: slot_clear_if_holds_def slot_clear_keeps split: sum.split option.split)

lemma follow_rotation_keeps: "\<not> restorable sl \<Longrightarrow> \<not> restorable (snd (follow_rotation f a b sl))"
  by (auto simp: follow_rotation_def restorable_def slot_load_def split: sum.split option.split)

lemma rewrite_user_keeps: "\<not> restorable sl \<Longrightarrow> \<not> restorable (snd (rewrite_user f s sl))"
  by (auto simp: rewrite_user_def restorable_def slot_load_def split: sum.split option.split)

lemma with_slot_keeps:
  "\<lbrakk>\<not> restorable sl; \<And>sl. \<not> restorable sl \<Longrightarrow> \<not> restorable (snd (op sl))\<rbrakk>
   \<Longrightarrow> \<not> restorable (snd (with_slot c op sl))"
  by (auto simp: with_slot_def guarded_def split_def)

text \<open>The steps that put a session into a store.\<close>

definition signs_in :: "session_op \<Rightarrow> bool" where
  "signs_in op = (case op of LoginEnd _ _ _ \<Rightarrow> True | ChallengeEnd _ _ _ \<Rightarrow> True | RestoreEnd _ _ _ _ _ \<Rightarrow> True | _ \<Rightarrow> False)"

text \<open>
  Signed out for good: nothing can be restored, and the slot's owner, if any, holds no session.
\<close>

definition nobody :: "sessions \<Rightarrow> bool" where
  "nobody w \<longleftrightarrow> \<not> restorable (wd_slot w)
     \<and> (\<forall>i. cl_id (wd_client w i) = i)
     \<and> (case sl_owner (wd_slot w) of Some i \<Rightarrow> cl_session (wd_client w i) = None | None \<Rightarrow> True)"

text \<open>One client's part: a slot nobody can restore from stays so, unless its owner holds a session.\<close>

definition quiet :: "site \<Rightarrow> bool" where
  "quiet w \<longleftrightarrow> \<not> restorable (snd w) \<and> (slot_owns (cl_id (fst w)) (snd w) \<longrightarrow> cl_session (fst w) = None)"

lemma quiet_revoke [simp]: "quiet (revoke_later t w) = quiet w"
  by (simp add: quiet_def)

lemma sign_out_quiet: "quiet w \<Longrightarrow> quiet (snd (sign_out f b w))"
  by (simp add: quiet_def with_slot_keeps slot_clear_keeps)

lemma take_out_quiet: "quiet w \<Longrightarrow> quiet (snd (take_out_for_login f g w))"
  by (cases w)
    (auto simp: quiet_def take_out_for_login_def Let_def new_epoch_def with_slot_keeps slot_clear_keeps
      with_slot_owner slot_owns_def)

lemma replace_user_quiet: "quiet w \<Longrightarrow> quiet (snd (replace_user f e u w))"
  by (cases w)
    (auto simp: quiet_def replace_user_def Let_def with_slot_keeps rewrite_user_keeps with_slot_owner
      slot_owns_def split: option.split)

lemma mark_family_other [simp]:
  "cl_session (mark_family t n c) = cl_session c" "cl_id (mark_family t n c) = cl_id c"
  "cl_persistence (mark_family t n c) = cl_persistence c" "cl_closed (mark_family t n c) = cl_closed c"
  "cl_persisted (mark_family t n c) = cl_persisted c" "cl_state (mark_family t n c) = cl_state c"
  "cl_epoch (mark_family t n c) = cl_epoch c" "cl_login_gen (mark_family t n c) = cl_login_gen c"
  "cl_credential_rev (mark_family t n c) = cl_credential_rev c"
  by (simp_all add: mark_family_def)

lemma commit_quiet: "quiet w \<Longrightarrow> quiet (snd (commit_refresh f old a t b w))"
  by (cases w)
    (auto simp: quiet_def commit_refresh_def Let_def with_slot_keeps follow_rotation_keeps
      with_slot_owner slot_owns_def guarded_def split: option.split prod.splits
      dest!: arg_cong[where f = snd])

lemma clear_if_holds_quiet: "quiet w \<Longrightarrow> quiet (snd (clear_if_holds f t w))"
  by (cases w)
    (auto simp: quiet_def clear_if_holds_def new_epoch_def with_slot_keeps slot_clear_keeps
      with_slot_owner slot_owns_def split: option.split)

lemma restore_read_slot:
  "snd (restore_read f c sl) = sl \<or> snd (restore_read f c sl) = snd (slot_clear f sl)"
  by (auto simp: restore_read_def with_slot_def guarded_def split: prod.split)

lemma restore_locked_slot:
  "snd (snd (restore_locked f w)) = snd w \<or> snd (snd (restore_locked f w)) = snd (slot_clear f (snd w))"
proof -
  have "snd (snd (restore_locked f w)) \<in> {snd w, snd (restore_read f (fst w) (snd w))}"
    by (auto simp: restore_locked_def split: prod.split option.split sum.split)
  then show ?thesis using restore_read_slot[of f "fst w" "snd w"] by auto
qed

lemma restore_locked_quiet: "quiet w \<Longrightarrow> quiet (snd (restore_locked f w))"
  using restore_locked_slot[of f w] by (auto simp: quiet_def slot_clear_keeps slot_owns_def)

lemma refresh_begin_quiet: "quiet w \<Longrightarrow> quiet (snd (refresh_begin f now w))"
  by (auto simp: refresh_begin_def split_def sign_out_quiet split: option.split)

lemma refresh_end_quiet: "quiet w \<Longrightarrow> quiet (snd (refresh_end f now t a w))"
proof -
  have n: "quiet ((fst w)\<lparr>cl_not_before := x\<rparr>, snd w) = quiet w" for x by (simp add: quiet_def)
  show "quiet w \<Longrightarrow> quiet (snd (refresh_end f now t a w))"
    by (auto simp: refresh_end_def split_def Let_def n commit_quiet clear_if_holds_quiet
      split: refresh_answer.split option.split refresh_applied.split)
qed

lemma quiet_step:
  assumes "quiet w" "\<not> signs_in op" "op = EnablePersistence \<Longrightarrow> cl_session (fst w) = None"
  shows "quiet (session_step op w)"
proof (cases op)
  case (LoginLocked f g)
  then show ?thesis using take_out_quiet[OF assms(1), of f g]
    by (auto simp: session_step_def login_locked_def split_def split: option.split)
next
  case (RestoreLocked f)
  then show ?thesis using assms by (simp add: session_step_def restore_locked_quiet)
next
  case (RestoreProfile f e u me)
  then show ?thesis using assms replace_user_quiet[of w f e]
    by (auto simp: session_step_def restore_profile_def split_def split: option.split bool.split)
next
  case (Logout f)
  have "quiet ((fst w)\<lparr>cl_runtime := True\<rparr>, snd w)" using assms by (simp add: quiet_def)
  then show ?thesis using sign_out_quiet Logout
    by (auto simp: session_step_def logout_def split_def split: option.split)
next
  case (CredentialsChanged f used access fresh)
  then show ?thesis using commit_quiet[OF assms(1)]
    by (auto simp: session_step_def credentials_changed_def split_def split: refresh_applied.split)
next
  case (CloseCleanup f)
  then show ?thesis using assms(1) sign_out_quiet[of w f True]
    by (auto simp: session_step_def close_cleanup_def split_def split: option.split)
next
  case EnablePersistence
  then show ?thesis using assms
    by (auto simp: session_step_def set_persistence_def quiet_def slot_claim_def restorable_def
        split: prod.split)
next
  case (RefreshBegin f now)
  then show ?thesis using assms(1) by (simp add: session_step_def refresh_begin_quiet)
next
  case (RefreshEnd f now t a)
  then show ?thesis using assms(1) by (simp add: session_step_def refresh_end_quiet)
next
  case (UpdateUser f e u)
  then show ?thesis using assms(1) by (simp add: session_step_def replace_user_quiet)
qed (use assms in \<open>auto simp: session_step_def
       signs_in_def login_begin_def restore_begin_def reserve_login_def cancel_totp_def end_challenge_def
       close_fence_def quiet_def\<close>)

lemma mark_new_login_owner [simp]: "sl_owner (snd (mark_new_login t w)) = sl_owner (snd w)"
  by (auto simp: mark_new_login_def new_family_def split: prod.split)

lemma guarded_owner [simp]: "sl_owner (snd (guarded i (slot_write f s) sl)) = sl_owner sl"
  by (auto simp: guarded_def split_def)

lemma with_slot_write_owner [simp]: "sl_owner (snd (with_slot c (slot_write f s) sl)) = sl_owner sl"
  by (rule with_slot_owner) simp

lemma commit_owner [simp]: "sl_owner (snd (snd (commit_refresh f old a t b w))) = sl_owner (snd w)"
  by (cases w)
    (auto simp: commit_refresh_def Let_def split_def with_slot_owner mark_new_login_def new_family_def
      split: option.split)

lemma install_for_login_owner [simp]:
  "sl_owner (snd (snd (install_for_login f g s r w))) = sl_owner (snd w)"
  by (cases w) (auto simp: install_for_login_def Let_def split_def mark_new_login_def new_family_def
      split: option.split)

lemma install_for_challenge_owner [simp]:
  "sl_owner (snd (snd (install_for_challenge f g s w))) = sl_owner (snd w)"
  by (cases w) (auto simp: install_for_challenge_def Let_def split_def mark_new_login_def new_family_def
      split: option.split)

lemma take_out_owner [simp]: "sl_owner (snd (snd (take_out_for_login f g w))) = sl_owner (snd w)"
  by (cases w) (auto simp: take_out_for_login_def Let_def with_slot_owner)

lemma replace_user_slot_owner [simp]: "sl_owner (snd (snd (replace_user f e u w))) = sl_owner (snd w)"
  by (cases w) (auto simp: replace_user_def Let_def with_slot_owner split: option.split)

lemma clear_if_holds_owner [simp]: "sl_owner (snd (snd (clear_if_holds f t w))) = sl_owner (snd w)"
  by (cases w) (auto simp: clear_if_holds_def with_slot_owner split: option.split)

lemma clear_persisted_owner [simp]:
  "sl_owner (snd (clear_persisted_if_holds f g t w)) = sl_owner (snd w)"
  by (cases w) (simp add: clear_persisted_if_holds_def guarded_def)

lemma step_owner:
  assumes "op \<noteq> EnablePersistence"
  shows "sl_owner (snd (session_step op w)) = sl_owner (snd w)"
proof (cases op)
  case (RestoreLocked f)
  then show ?thesis using restore_locked_slot[of f w] by (auto simp: session_step_def)
next
  case (Logout f)
  then show ?thesis
    by (auto simp: session_step_def logout_def split_def with_slot_owner split: option.split)
next
  case (RefreshBegin f now)
  then show ?thesis
    by (auto simp: session_step_def refresh_begin_def split_def with_slot_owner split: option.split)
next
  case (CloseCleanup f)
  then show ?thesis
    by (auto simp: session_step_def close_cleanup_def split_def split: option.split)
qed (use assms in \<open>auto simp: session_step_def login_locked_def login_end_def challenge_end_def
       restore_end_def restore_profile_def refresh_end_def credentials_changed_def split_def Let_def
       split: option.split login_answer.split issued.split challenge_answer.split sum.split install.split
         refresh_answer.split refresh_applied.split bool.split\<close>)

lemma nobody_step:
  assumes "nobody w" "\<not> signs_in op" "op = EnablePersistence \<Longrightarrow> cl_session (wd_client w i) = None"
  shows "nobody (at_client i op w)"
proof -
  let ?s = "(wd_client w i, wd_slot w)"
  let ?s' = "session_step op ?s"
  have q: "quiet ?s"
    using assms(1) by (auto simp: nobody_def quiet_def slot_owns_def)
  have q': "quiet ?s'"
    using quiet_step[OF q assms(2)] assms(3) by auto
  have i: "cl_id (fst ?s') = i"
    using session_step_later[of ?s op] assms(1) by (simp add: client_later_def nobody_def)
  have o: "sl_owner (snd ?s') = sl_owner (wd_slot w) \<or> sl_owner (snd ?s') = Some i"
  proof (cases "op = EnablePersistence")
    case True
    then show ?thesis using assms(1)
      by (simp add: session_step_def set_persistence_def slot_claim_def nobody_def)
  next
    case False
    then show ?thesis using step_owner[of op ?s] by simp
  qed
  show ?thesis
    using assms(1) q' i o
    by (auto simp: nobody_def at_client_parts quiet_def slot_owns_def split: option.splits)
qed

section \<open>Only the owner writes the slot\<close>

lemma with_slot_other [simp]: "\<not> slot_owns (cl_id c) sl \<Longrightarrow> with_slot c op sl = (None, sl)"
  by (simp add: with_slot_def guarded_def slot_owns_def)

lemma guarded_other [simp]: "\<not> slot_owns i sl \<Longrightarrow> guarded i op sl = (None, sl)"
  by (simp add: guarded_def slot_owns_def)

lemma other_parts:
  assumes "\<not> slot_owns (cl_id (fst w)) (snd w)"
  shows "snd (snd (sign_out f b w)) = snd w" "snd (snd (take_out_for_login f g w)) = snd w"
    "snd (snd (install_for_challenge f g s w)) = snd w" "snd (snd (replace_user f e u w)) = snd w"
    "snd (snd (commit_refresh f old a t rot w)) = snd w" "snd (snd (clear_if_holds f t w)) = snd w"
    "snd (clear_persisted_if_holds f g t w) = snd w" "snd (snd (restore_locked f w)) = snd w"
    "snd (snd (install_for_login f g s r w)) = snd w"
  using assms
  by (cases w; auto simp: take_out_for_login_def install_for_challenge_def replace_user_def Let_def
      commit_refresh_def clear_if_holds_def clear_persisted_if_holds_def restore_locked_def
      restore_read_def install_for_login_def split: option.split sum.split)+

theorem step_other:
  assumes "\<not> slot_owns (cl_id (fst w)) (snd w)" "op \<noteq> EnablePersistence"
  shows "snd (session_step op w) = snd w"
proof (cases op)
  case (Logout f)
  then show ?thesis using other_parts(1)[of "((fst w)\<lparr>cl_runtime := True\<rparr>, snd w)"] assms
    by (auto simp: session_step_def logout_def split_def split: option.split)
next
  case (RefreshBegin f now)
  then show ?thesis using assms
    by (auto simp: session_step_def refresh_begin_def split_def split: option.split)
next
  case (CloseCleanup f)
  then show ?thesis
    by (auto simp: session_step_def close_cleanup_def split_def split: option.split)
qed (use assms in \<open>auto simp: session_step_def login_locked_def login_end_def challenge_end_def
       restore_end_def restore_profile_def refresh_end_def credentials_changed_def split_def Let_def other_parts
       split: option.split login_answer.split issued.split challenge_answer.split sum.split install.split
         refresh_answer.split refresh_applied.split bool.split\<close>)

section \<open>Signed out for good\<close>

text \<open>The attempt whose answer a step brings.\<close>

fun ends_attempt :: "session_op \<Rightarrow> nat option" where
  "ends_attempt (LoginEnd _ g _) = Some g"
| "ends_attempt (ChallengeEnd _ g _) = Some g"
| "ends_attempt (RestoreEnd _ g _ _ _) = Some g"
| "ends_attempt _ = None"

lemma ends_attempt_None: "ends_attempt op = None \<longleftrightarrow> \<not> signs_in op"
  by (cases op) (simp_all add: signs_in_def)

lemma nobody_cong:
  assumes "nobody w" "wd_slot w' = wd_slot w" "\<And>j. cl_id (wd_client w' j) = cl_id (wd_client w j)"
    "\<And>j. sl_owner (wd_slot w) = Some j \<Longrightarrow> cl_session (wd_client w' j) = cl_session (wd_client w j)"
  shows "nobody w'"
  using assms by (auto simp: nobody_def split: option.splits)

lemma at_client_ids: "(\<And>j. cl_id (wd_client w j) = j) \<Longrightarrow> cl_id (wd_client (at_client i op w) j) = j"
  using session_step_later[of "(wd_client w i, wd_slot w)" op] by (simp add: at_client_parts client_later_def)

text \<open>An attempt that is over changes nothing; a client that does not own the slot, nothing in it.\<close>

lemma nobody_stale_end:
  assumes "nobody w" "ends_attempt op = Some g" "cl_login_gen (wd_client w i) \<noteq> g"
  shows "nobody (at_client i op w)"
proof -
  let ?s = "(wd_client w i, wd_slot w)"
  have "\<not> current g (fst ?s)" using assms(3) by (simp add: current_def)
  then have v: "signed_in_view (session_step op ?s) = signed_in_view ?s"
    using assms(2,3) stale_login_end(1)[of g ?s] stale_challenge_end(1)[of g ?s] stale_restore_end(1)[of ?s g]
    by (cases op) (simp_all add: session_step_def)
  then have "snd (session_step op ?s) = wd_slot w" "cl_session (fst (session_step op ?s)) = cl_session (wd_client w i)"
    by (simp_all add: signed_in_view_def split_def)
  then show ?thesis
    using assms(1) at_client_ids[of w i op]
    by (intro nobody_cong[OF assms(1)]) (auto simp: at_client_parts nobody_def)
qed

lemma nobody_other_end:
  assumes "nobody w" "ends_attempt op = Some g" "sl_owner (wd_slot w) \<noteq> Some i"
  shows "nobody (at_client i op w)"
proof -
  let ?s = "(wd_client w i, wd_slot w)"
  have "\<not> slot_owns (cl_id (fst ?s)) (snd ?s)" using assms(1,3) by (simp add: slot_owns_def nobody_def)
  moreover have "op \<noteq> EnablePersistence" using assms(2) by auto
  ultimately have "snd (session_step op ?s) = wd_slot w" using step_other[of ?s op] by simp
  then show ?thesis
    using assms(1,3) at_client_ids[of w i op]
    by (intro nobody_cong[OF assms(1)]) (auto simp: at_client_parts nobody_def)
qed

text \<open>
  The runs of a process whose client \<open>i\<close> signed out after its attempt \<open>n\<close>: any answer to \<open>i\<close>'s
  attempts up to then may still come, and any to a client that does not own the slot; nobody else
  completes a sign-in, and the slot is enabled only by clients with no session.
\<close>

fun no_sign_in :: "nat \<Rightarrow> nat \<Rightarrow> (nat \<times> session_op) list \<Rightarrow> sessions \<Rightarrow> bool" where
  "no_sign_in i n [] w = True"
| "no_sign_in i n ((j, op) # ops) w =
     ((case ends_attempt op of Some g \<Rightarrow> j = i \<and> g \<le> n \<or> sl_owner (wd_slot w) \<noteq> Some j | None \<Rightarrow> True)
      \<and> (op = EnablePersistence \<longrightarrow> cl_session (wd_client w j) = None)
      \<and> no_sign_in i n ops (at_client j op w))"

lemma nobody_run:
  "nobody w \<Longrightarrow> n < cl_login_gen (wd_client w i) \<Longrightarrow> no_sign_in i n ops w \<Longrightarrow> nobody (run_clients ops w)"
proof (induction i n ops w rule: no_sign_in.induct)
  case (2 i n j op ops w)
  have later: "n < cl_login_gen (wd_client (at_client j op w) i)"
    using "2.prems"(2) at_client_later[of w i j op] by (simp add: client_later_def)
  have "nobody (at_client j op w)"
  proof (cases "ends_attempt op")
    case None
    then show ?thesis using "2.prems" nobody_step[of w op j] by (simp add: ends_attempt_None)
  next
    case (Some g)
    then show ?thesis
      using "2.prems" nobody_stale_end[OF "2.prems"(1) Some, of j] nobody_other_end[OF "2.prems"(1) Some, of j] by auto
  qed
  then show ?case using "2.IH" later "2.prems"(3) by simp
qed simp

lemma logout_of_owner:
  assumes id: "\<forall>i. cl_id (wd_client w i) = i" and own: "sl_owner (wd_slot w) = Some i"
    and pers: "cl_persistence (wd_client w i)"
    and ok: "cl_sign_out_complete (wd_client (at_client i (Logout f) w) i)"
  shows "nobody (at_client i (Logout f) w)"
proof -
  let ?s = "(wd_client w i, wd_slot w)"
  have c: "cl_session (fst (session_step (Logout f) ?s)) = None"
    by (auto simp: session_step_def logout_def split_def split: option.split)
  have sl: "snd (session_step (Logout f) ?s) = snd (slot_clear f (wd_slot w))"
    using own pers id
    by (auto simp: session_step_def logout_def split_def with_slot_def guarded_def split: option.split)
  have "fst (slot_clear f (wd_slot w))"
    using ok own pers id
    by (auto simp: at_client_parts session_step_def logout_def split_def with_slot_def guarded_def
        sign_out_def Let_def new_epoch_def split: option.splits prod.splits)
  then have "\<not> restorable (snd (slot_clear f (wd_slot w)))" by (rule slot_clear_usable)
  moreover have "cl_id (fst (session_step (Logout f) ?s)) = i"
    using session_step_later[of ?s "Logout f"] id by (simp add: client_later_def)
  ultimately show ?thesis
    using own id c sl by (auto simp: nobody_def at_client_parts)
qed

section \<open>The stored copy follows the session\<close>

text \<open>A key store and a file system that never both refuse: what cannot be replaced can be fenced.\<close>

definition fence_works :: "slot_faults \<Rightarrow> bool" where
  "fence_works f \<longleftrightarrow> \<not> (sf_replace f \<and> sf_fence f)"

definition mirrors :: "client \<Rightarrow> slot \<Rightarrow> bool" where
  "mirrors c sl \<longleftrightarrow>
     (case cl_session c of
        None \<Rightarrow> True
      | Some s \<Rightarrow>
          (case sl_stored sl of
             None \<Rightarrow> True
           | Some st \<Rightarrow> sd_token st = s_refresh_token s \<and> u_id (sd_user st) = u_id (s_user s)))"

definition follows :: "site \<Rightarrow> bool" where
  "follows w \<longleftrightarrow>
     (slot_owns (cl_id (fst w)) (snd w) \<and> \<not> cl_closed (fst w) \<longrightarrow>
        cl_persistence (fst w) \<and> (restorable (snd w) \<longrightarrow> mirrors (fst w) (snd w)))"

lemma write_mirrors:
  assumes "fence_works f" "restorable (snd (slot_write f s sl))"
  shows "sl_stored (snd (slot_write f s sl)) = Some \<lparr>sd_user = s_user s, sd_token = s_refresh_token s\<rparr>"
  using assms
  by (auto simp: slot_write_def fence_works_def restorable_def write_fence_def lift_fence_def split: if_splits)

lemma follows_revoke [simp]: "follows (revoke_later t w) = follows w"
  by (simp add: follows_def mirrors_def split_def)

lemma follows_revoke_now [simp]: "follows (revoke_now t w) = follows w"
  by (simp add: follows_def mirrors_def split_def)

lemma no_session_follows: "cl_session c = None \<Longrightarrow> (slot_owns (cl_id c) sl \<longrightarrow> cl_persistence c) \<Longrightarrow> follows (c, sl)"
  by (simp add: follows_def mirrors_def)

lemma with_slot_owns: "slot_owns i (snd (with_slot c (slot_clear f) sl)) = slot_owns i sl"
  by (simp add: slot_owns_def with_slot_owner)

definition keeps_claim :: "site \<Rightarrow> bool" where
  "keeps_claim w \<longleftrightarrow> (slot_owns (cl_id (fst w)) (snd w) \<longrightarrow> cl_persistence (fst w))"

lemma sign_out_follows: "keeps_claim w \<Longrightarrow> follows (snd (sign_out f b w))"
  unfolding keeps_claim_def
  by (cases "snd (sign_out f b w)")
    (rule ssubst, assumption, rule no_session_follows,
     metis fst_conv sign_out_fields(4), metis fst_conv snd_conv sign_out_fields(2,8) sign_out_slot with_slot_owns)

lemma mirrors_simps [simp]:
  "mirrors (c\<lparr>cl_credential_rev := n1\<rparr>) sl = mirrors c sl" "mirrors (c\<lparr>cl_not_before := n2\<rparr>) sl = mirrors c sl"
  "mirrors (c\<lparr>cl_epoch := n3\<rparr>) sl = mirrors c sl" "mirrors (c\<lparr>cl_state := n4\<rparr>) sl = mirrors c sl"
  "mirrors (c\<lparr>cl_persisted := n5\<rparr>) sl = mirrors c sl" "mirrors (c\<lparr>cl_challenge_open := n6\<rparr>) sl = mirrors c sl"
  "mirrors (c\<lparr>cl_slot_tokens := n7\<rparr>) sl = mirrors c sl" "mirrors (c\<lparr>cl_login_gen := n8\<rparr>) sl = mirrors c sl"
  "mirrors (c\<lparr>cl_runtime := n9\<rparr>) sl = mirrors c sl"
  "mirrors c (sl\<lparr>sl_family := n\<rparr>) = mirrors c sl" "restorable (sl\<lparr>sl_family := n\<rparr>) = restorable sl"
  "slot_owns i (sl\<lparr>sl_family := n\<rparr>) = slot_owns i sl"
  "mirrors (mark_family t fam c) sl = mirrors c sl" "mirrors (carry b inh t c) sl = mirrors c sl"
  by (auto simp: mirrors_def restorable_def slot_owns_def split: option.split)

lemma mirrors_none [simp]: "cl_session c = None \<Longrightarrow> mirrors c sl"
  by (simp add: mirrors_def)

lemma mirrors_write:
  "fence_works f \<Longrightarrow> restorable (snd (slot_write f s sl)) \<Longrightarrow> cl_session c = Some s
   \<Longrightarrow> mirrors c (snd (slot_write f s sl))"
  by (simp add: mirrors_def write_mirrors)

lemma slot_owns_write [simp]: "slot_owns i (snd (slot_write f s sl)) = slot_owns i sl"
  "slot_owns i (snd (slot_clear f sl)) = slot_owns i sl"
  by (simp_all add: slot_owns_def)

lemma commit_follows:
  assumes "fence_works f" "follows w" "keeps_claim w"
  shows "follows (snd (commit_refresh f old a t b w))"
proof -
  obtain c sl where w: "w = (c, sl)" by (cases w)
  show ?thesis
    using assms mirrors_write[OF assms(1)]
    by (auto simp: w follows_def keeps_claim_def commit_refresh_def Let_def guarded_def split_def
        mark_new_login_def new_family_def slot_owns_def[symmetric] with_slot_def
        split: option.splits)
qed

lemma install_for_login_follows:
  assumes "fence_works f" "follows w" "keeps_claim w"
  shows "follows (snd (install_for_login f g s r w))"
proof -
  obtain c sl where w: "w = (c, sl)" by (cases w)
  show ?thesis
    using assms mirrors_write[OF assms(1)]
    by (auto simp: w follows_def keeps_claim_def install_for_login_def Let_def guarded_def split_def
        mark_new_login_def new_family_def slot_owns_def[symmetric] with_slot_def installed_def new_epoch_def
        split: option.splits)
qed

lemma install_for_challenge_follows:
  assumes "fence_works f" "follows w" "keeps_claim w"
  shows "follows (snd (install_for_challenge f g s w))"
proof -
  obtain c sl where w: "w = (c, sl)" by (cases w)
  show ?thesis
    using assms mirrors_write[OF assms(1)]
    by (auto simp: w follows_def keeps_claim_def install_for_challenge_def Let_def guarded_def split_def
        mark_new_login_def new_family_def slot_owns_def[symmetric] with_slot_def installed_def new_epoch_def
        split: option.splits)
qed

lemma clear_keeps_mirrors:
  "mirrors c sl \<Longrightarrow> restorable (snd (slot_clear f sl)) \<Longrightarrow> mirrors c (snd (slot_clear f sl))"
  by (auto simp: mirrors_def slot_clear_def write_fence_def split: option.split)

lemma clear_restorable: "restorable (snd (slot_clear f sl)) \<Longrightarrow> restorable sl"
  using slot_clear_keeps by blast

lemma take_out_follows:
  assumes "follows w" "keeps_claim w"
  shows "follows (snd (take_out_for_login f g w))"
proof -
  obtain c sl where w: "w = (c, sl)" by (cases w)
  show ?thesis
    using assms
    by (auto simp: w follows_def keeps_claim_def take_out_for_login_def Let_def split_def with_slot_def guarded_def
        new_epoch_def slot_owns_def[symmetric] split: option.splits)
qed

lemma rewrite_user_mirrors:
  assumes "restorable sl \<longrightarrow> mirrors c sl" "cl_session c = Some s" "u_id u = u_id (s_user s)"
    "restorable (snd (rewrite_user f (s\<lparr>s_user := u\<rparr>) sl))"
  shows "mirrors (c\<lparr>cl_session := Some (s\<lparr>s_user := u\<rparr>)\<rparr>) (snd (rewrite_user f (s\<lparr>s_user := u\<rparr>) sl))"
  using assms
  by (auto simp: rewrite_user_def mirrors_def restorable_def slot_load_def
      split: option.splits sum.splits if_splits)

lemma user_change_mirrors:
  assumes "mirrors c sl" "cl_session c = Some s" "u_id u = u_id (s_user s)"
  shows "mirrors (c\<lparr>cl_session := Some (s\<lparr>s_user := u\<rparr>)\<rparr>) sl"
  using assms by (auto simp: mirrors_def split: option.splits)

lemma replace_user_follows:
  assumes "follows w" "keeps_claim w"
  shows "follows (snd (replace_user f e u w))"
proof -
  obtain c sl where w: "w = (c, sl)" by (cases w)
  show ?thesis
    using assms rewrite_user_mirrors[of sl c _ u f] user_change_mirrors[of c sl _ u]
    by (auto simp: w follows_def keeps_claim_def replace_user_def Let_def split_def with_slot_def guarded_def
        slot_owns_def split: option.splits)
qed

lemma clear_if_holds_follows:
  assumes "follows w" "keeps_claim w"
  shows "follows (snd (clear_if_holds f t w))"
proof -
  obtain c sl where w: "w = (c, sl)" by (cases w)
  show ?thesis
    using assms
    by (auto simp: w follows_def keeps_claim_def clear_if_holds_def new_epoch_def split_def with_slot_def guarded_def
        slot_owns_def split: option.splits)
qed

lemma clear_persisted_follows:
  assumes "follows w"
  shows "follows (clear_persisted_if_holds f g t w)"
proof -
  obtain c sl where w: "w = (c, sl)" by (cases w)
  show ?thesis
    using assms clear_keeps_mirrors[of c sl f] clear_restorable[of f sl]
    by (auto simp: w follows_def clear_persisted_if_holds_def guarded_def slot_clear_if_holds_def
        slot_owns_def split: option.splits sum.splits)
qed

section \<open>Steps keep the stored copy in step with the session\<close>

definition op_faults :: "session_op \<Rightarrow> slot_faults" where
  "op_faults op =
     (case op of
        LoginLocked f _ \<Rightarrow> f | LoginEnd f _ _ \<Rightarrow> f | ChallengeEnd f _ _ \<Rightarrow> f | RestoreLocked f \<Rightarrow> f
      | RestoreEnd f _ _ _ _ \<Rightarrow> f | RestoreProfile f _ _ _ \<Rightarrow> f | Logout f \<Rightarrow> f | RefreshBegin f _ \<Rightarrow> f
      | RefreshEnd f _ _ _ \<Rightarrow> f | CredentialsChanged f _ _ _ \<Rightarrow> f | UpdateUser f _ _ \<Rightarrow> f
      | CloseCleanup f \<Rightarrow> f | _ \<Rightarrow> no_faults)"

lemma keeps_claim_step: "keeps_claim w \<Longrightarrow> keeps_claim (session_step op w)"
proof (cases "op = EnablePersistence")
  case True
  then show ?thesis by (simp add: keeps_claim_def session_step_def set_persistence_def split: prod.split)
next
  case False
  assume "keeps_claim w"
  then show ?thesis
    using step_owner[OF False, of w] session_step_later[of w op]
    by (simp add: keeps_claim_def slot_owns_def client_later_def)
qed

lemma follows_cong:
  assumes "cl_session c' = cl_session c" "cl_id c' = cl_id c" "cl_closed c \<longrightarrow> cl_closed c'"
    "cl_persistence c' = cl_persistence c" "follows (c, sl)"
  shows "follows (c', sl)"
  using assms by (auto simp: follows_def mirrors_def)

lemma follows_clear: "follows (c, sl) \<Longrightarrow> follows (c, snd (slot_clear f sl))"
  using clear_keeps_mirrors clear_restorable by (auto simp: follows_def)

lemma follows_restore_locked:
  assumes "follows w"
  shows "follows (snd (restore_locked f w))"
proof -
  have "snd (restore_locked f w) = (fst w, snd (snd (restore_locked f w)))"
    by (metis prod.collapse restore_locked_client)
  moreover have "follows (fst w, snd w)" using assms by simp
  ultimately show ?thesis
    using restore_locked_slot[of f w] follows_clear by metis
qed

lemma follows_logout: "keeps_claim w \<Longrightarrow> follows (logout f w)"
  using sign_out_follows[of "((fst w)\<lparr>cl_runtime := True\<rparr>, snd w)" f False]
  by (auto simp: logout_def split_def keeps_claim_def split: option.split)

lemma follows_refresh_end:
  assumes "fence_works f" "follows w" "keeps_claim w"
  shows "follows (snd (refresh_end f now t a w))"
proof -
  have n: "follows ((fst w)\<lparr>cl_not_before := x\<rparr>, snd w)" for x
    using assms(2) by (simp add: follows_def)
  show ?thesis
    using assms by (auto simp: refresh_end_def split_def Let_def n commit_follows clear_if_holds_follows
      split: refresh_answer.split option.split refresh_applied.split)
qed

lemma after_session_for_follows:
  assumes "follows w" "keeps_claim w"
  shows "follows (snd (session_for x y me (fst w)), snd w) \<and> keeps_claim (snd (session_for x y me (fst w)), snd w)"
  using assms by (simp add: follows_def mirrors_def keeps_claim_def)

lemma follows_login_end:
  assumes "fence_works f" "follows w" "keeps_claim w"
  shows "follows (snd (login_end f g a w))"
proof -
  have o: "follows (snd (open_challenge g (fst w)), snd w)"
    using assms(2) by (simp add: open_challenge_def follows_def)
  have p: "follows (publish_failed_if_current g m c, sl) = follows (c, sl)" for m c sl
    by (simp add: publish_failed_if_current_def follows_def)
  show ?thesis
    using assms install_for_login_follows after_session_for_follows[OF assms(2,3)] o p
    by (auto simp: login_end_def split_def
        split: login_answer.split issued.split option.split sum.split bool.split install.split)
qed

lemma follows_challenge_end:
  assumes "fence_works f" "follows w" "keeps_claim w"
  shows "follows (snd (challenge_end f g a w))"
proof -
  have e: "follows (end_challenge g (fst w), snd w)"
    using assms(2) by (simp add: end_challenge_def follows_def mirrors_def)
  show ?thesis
    using assms install_for_challenge_follows after_session_for_follows[OF assms(2,3)] e
    by (auto simp: challenge_end_def split_def Let_def
        split: challenge_answer.split option.split sum.split bool.split)
qed

lemma follows_restore_end:
  assumes "fence_works f" "follows w" "keeps_claim w"
  shows "follows (snd (snd (restore_end f g st fam a w)))"
proof -
  have m: "follows (mark_family t n (fst v), snd v) = follows v" for t n v
    by (simp add: follows_def)
  show ?thesis
    using assms install_for_login_follows clear_persisted_follows
    by (auto simp: restore_end_def split_def Let_def m
        split: refresh_answer.split option.split install.split)
qed

theorem follows_step:
  assumes "follows w" "keeps_claim w" "fence_works (op_faults op)"
    "op = EnablePersistence \<Longrightarrow> cl_session (fst w) = None"
  shows "follows (session_step op w)"
proof (cases op)
  case LoginBegin
  then show ?thesis using assms(1)
    by (simp add: session_step_def login_begin_def reserve_login_def follows_def mirrors_def)
next
  case (LoginLocked f g)
  then show ?thesis using take_out_follows[OF assms(1,2), of f g]
    by (auto simp: session_step_def login_locked_def split_def split: option.split)
next
  case (CancelTotp s g)
  then show ?thesis using assms(1)
    by (auto simp: session_step_def cancel_totp_def end_challenge_def follows_def mirrors_def)
next
  case RestoreBegin
  then show ?thesis using assms(1)
    by (simp add: session_step_def restore_begin_def reserve_login_def follows_def mirrors_def)
next
  case (RestoreProfile f e u me)
  then show ?thesis using assms replace_user_follows[of w f e]
    by (auto simp: session_step_def restore_profile_def split_def split: option.split bool.split)
next
  case (RefreshBegin f now)
  then show ?thesis using assms sign_out_follows[of w f False]
    by (auto simp: session_step_def refresh_begin_def split_def split: option.split)
next
  case (CredentialsChanged f used access fresh)
  then show ?thesis using commit_follows[OF _ assms(1,2), of f] assms(3)
    by (auto simp: session_step_def credentials_changed_def split_def op_faults_def
        split: refresh_applied.split)
next
  case CloseFence
  then show ?thesis using assms(1) by (simp add: session_step_def close_fence_def follows_def)
next
  case (CloseCleanup f)
  then show ?thesis using assms sign_out_follows[of w f True]
    by (auto simp: session_step_def close_cleanup_def split_def split: option.split)
next
  case EnablePersistence
  then show ?thesis using assms(4)
    by (auto simp: session_step_def set_persistence_def follows_def slot_claim_def split: prod.split)
qed (use assms in \<open>simp_all add: session_step_def op_faults_def follows_login_end follows_challenge_end
       follows_restore_locked follows_restore_end follows_logout follows_refresh_end replace_user_follows\<close>)

text \<open>The world's invariant, and the runs that keep it.\<close>

definition in_step :: "sessions \<Rightarrow> bool" where
  "in_step w \<longleftrightarrow>
     (\<forall>i. cl_id (wd_client w i) = i \<and> keeps_claim (wd_client w i, wd_slot w)
        \<and> follows (wd_client w i, wd_slot w))"

fun orderly :: "(nat \<times> session_op) list \<Rightarrow> sessions \<Rightarrow> bool" where
  "orderly [] w = True"
| "orderly ((i, op) # ops) w =
     (fence_works (op_faults op) \<and> (op = EnablePersistence \<longrightarrow> cl_session (wd_client w i) = None)
      \<and> orderly ops (at_client i op w))"

lemma not_owner_in_step: "\<not> slot_owns (cl_id c) sl \<Longrightarrow> keeps_claim (c, sl) \<and> follows (c, sl)"
  by (simp add: keeps_claim_def follows_def)

lemma in_step_at_client:
  assumes "in_step w" "fence_works (op_faults op)"
    "op = EnablePersistence \<Longrightarrow> cl_session (wd_client w i) = None"
  shows "in_step (at_client i op w)"
proof -
  let ?s = "(wd_client w i, wd_slot w)" and ?w' = "at_client i op w"
  have k: "keeps_claim ?s" and f: "follows ?s" and i: "cl_id (wd_client w i) = i"
    using assms(1) by (simp_all add: in_step_def)
  have own: "cl_id (wd_client ?w' i) = i \<and> keeps_claim (wd_client ?w' i, wd_slot ?w')
      \<and> follows (wd_client ?w' i, wd_slot ?w')"
    using keeps_claim_step[OF k, of op] follows_step[OF f k assms(2)] assms(3) i
      session_step_later[of ?s op]
    by (simp add: at_client_parts client_later_def)
  have other: "keeps_claim (wd_client w j, wd_slot ?w') \<and> follows (wd_client w j, wd_slot ?w')"
    if "j \<noteq> i" for j
  proof (cases "slot_owns j (wd_slot ?w')")
    case True
    have e: "op \<noteq> EnablePersistence"
      using True that i
      by (auto simp: at_client_parts session_step_def set_persistence_def slot_owns_def slot_claim_def)
    have "slot_owns j (wd_slot w)"
      using step_owner[OF e, of ?s] True by (simp add: slot_owns_def at_client_parts)
    then have "wd_slot ?w' = wd_slot w"
      using step_other[OF _ e, of ?s] i that by (simp add: slot_owns_def at_client_parts)
    then show ?thesis using assms(1) by (simp add: in_step_def)
  next
    case False
    then show ?thesis using assms(1) not_owner_in_step by (simp add: in_step_def)
  qed
  show ?thesis using own other assms(1) by (auto simp: in_step_def at_client_parts)
qed

lemma in_step_run: "in_step w \<Longrightarrow> orderly ops w \<Longrightarrow> in_step (run_clients ops w)"
  by (induction ops w rule: orderly.induct) (auto intro: in_step_at_client)

definition fresh_process :: "slot \<Rightarrow> sessions" where
  "fresh_process sl = \<lparr>wd_client = new_store, wd_slot = sl\<lparr>sl_owner := None\<rparr>\<rparr>"

lemma in_step_start: "in_step (fresh_process sl)"
  by (simp add: in_step_def fresh_process_def new_store_def keeps_claim_def follows_def slot_owns_def)

end
