(* ===== verification/Session_Properties.thy ===== *)
theory Session_Properties
  imports Session_Facts
begin

text \<open>
  The properties of signing in, staying signed in and signing out: for any number of clients over
  one slot, taking any steps in any order, with any answers of the server and any refusals of the
  key store and the file system.
\<close>

section \<open>A process to look at\<close>

definition alice :: user where
  "alice = \<lparr>u_id = ''u'', u_handle = ''alice'', u_display_name = ''Alice'', u_global_role = ''member'',
     u_status_text = None\<rparr>"

definition a_session :: "string \<Rightarrow> session" where
  "a_session t = \<lparr>s_access_token = ''a'' @ t, s_refresh_token = t, s_user = alice\<rparr>"

definition empty_slot :: slot where
  "empty_slot = \<lparr>sl_stored = None, sl_fenced = False, sl_owner = None, sl_family = 0\<rparr>"

text \<open>Client 7 is enabled and signs in; its token is \<open>t1\<close>.\<close>

definition signing_in :: "(nat \<times> session_op) list" where
  "signing_in = [(7, EnablePersistence), (7, LoginBegin), (7, LoginLocked no_faults 1),
     (7, LoginEnd no_faults 1 (LoginIssued (Pair ''at1'' ''t1'') (Inr alice)))]"

definition one_signed_in :: sessions where
  "one_signed_in = run_clients signing_in (fresh_process empty_slot)"

lemmas process_defs = session_for_def one_signed_in_def signing_in_def a_session_def alice_def empty_slot_def
  fresh_process_def new_store_def at_client_def session_step_def set_persistence_def slot_claim_def
  login_begin_def reserve_login_def login_locked_def take_out_for_login_def current_def new_epoch_def
  login_end_def install_for_login_def with_slot_def guarded_def slot_write_def lift_fence_def no_faults_def
  mark_new_login_def new_family_def mark_family_def installed_def slot_owns_def owns_def

lemma one_signed_in_parts:
  "cl_session (wd_client one_signed_in 7) = Some (a_session ''t1'')"
  "cl_epoch (wd_client one_signed_in 7) = 2" "cl_login_gen (wd_client one_signed_in 7) = 1"
  "cl_persistence (wd_client one_signed_in 7)" "cl_id (wd_client one_signed_in i) = i"
  "cl_closed (wd_client one_signed_in 7) = False"
  "sl_owner (wd_slot one_signed_in) = Some 7" "cl_runtime (wd_client one_signed_in 7)"
  "sl_stored (wd_slot one_signed_in) = Some \<lparr>sd_user = alice, sd_token = ''t1''\<rparr>"
  "sl_fenced (wd_slot one_signed_in) = False" "sl_family (wd_slot one_signed_in) = 1"
  "cl_slot_tokens (wd_client one_signed_in 7) = [''t1'' \<mapsto> 1]"
  "cl_session (wd_client one_signed_in 8) = None"
  by (simp_all add: process_defs Let_def)

section \<open>Revisions\<close>

text \<open>
  C10. The socket and the calls are bound to a client's epoch, and the
  socket authenticates anew when its credential revision changes. Both are sound: whatever steps
  the clients of the process take, a client's revision only moves forward (the epoch first, then
  the credential revision), as long as the epoch is the same the same user is signed in, or nobody,
  and as long as the whole revision is the same the client holds the same pair of tokens.
\<close>

theorem revision_names_credentials:
  assumes "c = wd_client w i" "c' = wd_client (run_clients ops w) i"
  shows "cl_epoch c \<le> cl_epoch c'
    \<and> (cl_epoch c = cl_epoch c' \<longrightarrow>
         signed_in_as c = signed_in_as c' \<and> cl_credential_rev c \<le> cl_credential_rev c'
         \<and> (cl_credential_rev c = cl_credential_rev c' \<longrightarrow> held_tokens c = held_tokens c'))"
  using run_clients_later[of w i ops] assms by (auto simp: client_later_def)

theorem revision_names_credentials_witness:
  "cl_epoch (wd_client one_signed_in 7)
     \<le> cl_epoch (wd_client (run_clients [(7, Logout no_faults)] one_signed_in) 7)"
  using revision_names_credentials[OF refl refl, of one_signed_in 7 "[(7, Logout no_faults)]"]
  by (rule conjunct1)

text \<open>
  C7. A login, a TOTP step or a restore that was overtaken (its
  client signed out, began a newer login or restore, or was cleaned up after it closed) leaves the
  session, its revision, the published state and the stored copy as they are, whatever the server
  answers it with and whatever has happened since; it reports a failure. A pair of tokens it was
  issued is only revoked.
\<close>

theorem superseded_sign_in_changes_nothing:
  assumes "g \<le> cl_login_gen (wd_client w i)"
    and "op \<in> {LoginBegin, RestoreBegin, Logout f} \<or> op = CloseCleanup f \<and> cl_runtime (wd_client w i)"
    and "w' = run_clients ops (at_client i op w)" "s = (wd_client w' i, wd_slot w')"
  shows "signed_in_view (snd (login_end f g a s)) = signed_in_view s \<and> (\<exists>e. fst (login_end f g a s) = Inl e)
    \<and> signed_in_view (snd (challenge_end f g b s)) = signed_in_view s
    \<and> (\<exists>e. fst (challenge_end f g b s) = Inl e)
    \<and> signed_in_view (snd (snd (restore_end f g st fam r s))) = signed_in_view s
    \<and> fst (restore_end f g st fam r s) \<in> {Offline, NotSignedIn, Superseded}"
proof -
  have "cl_login_gen (wd_client w i) < cl_login_gen (wd_client (at_client i op w) i)"
    using assms(2)
    by (auto simp: at_client_parts session_step_def login_begin_def restore_begin_def reserve_login_def
        logout_def close_cleanup_def split_def split: option.split)
  then have "cl_login_gen (fst s) \<noteq> g"
    using run_clients_later[of "at_client i op w" i ops] assms(1,3,4) by (simp add: client_later_def)
  then show ?thesis
    using stale_login_end[of g s] stale_challenge_end[of g s] stale_restore_end[of s g]
    by (simp add: current_def)
qed

theorem superseded_sign_in_changes_nothing_witness:
  "(let w = run_clients [] (at_client 7 (Logout no_faults) one_signed_in)
    in \<exists>e. fst (login_end no_faults 1 (LoginIssued (Pair ''at2'' ''t2'') (Inr alice)) (wd_client w 7, wd_slot w)) = Inl e)"
  using superseded_sign_in_changes_nothing[of 1 one_signed_in 7 "Logout no_faults" no_faults _ "[]",
      OF _ _ refl refl, THEN conjunct2, THEN conjunct1]
  by (simp add: one_signed_in_parts Let_def del: run_clients_simps)

section \<open>The stored copy\<close>




text \<open>
  C8. Over the whole life of a process, with every client taking any
  steps (each client enabled before it holds a session): while the slot's owner is open and signed
  in, a login that could be restored from the slot is the one it holds, by its current refresh
  token and its user's id. So the token a rotation left dead is never the one the next launch
  finds. What the key store may not do is refuse a replacement while the file system refuses the
  fence.
\<close>

theorem stored_copy_follows_session:
  assumes "orderly ops (fresh_process sl)" "w = run_clients ops (fresh_process sl)"
    and "sl_owner (wd_slot w) = Some i" "\<not> cl_closed (wd_client w i)"
    and "cl_session (wd_client w i) = Some s"
    and "\<not> sl_fenced (wd_slot w)" "sl_stored (wd_slot w) = Some st"
  shows "sd_token st = s_refresh_token s \<and> u_id (sd_user st) = u_id (s_user s)"
proof -
  have "in_step w" using in_step_run[OF in_step_start assms(1)] assms(2) by simp
  then have "follows (wd_client w i, wd_slot w)" "cl_id (wd_client w i) = i"
    by (simp_all add: in_step_def)
  then show ?thesis using assms(3-7) by (simp add: follows_def slot_owns_def restorable_def mirrors_def)
qed

lemma signing_in_orderly: "orderly signing_in (fresh_process empty_slot)"
  by (simp add: signing_in_def fence_works_def op_faults_def no_faults_def fresh_process_def new_store_def)

theorem stored_copy_follows_session_witness: "''t1'' = s_refresh_token (a_session ''t1'')"
proof -
  have "sd_token \<lparr>sd_user = alice, sd_token = ''t1''\<rparr> = s_refresh_token (a_session ''t1'')"
    by (rule stored_copy_follows_session[OF signing_in_orderly one_signed_in_def, of 7, THEN conjunct1])
      (simp_all add: one_signed_in_parts)
  then show ?thesis by simp
qed


text \<open>The first client of two, after the second was enabled.\<close>

definition superseded :: sessions where
  "superseded = at_client 8 EnablePersistence one_signed_in"

lemma superseded_parts:
  "wd_client superseded 7 = wd_client one_signed_in 7" "sl_owner (wd_slot superseded) = Some 8"
  "sl_family (wd_slot superseded) = 1"
  "sl_stored (wd_slot superseded) = Some \<lparr>sd_user = alice, sd_token = ''t1''\<rparr>"
  by (simp_all add: superseded_def at_client_parts session_step_def set_persistence_def slot_claim_def
      one_signed_in_parts)


text \<open>
  C13. The exception: any superseded client whose refresh is in
  flight when its user signs out. The sign-out spares the stored login's token and forgets that it
  was one; the refresh that then comes back with its successor is not known as the stored login
  any more, and the successor is revoked, although the stored login is another client's by now and
  its tokens are to be dropped, never revoked. Had the answer come before the sign-out, nothing
  would have been sent.
\<close>

theorem sparing_forgets_refresh_in_flight:
  assumes "c = wd_client w i" "cl_id c = i" "sl_owner (wd_slot w) \<noteq> Some i" "cl_persistence c" "\<not> cl_closed c"
    and "cl_session c = Some s" "t = s_refresh_token s" "cl_slot_tokens c t = Some (sl_family (wd_slot w))"
    and "cl_slot_tokens c fresh = None" "fresh \<noteq> t" "cl_revoking c = []"
    and "late = run_clients [(i, Logout f), (i, Revokes t),
        (i, RefreshEnd f' now t (AnswerPair (Some (a, fresh)))), (i, Revokes fresh)] w"
    and "early = run_clients [(i, RefreshEnd f' now t (AnswerPair (Some (a, fresh)))), (i, Logout f), (i, Revokes fresh)] w"
  shows "cl_sent (wd_client late i) = cl_sent c @ [fresh] \<and> wd_slot late = wd_slot w
    \<and> cl_sent (wd_client early i) = cl_sent c \<and> wd_slot early = wd_slot w"
proof -
  let ?sl = "wd_slot w"
  have o: "\<not> slot_owns i ?sl" using assms(3) by (simp add: slot_owns_def)
  note simps = at_client_parts session_step_def split_def Let_def refresh_end_def commit_refresh_def carry_def
    revoke_now_def revoke_later_def revoke_detached_def owns_def mark_family_def logout_def sign_out_def
    with_slot_def guarded_def slot_owns_def new_epoch_def
  have "cl_sent (wd_client late i) = cl_sent c @ [fresh] \<and> wd_slot late = wd_slot w"
    using assms(1-11) o unfolding assms(12) run_clients_simps by (simp add: simps)
  moreover have "cl_sent (wd_client early i) = cl_sent c \<and> wd_slot early = wd_slot w"
    using assms(1-11) o unfolding assms(13) run_clients_simps by (simp add: simps)
  ultimately show ?thesis by blast
qed

theorem sparing_forgets_refresh_in_flight_witness:
  "cl_sent (wd_client (run_clients [(7, Logout no_faults), (7, Revokes ''t1''),
      (7, RefreshEnd no_faults 0 ''t1'' (AnswerPair (Some (''a2'', ''t2'')))), (7, Revokes ''t2'')] superseded) 7) = [''t2'']"
proof -
  have e: "cl_revoking (wd_client one_signed_in 7) = []" "cl_sent (wd_client one_signed_in 7) = []"
    by (simp_all add: process_defs Let_def)
  show ?thesis
    using sparing_forgets_refresh_in_flight[OF refl _ _ _ _ _ refl _ _ _ _ refl refl, of superseded 7 "a_session ''t1''" "''t2''"
        no_faults no_faults 0 "''a2''"]
    by (simp add: superseded_parts one_signed_in_parts a_session_def e)
qed

section \<open>Refreshing\<close>

text \<open>
  C12. The answer to a refresh whose token is not the one the session
  holds any more (a newer sign-in, a sign-out or another refresh came first) leaves the session,
  its revision, the published state, the wait after a 429 and the stored copy as they are, be it a
  success, a rejection, a 429, a failure or garbage; only a closed client's stored copy may follow
  its rotation. The answer to a refresh of the token in use keeps the epoch and the user when it
  succeeds, ends the session when the server refuses it, and after a 429 lets no refresh out
  before its wait, one second to an hour, is over.
\<close>

theorem stale_refresh_changes_nothing:
  assumes "w = (c, sl)" "r = refresh_end f now token a w" "\<not> cl_closed c"
  shows "if map_option s_refresh_token (cl_session c) \<noteq> Some token
    then signed_in_view (snd r) = signed_in_view w
    else (case a of
       AnswerPair (Some (access, fresh)) \<Rightarrow>
         fst r = Inr RefreshCommitted \<and> cl_epoch (fst (snd r)) = cl_epoch c
         \<and> cl_credential_rev (fst (snd r)) = cl_credential_rev c + 1
         \<and> signed_in_as (fst (snd r)) = signed_in_as c
         \<and> held_tokens (fst (snd r)) = Some (access, fresh)
     | AnswerStatus status hint \<Rightarrow>
         if status = 429
         then (\<exists>wait. 1 \<le> wait \<and> wait \<le> 3600 \<and> fst r = Inr (RefreshLimited wait)
                \<and> (\<forall>later < now + wait. owns (fst (snd r)) (snd (snd r)) \<longrightarrow>
                     (\<exists>n > 0. fst (refresh_begin g later (snd r)) = Inl (RefreshLimited n))))
         else if refused status
         then cl_session (fst (snd r)) = None \<and> cl_state (fst (snd r)) = LoggedOut
              \<and> cl_epoch (fst (snd r)) = cl_epoch c + 1
         else snd r = w
     | _ \<Rightarrow> snd r = w)"
proof (cases "map_option s_refresh_token (cl_session c) = Some token")
  case False
  have carried: "signed_in_view (carry b inh t (c\<lparr>cl_slot_tokens := m\<rparr>), sl) = signed_in_view (c, sl)"
    for b inh t m by (simp add: signed_in_view_def)
  have "signed_in_view (snd (commit_refresh f token x y True w)) = signed_in_view w
      \<and> fst (commit_refresh f token x y True w) = Discarded" for x y
    using False assms(3)
    by (auto simp: assms(1) commit_refresh_def Let_def carried split: option.splits)
  moreover have "snd (clear_if_holds f token w) = w"
    using False by (auto simp: assms(1) clear_if_holds_def split: option.splits)
  ultimately have "signed_in_view (snd r) = signed_in_view w"
    using False
    by (auto simp: assms(1,2) refresh_end_def split_def Let_def
        split: refresh_answer.split option.split refresh_applied.split)
  then show ?thesis using False by simp
next
  case True
  then obtain s where s: "cl_session c = Some s" "s_refresh_token s = token" by auto
  have wait: "1 \<le> parse_retry_after h \<and> parse_retry_after h \<le> 3600" for h
    by (simp add: parse_retry_after_def split: option.split)
  show ?thesis
  proof (cases a)
    case (NoAnswer e)
    then show ?thesis using True by (simp add: assms(1,2) refresh_end_def)
  next
    case (AnswerStatus status hint)
    show ?thesis
    proof (cases "status = 429")
      case l: True
      have "owns (fst (snd r)) (snd (snd r)) \<longrightarrow>
          fst (refresh_begin g later (snd r)) = Inl (RefreshLimited (now + parse_retry_after hint - later))"
        if "later < now + parse_retry_after hint" for later
        using that AnswerStatus l True s
        by (simp add: assms(1,2) refresh_end_def refresh_begin_def Let_def)
      then show ?thesis
        using AnswerStatus l True s wait[of hint]
        by (auto simp: assms(1,2) refresh_end_def Let_def intro!: exI[of _ "parse_retry_after hint"])
    next
      case False
      then show ?thesis using AnswerStatus True s
        by (simp add: assms(1,2) refresh_end_def clear_if_holds_def new_epoch_def)
    qed
  next
    case (AnswerPair p)
    show ?thesis
    proof (cases p)
      case None
      then show ?thesis using AnswerPair True by (simp add: assms(1,2) refresh_end_def)
    next
      case (Some q)
      have "(\<exists>v. commit_refresh f token access fresh True w = (Committed, v)
          \<and> cl_epoch (fst v) = cl_epoch c \<and> cl_credential_rev (fst v) = cl_credential_rev c + 1
          \<and> signed_in_as (fst v) = signed_in_as c \<and> held_tokens (fst v) = Some (access, fresh))"
        for access fresh
        using s assms(3)
        by (auto simp: assms(1) commit_refresh_def Let_def signed_in_as_def held_tokens_def split_def
            split: option.split)
      from this[of "fst q" "snd q"] obtain v
        where v: "commit_refresh f token (fst q) (snd q) True w = (Committed, v)"
          "cl_epoch (fst v) = cl_epoch c" "cl_credential_rev (fst v) = cl_credential_rev c + 1"
          "signed_in_as (fst v) = signed_in_as c" "held_tokens (fst v) = Some (fst q, snd q)"
        by blast
      have "r = (Inr RefreshCommitted, v)"
        using v(1) AnswerPair Some by (cases q) (simp add: assms(2) refresh_end_def)
      then show ?thesis using AnswerPair Some True v by (cases q) simp
    qed
  qed
qed

theorem stale_refresh_changes_nothing_witness:
  "fst (refresh_end no_faults 0 ''t1'' (AnswerPair (Some (''a2'', ''t2'')))
     (wd_client one_signed_in 7, wd_slot one_signed_in)) = Inr RefreshCommitted"
  using stale_refresh_changes_nothing[OF refl refl, of "wd_client one_signed_in 7" "''t1''" no_faults 0
      "AnswerPair (Some (''a2'', ''t2''))" "wd_slot one_signed_in" no_faults]
  by (simp add: one_signed_in_parts a_session_def)

end
