(* ===== verification/Socket.thy ===== *)
theory Socket
  imports Chat_Wire Session_Store
begin

text \<open>
  \<open>core/src/ws.rs\<close>: the realtime socket. One task serves one connection at a time: it writes the
  commands callers queue, matches the replies to them, hands call frames to the calls' tasks and
  publishes the other events; it authenticates anew when the session's credentials rotate, and
  reconnects with a backoff. Each pass of its \<open>select!\<close> loop is one turn. Callers and calls are
  numbered; a turn is told which of them have gone. Counters (\<open>u64\<close>, by one) are natural numbers,
  times are in seconds. A frame is the value it parses to (\<open>None\<close>: not JSON); \<open>serde_json\<close>'s
  printer is a parameter where a frame's size matters. The hooks the tests compile in are left out.
\<close>

section \<open>Events\<close>

record reaction_change =
  rc_channel_id :: string
  rc_message_id :: string
  rc_emoji :: string
  rc_user_id :: string
  rc_added :: bool
  rc_count :: int
  rc_seq :: int

datatype server_event =
    ReadyEvent
  | MessageNew message
  | MessageUpdate message
  | MessageDelete string string
  | ReactionUpdate reaction_change
  | ChannelUpdate channel
  | ChannelDelete string
  | ChannelCall string "string option" nat
  | Typing string string string

text \<open>\<open>dispatch\<close>: the event a frame publishes (if any), and whether it was \<open>ready\<close>.\<close>

definition parse_reaction_change :: "json \<Rightarrow> reaction_change option" where
  "parse_reaction_change j =
     (case (jget_str ''channel_id'' j, jget_str ''message_id'' j, jget_str ''emoji'' j, jget_str ''user_id'' j,
            field_bool ''added'' j, jget_i64 ''count'' j, jget_i64 ''seq'' j) of
        (Some c, Some m, Some e, Some u, Some a, Some n, Some s) \<Rightarrow>
          Some \<lparr>rc_channel_id = c, rc_message_id = m, rc_emoji = e, rc_user_id = u, rc_added = a,
                rc_count = n, rc_seq = s\<rparr>
      | _ \<Rightarrow> None)"

definition parse_message_deleted :: "json \<Rightarrow> (string \<times> string) option" where
  "parse_message_deleted j =
     (case (jget_str ''id'' j, jget_str ''channel_id'' j) of
        (Some i, Some c) \<Rightarrow> Some (i, c) | _ \<Rightarrow> None)"

definition parse_typing :: "json \<Rightarrow> (string \<times> string \<times> string) option" where
  "parse_typing j =
     (case (jget_str ''channel_id'' j, jget_str ''user_id'' j, jget_str ''display_name'' j) of
        (Some c, Some u, Some d) \<Rightarrow> Some (c, u, d) | _ \<Rightarrow> None)"

definition parse_channel_call :: "json \<Rightarrow> (string \<times> string option \<times> nat) option" where
  "parse_channel_call j =
     (case (jget_str ''channel_id'' j, field_opt_str ''call_id'' j,
            Option.bind (jget ''participant_count'' j) as_u32) of
        (Some c, Some k, Some n) \<Rightarrow> Some (c, k, n) | _ \<Rightarrow> None)"

definition dispatch :: "json \<Rightarrow> server_event option \<times> bool" where
  "dispatch j =
     (case jget_str ''type'' j of
        None \<Rightarrow> (None, False)
      | Some t \<Rightarrow>
          (let d = jindex ''data'' j in
           if t = ''ready'' then (Some ReadyEvent, True)
           else
             (if t = ''message.new'' then map_option MessageNew (parse_message d)
              else if t = ''message.update'' then map_option MessageUpdate (parse_message d)
              else if t = ''message.delete''
              then map_option (\<lambda>(i, c). MessageDelete c i) (parse_message_deleted d)
              else if t = ''reaction.update'' then map_option ReactionUpdate (parse_reaction_change d)
              else if t = ''channel.update'' then map_option ChannelUpdate (parse_channel d)
              else if t = ''channel.delete'' then map_option ChannelDelete (jget_str ''id'' d)
              else if t = ''typing'' then map_option (\<lambda>(c, u, n). Typing c u n) (parse_typing d)
              else None,
              False)))"

section \<open>Commands\<close>

record outgoing_ws =
  xo_frame :: json
  xo_expect :: "string option"
  xo_generation :: nat
  xo_reply :: "nat option"
  xo_route :: "nat option"

record pending_ws =
  pd_expect :: string
  pd_reply :: nat
  pd_route :: "nat option"
  pd_deadline :: nat

record reauth =
  ra_id :: string
  ra_rev :: nat
  ra_deadline :: nat

type_synonym answer = "command_error + cmd_reply"

text \<open>
  What the task and the handles share (the connection as callers see it, the command queue, the
  routes), \<open>run\<close>'s and \<open>run_once\<close>'s variables, the session as the task reads it (\<open>so_cell\<close>: epoch,
  credential revision and access token; \<open>so_watch\<close>: the watch's epoch and revision, with its
  unseen mark; \<open>so_unsent\<close>: revisions a store operation has computed under the cell's lock and not
  sent on the watch yet, which it does after it let go of the lock), and what came out: the frames handed to the socket, the answers sent to callers,
  the frames sent to calls, events and raw events, oldest first. \<open>so_accepted\<close> are the callers whose
  command was queued; \<open>so_skipped\<close> those whose command was dropped unwritten since they had gone.
  \<open>so_stopped\<close>: the task has ended and the receiving end of its command queue with it.
\<close>

record sock =
  so_conn :: conn
  so_queue :: "outgoing_ws list"
  so_routes :: "(string \<times> nat) list"
  so_generation :: nat
  so_backoff :: nat
  so_running :: bool
  so_epoch :: nat
  so_auth_rev :: nat
  so_reauth :: "reauth option"
  so_ready :: bool
  so_pending :: "(string \<times> pending_ws) list"
  so_next_id :: nat
  so_last_frame :: nat
  so_cell :: "nat \<times> nat \<times> string option"
  so_unsent :: "(nat \<times> nat) list"
  so_watch :: "nat \<times> nat"
  so_unseen :: bool
  so_written :: "json list"
  so_answers :: "(nat \<times> answer) list"
  so_routed :: "(nat \<times> call_frame) list"
  so_events :: "server_event list"
  so_raw :: "(string \<times> json) list"
  so_accepted :: "nat list"
  so_skipped :: "nat list"
  so_stopped :: bool

definition reply_timeout :: nat where "reply_timeout = 10"

definition idle_timeout :: nat where "idle_timeout = 45"

definition max_frame_bytes :: nat where "max_frame_bytes = 64 * 1024"

definition too_large :: "nat \<Rightarrow> bool" where "too_large n \<longleftrightarrow> max_frame_bytes < n"

lemma too_large_code [code]: "too_large n \<longleftrightarrow> (65536 :: int) < int n"
  by (simp add: too_large_def max_frame_bytes_def)

definition command_queue :: nat where "command_queue = 64"

text \<open>
  \<open>submit\<close>: nothing is queued but on the current, ready connection. The channel says that it is
  closed before it says that it is full; both ways of not being sent look the same to the caller.
\<close>

definition submit :: "outgoing_ws \<Rightarrow> sock \<Rightarrow> command_error option \<times> sock" where
  "submit x s =
     (if \<not> cn_ready (so_conn s) \<or> cn_generation (so_conn s) \<noteq> xo_generation x then (Some NotSent, s)
      else if so_stopped s then (Some NotSent, s)
      else if command_queue \<le> length (so_queue s) then (Some CmdBusy, s)
      else (None, s\<lparr>so_queue := so_queue s @ [x],
                    so_accepted := so_accepted s @ (case xo_reply x of Some k \<Rightarrow> [k] | None \<Rightarrow> [])\<rparr>))"

definition tell :: "nat option \<Rightarrow> answer \<Rightarrow> sock \<Rightarrow> sock" where
  "tell caller a s = (case caller of Some k \<Rightarrow> s\<lparr>so_answers := so_answers s @ [(k, a)]\<rparr> | None \<Rightarrow> s)"

definition hand :: "json \<Rightarrow> sock \<Rightarrow> sock" where
  "hand frame s = s\<lparr>so_written := so_written s @ [frame]\<rparr>"

definition frame_id :: "nat \<Rightarrow> nat \<Rightarrow> string" where
  "frame_id g n = dec_string g @ ''-'' @ dec_string n"

fun unpend :: "string \<Rightarrow> (string \<times> pending_ws) list \<Rightarrow> (string \<times> pending_ws) list" where
  "unpend i [] = []"
| "unpend i ((j, p) # ps) = (if j = i then ps else (j, p) # unpend i ps)"

text \<open>
  \<open>write_command\<close>, with the size of the frame as printed, whether the socket took it (\<open>sent\<close>) and
  which callers have gone: whether the connection goes on.
\<close>

definition write_command ::
  "(json \<Rightarrow> nat) \<Rightarrow> nat \<Rightarrow> (nat \<Rightarrow> bool) \<Rightarrow> bool \<Rightarrow> outgoing_ws \<Rightarrow> sock \<Rightarrow> bool \<times> sock" where
  "write_command frame_size now gone sent x s =
     (if \<not> cn_ready (so_conn s) \<or> cn_generation (so_conn s) \<noteq> xo_generation x
      then (True, tell (xo_reply x) (Inl NotSent) s)
      else if (case xo_reply x of Some k \<Rightarrow> gone k | None \<Rightarrow> False)
      then (True, s\<lparr>so_skipped := so_skipped s @ (case xo_reply x of Some k \<Rightarrow> [k] | None \<Rightarrow> [])\<rparr>)
      else
        (let s = s\<lparr>so_next_id := so_next_id s + 1\<rparr>;
             i = frame_id (xo_generation x) (so_next_id s);
             frame = jset ''id'' (JStr i) (xo_frame x)
         in if too_large (frame_size frame) then (True, tell (xo_reply x) (Inl CmdTooLarge) s)
            else
              (let s = (case (xo_expect x, xo_reply x) of
                          (Some expect, Some k) \<Rightarrow>
                            s\<lparr>so_pending := assoc_put i \<lparr>pd_expect = expect, pd_reply = k,
                                pd_route = xo_route x, pd_deadline = now + reply_timeout\<rparr> (so_pending s)\<rparr>
                        | _ \<Rightarrow> s);
                   s = hand frame s
               in if sent then (True, s)
                  else (case map_of (so_pending s) i of
                          Some p \<Rightarrow> (False, tell (Some (pd_reply p)) (Inl Unknown)
                                      (s\<lparr>so_pending := unpend i (so_pending s)\<rparr>))
                        | None \<Rightarrow> (False, s)))))"

section \<open>Frames\<close>

definition reply_result :: "string \<Rightarrow> json \<Rightarrow> pending_ws \<Rightarrow> answer" where
  "reply_result ty data p =
     (if ty = ''error''
      then Inl (Rejected (str_or_empty (jindex ''code'' data))
                         (str_or_empty (jindex ''message'' data)))
      else if ty = pd_expect p then Inr \<lparr>cr_ty = ty, cr_data = data\<rparr>
      else Inl UnexpectedReply)"

definition call_id_of :: "json \<Rightarrow> string" where
  "call_id_of data = str_or_empty (jindex ''call_id'' data)"

definition send_route :: "nat \<Rightarrow> call_frame \<Rightarrow> sock \<Rightarrow> sock" where
  "send_route r f s = s\<lparr>so_routed := so_routed s @ [(r, f)]\<rparr>"

definition leave_frame :: "string \<Rightarrow> string \<Rightarrow> json" where
  "leave_frame i call_id =
     JObj [(''type'', JStr ''call.leave''), (''id'', JStr i), (''data'', JObj [(''call_id'', JStr call_id)])]"

text \<open>A reply to a command still waited for.\<close>

definition take_reply :: "(nat \<Rightarrow> bool) \<Rightarrow> string \<Rightarrow> json \<Rightarrow> pending_ws \<Rightarrow> sock \<Rightarrow> sock" where
  "take_reply gone ty data p s =
     (let result = reply_result ty data p
      in if ty = ''call.joined'' \<and> \<not> isl result
         then
           (if gone (pd_reply p)
            then (let s = s\<lparr>so_next_id := so_next_id s + 1,
                            so_skipped := so_skipped s @ [pd_reply p]\<rparr>
                  in hand (leave_frame (frame_id (so_generation s) (so_next_id s)) (call_id_of data)) s)
            else
              (let s = (case pd_route p of
                          Some r \<Rightarrow>
                            (send_route r \<lparr>cf_ty = ty, cf_data = data\<rparr> s)\<lparr>so_routes :=
                               assoc_put (call_id_of data) r (so_routes s)\<rparr>
                        | None \<Rightarrow> s)
               in tell (Some (pd_reply p)) result s))
         else tell (Some (pd_reply p)) result s)"

fun unroute :: "string \<Rightarrow> (string \<times> nat) list \<Rightarrow> (string \<times> nat) list" where
  "unroute k [] = []"
| "unroute k ((c, r) # rs) = (if c = k then rs else (c, r) # unroute k rs)"

definition handle_text ::
  "(nat \<Rightarrow> bool) \<Rightarrow> (nat \<Rightarrow> bool) \<Rightarrow> json option \<Rightarrow> sock \<Rightarrow> bool \<times> sock" where
  "handle_text gone task_gone text s =
     (case text of
        None \<Rightarrow> (False, s)
      | Some frame \<Rightarrow>
          (let ty = str_or_empty (jindex ''type'' frame);
               data = jindex ''data'' frame;
               s = (if jget ''re'' frame = None then s\<lparr>so_raw := so_raw s @ [(ty, data)]\<rparr> else s)
           in case jget_str ''re'' frame of
                Some re \<Rightarrow>
                  (case map_of (so_pending s) re of
                     None \<Rightarrow> (False, s)
                   | Some p \<Rightarrow> (False, take_reply gone ty data p (s\<lparr>so_pending := unpend re (so_pending s)\<rparr>)))
              | None \<Rightarrow>
                  if ty = ''ready''
                  then (let g = so_generation s + 1
                        in (True, s\<lparr>so_generation := g, so_conn := \<lparr>cn_generation = g, cn_ready = True\<rparr>,
                                    so_events := so_events s @ [ReadyEvent]\<rparr>))
                  else if ty = ''channel.call''
                  then (False,
                        case parse_channel_call data of
                          Some (c, k, n) \<Rightarrow> s\<lparr>so_events := so_events s @ [ChannelCall c k n]\<rparr>
                        | None \<Rightarrow> s)
                  else if starts_with ty ''call.''
                  then (False,
                        case map_of (so_routes s) (call_id_of data) of
                          Some r \<Rightarrow>
                            if task_gone r then s\<lparr>so_routes := unroute (call_id_of data) (so_routes s)\<rparr>
                            else send_route r \<lparr>cf_ty = ty, cf_data = data\<rparr> s
                        | None \<Rightarrow> s)
                  else (case dispatch frame of
                          (ev, ready) \<Rightarrow>
                            (ready, s\<lparr>so_events := so_events s @ (case ev of Some e \<Rightarrow> [e] | None \<Rightarrow> [])\<rparr>))))"

section \<open>One connection\<close>

text \<open>
  \<open>send_reauth\<close>: the auth frame again with the current token; nothing without a session. \<open>None\<close>:
  the socket did not take it.
\<close>

definition auth_frame :: "string option \<Rightarrow> string \<Rightarrow> json" where
  "auth_frame i token =
     JObj ((''type'', JStr ''auth'') # (case i of Some i \<Rightarrow> [(''id'', JStr i)] | None \<Rightarrow> [])
           @ [(''data'', JObj [(''access_token'', JStr token)])])"

definition send_reauth :: "nat \<Rightarrow> bool \<Rightarrow> sock \<Rightarrow> bool \<times> sock" where
  "send_reauth now sent s =
     (case so_cell s of
        (_, _, None) \<Rightarrow> (True, s\<lparr>so_reauth := None\<rparr>)
      | (_, crev, Some token) \<Rightarrow>
          (let s = s\<lparr>so_next_id := so_next_id s + 1\<rparr>;
               i = frame_id (so_generation s) (so_next_id s);
               s = hand (auth_frame (Some i) token) s
           in if sent
              then (True, s\<lparr>so_reauth := Some \<lparr>ra_id = i, ra_rev = crev, ra_deadline = now + reply_timeout\<rparr>\<rparr>)
              else (False, s)))"

datatype run_end =
    RunClosed bool
  | AuthRejected bool
  | RunLimited bool
  | SessionChanged

type_synonym run_result = "core_error + run_end"

text \<open>
  The turns: what the loop woke up for, with what the socket and the others do. A write, where there
  is one, is taken (\<open>Some True\<close>), fails (\<open>Some False\<close>) or stalls past the idle timeout (\<open>None\<close>).
\<close>

datatype sock_turn =
    RevisionTurn bool
  | CommandTurn "nat \<Rightarrow> bool" "bool option"
  | TimerTurn
  | IdleTurn
  | TextTurn "json option" "nat \<Rightarrow> bool" "nat \<Rightarrow> bool" bool
  | OtherTurn
  | CloseTurn "(nat \<times> string) option"
  | FailTurn string
  | EndTurn

definition ws_failed :: "core_error" where
  "ws_failed = WebSocket ''''"

definition reauth_if_rotated :: "nat \<Rightarrow> bool \<Rightarrow> sock \<Rightarrow> run_result option \<times> sock" where
  "reauth_if_rotated now sent s =
     (if snd (so_watch s) = so_auth_rev s then (None, s)
      else (case send_reauth now sent s of
              (True, s) \<Rightarrow> (None, s)
            | (False, s) \<Rightarrow> (Some (Inl ws_failed), s)))"

definition on_text ::
  "nat \<Rightarrow> json option \<Rightarrow> (nat \<Rightarrow> bool) \<Rightarrow> (nat \<Rightarrow> bool) \<Rightarrow> bool \<Rightarrow> sock \<Rightarrow> run_result option \<times> sock" where
  "on_text now text gone task_gone sent s =
     (if so_reauth s \<noteq> None \<and> Option.bind text (jget_str ''re'') = map_option ra_id (so_reauth s)
      then
        (if map_option (jindex ''type'') text = Some (JStr ''ready'')
         then reauth_if_rotated now sent
                (s\<lparr>so_auth_rev := (case so_reauth s of Some r \<Rightarrow> ra_rev r | None \<Rightarrow> so_auth_rev s),
                   so_reauth := None\<rparr>)
         else (Some (Inr (RunClosed (so_ready s))), s))
      else
        (case handle_text gone task_gone text s of
           (False, s) \<Rightarrow> (None, s)
         | (True, s) \<Rightarrow> reauth_if_rotated now sent (s\<lparr>so_ready := True\<rparr>)))"

definition expire :: "nat \<Rightarrow> sock \<Rightarrow> sock" where
  "expire now s =
     s\<lparr>so_answers := so_answers s
         @ map (\<lambda>(i, p). (pd_reply p, Inl CmdTimeout)) (filter (\<lambda>(i, p). pd_deadline p \<le> now) (so_pending s)),
       so_pending := filter (\<lambda>(i, p). now < pd_deadline p) (so_pending s)\<rparr>"

definition turn :: "(json \<Rightarrow> nat) \<Rightarrow> nat \<Rightarrow> sock_turn \<Rightarrow> sock \<Rightarrow> run_result option \<times> sock" where
  "turn frame_size now t s =
     (case t of
        RevisionTurn sent \<Rightarrow>
          (let s = s\<lparr>so_unseen := False\<rparr>
           in if fst (so_watch s) \<noteq> so_epoch s then (Some (Inr SessionChanged), s)
              else if so_ready s \<and> so_reauth s = None then reauth_if_rotated now sent s
              else (None, s))
      | CommandTurn gone sent \<Rightarrow>
          (case so_queue s of
             [] \<Rightarrow> (None, s)
           | x # xs \<Rightarrow>
               (case write_command frame_size now gone (sent \<noteq> Some False) x (s\<lparr>so_queue := xs\<rparr>) of
                  (False, s) \<Rightarrow> (Some (Inl ws_failed), s)
                | (True, s') \<Rightarrow>
                    (if sent = None \<and> so_written s' \<noteq> so_written s then Some (Inr (RunClosed (so_ready s'))) else None,
                     s')))
      | TimerTurn \<Rightarrow>
          if (case so_reauth s of Some r \<Rightarrow> ra_deadline r \<le> now | None \<Rightarrow> False)
          then (Some (Inr (RunClosed (so_ready s))), s)
          else (None, expire now s)
      | IdleTurn \<Rightarrow> (Some (Inr (RunClosed (so_ready s))), s)
      | TextTurn text gone task_gone sent \<Rightarrow>
          on_text now text gone task_gone sent (s\<lparr>so_last_frame := now\<rparr>)
      | OtherTurn \<Rightarrow> (None, s\<lparr>so_last_frame := now\<rparr>)
      | CloseTurn frame \<Rightarrow>
          (let s = s\<lparr>so_last_frame := now\<rparr>
           in (Some (Inr (case frame of
                            Some (code, reason) \<Rightarrow>
                              if code = 1008
                              then (if reason = ''rate_limited'' then RunLimited (so_ready s)
                                    else AuthRejected (so_ready s))
                              else RunClosed (so_ready s)
                          | None \<Rightarrow> RunClosed (so_ready s))), s))
      | FailTurn m \<Rightarrow> (Some (Inl (WebSocket m)), s)
      | EndTurn \<Rightarrow> (Some (Inr (RunClosed (so_ready s))), s))"

section \<open>Connecting and reconnecting\<close>

definition teardown :: "sock \<Rightarrow> sock" where
  "teardown s =
     s\<lparr>so_conn := (so_conn s)\<lparr>cn_ready := False\<rparr>,
       so_answers := so_answers s @ map (\<lambda>(i, p). (pd_reply p, Inl Unknown)) (so_pending s),
       so_pending := []\<rparr>"

text \<open>
  How \<open>run\<close> goes on after a connection: at once, after the wait the refresh was told, or after the
  backoff, with the backoff of the next time. \<open>refreshed\<close> is what the refresh after a refused
  authentication comes to.
\<close>

datatype pause = AtOnce | AsAsked nat | BackOff nat

definition rate_limit_backoff :: nat where "rate_limit_backoff = 5"

definition backing_off :: "nat \<Rightarrow> nat \<Rightarrow> pause \<times> nat" where
  "backing_off cap b = (BackOff (min b cap), min (min b cap * 2) cap)"

definition after_end :: "run_result \<Rightarrow> core_error + refresh_outcome \<Rightarrow> nat \<Rightarrow> pause \<times> nat" where
  "after_end end refreshed b =
     (case end of
        Inr SessionChanged \<Rightarrow> (AtOnce, b)
      | Inr (AuthRejected ready) \<Rightarrow>
          (let b = (if ready then 1 else b)
           in case refreshed of
                Inr (RefreshLimited wait) \<Rightarrow> (AsAsked wait, b)
              | Inr RefreshRejected \<Rightarrow> (AtOnce, b)
              | Inr NoSession \<Rightarrow> (AtOnce, b)
              | Inr _ \<Rightarrow> if ready then (AtOnce, 1) else backing_off 30 b
              | Inl _ \<Rightarrow> backing_off 30 b)
      | Inr (RunLimited ready) \<Rightarrow> backing_off 60 (max (if ready then 1 else b) rate_limit_backoff)
      | Inr (RunClosed ready) \<Rightarrow> backing_off 30 (if ready then 1 else b)
      | Inl _ \<Rightarrow> backing_off 30 b)"

text \<open>The end of a connection: its teardown (if it came up), the raw notice for the cache, the pause.\<close>

definition ws_disconnected :: string where "ws_disconnected = ''ws.disconnected''"

definition run_ended :: "run_result \<Rightarrow> core_error + refresh_outcome \<Rightarrow> sock \<Rightarrow> pause \<times> sock" where
  "run_ended end refreshed s =
     (let s = (if end = Inr SessionChanged then s else s\<lparr>so_raw := so_raw s @ [(ws_disconnected, JNull)]\<rparr>);
          (p, b) = after_end end refreshed (so_backoff s)
      in (p, s\<lparr>so_running := False, so_backoff := b\<rparr>))"

text \<open>
  \<open>run\<close> at the head of its loop: without a session it waits; else it connects as whoever is signed
  in (\<open>connected\<close>: an error, or whether the socket took the auth frame).
\<close>

definition connect ::
  "nat \<Rightarrow> core_error option \<Rightarrow> core_error + refresh_outcome \<Rightarrow> sock \<Rightarrow> pause option \<times> sock" where
  "connect now failed refreshed s =
     (case so_cell s of
        (_, _, None) \<Rightarrow> (None, s\<lparr>so_unseen := False\<rparr>)
      | (epoch, crev, Some token) \<Rightarrow>
          (case failed of
             Some e \<Rightarrow> (case run_ended (Inl e) refreshed (s\<lparr>so_unseen := False\<rparr>) of (p, s) \<Rightarrow> (Some p, s))
           | None \<Rightarrow>
               (None, hand (auth_frame None token)
                  (s\<lparr>so_unseen := False, so_running := True, so_epoch := epoch, so_auth_rev := crev,
                     so_reauth := None, so_ready := False, so_pending := [], so_next_id := 0,
                     so_last_frame := now\<rparr>))))"

definition transport_new :: sock where
  "transport_new =
     \<lparr>so_conn = \<lparr>cn_generation = 0, cn_ready = False\<rparr>, so_queue = [], so_routes = [], so_generation = 0,
       so_backoff = 1, so_running = False, so_epoch = 0, so_auth_rev = 0, so_reauth = None, so_ready = False,
       so_pending = [], so_next_id = 0, so_last_frame = 0, so_cell = (0, 0, None), so_unsent = [], so_watch = (0, 0),
       so_unseen = False, so_written = [], so_answers = [], so_routed = [], so_events = [], so_raw = [],
       so_accepted = [], so_skipped = [], so_stopped = False\<rparr>"

text \<open>
  The end of the task: the client is dropped (\<open>start_realtime\<close> lets the loop race that) or the session's watch
  has closed. It comes from whatever wait the task is in and runs no teardown: the commands queued and
  those waiting for a reply are dropped with their reply senders, which \<open>request\<close> takes for \<open>Unknown\<close>,
  and the connection as callers see it stays as it was.
\<close>

definition stop_task :: "sock \<Rightarrow> sock" where
  "stop_task s =
     s\<lparr>so_stopped := True, so_running := False,
       so_answers := so_answers s @ map (\<lambda>(i, p). (pd_reply p, Inl Unknown)) (so_pending s)
         @ map (\<lambda>k. (k, Inl Unknown)) (List.map_filter xo_reply (so_queue s)),
       so_pending := [], so_queue := []\<rparr>"

section \<open>Everything that can happen\<close>

text \<open>
  A turn of the connection, \<open>run\<close> connecting, a caller's command, a call's task dropping its route,
  the task ending, and the session moving: its cell first, then the watch, by the operation that moved the cell (the
  operations of the store run on any thread, so their sends may come in any order).
\<close>

datatype sock_event =
    Turn nat sock_turn "core_error + refresh_outcome"
  | Connect nat "core_error option" "core_error + refresh_outcome"
  | Submit outgoing_ws
  | DropRoute string
  | TaskStops
  | CellMoves nat nat "string option"
  | Publish nat

definition sock_enabled :: "sock \<Rightarrow> sock_event \<Rightarrow> bool" where
  "sock_enabled s ev =
     (case ev of
        Turn now t _ \<Rightarrow> so_running s \<and> (case t of RevisionTurn _ \<Rightarrow> so_unseen s | CommandTurn _ _ \<Rightarrow> so_queue s \<noteq> []
            | IdleTurn \<Rightarrow> so_last_frame s + idle_timeout \<le> now | _ \<Rightarrow> True)
      | Connect _ _ _ \<Rightarrow> \<not> so_running s \<and> \<not> so_stopped s
      | CellMoves e r t \<Rightarrow>
          (case so_cell s of
             (e', r', t') \<Rightarrow> e' < e \<or> e = e' \<and> r' < r \<and> t' \<noteq> None \<and> t \<noteq> None)
      | Publish k \<Rightarrow> k < length (so_unsent s)
      | Submit x \<Rightarrow> xo_expect x = None \<longleftrightarrow> xo_reply x = None
      | TaskStops \<Rightarrow> \<not> so_stopped s
      | DropRoute _ \<Rightarrow> True)"

definition sock_next :: "(json \<Rightarrow> nat) \<Rightarrow> sock_event \<Rightarrow> sock \<Rightarrow> pause option \<times> sock" where
  "sock_next frame_size ev s =
     (case ev of
        Turn now t refreshed \<Rightarrow>
          (case turn frame_size now t s of
             (None, s) \<Rightarrow> (None, s)
           | (Some end, s) \<Rightarrow> (case run_ended end refreshed (teardown s) of (p, s) \<Rightarrow> (Some p, s)))
      | Connect now failed refreshed \<Rightarrow> connect now failed refreshed s
      | Submit x \<Rightarrow> (None, snd (submit x s))
      | DropRoute k \<Rightarrow> (None, s\<lparr>so_routes := unroute k (so_routes s)\<rparr>)
      | TaskStops \<Rightarrow> (None, stop_task s)
      | CellMoves e r t \<Rightarrow> (None, s\<lparr>so_cell := (e, r, t), so_unsent := so_unsent s @ [(e, r)]\<rparr>)
      | Publish k \<Rightarrow>
          (None, s\<lparr>so_watch := so_unsent s ! k, so_unseen := True,
                   so_unsent := take k (so_unsent s) @ drop (Suc k) (so_unsent s)\<rparr>))"

inductive sock_runs :: "(json \<Rightarrow> nat) \<Rightarrow> sock \<Rightarrow> sock_event list \<Rightarrow> sock \<Rightarrow> bool"
  for frame_size s0 where
  begins: "sock_runs frame_size s0 [] s0"
| happens: "sock_runs frame_size s0 evs s \<Longrightarrow> sock_enabled s ev \<Longrightarrow>
    sock_runs frame_size s0 (evs @ [ev]) (snd (sock_next frame_size ev s))"

end
