(* ===== verification/Socket_Facts.thy ===== *)
theory Socket_Facts
  imports Socket "HOL-Library.Multiset"
begin

text \<open>
  What every turn of the socket keeps: command ids, the callers' books, the revision the socket is
  authenticated with, the routes of the calls.
\<close>

section \<open>Command ids\<close>

lemma dec_digits_set: "set (dec_digits k n) \<subseteq> char_of ` {48..57 :: nat}"
proof (induction k n rule: dec_digits.induct)
  case (2 k n)
  have "n mod 10 + 48 \<in> {48..57}" by simp
  moreover have "n < 10 \<Longrightarrow> n + 48 \<in> {48..57}" by simp
  ultimately show ?case using 2 by (cases "n < 10") auto
qed simp

lemma dash_not_digit: "CHR ''-'' \<notin> set (dec_string n)"
proof
  assume "CHR ''-'' \<in> set (dec_string n)"
  then obtain d :: nat where "d \<in> {48..57}" "CHR ''-'' = char_of d"
    unfolding dec_string_def using dec_digits_set by blast
  then have "of_char (CHR ''-'') = d mod 256" by simp
  then show False using \<open>d \<in> {48..57}\<close> by simp
qed

lemma dec_digits_inj:
  "n < k \<Longrightarrow> m < l \<Longrightarrow> dec_digits k n = dec_digits l m \<Longrightarrow> n = m"
proof (induction k n arbitrary: l m rule: dec_digits.induct)
  case (2 k n)
  obtain l' where l: "l = Suc l'" using 2(3) by (cases l) auto
  have ne: "dec_digits (Suc j) i \<noteq> []" for j i by simp
  have c: "i = j" if "char_of (i + 48) = (char_of (j + 48) :: char)" "i < 10" "j < 10" for i j :: nat
  proof -
    have "of_char (char_of (i + 48) :: char) = (of_char (char_of (j + 48) :: char) :: nat)"
      using that(1) by simp
    then show ?thesis using that(2,3) by simp
  qed
  show ?case
  proof (cases "n < 10")
    case True
    show ?thesis
    proof (cases "m < 10")
      case m: True
      then show ?thesis using 2(4) True c[of n m] by (simp add: l)
    next
      case False
      then have "0 < l'" using 2(3) l by simp
      then have "dec_digits l' (m div 10) \<noteq> []" by (cases l') auto
      then show ?thesis using 2(4) True False by (simp add: l)
    qed
  next
    case False
    show ?thesis
    proof (cases "m < 10")
      case True
      have "0 < k" using 2(2) False by simp
      then have "dec_digits k (n div 10) \<noteq> []" by (cases k) auto
      then show ?thesis using 2(4) False True by (simp add: l)
    next
      case m: False
      have "dec_digits k (n div 10) = dec_digits l' (m div 10)" "char_of (n mod 10 + 48) = (char_of (m mod 10 + 48) :: char)"
        using 2(4) False m by (simp_all add: l)
      moreover have "n div 10 < k" "m div 10 < l'" using 2(2,3) False m l by simp_all
      ultimately have "n div 10 = m div 10" using 2(1)[OF False] by blast
      moreover have "n mod 10 = m mod 10"
        using \<open>char_of (n mod 10 + 48) = _\<close> by (rule c) simp_all
      ultimately have "n div 10 = m div 10" "n mod 10 = m mod 10" by simp_all
      then have "n div 10 * 10 + n mod 10 = m div 10 * 10 + m mod 10" by (simp only:)
      then show ?thesis by (simp only: div_mult_mod_eq)
    qed
  qed
qed simp

lemma dec_string_inj: "dec_string n = dec_string m \<Longrightarrow> n = m"
  unfolding dec_string_def using dec_digits_inj[of n "Suc n" m "Suc m"] by simp

lemma split_at_dash:
  "a @ CHR ''-'' # b = c @ CHR ''-'' # d \<Longrightarrow> CHR ''-'' \<notin> set a \<Longrightarrow> CHR ''-'' \<notin> set c \<Longrightarrow> a = c \<and> b = d"
proof (induction a arbitrary: c)
  case Nil
  then show ?case by (cases c) auto
next
  case (Cons x a)
  then show ?case by (cases c) auto
qed

lemma frame_id_inj: "frame_id g n = frame_id g' n' \<longleftrightarrow> g = g' \<and> n = n'"
proof
  assume "frame_id g n = frame_id g' n'"
  then have "dec_string g = dec_string g' \<and> dec_string n = dec_string n'"
    using split_at_dash[of "dec_string g" "dec_string n" "dec_string g'" "dec_string n'"]
      dash_not_digit[of g] dash_not_digit[of g'] by (simp add: frame_id_def)
  then show "g = g' \<and> n = n'" using dec_string_inj by blast
qed simp

section \<open>The socket's fields under its small steps\<close>

lemma tell_fields [simp]:
  "so_pending (tell k a s) = so_pending s" "so_next_id (tell k a s) = so_next_id s"
  "so_reauth (tell k a s) = so_reauth s" "so_queue (tell k a s) = so_queue s"
  "so_running (tell k a s) = so_running s" "so_conn (tell k a s) = so_conn s"
  "so_routes (tell k a s) = so_routes s" "so_routed (tell k a s) = so_routed s"
  "so_cell (tell k a s) = so_cell s" "so_watch (tell k a s) = so_watch s"
  "so_unseen (tell k a s) = so_unseen s" "so_unsent (tell k a s) = so_unsent s"
  "so_epoch (tell k a s) = so_epoch s" "so_auth_rev (tell k a s) = so_auth_rev s"
  "so_ready (tell k a s) = so_ready s" "so_generation (tell k a s) = so_generation s"
  "so_backoff (tell k a s) = so_backoff s" "so_accepted (tell k a s) = so_accepted s"
  "so_skipped (tell k a s) = so_skipped s" "so_written (tell k a s) = so_written s"
  "so_answers (tell k a s) = so_answers s @ (case k of Some k \<Rightarrow> [(k, a)] | None \<Rightarrow> [])"
  by (auto simp: tell_def split: option.split)

lemma hand_fields [simp]:
  "so_pending (hand f s) = so_pending s" "so_next_id (hand f s) = so_next_id s"
  "so_reauth (hand f s) = so_reauth s" "so_queue (hand f s) = so_queue s"
  "so_running (hand f s) = so_running s" "so_conn (hand f s) = so_conn s"
  "so_routes (hand f s) = so_routes s" "so_routed (hand f s) = so_routed s"
  "so_cell (hand f s) = so_cell s" "so_watch (hand f s) = so_watch s"
  "so_unseen (hand f s) = so_unseen s" "so_unsent (hand f s) = so_unsent s"
  "so_epoch (hand f s) = so_epoch s" "so_auth_rev (hand f s) = so_auth_rev s"
  "so_ready (hand f s) = so_ready s" "so_generation (hand f s) = so_generation s"
  "so_backoff (hand f s) = so_backoff s" "so_accepted (hand f s) = so_accepted s"
  "so_skipped (hand f s) = so_skipped s" "so_answers (hand f s) = so_answers s"
  "so_written (hand f s) = so_written s @ [f]"
  by (simp_all add: hand_def)

lemma send_route_fields [simp]:
  "so_pending (send_route r f s) = so_pending s" "so_next_id (send_route r f s) = so_next_id s"
  "so_reauth (send_route r f s) = so_reauth s" "so_queue (send_route r f s) = so_queue s"
  "so_running (send_route r f s) = so_running s" "so_conn (send_route r f s) = so_conn s"
  "so_routes (send_route r f s) = so_routes s"
  "so_cell (send_route r f s) = so_cell s" "so_watch (send_route r f s) = so_watch s"
  "so_unseen (send_route r f s) = so_unseen s" "so_unsent (send_route r f s) = so_unsent s"
  "so_epoch (send_route r f s) = so_epoch s" "so_auth_rev (send_route r f s) = so_auth_rev s"
  "so_ready (send_route r f s) = so_ready s" "so_generation (send_route r f s) = so_generation s"
  "so_backoff (send_route r f s) = so_backoff s" "so_accepted (send_route r f s) = so_accepted s"
  "so_skipped (send_route r f s) = so_skipped s" "so_answers (send_route r f s) = so_answers s"
  "so_written (send_route r f s) = so_written s"
  "so_routed (send_route r f s) = so_routed s @ [(r, f)]"
  by (simp_all add: send_route_def)

section \<open>The callers' books\<close>

definition waiting :: "sock \<Rightarrow> nat multiset" where
  "waiting s = mset (map (\<lambda>(i, p). pd_reply p) (so_pending s)) + mset (List.map_filter xo_reply (so_queue s))"

definition done_with :: "sock \<Rightarrow> nat multiset" where
  "done_with s = mset (map fst (so_answers s)) + mset (so_skipped s)"

definition issued :: "nat \<Rightarrow> string \<Rightarrow> bool" where
  "issued n i \<longleftrightarrow> (\<exists>g k. i = frame_id g k \<and> k \<le> n)"

definition ids_fine :: "(string \<times> pending_ws) list \<Rightarrow> nat \<Rightarrow> reauth option \<Rightarrow> bool" where
  "ids_fine ps n r \<longleftrightarrow>
     distinct (map fst ps) \<and> (\<forall>i \<in> fst ` set ps. issued n i)
     \<and> (\<forall>x. r = Some x \<longrightarrow> ra_id x \<notin> fst ` set ps \<and> issued n (ra_id x))"

lemma issued_mono:
  assumes "issued n i" "n \<le> n'"
  shows "issued n' i"
proof -
  obtain g k where "i = frame_id g k" "k \<le> n" using assms(1) unfolding issued_def by blast
  then show ?thesis using assms(2) unfolding issued_def by (intro exI[of _ g] exI[of _ k]) simp
qed

lemma not_issued: "\<not> issued n (frame_id g (Suc n))"
  by (auto simp: issued_def frame_id_inj)

lemma issued_new: "issued (Suc n) (frame_id g (Suc n))"
  by (auto simp: issued_def)

lemma ids_fine_mono: "ids_fine ps n r \<Longrightarrow> n \<le> n' \<Longrightarrow> ids_fine ps n' r"
  using issued_mono unfolding ids_fine_def by blast

lemma ids_fine_none: "ids_fine ps n r \<Longrightarrow> ids_fine ps n None"
  by (simp add: ids_fine_def)

lemma ids_fine_sub:
  "ids_fine ps n r \<Longrightarrow> distinct (map fst qs) \<Longrightarrow> fst ` set qs \<subseteq> fst ` set ps \<Longrightarrow> ids_fine qs n r"
  unfolding ids_fine_def by blast

lemma ids_fine_fresh:
  assumes "ids_fine ps n r"
  shows "frame_id g (Suc n) \<notin> fst ` set ps" "r = Some x \<Longrightarrow> ra_id x \<noteq> frame_id g (Suc n)"
proof -
  have i: "\<forall>i \<in> fst ` set ps. issued n i" and x: "\<forall>x. r = Some x \<longrightarrow> issued n (ra_id x)"
    using assms by (auto simp: ids_fine_def)
  show "frame_id g (Suc n) \<notin> fst ` set ps"
  proof
    assume "frame_id g (Suc n) \<in> fst ` set ps"
    with i have "issued n (frame_id g (Suc n))" by (rule bspec)
    then show False by (rule notE[OF not_issued])
  qed
  show "ra_id x \<noteq> frame_id g (Suc n)" if r: "r = Some x"
  proof
    assume "ra_id x = frame_id g (Suc n)"
    then have "issued n (frame_id g (Suc n))" using x r by simp
    then show False by (rule notE[OF not_issued])
  qed
qed

lemma ids_fine_put:
  assumes "ids_fine ps n r"
  shows "ids_fine (ps @ [(frame_id g (Suc n), p)]) (Suc n) r"
proof -
  have d: "distinct (map fst ps)" and i: "\<forall>i \<in> fst ` set ps. issued (Suc n) i"
    and r: "\<forall>x. r = Some x \<longrightarrow> ra_id x \<notin> fst ` set ps \<and> issued (Suc n) (ra_id x)"
    using ids_fine_mono[OF assms le_SucI[OF order.refl]] unfolding ids_fine_def by blast+
  have f: "frame_id g (Suc n) \<notin> fst ` set ps" by (rule ids_fine_fresh[OF assms])
  have "\<forall>x. r = Some x \<longrightarrow> ra_id x \<noteq> frame_id g (Suc n)" using ids_fine_fresh(2)[OF assms] by blast
  then show ?thesis using d i r f issued_new unfolding ids_fine_def by simp
qed

lemma ids_fine_reauth:
  assumes "ids_fine ps n r"
  shows "ids_fine ps (Suc n) (Some \<lparr>ra_id = frame_id g (Suc n), ra_rev = v, ra_deadline = d\<rparr>)"
proof -
  have "ids_fine ps (Suc n) None" by (rule ids_fine_none[OF ids_fine_mono[OF assms]]) simp
  then show ?thesis using ids_fine_fresh(1)[OF assms] issued_new unfolding ids_fine_def by simp
qed

definition queue_ok :: "outgoing_ws list \<Rightarrow> bool" where
  "queue_ok xs \<longleftrightarrow> (\<forall>x \<in> set xs. xo_expect x = None \<longleftrightarrow> xo_reply x = None)"

definition books :: "sock \<Rightarrow> bool" where
  "books s \<longleftrightarrow>
     ids_fine (so_pending s) (so_next_id s) (so_reauth s) \<and> (so_running s \<or> so_pending s = [])
     \<and> queue_ok (so_queue s) \<and> mset (so_accepted s) = waiting s + done_with s"

lemma unpend_set: "distinct (map fst ps) \<Longrightarrow> unpend i ps = filter (\<lambda>(j, p). j \<noteq> i) ps"
proof (induction ps)
  case (Cons x ps)
  obtain j p where x: "x = (j, p)" by (cases x)
  show ?case
  proof (cases "j = i")
    case True
    then have "i \<notin> fst ` set ps" using Cons(2) by (simp add: x)
    then have "filter (\<lambda>(j, p). j \<noteq> i) ps = ps" by (auto simp: filter_id_conv image_iff)
    then show ?thesis using True by (simp add: x)
  next
    case False
    then show ?thesis using Cons by (simp add: x)
  qed
qed simp

lemma unpend_mset:
  "map_of ps i = Some p \<Longrightarrow>
   mset (map (\<lambda>(i, p). pd_reply p) ps) = add_mset (pd_reply p) (mset (map (\<lambda>(i, p). pd_reply p) (unpend i ps)))"
  by (induction ps) (auto split: if_splits)

lemma unpend_in: "x \<in> set (unpend i ps) \<Longrightarrow> x \<in> set ps"
  by (induction ps) (auto split: if_splits)

lemma unpend_keys: "fst ` set (unpend i ps) \<subseteq> fst ` set ps"
  using unpend_in by (rule image_mono[OF subsetI])

lemma unpend_distinct: "distinct (map fst ps) \<Longrightarrow> distinct (map fst (unpend i ps))"
proof (induction ps)
  case (Cons x ps)
  then show ?case using unpend_keys[of i ps] by (cases x) auto
qed simp

lemma unpend_last: "i \<notin> fst ` set ps \<Longrightarrow> unpend i (ps @ [(i, p)]) = ps"
  by (induction ps) auto

lemma assoc_put_new: "k \<notin> fst ` set kvs \<Longrightarrow> assoc_put k v kvs = kvs @ [(k, v)]"
  by (induction kvs) auto

lemma map_filter_eqs [simp]:
  "List.map_filter f [] = []"
  "List.map_filter f (x # xs) = (case f x of None \<Rightarrow> List.map_filter f xs | Some y \<Rightarrow> y # List.map_filter f xs)"
  "List.map_filter f (xs @ ys) = List.map_filter f xs @ List.map_filter f ys"
  by (auto simp: List.map_filter_def split: option.split)

text \<open>Steps that touch no command: the books do not see them.\<close>

lemma waiting_cong: "so_pending s' = so_pending s \<Longrightarrow> so_queue s' = so_queue s \<Longrightarrow> waiting s' = waiting s"
  by (simp add: waiting_def)

lemma done_cong: "so_answers s' = so_answers s \<Longrightarrow> so_skipped s' = so_skipped s \<Longrightarrow> done_with s' = done_with s"
  by (simp add: done_with_def)

lemma books_cong:
  assumes "books s" "so_pending s' = so_pending s" "so_queue s' = so_queue s" "so_answers s' = so_answers s"
    "so_skipped s' = so_skipped s" "so_accepted s' = so_accepted s" "so_running s' = so_running s"
    "ids_fine (so_pending s) (so_next_id s') (so_reauth s')"
  shows "books s'"
  using assms waiting_cong[of s' s] done_cong[of s' s] by (simp add: books_def)

lemma done_tell [simp]: "done_with (tell k a s) = done_with s + opt_mset k"
  by (cases k) (simp_all add: done_with_def)

lemma waiting_tell [simp]: "waiting (tell k a s) = waiting s"
  by (simp add: waiting_def)

lemma done_hand [simp]: "done_with (hand f s) = done_with s" "waiting (hand f s) = waiting s"
  by (simp_all add: done_with_def waiting_def)

lemma done_update [simp]:
  "done_with (s\<lparr>so_next_id := n\<rparr>) = done_with s" "waiting (s\<lparr>so_next_id := n\<rparr>) = waiting s"
  "done_with (s\<lparr>so_pending := ps\<rparr>) = done_with s"
  "done_with (s\<lparr>so_skipped := so_skipped s @ ks\<rparr>) = done_with s + mset ks"
  "waiting (s\<lparr>so_skipped := l\<rparr>) = waiting s"
  "waiting (s\<lparr>so_pending := so_pending s @ [(i, p)]\<rparr>) = add_mset (pd_reply p) (waiting s)"
  by (simp_all add: done_with_def waiting_def)

lemma books_write_command:
  assumes ids: "ids_fine (so_pending s) (so_next_id s) (so_reauth s)" and q: "queue_ok (so_queue s)"
    and x: "xo_expect x = None \<longleftrightarrow> xo_reply x = None"
    and m: "mset (so_accepted s) = waiting s + opt_mset (xo_reply x) + done_with s" and run: "so_running s"
  shows "books (snd (write_command frame_size now gone sent x s))"
proof -
  let ?i = "frame_id (xo_generation x) (Suc (so_next_id s))"
  have fresh: "?i \<notin> fst ` set (so_pending s)" by (rule ids_fine_fresh[OF ids])
  note put = assoc_put_new[OF fresh] and un = unpend_last[OF fresh]
  have none: "map_of (so_pending s) ?i = None" using fresh by (simp add: map_of_eq_None_iff)
  have some: "([?i \<mapsto> p] ++ map_of (so_pending s)) ?i = Some p" for p
    using none by (simp add: map_add_def)
  have n: "ids_fine (so_pending s) (Suc (so_next_id s)) (so_reauth s)" by (rule ids_fine_mono[OF ids]) simp
  note p = ids_fine_put[OF ids, of "xo_generation x"]
  consider "xo_expect x = None" "xo_reply x = None" | e k where "xo_expect x = Some e" "xo_reply x = Some k"
    using x by (cases "xo_expect x"; cases "xo_reply x") auto
  then show ?thesis
  proof cases
    case 1
    then show ?thesis using q m ids n run none by (simp add: write_command_def Let_def books_def)
  next
    case 2
    then show ?thesis using q m ids n p run
      by (auto simp: write_command_def Let_def books_def put un some waiting_def)
  qed
qed

lemma send_reauth_fields [simp]:
  "so_pending (snd (send_reauth now sent s)) = so_pending s" "so_queue (snd (send_reauth now sent s)) = so_queue s"
  "so_answers (snd (send_reauth now sent s)) = so_answers s" "so_skipped (snd (send_reauth now sent s)) = so_skipped s"
  "so_accepted (snd (send_reauth now sent s)) = so_accepted s" "so_running (snd (send_reauth now sent s)) = so_running s"
  "so_routes (snd (send_reauth now sent s)) = so_routes s" "so_routed (snd (send_reauth now sent s)) = so_routed s"
  "so_backoff (snd (send_reauth now sent s)) = so_backoff s" "so_cell (snd (send_reauth now sent s)) = so_cell s"
  "so_watch (snd (send_reauth now sent s)) = so_watch s" "so_unseen (snd (send_reauth now sent s)) = so_unseen s"
  "so_unsent (snd (send_reauth now sent s)) = so_unsent s" "so_epoch (snd (send_reauth now sent s)) = so_epoch s"
  "so_ready (snd (send_reauth now sent s)) = so_ready s" "so_auth_rev (snd (send_reauth now sent s)) = so_auth_rev s"
  "so_conn (snd (send_reauth now sent s)) = so_conn s" "so_generation (snd (send_reauth now sent s)) = so_generation s"
  by (auto simp: send_reauth_def Let_def split: prod.split option.split)

lemma send_reauth_ids:
  "ids_fine (so_pending s) (so_next_id s) (so_reauth s) \<Longrightarrow>
   ids_fine (so_pending s) (so_next_id (snd (send_reauth now sent s))) (so_reauth (snd (send_reauth now sent s)))"
  using ids_fine_reauth[of "so_pending s" "so_next_id s" "so_reauth s"]
    ids_fine_none[of "so_pending s" "so_next_id s" "so_reauth s"]
    ids_fine_mono[of "so_pending s" "so_next_id s" "so_reauth s" "Suc (so_next_id s)"]
  by (auto simp: send_reauth_def Let_def split: prod.split option.split)

lemma books_send_reauth: "books s \<Longrightarrow> books (snd (send_reauth now sent s))"
  by (rule books_cong[of s]) (simp_all add: send_reauth_ids books_def)

lemma reauth_if_rotated_cases:
  "snd (reauth_if_rotated now sent s) \<in> {s, snd (send_reauth now sent s)}"
  by (auto simp: reauth_if_rotated_def split: prod.split bool.split)

lemma books_reauth_if_rotated: "books s \<Longrightarrow> books (snd (reauth_if_rotated now sent s))"
  using reauth_if_rotated_cases[of now sent s] books_send_reauth[of s now sent] by auto

lemma books_take_reply:
  assumes "ids_fine (so_pending s) (so_next_id s) (so_reauth s)" "so_running s \<or> so_pending s = []"
    "queue_ok (so_queue s)" "mset (so_accepted s) = add_mset (pd_reply p) (waiting s + done_with s)"
  shows "books (take_reply gone ty data p s)"
proof -
  have n: "ids_fine (so_pending s) (Suc (so_next_id s)) (so_reauth s)" by (rule ids_fine_mono[OF assms(1)]) simp
  have w: "waiting (s'\<lparr>so_routes := r\<rparr>) = waiting s'" "done_with (s'\<lparr>so_routes := r\<rparr>) = done_with s'"
    "waiting (send_route k f s') = waiting s'" "done_with (send_route k f s') = done_with s'" for s' r k f
    by (simp_all add: waiting_def done_with_def)
  show ?thesis
    using assms n
    by (auto simp: take_reply_def Let_def books_def w done_with_def split: option.split)
qed

lemma books_fields:
  assumes "books s" "so_pending s' = so_pending s" "so_queue s' = so_queue s" "so_answers s' = so_answers s"
    "so_skipped s' = so_skipped s" "so_accepted s' = so_accepted s" "so_running s' = so_running s"
    "so_next_id s' = so_next_id s" "so_reauth s' = so_reauth s \<or> so_reauth s' = None"
  shows "books s'"
proof (rule books_cong[OF assms(1-7)])
  have i: "ids_fine (so_pending s) (so_next_id s) (so_reauth s)" using assms(1) by (simp add: books_def)
  show "ids_fine (so_pending s) (so_next_id s') (so_reauth s')"
    using assms(9) i ids_fine_none[OF i] by (auto simp: assms(8))
qed

text \<open>A frame that is no reply touches no command.\<close>

definition command_view where
  "command_view s = (so_pending s, so_queue s, so_answers s, so_skipped s, so_accepted s, so_running s,
     so_next_id s, so_reauth s)"

lemma command_view_update [simp]:
  "command_view (s\<lparr>so_raw := v1\<rparr>) = command_view s" "command_view (s\<lparr>so_events := v2\<rparr>) = command_view s"
  "command_view (s\<lparr>so_routes := v3\<rparr>) = command_view s" "command_view (s\<lparr>so_generation := v4\<rparr>) = command_view s"
  "command_view (s\<lparr>so_conn := v5\<rparr>) = command_view s" "command_view (send_route r f s) = command_view s"
  by (simp_all add: command_view_def)

lemma handle_text_quiet:
  assumes "jget_str ''re'' frame = None"
  shows "command_view (snd (handle_text gone task_gone (Some frame) s)) = command_view s"
proof -
  have 1: "command_view (case m of
        None \<Rightarrow> v | Some r \<Rightarrow> if task_gone r then v\<lparr>so_routes := u\<rparr> else send_route r f v) = command_view v"
    for v m u f by (auto split: option.split)
  have 2: "command_view (case x of None \<Rightarrow> v | Some (c, k, n) \<Rightarrow> v\<lparr>so_events := so_events v @ [ChannelCall c k n]\<rparr>)
      = command_view v" for x and v :: sock by (auto split: option.split)
  show ?thesis
    using assms by (simp add: handle_text_def Let_def 1 2 split: prod.split)
qed

lemma books_view: "command_view s' = command_view s \<Longrightarrow> books s \<Longrightarrow> books s'"
  by (rule books_fields[of s]) (simp_all add: command_view_def)

lemma handle_text_books:
  assumes "books s"
  shows "books (snd (handle_text gone task_gone text s))"
proof (cases "text")
  case None
  then show ?thesis using assms by (simp add: handle_text_def)
next
  case (Some frame)
  show ?thesis
  proof (cases "jget_str ''re'' frame")
    case None
    show ?thesis unfolding Some by (rule books_view[OF handle_text_quiet[OF None] assms])
  next
    case re: (Some re)
    then obtain v where j: "jget ''re'' frame = Some v" by (cases "jget ''re'' frame") (auto simp: jget_str_def)
    show ?thesis
    proof (cases "map_of (so_pending s) re")
      case None
      then show ?thesis using assms re j by (simp add: handle_text_def Some Let_def)
    next
      case p: (Some p)
      let ?s2 = "s\<lparr>so_pending := unpend re (so_pending s)\<rparr>"
      have ids: "ids_fine (so_pending s) (so_next_id s) (so_reauth s)" using assms by (simp add: books_def)
      have d: "distinct (map fst (unpend re (so_pending s)))"
        using ids unpend_distinct unfolding ids_fine_def by blast
      have "ids_fine (so_pending ?s2) (so_next_id ?s2) (so_reauth ?s2)"
        using ids_fine_sub[OF ids d unpend_keys] by simp
      moreover have "mset (so_accepted ?s2) = add_mset (pd_reply p) (waiting ?s2 + done_with ?s2)"
        using assms unpend_mset[OF p] by (simp add: books_def waiting_def done_with_def)
      moreover have "so_running ?s2 \<or> so_pending ?s2 = []" "queue_ok (so_queue ?s2)"
        using assms by (auto simp: books_def)
      ultimately have "books (take_reply gone (str_or_empty (jindex ''type'' frame)) (jindex ''data'' frame) p ?s2)"
        by (intro books_take_reply)
      then show ?thesis using re p j by (simp add: handle_text_def Some Let_def)
    qed
  qed
qed

lemma books_on_text:
  assumes "books s"
  shows "books (snd (on_text now text gone task_gone sent s))"
proof -
  let ?s1 = "s\<lparr>so_auth_rev := (case so_reauth s of Some r \<Rightarrow> ra_rev r | None \<Rightarrow> so_auth_rev s), so_reauth := None\<rparr>"
  let ?h = "handle_text gone task_gone text s"
  have 1: "books (snd (reauth_if_rotated now sent ?s1))"
    by (rule books_reauth_if_rotated, rule books_fields[OF assms]) simp_all
  have 2: "books (snd ?h)" by (rule handle_text_books[OF assms])
  have 3: "books (snd (reauth_if_rotated now sent ((snd ?h)\<lparr>so_ready := True\<rparr>)))"
    by (rule books_reauth_if_rotated, rule books_fields[OF 2]) simp_all
  show ?thesis
    using assms 1 2 3 by (auto simp: on_text_def split_def split: bool.split)
qed

lemma filter_partition: "mset (filter P xs) + mset (filter (\<lambda>x. \<not> P x) xs) = mset xs"
  by (induction xs) auto

lemma expire_fields [simp]:
  "so_answers (expire now s) = so_answers s
     @ map (\<lambda>(i, p). (pd_reply p, Inl CmdTimeout)) (filter (\<lambda>(i, p). pd_deadline p \<le> now) (so_pending s))"
  "so_pending (expire now s) = filter (\<lambda>(i, p). now < pd_deadline p) (so_pending s)"
  "so_queue (expire now s) = so_queue s" "so_skipped (expire now s) = so_skipped s"
  "so_accepted (expire now s) = so_accepted s" "so_running (expire now s) = so_running s"
  "so_next_id (expire now s) = so_next_id s" "so_reauth (expire now s) = so_reauth s"
  by (simp_all add: expire_def)

lemma books_expire:
  assumes "books s"
  shows "books (expire now s)"
proof -
  let ?late = "filter (\<lambda>(i, p). pd_deadline p \<le> now) (so_pending s)"
  let ?kept = "filter (\<lambda>(i, p). now < pd_deadline p) (so_pending s)"
  have k: "?kept = filter (\<lambda>x. \<not> (case x of (i, p) \<Rightarrow> pd_deadline p \<le> now)) (so_pending s)"
    by (rule filter_cong) auto
  have p: "mset ?late + mset ?kept = mset (so_pending s)"
    unfolding k by (rule filter_partition)
  have m: "mset (map (\<lambda>(i, p). pd_reply p) (so_pending s))
      = mset (map (\<lambda>(i, p). pd_reply p) ?late) + mset (map (\<lambda>(i, p). pd_reply p) ?kept)"
    unfolding mset_map image_mset_union[symmetric] p ..
  have t: "map (fst \<circ> (\<lambda>(i, p). (pd_reply p, Inl CmdTimeout :: answer))) ?late = map (\<lambda>(i, p). pd_reply p) ?late"
    by (rule map_cong) auto
  have i: "ids_fine (so_pending s) (so_next_id s) (so_reauth s)" using assms by (simp add: books_def)
  have f: "ids_fine ?kept (so_next_id s) (so_reauth s)"
    using i by (intro ids_fine_sub[OF i]) (auto simp: ids_fine_def distinct_map_filter)
  have "waiting (expire now s) + done_with (expire now s) = waiting s + done_with s"
    unfolding waiting_def done_with_def m expire_fields
    by (simp only: map_append map_map t mset_append ac_simps)
  then show ?thesis
    using assms f by (auto simp: books_def)
qed

lemma books_turn:
  assumes "books s" "so_running s"
  shows "books (snd (turn frame_size now t s))"
proof (cases t)
  case (RevisionTurn sent)
  have "books (s\<lparr>so_unseen := False\<rparr>)" by (rule books_fields[OF assms(1)]) simp_all
  then show ?thesis using RevisionTurn by (auto simp: turn_def Let_def intro: books_reauth_if_rotated)
next
  case (CommandTurn gone sent)
  show ?thesis
  proof (cases "so_queue s")
    case Nil
    then show ?thesis using CommandTurn assms by (simp add: turn_def)
  next
    case (Cons x xs)
    let ?s = "s\<lparr>so_queue := xs\<rparr>"
    have "books (snd (write_command frame_size now gone (sent \<noteq> Some False) x ?s))"
      using assms Cons
      by (intro books_write_command)
        (auto simp: books_def queue_ok_def waiting_def done_with_def split: option.splits)
    then show ?thesis using CommandTurn Cons
      by (auto simp: turn_def split_def split: bool.split)
  qed
next
  case TimerTurn
  then show ?thesis using assms books_expire by (simp add: turn_def)
next
  case (TextTurn tx gone task_gone sent)
  have "books (s\<lparr>so_last_frame := now\<rparr>)" by (rule books_fields[OF assms(1)]) simp_all
  then show ?thesis using TextTurn by (simp add: turn_def books_on_text)
next
  case OtherTurn
  have "books (s\<lparr>so_last_frame := now\<rparr>)" by (rule books_fields[OF assms(1)]) simp_all
  then show ?thesis using OtherTurn by (simp add: turn_def)
next
  case (CloseTurn frame)
  have "books (s\<lparr>so_last_frame := now\<rparr>)" by (rule books_fields[OF assms(1)]) simp_all
  then show ?thesis using CloseTurn by (simp add: turn_def Let_def)
qed (use assms in \<open>simp_all add: turn_def\<close>)

lemma teardown_fields [simp]:
  "so_answers (teardown s) = so_answers s @ map (\<lambda>(i, p). (pd_reply p, Inl Unknown)) (so_pending s)"
  "so_pending (teardown s) = []" "so_queue (teardown s) = so_queue s" "so_skipped (teardown s) = so_skipped s"
  "so_accepted (teardown s) = so_accepted s" "so_running (teardown s) = so_running s"
  "so_next_id (teardown s) = so_next_id s" "so_reauth (teardown s) = so_reauth s"
  "so_routes (teardown s) = so_routes s" "so_routed (teardown s) = so_routed s"
  "so_cell (teardown s) = so_cell s" "so_watch (teardown s) = so_watch s"
  "so_unseen (teardown s) = so_unseen s" "so_unsent (teardown s) = so_unsent s"
  "so_backoff (teardown s) = so_backoff s" "cn_ready (so_conn (teardown s)) = False"
  by (simp_all add: teardown_def)

lemma teardown_books:
  assumes "books s"
  shows "books (teardown s)" "so_pending (teardown s) = []"
proof -
  have t: "map (fst \<circ> (\<lambda>(i, p). (pd_reply p, Inl Unknown :: answer))) (so_pending s)
      = map (\<lambda>(i, p). pd_reply p) (so_pending s)"
    by (rule map_cong) auto
  have i: "ids_fine [] (so_next_id s) (so_reauth s)"
    using assms ids_fine_sub[of "so_pending s" "so_next_id s" "so_reauth s" "[]"] by (simp add: books_def)
  show p: "so_pending (teardown s) = []" by simp
  have "waiting (teardown s) + done_with (teardown s) = waiting s + done_with s"
    unfolding waiting_def done_with_def teardown_fields
    by (simp only: map_append map_map t mset_append ac_simps list.map mset.simps add_0)
  then show "books (teardown s)" using assms i by (auto simp: books_def)
qed

lemma run_ended_fields [simp]:
  "so_pending (snd (run_ended e r s)) = so_pending s" "so_queue (snd (run_ended e r s)) = so_queue s"
  "so_answers (snd (run_ended e r s)) = so_answers s" "so_skipped (snd (run_ended e r s)) = so_skipped s"
  "so_accepted (snd (run_ended e r s)) = so_accepted s" "so_next_id (snd (run_ended e r s)) = so_next_id s"
  "so_reauth (snd (run_ended e r s)) = so_reauth s" "so_routes (snd (run_ended e r s)) = so_routes s"
  "so_routed (snd (run_ended e r s)) = so_routed s" "so_running (snd (run_ended e r s)) = False"
  "so_conn (snd (run_ended e r s)) = so_conn s"
  "so_cell (snd (run_ended e r s)) = so_cell s" "so_watch (snd (run_ended e r s)) = so_watch s"
  "so_unseen (snd (run_ended e r s)) = so_unseen s" "so_unsent (snd (run_ended e r s)) = so_unsent s"
  "so_backoff (snd (run_ended e r s)) = snd (after_end e r (so_backoff s))"
  "fst (run_ended e r s) = fst (after_end e r (so_backoff s))"
  by (auto simp: run_ended_def Let_def split: prod.split)

lemma books_run_ended: "books s \<Longrightarrow> so_pending s = [] \<Longrightarrow> books (snd (run_ended e r s))"
  using waiting_cong[of "snd (run_ended e r s)" s] done_cong[of "snd (run_ended e r s)" s]
  by (simp add: books_def)

lemma books_ended: "books s \<Longrightarrow> books (snd (run_ended e r (teardown s)))"
  by (rule books_run_ended[OF teardown_books])

lemma idle_pending: "books s \<Longrightarrow> \<not> so_running s \<Longrightarrow> so_pending s = []"
  by (simp add: books_def)

theorem books_next:
  assumes "books s" "sock_enabled s ev"
  shows "books (snd (sock_next frame_size ev s))"
proof (cases ev)
  case (Turn now t refreshed)
  then have "books (snd (turn frame_size now t s))"
    using assms by (intro books_turn) (auto simp: sock_enabled_def)
  then show ?thesis using Turn books_ended
    by (auto simp: sock_next_def split_def split: option.split)
next
  case (Connect now failed refreshed)
  have p: "so_pending s = []" using assms Connect by (auto simp: sock_enabled_def idle_pending)
  have 0: "books (s\<lparr>so_unseen := False\<rparr>)" by (rule books_fields[OF assms(1)]) simp_all
  have 1: "books (snd (run_ended e refreshed (s\<lparr>so_unseen := False\<rparr>)))" for e
    by (rule books_run_ended[OF 0]) (simp add: p)
  have 2: "books (hand f (s\<lparr>so_unseen := False, so_running := True, so_epoch := a, so_auth_rev := b,
      so_reauth := None, so_ready := False, so_pending := [], so_next_id := 0, so_last_frame := now\<rparr>))" for f a b
    using assms(1) p by (simp add: books_def waiting_def done_with_def ids_fine_def)
  show ?thesis using 0 1 2 Connect
    by (auto simp: sock_next_def connect_def split_def split: option.split)
next
  case (Submit x)
  then show ?thesis using assms
    by (auto simp: sock_next_def submit_def books_def waiting_def done_with_def queue_ok_def sock_enabled_def
        split: option.split)
next
  case (DropRoute k)
  then show ?thesis using assms by (simp add: sock_next_def) (rule books_fields[OF assms(1)]; simp)
next
  case TaskStops
  have m: "mset (map (fst \<circ> (\<lambda>(i, p). (pd_reply p, Inl Unknown :: answer))) (so_pending s))
      = mset (map (\<lambda>(i, p). pd_reply p) (so_pending s))"
    by (intro arg_cong[where f = mset] map_cong) auto
  have "ids_fine [] (so_next_id s) (so_reauth s)"
    using assms ids_fine_sub[of "so_pending s" "so_next_id s" "so_reauth s" "[]"] by (simp add: books_def)
  then show ?thesis using assms m TaskStops
    by (simp add: sock_next_def stop_task_def books_def waiting_def done_with_def queue_ok_def comp_def ac_simps)
next
  case (CellMoves e r t)
  then show ?thesis using assms by (simp add: sock_next_def) (rule books_fields[OF assms(1)]; simp)
next
  case (Publish k)
  then show ?thesis using assms by (simp add: sock_next_def) (rule books_fields[OF assms(1)]; simp)
qed

lemma books_start: "books transport_new"
  by (simp add: books_def transport_new_def waiting_def done_with_def ids_fine_def queue_ok_def)

lemma books_runs: "sock_runs frame_size s evs s' \<Longrightarrow> books s \<Longrightarrow> books s'"
  by (induction rule: sock_runs.induct) (auto intro: books_next)

section \<open>The credentials the socket is on\<close>

text \<open>
  Where the session, its watch and the socket stand to each other while the store's operations
  send their revisions in the order they made them.
\<close>

definition newest :: "sock \<Rightarrow> nat \<times> nat" where
  "newest s = (if so_unsent s = [] then so_watch s else last (so_unsent s))"

definition cell_rev :: "sock \<Rightarrow> nat \<times> nat" where
  "cell_rev s = (fst (so_cell s), fst (snd (so_cell s)))"

definition on_credentials :: "sock \<Rightarrow> bool" where
  "on_credentials s \<longleftrightarrow>
     newest s = cell_rev s
     \<and> (so_running s \<longrightarrow>
          so_epoch s \<le> fst (so_cell s)
          \<and> (snd (snd (so_cell s)) = None \<longrightarrow> so_epoch s < fst (so_cell s))
          \<and> (\<not> so_unseen s \<and> so_unsent s = [] \<longrightarrow> fst (so_watch s) = so_epoch s)
          \<and> (\<not> so_unseen s \<and> so_ready s \<and> so_reauth s = None \<longrightarrow>
               snd (so_watch s) = so_auth_rev s \<or> so_epoch s < fst (so_cell s)))"

text \<open>A published revision: the watch and what is still to come stay in line.\<close>

lemma newest_publish:
  assumes "so_unsent s \<noteq> []"
  shows "(if tl (so_unsent s) = [] then so_unsent s ! 0 else last (tl (so_unsent s))) = last (so_unsent s)"
  using assms by (cases "so_unsent s") auto

definition sock_link_view where
  "sock_link_view s = (so_unsent s, so_watch s, so_unseen s, so_cell s, so_running s, so_epoch s, so_ready s,
     so_auth_rev s, so_reauth s)"

lemma newest_cong: "so_unsent s' = so_unsent s \<Longrightarrow> so_watch s' = so_watch s \<Longrightarrow> newest s' = newest s"
  unfolding newest_def by simp

lemma cell_rev_cong: "so_cell s' = so_cell s \<Longrightarrow> cell_rev s' = cell_rev s"
  unfolding cell_rev_def by simp

lemma newest_view: "sock_link_view s' = sock_link_view (s :: sock) \<Longrightarrow> newest s' = newest s \<and> cell_rev s' = cell_rev s"
  using newest_cong[of s' s] cell_rev_cong[of s' s] by (simp add: sock_link_view_def)

lemma credentials_view: "sock_link_view s' = sock_link_view (s :: sock) \<Longrightarrow> on_credentials s \<Longrightarrow> on_credentials s'"
  using newest_view[of s' s] by (simp add: sock_link_view_def on_credentials_def)

lemma sock_link_view_update [simp]:
  "sock_link_view (s\<lparr>so_queue := v1\<rparr>) = sock_link_view s" "sock_link_view (s\<lparr>so_pending := v2\<rparr>) = sock_link_view s"
  "sock_link_view (s\<lparr>so_next_id := v3\<rparr>) = sock_link_view s" "sock_link_view (s\<lparr>so_skipped := v4\<rparr>) = sock_link_view s"
  "sock_link_view (s\<lparr>so_raw := v5\<rparr>) = sock_link_view s" "sock_link_view (s\<lparr>so_events := v6\<rparr>) = sock_link_view s"
  "sock_link_view (s\<lparr>so_routes := v7\<rparr>) = sock_link_view s" "sock_link_view (s\<lparr>so_generation := v8\<rparr>) = sock_link_view s"
  "sock_link_view (s\<lparr>so_conn := v9\<rparr>) = sock_link_view s" "sock_link_view (s\<lparr>so_last_frame := v10\<rparr>) = sock_link_view s"
  "sock_link_view (s\<lparr>so_accepted := v11\<rparr>) = sock_link_view s"
  "sock_link_view (send_route r f s) = sock_link_view s" "sock_link_view (tell k a s) = sock_link_view s"
  "sock_link_view (hand j s) = sock_link_view s" "sock_link_view (expire now s) = sock_link_view s"
  "sock_link_view (teardown s) = sock_link_view s"
  by (auto simp: sock_link_view_def expire_def teardown_def)

lemma sock_link_view_write [simp]: "sock_link_view (snd (write_command frame_size now gone sent x s)) = sock_link_view s"
  by (auto simp: write_command_def Let_def split: option.split)

lemma sock_link_view_take_reply [simp]: "sock_link_view (take_reply gone ty data p s) = sock_link_view s"
  by (auto simp: take_reply_def Let_def split: option.split)

lemma sock_link_view_handle [simp]: "sock_link_view (snd (handle_text gone task_gone text s)) = sock_link_view s"
proof -
  have 1: "sock_link_view (case m of
        None \<Rightarrow> v | Some r \<Rightarrow> if task_gone r then v\<lparr>so_routes := u\<rparr> else send_route r f v) = sock_link_view v"
    for v m u f by (auto split: option.split)
  have 2: "sock_link_view (case x of None \<Rightarrow> v | Some (c, k, n) \<Rightarrow> v\<lparr>so_events := so_events v @ [ChannelCall c k n]\<rparr>)
      = sock_link_view v" for x and v :: sock by (auto split: option.split)
  have 3: "sock_link_view (if b then s\<lparr>so_raw := r\<rparr> else s) = sock_link_view s" for b r by simp
  show ?thesis
    by (cases "text") (auto simp: handle_text_def Let_def 1 2 3 split: prod.split option.split)
qed

text \<open>Sending the auth frame again leaves the socket either waiting for its answer or without a session.\<close>

lemma send_reauth_reauth:
  "fst (send_reauth now sent s) \<Longrightarrow>
   so_reauth (snd (send_reauth now sent s)) \<noteq> None
   \<or> snd (snd (so_cell s)) = None \<and> so_reauth (snd (send_reauth now sent s)) = None"
  by (auto simp: send_reauth_def Let_def split: prod.splits option.splits if_splits)

lemma send_reauth_newest [simp]:
  "newest (snd (send_reauth now sent s)) = newest s" "cell_rev (snd (send_reauth now sent s)) = cell_rev s"
  by (rule newest_cong cell_rev_cong; simp)+

lemma reauth_if_rotated_on:
  assumes "newest s = cell_rev s" "so_running s" "so_epoch s \<le> fst (so_cell s)"
    "snd (snd (so_cell s)) = None \<longrightarrow> so_epoch s < fst (so_cell s)"
    "\<not> so_unseen s \<and> so_unsent s = [] \<longrightarrow> fst (so_watch s) = so_epoch s"
    "reauth_if_rotated now sent s = (None, s')"
  shows "on_credentials s'"
proof (cases "snd (so_watch s) = so_auth_rev s")
  case True
  then show ?thesis using assms by (auto simp: reauth_if_rotated_def on_credentials_def)
next
  case False
  then have s': "s' = snd (send_reauth now sent s)" and f: "fst (send_reauth now sent s)"
    using assms(6) by (auto simp: reauth_if_rotated_def split: prod.splits bool.splits)
  show ?thesis
    using assms(1-5) send_reauth_reauth[OF f] unfolding s'
    by (auto simp: on_credentials_def)
qed

lemma run_ended_newest [simp]:
  "newest (snd (run_ended e r s)) = newest s" "cell_rev (snd (run_ended e r s)) = cell_rev s"
  by (rule newest_cong cell_rev_cong; simp)+

lemma after_run: "newest s = cell_rev s \<Longrightarrow> on_credentials (snd (run_ended e r (teardown s)))"
  using newest_view[of "teardown s" s] by (simp add: on_credentials_def)

lemma reauth_if_rotated_newest [simp]:
  "newest (snd (reauth_if_rotated now sent s)) = newest s"
  "cell_rev (snd (reauth_if_rotated now sent s)) = cell_rev s"
  using reauth_if_rotated_cases[of now sent s] by auto

lemma newest_update [simp]:
  "newest (s\<lparr>so_unseen := b\<rparr>) = newest s" "cell_rev (s\<lparr>so_unseen := b\<rparr>) = cell_rev s"
  "newest (s\<lparr>so_ready := b\<rparr>) = newest s" "cell_rev (s\<lparr>so_ready := b\<rparr>) = cell_rev s"
  "newest (s\<lparr>so_reauth := r\<rparr>) = newest s" "cell_rev (s\<lparr>so_reauth := r\<rparr>) = cell_rev s"
  "newest (s\<lparr>so_auth_rev := n\<rparr>) = newest s" "cell_rev (s\<lparr>so_auth_rev := n\<rparr>) = cell_rev s"
  "newest (s\<lparr>so_last_frame := n\<rparr>) = newest s" "cell_rev (s\<lparr>so_last_frame := n\<rparr>) = cell_rev s"
  by (simp_all add: newest_def cell_rev_def)

lemma handle_newest [simp]:
  "newest (snd (handle_text gone task_gone text s)) = newest s"
  "cell_rev (snd (handle_text gone task_gone text s)) = cell_rev s"
  using newest_view[OF sock_link_view_handle] by blast+

lemma write_newest [simp]:
  "newest (snd (write_command frame_size now gone sent x s)) = newest s"
  "cell_rev (snd (write_command frame_size now gone sent x s)) = cell_rev s"
  using newest_view[OF sock_link_view_write] by blast+

lemma queue_newest [simp]:
  "newest (s\<lparr>so_queue := q\<rparr>) = newest s" "cell_rev (s\<lparr>so_queue := q\<rparr>) = cell_rev s"
  "newest (expire now s) = newest s" "cell_rev (expire now s) = cell_rev s"
  by (simp_all add: newest_def cell_rev_def expire_def)

lemma on_text_newest:
  "newest (snd (on_text now text gone task_gone sent s)) = newest s
   \<and> cell_rev (snd (on_text now text gone task_gone sent s)) = cell_rev s"
  by (simp add: on_text_def split_def split: bool.split)

lemma turn_newest:
  "newest (snd (turn frame_size now t s)) = newest s \<and> cell_rev (snd (turn frame_size now t s)) = cell_rev s"
proof (cases t)
  case (CommandTurn gone sent)
  then show ?thesis by (simp add: turn_def split_def split: list.split bool.split)
next
  case (TextTurn tx gone task_gone sent)
  then show ?thesis by (simp add: turn_def on_text_newest)
qed (simp_all add: turn_def Let_def)

text \<open>One turn of a connection that goes on.\<close>

lemma turn_on:
  assumes "on_credentials s" "so_running s" "turn frame_size now t s = (None, s')"
  shows "on_credentials s'"
proof -
  note c = assms(1)[unfolded on_credentials_def]
  have v: "on_credentials (snd (turn frame_size now t s))" if "sock_link_view (snd (turn frame_size now t s)) = sock_link_view s"
    using credentials_view[OF that assms(1)] .
  show ?thesis
  proof (cases t)
    case (RevisionTurn sent)
    let ?s = "s\<lparr>so_unseen := False\<rparr>"
    have e: "fst (so_watch s) = so_epoch s" using assms(3) RevisionTurn by (auto simp: turn_def Let_def split: if_splits)
    show ?thesis
    proof (cases "so_ready s \<and> so_reauth s = None")
      case True
      then have "reauth_if_rotated now sent ?s = (None, s')"
        using assms(3) RevisionTurn e by (simp add: turn_def Let_def)
      then show ?thesis using c e assms(2) by (intro reauth_if_rotated_on[of ?s]) simp_all
    next
      case False
      then have "s' = ?s" using assms(3) RevisionTurn e by (auto simp: turn_def Let_def split: if_splits)
      then show ?thesis using c e False assms(2) by (auto simp: on_credentials_def)
    qed
  next
    case (CommandTurn gone sent)
    have "sock_link_view (snd (turn frame_size now t s)) = sock_link_view s"
      by (auto simp: CommandTurn turn_def split_def split: list.split bool.split)
    then show ?thesis using v assms(3) by simp
  next
    case TimerTurn
    have "sock_link_view (snd (turn frame_size now t s)) = sock_link_view s" by (auto simp: TimerTurn turn_def)
    then show ?thesis using v assms(3) by simp
  next
    case (TextTurn tx gone task_gone sent)
    let ?s = "s\<lparr>so_last_frame := now\<rparr>"
    have l: "sock_link_view ?s = sock_link_view s" by simp
    note on = credentials_view[OF l assms(1), unfolded on_credentials_def]
    have t: "on_text now tx gone task_gone sent ?s = (None, s')" using assms(3) TextTurn by (simp add: turn_def)
    show ?thesis
    proof (cases "so_reauth s \<noteq> None \<and> Option.bind tx (jget_str ''re'') = map_option ra_id (so_reauth s)")
      case True
      let ?r = "?s\<lparr>so_auth_rev := (case so_reauth s of Some r \<Rightarrow> ra_rev r | None \<Rightarrow> so_auth_rev s), so_reauth := None\<rparr>"
      have "reauth_if_rotated now sent ?r = (None, s')"
        using t True by (auto simp: on_text_def split: if_splits)
      then show ?thesis using c assms(2) by (intro reauth_if_rotated_on[of ?r]) simp_all
    next
      case False
      let ?h = "handle_text gone task_gone tx ?s"
      have h: "sock_link_view (snd ?h) = sock_link_view s" by simp
      show ?thesis
      proof (cases "fst ?h")
        case True
        let ?r = "(snd ?h)\<lparr>so_ready := True\<rparr>"
        have "reauth_if_rotated now sent ?r = (None, s')"
          using t False True by (cases ?h) (auto simp: on_text_def)
        then show ?thesis
          using c assms(2) h by (intro reauth_if_rotated_on[of ?r]) (simp_all add: sock_link_view_def)
      next
        case False': False
        then have "s' = snd ?h" using t False by (cases ?h) (auto simp: on_text_def)
        then show ?thesis using credentials_view[OF h assms(1)] by simp
      qed
    qed
  next
    case OtherTurn
    have "sock_link_view (snd (turn frame_size now t s)) = sock_link_view s" by (auto simp: OtherTurn turn_def)
    then show ?thesis using v assms(3) by simp
  qed (use assms(3) in \<open>simp_all add: turn_def Let_def\<close>)
qed

definition in_order :: "sock_event \<Rightarrow> bool" where
  "in_order ev = (case ev of Publish k \<Rightarrow> k = 0 | _ \<Rightarrow> True)"

theorem on_credentials_next:
  assumes "on_credentials s" "sock_enabled s ev" "in_order ev"
  shows "on_credentials (snd (sock_next frame_size ev s))"
proof (cases ev)
  case (Turn now t refreshed)
  then have r: "so_running s" using assms(2) by (simp add: sock_enabled_def)
  obtain e s' where t: "turn frame_size now t s = (e, s')" by (cases "turn frame_size now t s")
  show ?thesis
  proof (cases e)
    case None
    then show ?thesis using turn_on[OF assms(1) r] t Turn by (simp add: sock_next_def)
  next
    case (Some fin)
    have "newest s' = cell_rev s'"
      using turn_newest[of frame_size now t s] assms(1) t by (simp add: on_credentials_def)
    then show ?thesis using after_run Some t Turn by (auto simp: sock_next_def split_def)
  qed
next
  case (Connect now failed refreshed)
  have n: "newest s = cell_rev s" using assms(1) by (simp add: on_credentials_def)
  have 1: "on_credentials (snd (run_ended e refreshed (s\<lparr>so_unseen := False\<rparr>)))" for e
    using n by (simp add: on_credentials_def)
  have r: "\<not> so_running s" using assms(2) Connect by (simp add: sock_enabled_def)
  show ?thesis
  proof (cases "snd (snd (so_cell s))")
    case None
    then show ?thesis using n r Connect
      by (simp add: sock_next_def connect_def split_def on_credentials_def)
  next
    case (Some token)
    obtain e v where c: "so_cell s = (e, v, Some token)" using Some by (cases "so_cell s") auto
    define s' where "s' = hand (auth_frame None token)
       (s\<lparr>so_unseen := False, so_running := True, so_epoch := e, so_auth_rev := v, so_reauth := None,
          so_ready := False, so_pending := [], so_next_id := 0, so_last_frame := now\<rparr>)"
    have "newest s' = newest s" "cell_rev s' = cell_rev s" by (rule newest_cong cell_rev_cong; simp add: s'_def)+
    then have "newest s' = cell_rev s'" "so_unsent s' = [] \<Longrightarrow> so_watch s' = cell_rev s'"
      using n by (simp_all add: newest_def)
    then have "on_credentials s'" using c by (simp add: on_credentials_def s'_def cell_rev_def)
    then show ?thesis using 1 c Connect
      by (simp add: sock_next_def connect_def split_def s'_def split: option.split)
  qed
next
  case (CellMoves e r t)
  have "fst (so_cell s) \<le> e \<and> (t = None \<longrightarrow> fst (so_cell s) < e)"
    using assms(2) CellMoves by (auto simp: sock_enabled_def split: prod.splits)
  then show ?thesis using assms(1) CellMoves
    by (simp add: sock_next_def on_credentials_def newest_def[of "_\<lparr>so_unsent := _\<rparr>"] cell_rev_def[of "_\<lparr>so_cell := _\<rparr>"]) 
       (auto simp: newest_def cell_rev_def)
next
  case (Publish k)
  then have k: "k = 0" "so_unsent s \<noteq> []" using assms(2,3) by (auto simp: sock_enabled_def in_order_def)
  then show ?thesis using assms(1) Publish
    by (cases "so_unsent s") (auto simp: sock_next_def on_credentials_def newest_def cell_rev_def)
next
  case (Submit x)
  have "sock_link_view (snd (submit x s)) = sock_link_view s" by (simp add: submit_def sock_link_view_def)
  then show ?thesis using credentials_view assms(1) Submit by (simp add: sock_next_def)
next
  case (DropRoute k)
  have "sock_link_view (s\<lparr>so_routes := unroute k (so_routes s)\<rparr>) = sock_link_view s" by simp
  then show ?thesis using credentials_view assms(1) DropRoute by (simp add: sock_next_def)
next
  case TaskStops
  then show ?thesis using assms(1)
    by (auto simp: sock_next_def stop_task_def on_credentials_def newest_def cell_rev_def)
qed

lemma on_credentials_runs:
  "sock_runs frame_size s evs s' \<Longrightarrow> on_credentials s \<Longrightarrow> \<forall>ev \<in> set evs. in_order ev \<Longrightarrow> on_credentials s'"
  by (induction rule: sock_runs.induct) (auto intro: on_credentials_next)

lemma on_credentials_start: "on_credentials transport_new"
  by (simp add: on_credentials_def transport_new_def newest_def cell_rev_def)

section \<open>A call's frames\<close>

definition routed_for :: "string \<Rightarrow> sock \<Rightarrow> (nat \<times> call_frame) list" where
  "routed_for k s = filter (\<lambda>(r, f). call_id_of (cf_data f) = k) (so_routed s)"

text \<open>The call frame of \<open>k\<close> a turn reads, if it does.\<close>

definition frames_for :: "string \<Rightarrow> sock_event \<Rightarrow> call_frame list" where
  "frames_for k ev =
     (case ev of
        Turn _ (TextTurn (Some frame) _ _ _) _ \<Rightarrow>
          (let ty = str_or_empty (jindex ''type'' frame); data = jindex ''data'' frame
           in if jget_str ''re'' frame = None \<and> ty \<noteq> ''channel.call'' \<and> starts_with ty ''call.''
                 \<and> call_id_of data = k
              then [\<lparr>cf_ty = ty, cf_data = data\<rparr>] else [])
      | _ \<Rightarrow> [])"

text \<open>What leaves the route of \<open>k\<close> to \<open>r\<close> alone: its task lives, nobody drops it or joins \<open>k\<close> again.\<close>

definition undisturbed :: "string \<Rightarrow> nat \<Rightarrow> sock_event \<Rightarrow> bool" where
  "undisturbed k r ev =
     (case ev of
        DropRoute k' \<Rightarrow> k' \<noteq> k
      | Turn _ (TextTurn (Some frame) _ task_gone _) _ \<Rightarrow>
          \<not> task_gone r
          \<and> (jget_str ''re'' frame = None \<or> str_or_empty (jindex ''type'' frame) \<noteq> ''call.joined''
             \<or> call_id_of (jindex ''data'' frame) \<noteq> k)
      | _ \<Rightarrow> True)"

definition route_view where
  "route_view k s = (map_of (so_routes s) k, routed_for k (s :: sock))"

lemma map_of_unroute: "k' \<noteq> k \<Longrightarrow> map_of (unroute k' rs) k = map_of rs k"
  by (induction rs) auto

lemma route_view_cong: "so_routes s' = so_routes s \<Longrightarrow> so_routed s' = so_routed s \<Longrightarrow> route_view k s' = route_view k s"
  by (simp add: route_view_def routed_for_def)

lemma routes_of_steps [simp]:
  "so_routes (snd (write_command frame_size now gone sent x s)) = so_routes s"
  "so_routed (snd (write_command frame_size now gone sent x s)) = so_routed s"
  "so_routes (snd (reauth_if_rotated now sent s)) = so_routes s"
  "so_routed (snd (reauth_if_rotated now sent s)) = so_routed s"
  "so_routes (expire now s) = so_routes s" "so_routed (expire now s) = so_routed s"
  using reauth_if_rotated_cases[of now sent s]
  by (auto simp: write_command_def Let_def expire_def split: option.split)

lemma route_view_take_reply:
  assumes "ty \<noteq> ''call.joined'' \<or> call_id_of data \<noteq> k"
  shows "route_view k (take_reply gone ty data p s) = route_view k s"
  using assms
  by (auto simp: take_reply_def Let_def route_view_def routed_for_def map_of_assoc_put split: option.split)

lemma route_view_handle_text:
  assumes "map_of (so_routes s) k = Some r" "undisturbed k r (Turn now (TextTurn (Some frame) gone task_gone sent) x)"
  shows "route_view k (snd (handle_text gone task_gone (Some frame) s))
    = (Some r, routed_for k s @ map (Pair r) (frames_for k (Turn now (TextTurn (Some frame) gone task_gone sent) x)))"
proof (cases "jget_str ''re'' frame")
  case (Some re)
  then obtain v where j: "jget ''re'' frame = Some v" by (cases "jget ''re'' frame") (auto simp: jget_str_def)
  have f: "frames_for k (Turn now (TextTurn (Some frame) gone task_gone sent) x) = []"
    using Some by (simp add: frames_for_def Let_def)
  have c: "str_or_empty (jindex ''type'' frame) \<noteq> ''call.joined'' \<or> call_id_of (jindex ''data'' frame) \<noteq> k"
    using assms(2) Some by (simp add: undisturbed_def)
  have u: "route_view k (s\<lparr>so_pending := ps\<rparr>) = route_view k s" for ps by (rule route_view_cong) simp_all
  have v: "route_view k s = (Some r, routed_for k s)" using assms(1) by (simp add: route_view_def)
  show ?thesis
    using Some j c u v by (auto simp: handle_text_def Let_def f route_view_take_reply split: option.split)
next
  case None
  define ty data where "ty = str_or_empty (jindex ''type'' frame)" and "data = jindex ''data'' frame"
  define s1 where "s1 = (if jget ''re'' frame = None then s\<lparr>so_raw := so_raw s @ [(ty, data)]\<rparr> else s)"
  have s1: "so_routes s1 = so_routes s" "so_routed s1 = so_routed s" by (simp_all add: s1_def)
  have v: "route_view k s' = (Some r, routed_for k s)" if "so_routes s' = so_routes s" "so_routed s' = so_routed s" for s'
    using assms(1) that by (simp add: route_view_def routed_for_def)
  have g: "\<not> task_gone r" using assms(2) by (simp add: undisturbed_def)
  show ?thesis
  proof (cases "ty \<noteq> ''ready'' \<and> ty \<noteq> ''channel.call'' \<and> starts_with ty ''call.''")
    case True
    then have h: "snd (handle_text gone task_gone (Some frame) s) =
        (case map_of (so_routes s1) (call_id_of data) of
           Some r' \<Rightarrow> if task_gone r' then s1\<lparr>so_routes := unroute (call_id_of data) (so_routes s1)\<rparr>
                     else send_route r' \<lparr>cf_ty = ty, cf_data = data\<rparr> s1
         | None \<Rightarrow> s1)"
      using None
      by (cases "jget ''re'' frame") (auto simp: handle_text_def Let_def ty_def data_def s1_def split: option.split)
    have f: "frames_for k (Turn now (TextTurn (Some frame) gone task_gone sent) x)
        = (if call_id_of data = k then [\<lparr>cf_ty = ty, cf_data = data\<rparr>] else [])"
      using True None by (simp add: frames_for_def Let_def ty_def data_def)
    show ?thesis
    proof (cases "call_id_of data = k")
      case True
      then show ?thesis using assms(1) g s1 by (simp add: h f route_view_def routed_for_def)
    next
      case False
      then show ?thesis using assms(1) s1
        by (auto simp: h f route_view_def routed_for_def map_of_unroute split: option.split)
    qed
  next
    case False
    have c: "so_routes (case a of None \<Rightarrow> v | Some (c, n, m) \<Rightarrow> v\<lparr>so_events := so_events v @ [ChannelCall c n m]\<rparr>)
        = so_routes v" "so_routed (case a of None \<Rightarrow> v | Some (c, n, m) \<Rightarrow> v\<lparr>so_events := so_events v @ [ChannelCall c n m]\<rparr>)
        = so_routed v" for a and v :: sock by (auto split: option.split)
    have "so_routes (snd (handle_text gone task_gone (Some frame) s)) = so_routes s
        \<and> so_routed (snd (handle_text gone task_gone (Some frame) s)) = so_routed s"
      using False None unfolding ty_def by (auto simp: handle_text_def Let_def c split: prod.split)
    moreover have "frames_for k (Turn now (TextTurn (Some frame) gone task_gone sent) x) = []"
      using False by (auto simp: frames_for_def Let_def ty_def starts_with_def)
    ultimately show ?thesis using v by simp
  qed
qed

lemma route_view_on_text:
  assumes "map_of (so_routes s) k = Some r" "undisturbed k r (Turn now (TextTurn tx gone task_gone sent) x)"
    "ids_fine (so_pending s) (so_next_id s) (so_reauth s)"
  shows "route_view k (snd (on_text now tx gone task_gone sent s))
    = (Some r, routed_for k s @ map (Pair r) (frames_for k (Turn now (TextTurn tx gone task_gone sent) x)))"
proof -
  have u: "route_view k (s'\<lparr>so_auth_rev := a, so_reauth := b\<rparr>) = route_view k s'"
    "route_view k (s'\<lparr>so_ready := c\<rparr>) = route_view k s'"
    "route_view k (snd (reauth_if_rotated now sent s')) = route_view k s'" for s' a b c
    by (rule route_view_cong; simp)+
  have v: "route_view k s = (Some r, routed_for k s)" using assms(1) by (simp add: route_view_def)
  have 1: "route_view k (snd (handle_text gone task_gone tx s))
    = (Some r, routed_for k s @ map (Pair r) (frames_for k (Turn now (TextTurn tx gone task_gone sent) x)))"
  proof (cases tx)
    case None
    then show ?thesis using v by (simp add: handle_text_def frames_for_def)
  next
    case (Some frame)
    then show ?thesis using route_view_handle_text assms(1,2) by simp
  qed
  have 2: "frames_for k (Turn now (TextTurn tx gone task_gone sent) x) = []"
    if "so_reauth s \<noteq> None" "Option.bind tx (jget_str ''re'') = map_option ra_id (so_reauth s)"
  proof (cases tx)
    case (Some frame)
    then have "jget_str ''re'' frame \<noteq> None" using that by auto
    then show ?thesis using Some by (simp add: frames_for_def Let_def)
  qed (simp add: frames_for_def)
  show ?thesis
  proof (cases "so_reauth s \<noteq> None \<and> Option.bind tx (jget_str ''re'') = map_option ra_id (so_reauth s)")
    case True
    then show ?thesis using 2 u v by (auto simp: on_text_def)
  next
    case False
    then show ?thesis using 1 u by (auto simp: on_text_def split_def split: bool.split)
  qed
qed

lemma route_view_next:
  assumes "map_of (so_routes s) k = Some r" "undisturbed k r ev" "books s"
  shows "route_view k (snd (sock_next frame_size ev s)) = (Some r, routed_for k s @ map (Pair r) (frames_for k ev))"
proof -
  have v: "route_view k s' = (Some r, routed_for k s)" if "so_routes s' = so_routes s" "so_routed s' = so_routed s" for s'
    using assms(1) that by (simp add: route_view_def routed_for_def)
  have ended: "route_view k (snd (run_ended e rf (teardown s'))) = route_view k s'" for e rf s'
    by (rule route_view_cong) simp_all
  show ?thesis
  proof (cases ev)
    case (Turn now t refreshed)
    have n: "route_view k (snd (sock_next frame_size ev s)) = route_view k (snd (turn frame_size now t s))"
      using ended by (auto simp: Turn sock_next_def split_def split: option.split)
    show ?thesis
    proof (cases t)
      case (CommandTurn gone sent)
      then show ?thesis unfolding n
        by (intro trans[OF v]) (auto simp: turn_def split_def Turn frames_for_def split: list.split bool.split)
    next
      case (RevisionTurn sent)
      then show ?thesis unfolding n
        by (intro trans[OF v]) (auto simp: turn_def Let_def Turn frames_for_def)
    next
      case (TextTurn tx gone task_gone sent)
      let ?s = "s\<lparr>so_last_frame := now\<rparr>"
      have r: "routed_for k ?s = routed_for k s" by (simp add: routed_for_def)
      have "ids_fine (so_pending ?s) (so_next_id ?s) (so_reauth ?s)" using assms(3) by (simp add: books_def)
      then show ?thesis unfolding n
        using route_view_on_text[of ?s k r now tx gone task_gone sent refreshed] assms(1,2) TextTurn Turn r
        by (simp add: turn_def)
    qed (unfold n, simp_all add: turn_def Let_def Turn frames_for_def v)
  next
    case (Connect now failed refreshed)
    have "so_routes (snd (sock_next frame_size ev s)) = so_routes s
        \<and> so_routed (snd (sock_next frame_size ev s)) = so_routed s"
      by (auto simp: Connect sock_next_def connect_def split_def split: option.split prod.split)
    then show ?thesis using v Connect by (simp add: frames_for_def)
  next
    case (DropRoute k')
    then show ?thesis using assms(1,2)
      by (simp add: sock_next_def route_view_def routed_for_def map_of_unroute undisturbed_def frames_for_def)
  next
    case (Submit x)
    then show ?thesis using v by (simp add: sock_next_def submit_def frames_for_def)
  next
    case TaskStops
    then show ?thesis using v by (simp add: sock_next_def stop_task_def frames_for_def)
  next
    case (CellMoves e r' t)
    then show ?thesis using v by (simp add: sock_next_def frames_for_def)
  next
    case (Publish n)
    then show ?thesis using v by (simp add: sock_next_def frames_for_def)
  qed
qed

lemma route_view_runs:
  assumes "sock_runs frame_size s evs s'" "map_of (so_routes s) k = Some r" "\<forall>ev \<in> set evs. undisturbed k r ev"
    "books s"
  shows "route_view k s' = (Some r, routed_for k s @ map (Pair r) (concat (map (frames_for k) evs)))"
  using assms
proof (induction rule: sock_runs.induct)
  case begins
  then show ?case by (simp add: route_view_def)
next
  case (happens evs s' ev)
  then have "route_view k s' = (Some r, routed_for k s @ map (Pair r) (concat (map (frames_for k) evs)))" "books s'"
    using books_runs by auto
  then show ?case using route_view_next[of s' k r ev] happens by (simp add: route_view_def)
qed

section \<open>Waits\<close>

lemma after_end_bounds:
  assumes "1 \<le> b" "b \<le> 60"
  shows "1 \<le> snd (after_end e r b) \<and> snd (after_end e r b) \<le> 60"
  using assms
  by (auto simp: after_end_def backing_off_def Let_def rate_limit_backoff_def
      split: sum.split run_end.split refresh_outcome.split)

lemma after_end_wait:
  assumes "1 \<le> b" "b \<le> 60" "fst (after_end e r b) = BackOff n"
  shows "1 \<le> n \<and> (if \<exists>x. e = Inr (RunLimited x) then rate_limit_backoff \<le> n \<and> n \<le> 60 else n \<le> 30)"
  using assms
  by (auto simp: after_end_def backing_off_def Let_def rate_limit_backoff_def
      split: sum.splits run_end.splits refresh_outcome.splits if_splits)

lemma after_end_kind:
  "(case fst (after_end e rf b) of
      BackOff n \<Rightarrow> e = Inr (RunClosed True) \<longrightarrow> n = 1
    | AsAsked n \<Rightarrow> rf = Inr (RefreshLimited n) \<and> (\<exists>x. e = Inr (AuthRejected x))
    | AtOnce \<Rightarrow> e = Inr SessionChanged
        \<or> e = Inr (AuthRejected True) \<and> rf \<in> {Inr RefreshCommitted, Inr RefreshDiscarded}
        \<or> (\<exists>x. e = Inr (AuthRejected x)) \<and> rf \<in> {Inr RefreshRejected, Inr NoSession})"
  by (cases e; simp add: after_end_def backing_off_def Let_def split: run_end.split sum.split refresh_outcome.split;
      blast?)

text \<open>What no turn touches, but for the command it takes from the queue.\<close>

definition calm :: "sock \<Rightarrow> nat \<times> bool \<times> (nat \<times> nat \<times> string option) \<times> outgoing_ws list" where
  "calm s = (so_backoff s, so_stopped s, so_cell s, so_queue s)"

lemma calm_update [simp]:
  "calm (s\<lparr>so_next_id := v1\<rparr>) = calm s" "calm (s\<lparr>so_pending := v2\<rparr>) = calm s"
  "calm (s\<lparr>so_skipped := v3\<rparr>) = calm s" "calm (s\<lparr>so_routes := v4\<rparr>) = calm s" "calm (s\<lparr>so_raw := v5\<rparr>) = calm s"
  "calm (s\<lparr>so_events := v6\<rparr>) = calm s" "calm (s\<lparr>so_generation := v7\<rparr>) = calm s" "calm (s\<lparr>so_conn := v8\<rparr>) = calm s"
  "calm (s\<lparr>so_reauth := v9\<rparr>) = calm s" "calm (s\<lparr>so_auth_rev := v10\<rparr>) = calm s" "calm (s\<lparr>so_ready := v11\<rparr>) = calm s"
  "calm (s\<lparr>so_last_frame := v12\<rparr>) = calm s" "calm (s\<lparr>so_unseen := v13\<rparr>) = calm s"
  "calm (s\<lparr>so_answers := v14\<rparr>) = calm s"
  "calm (tell k a s) = calm s" "calm (hand f s) = calm s" "calm (send_route r cf s) = calm s"
  by (simp_all add: calm_def tell_def hand_def send_route_def split: option.split)

lemma calm_write_command: "calm (snd (write_command fs now gone sent x s)) = calm s"
  by (auto simp: write_command_def Let_def split: option.split)

lemma calm_on_text: "calm (snd (on_text now tx gone task_gone sent s)) = calm s"
proof -
  have t: "calm (take_reply gone ty data p s) = calm s" for gone ty data p s
    by (auto simp: take_reply_def Let_def split: option.split)
  have c: "calm (case m of None \<Rightarrow> v | Some r \<Rightarrow> if task_gone r then v\<lparr>so_routes := u\<rparr> else send_route r f v)
      = calm v" for m v u f task_gone by (auto split: option.split)
  have d: "calm (case x of None \<Rightarrow> v | Some (c, k, n) \<Rightarrow> v\<lparr>so_events := so_events v @ [ChannelCall c k n]\<rparr>)
      = calm v" for x and v :: sock by (auto split: option.split)
  have h: "calm (snd (handle_text gone task_gone tx s)) = calm s" for gone task_gone tx s
    by (cases tx) (auto simp: handle_text_def Let_def t c d split: prod.split option.split)
  have "calm (snd (reauth_if_rotated now sent s)) = calm s" for now sent s
    using reauth_if_rotated_cases[of now sent s]
    by (auto simp: send_reauth_def Let_def split: prod.split option.split)
  then show ?thesis by (simp add: on_text_def split_def h split: bool.split)
qed

lemma calm_reauth [simp]: "calm (snd (reauth_if_rotated now sent s)) = calm s"
  using reauth_if_rotated_cases[of now sent s]
  by (auto simp: send_reauth_def Let_def split: prod.split option.split)

lemma turn_calm:
  "calm (snd (turn frame_size now t s)) =
     (case t of CommandTurn _ _ \<Rightarrow> calm (s\<lparr>so_queue := tl (so_queue s)\<rparr>) | _ \<Rightarrow> calm s)"
  by (cases t)
    (auto simp: turn_def Let_def split_def calm_write_command calm_on_text expire_def split: list.split bool.split,
     simp_all add: calm_def)

lemma turn_backoff: "so_backoff (snd (turn frame_size now tn s)) = so_backoff s"
  using turn_calm[of frame_size now tn s] by (cases tn) (simp_all add: calm_def)

lemma turn_stopped: "so_stopped (snd (turn frame_size now tn s)) = so_stopped s"
  using turn_calm[of frame_size now tn s] by (cases tn) (simp_all add: calm_def)

lemma backoff_next:
  assumes "1 \<le> so_backoff s" "so_backoff s \<le> 60"
  shows "1 \<le> so_backoff (snd (sock_next frame_size ev s)) \<and> so_backoff (snd (sock_next frame_size ev s)) \<le> 60"
  using assms after_end_bounds[OF assms]
  by (cases ev)
    (auto simp: sock_next_def split_def turn_backoff connect_def submit_def stop_task_def split: option.split prod.split)

lemma backoff_runs:
  "sock_runs frame_size s evs s' \<Longrightarrow> 1 \<le> so_backoff s \<and> so_backoff s \<le> 60 \<Longrightarrow>
   1 \<le> so_backoff s' \<and> so_backoff s' \<le> 60"
proof (induction rule: sock_runs.induct)
  case (happens evs s ev)
  then show ?case using backoff_next by simp
qed simp

section \<open>After the task\<close>

definition closed_fine :: "sock \<Rightarrow> bool" where
  "closed_fine s \<longleftrightarrow> (so_stopped s \<longrightarrow> so_queue s = [] \<and> \<not> so_running s)"

lemma run_ended_stopped [simp]: "so_stopped (snd (run_ended e r s)) = so_stopped s" "so_stopped (teardown s) = so_stopped s"
  by (auto simp: run_ended_def teardown_def Let_def split: prod.split)

lemma closed_fine_next:
  assumes "closed_fine s" "sock_enabled s ev"
  shows "closed_fine (snd (sock_next frame_size ev s))"
proof (cases "so_stopped s")
  case True
  then show ?thesis using assms
    by (cases ev) (auto simp: sock_enabled_def closed_fine_def sock_next_def submit_def)
next
  case False
  have "\<not> so_stopped (snd (sock_next frame_size ev s))" if "ev \<noteq> TaskStops"
    using False that by (cases ev) (auto simp: sock_next_def split_def turn_stopped submit_def connect_def hand_def
        split: option.split prod.split)
  then show ?thesis by (cases "ev = TaskStops") (auto simp: closed_fine_def sock_next_def stop_task_def)
qed

lemma closed_fine_runs: "sock_runs frame_size s evs s' \<Longrightarrow> closed_fine s \<Longrightarrow> closed_fine s'"
  by (induction rule: sock_runs.induct) (auto intro: closed_fine_next)

section \<open>Ids that are waited for no more\<close>

text \<open>
  \<open>i\<close> was given out on this connection and no command or re-authentication waits for it: on this
  connection none ever will again.
\<close>

definition spent :: "string \<Rightarrow> sock \<Rightarrow> bool" where
  "spent i s \<longleftrightarrow> (\<exists>p. ids_fine ((i, p) # so_pending s) (so_next_id s) (so_reauth s))"

lemma spent_cong:
  "spent i s \<Longrightarrow> so_pending s' = so_pending s \<Longrightarrow> so_next_id s' = so_next_id s \<Longrightarrow> so_reauth s' = so_reauth s \<Longrightarrow> spent i s'"
  unfolding spent_def by simp

lemma spent_out: "spent i s \<Longrightarrow> map_of (so_pending s) i = None \<and> (\<forall>x. so_reauth s = Some x \<longrightarrow> ra_id x \<noteq> i)"
  by (auto simp: spent_def ids_fine_def map_of_eq_None_iff)

lemma spent_mono:
  assumes "spent i s" "so_pending s' = so_pending s" "so_next_id s \<le> so_next_id s'" "so_reauth s' = so_reauth s \<or> so_reauth s' = None"
  shows "spent i s'"
proof -
  obtain p where "ids_fine ((i, p) # so_pending s) (so_next_id s) (so_reauth s)" using assms(1) by (auto simp: spent_def)
  from ids_fine_mono[OF this assms(3)] ids_fine_none[OF ids_fine_mono[OF this assms(3)]] assms(2,4)
  show ?thesis unfolding spent_def by (metis (no_types))
qed

lemma spent_fewer:
  assumes "spent i s" "distinct (map fst ps)" "set ps \<subseteq> set (so_pending s)"
  shows "spent i (s\<lparr>so_pending := ps\<rparr>)"
proof -
  obtain p where f: "ids_fine ((i, p) # so_pending s) (so_next_id s) (so_reauth s)" using assms(1) by (auto simp: spent_def)
  then have "i \<notin> fst ` set ps" using assms(3) unfolding ids_fine_def by auto
  then have "ids_fine ((i, p) # ps) (so_next_id s) (so_reauth s)"
    using assms(2,3) by (intro ids_fine_sub[OF f]) auto
  then show ?thesis unfolding spent_def by auto
qed

lemma spent_write_command:
  assumes "spent i s" "xo_expect x = None \<longleftrightarrow> xo_reply x = None"
  shows "spent i (snd (write_command frame_size now gone sent x s))"
proof -
  obtain p0 where f: "ids_fine ((i, p0) # so_pending s) (so_next_id s) (so_reauth s)" using assms(1) by (auto simp: spent_def)
  let ?i = "frame_id (xo_generation x) (Suc (so_next_id s))"
  have fresh: "?i \<notin> fst ` set (so_pending s)" using ids_fine_fresh(1)[OF f] by auto
  note put = assoc_put_new[OF fresh] and un = unpend_last[OF fresh]
  have none: "map_of (so_pending s) ?i = None" using fresh by (simp add: map_of_eq_None_iff)
  have m: "ids_fine ((i, p0) # so_pending s) (Suc (so_next_id s)) (so_reauth s)" by (rule ids_fine_mono[OF f]) simp
  have q: "ids_fine ((i, p0) # so_pending s @ [(?i, p)]) (Suc (so_next_id s)) (so_reauth s)" for p
    using ids_fine_put[OF f, of "xo_generation x" p] by simp
  have tf: "so_pending (tell k a t) = so_pending t" "so_next_id (tell k a t) = so_next_id t" "so_reauth (tell k a t) = so_reauth t"
    for k a t by (simp_all add: tell_def split: option.split)
  consider "xo_expect x = None" "xo_reply x = None" | e k where "xo_expect x = Some e" "xo_reply x = Some k"
    using assms(2) by (cases "xo_expect x"; cases "xo_reply x") auto
  then show ?thesis
  proof cases
    case 1
    then show ?thesis using f m none by (auto simp: write_command_def Let_def spent_def tf hand_def)
  next
    case 2
    have some: "([?i \<mapsto> p] ++ map_of (so_pending s)) ?i = Some p" for p using none by (simp add: map_add_def)
    show ?thesis using 2 f m q by (auto simp: write_command_def Let_def spent_def tf hand_def put un some)
  qed
qed

lemma spent_reauth: "spent i s \<Longrightarrow> spent i (snd (reauth_if_rotated now sent s))"
proof -
  assume a: "spent i s"
  then obtain p0 where f: "ids_fine ((i, p0) # so_pending s) (so_next_id s) (so_reauth s)" by (auto simp: spent_def)
  have "spent i (snd (send_reauth now sent s))"
    using ids_fine_reauth[OF f] ids_fine_none[OF f] ids_fine_mono[OF f, of "Suc (so_next_id s)"]
    by (auto simp: send_reauth_def Let_def spent_def hand_def split: prod.split option.split)
  then show ?thesis using a reauth_if_rotated_cases[of now sent s] by auto
qed

lemma spent_handle_text:
  assumes "spent i s" "distinct (map fst (so_pending s))"
  shows "spent i (snd (handle_text gone task_gone (Some frame) s))"
proof (cases "jget_str ''re'' frame")
  case None
  have "command_view (snd (handle_text gone task_gone (Some frame) s)) = command_view s" by (rule handle_text_quiet[OF None])
  then show ?thesis by (intro spent_cong[OF assms(1)]) (simp_all add: command_view_def)
next
  case re: (Some re)
  then obtain v where j: "jget ''re'' frame = Some v" by (cases "jget ''re'' frame") (auto simp: jget_str_def)
  have t: "spent i (take_reply gone ty data p t)" if "spent i t" for ty data p t
    by (rule spent_mono[OF that]) (auto simp: take_reply_def Let_def hand_def tell_def send_route_def split: option.split)
  have "spent i (s\<lparr>so_pending := unpend re (so_pending s)\<rparr>)"
    using assms unpend_distinct unpend_in by (intro spent_fewer) auto
  from t[OF this] assms(1) show ?thesis using re j by (auto simp: handle_text_def Let_def split: option.split)
qed

lemma spent_next:
  assumes "spent i s" "books s" "sock_enabled s ev" "\<forall>n f rf. ev \<noteq> Connect n f rf"
  shows "spent i (snd (sock_next frame_size ev s))"
proof (cases ev)
  case (Turn now t refreshed)
  have d: "distinct (map fst (so_pending s))" using assms(2) by (simp add: books_def ids_fine_def)
  have sp: "spent i (snd (turn frame_size now t s))"
  proof (cases t)
    case (RevisionTurn sent)
    have "spent i (s\<lparr>so_unseen := False\<rparr>)" by (rule spent_cong[OF assms(1)]) simp_all
    then show ?thesis using spent_reauth by (simp add: RevisionTurn turn_def Let_def)
  next
    case (CommandTurn gone sent)
    show ?thesis
    proof (cases "so_queue s")
      case Nil
      then show ?thesis using assms(1) CommandTurn by (simp add: turn_def)
    next
      case (Cons x xs)
      have "xo_expect x = None \<longleftrightarrow> xo_reply x = None" using assms(2) Cons by (simp add: books_def queue_ok_def)
      from spent_write_command[OF spent_cong[OF assms(1)] this, of "s\<lparr>so_queue := xs\<rparr>"]
      show ?thesis using Cons CommandTurn by (auto simp: turn_def split_def split: bool.split)
    qed
  next
    case TimerTurn
    have "spent i (expire now s)"
      by (rule spent_cong[OF spent_fewer[OF assms(1), of "filter (\<lambda>(i, p). now < pd_deadline p) (so_pending s)"]])
        (auto simp: expire_def d distinct_map_filter)
    then show ?thesis using TimerTurn assms(1) by (simp add: turn_def)
  next
    case (TextTurn tx gone task_gone sent)
    let ?s = "s\<lparr>so_last_frame := now\<rparr>"
    have s: "spent i ?s" by (rule spent_cong[OF assms(1)]) simp_all
    have h: "spent i (snd (handle_text gone task_gone tx ?s))"
      using spent_handle_text[OF s] d s by (cases tx) (simp_all add: handle_text_def)
    have 1: "spent i (?s\<lparr>so_auth_rev := v, so_reauth := None\<rparr>)" for v by (rule spent_mono[OF s]) simp_all
    have 2: "spent i ((snd (handle_text gone task_gone tx ?s))\<lparr>so_ready := True\<rparr>)" by (rule spent_cong[OF h]) simp_all
    show ?thesis
      using s h spent_reauth[OF 1] spent_reauth[OF 2] TextTurn
      by (auto simp: turn_def on_text_def split_def split: bool.split)
  next
    case OtherTurn
    show ?thesis unfolding OtherTurn by (simp add: turn_def) (rule spent_cong[OF assms(1)]; simp)
  next
    case (CloseTurn frame)
    show ?thesis unfolding CloseTurn by (simp add: turn_def Let_def) (rule spent_cong[OF assms(1)]; simp)
  qed (use assms(1) in \<open>simp_all add: turn_def\<close>)
  then have "spent i ((snd (turn frame_size now t s))\<lparr>so_pending := []\<rparr>)" by (intro spent_fewer) simp_all
  then have "spent i (snd (run_ended e refreshed (teardown (snd (turn frame_size now t s)))))" for e
    by (rule spent_cong) simp_all
  then show ?thesis using sp by (auto simp: Turn sock_next_def split_def split: option.split)
next
  case (Connect n f rf)
  then show ?thesis using assms(4) by blast
next
  case TaskStops
  have "spent i (s\<lparr>so_pending := []\<rparr>)" by (rule spent_fewer[OF assms(1)]) simp_all
  then show ?thesis unfolding TaskStops by (rule spent_cong) (simp_all add: sock_next_def stop_task_def)
qed (rule spent_cong[OF assms(1)]; simp add: sock_next_def submit_def)+

lemma spent_runs:
  assumes "sock_runs frame_size s evs s'" "spent i s" "books s" "\<forall>ev \<in> set evs. \<forall>n f rf. ev \<noteq> Connect n f rf"
  shows "spent i s'"
  using assms
proof (induction rule: sock_runs.induct)
  case (happens evs s' ev)
  then show ?case using books_runs[OF happens(1)] by (intro spent_next) auto
qed

end
