(* ===== verification/Socket_Properties.thy ===== *)
theory Socket_Properties
  imports Socket_Facts
begin

text \<open>
  The properties of the realtime socket: over any sequence of turns, commands, reconnections and
  changes of the session, from a new transport on.
\<close>

section \<open>A socket to look at\<close>

text \<open>A list of events played from a state, where each is enabled; every frame is small.\<close>

fun play_sock :: "sock_event list \<Rightarrow> sock \<Rightarrow> sock option" where
  "play_sock [] s = Some s"
| "play_sock (ev # evs) s =
     (if sock_enabled s ev then play_sock evs (snd (sock_next (\<lambda>_. 0) ev s)) else None)"

lemma sock_runs_then:
  "sock_runs fs t evs' s' \<Longrightarrow> sock_runs fs s evs t \<Longrightarrow> sock_runs fs s (evs @ evs') s'"
proof (induction rule: sock_runs.induct)
  case (happens evs'' s'' ev)
  have "sock_runs fs s ((evs @ evs'') @ [ev]) (snd (sock_next fs ev s''))"
    using happens by (intro sock_runs.happens) auto
  then show ?case by simp
qed simp

lemma play_sock_runs: "play_sock evs s = Some s' \<Longrightarrow> sock_runs (\<lambda>_. 0) s evs s'"
proof (induction evs arbitrary: s)
  case (Cons ev evs)
  then have 1: "sock_runs (\<lambda>_. 0) (snd (sock_next (\<lambda>_. 0) ev s)) evs s'" and e: "sock_enabled s ev"
    by (simp_all split: if_splits)
  have "sock_runs (\<lambda>_. 0) s ([] @ [ev]) (snd (sock_next (\<lambda>_. 0) ev s))"
    by (rule sock_runs.happens[OF sock_runs.begins e])
  then have "sock_runs (\<lambda>_. 0) s (([] @ [ev]) @ evs) s'" by (rule sock_runs_then[OF 1])
  then show ?case by simp
qed (simp add: sock_runs.begins)

text \<open>Signed in, connected and ready.\<close>

definition fine :: "core_error + refresh_outcome" where "fine = Inr RefreshCommitted"

definition reads :: "nat \<Rightarrow> json \<Rightarrow> sock_event" where
  "reads now frame = Turn now (TextTurn (Some frame) (\<lambda>_. False) (\<lambda>_. False) True) fine"

definition ready_frame :: json where "ready_frame = JObj [(''type'', JStr ''ready'')]"

definition going_up :: "sock_event list" where
  "going_up = [CellMoves 1 0 (Some ''t''), Publish 0, Connect 0 None fine, reads 0 ready_frame]"

text \<open>Caller 3 joins call \<open>k\<close>, whose task listens on route 5.\<close>

definition joining :: outgoing_ws where
  "joining = \<lparr>xo_frame = JObj [(''type'', JStr ''call.join'')], xo_expect = Some ''call.joined'', xo_generation = 1,
     xo_reply = Some 3, xo_route = Some 5\<rparr>"

definition join_events :: "sock_event list" where
  "join_events = [Submit joining, Turn 0 (CommandTurn (\<lambda>_. False) (Some True)) fine]"

definition joined_reply :: json where
  "joined_reply = JObj [(''type'', JStr ''call.joined''), (''re'', JStr ''1-1''),
     (''data'', JObj [(''call_id'', JStr ''k'')])]"

definition ended_frame :: json where
  "ended_frame = JObj [(''type'', JStr ''call.ended''), (''data'', JObj [(''call_id'', JStr ''k'')])]"

section \<open>Commands\<close>

text \<open>
  C14. Every command the socket accepted with a caller is accounted for: it
  waits in the queue, it was written and waits for its reply, or it is done with, by one answer or
  by being dropped because its caller had gone; nothing else is ever answered. The ids under which
  the written ones wait are distinct, and none is that of a re-authentication in flight, so a reply
  can only reach the command it answers. With no connection none waits for a reply, though one may
  still be queued, and once its deadline passed a written command waits no longer than the next turn
  of the timer. When the task has ended nothing is queued or waits: every accepted command is done with.
\<close>

theorem commands_answered_once:
  assumes "sock_runs frame_size transport_new evs s"
  shows "mset (so_accepted s) =
      mset (map fst (so_answers s)) + mset (so_skipped s)
      + mset (map (\<lambda>(i, p). pd_reply p) (so_pending s)) + mset (List.map_filter xo_reply (so_queue s))
    \<and> distinct (map fst (so_pending s))
    \<and> (\<forall>r. so_reauth s = Some r \<longrightarrow> ra_id r \<notin> fst ` set (so_pending s))
    \<and> (\<not> so_running s \<longrightarrow> so_pending s = [])
    \<and> (so_stopped s \<longrightarrow> so_queue s = [] \<and> so_pending s = [])
    \<and> (\<forall>now rf. sock_enabled s (Turn now TimerTurn rf) \<longrightarrow>
         (\<forall>(i, p) \<in> set (so_pending (snd (sock_next frame_size (Turn now TimerTurn rf) s))). now < pd_deadline p))"
proof -
  have b: "books s" using books_runs[OF assms] books_start by blast
  have c: "closed_fine s" using closed_fine_runs[OF assms] by (simp add: closed_fine_def transport_new_def)
  have "\<forall>(i, p) \<in> set (so_pending (snd (sock_next frame_size (Turn now TimerTurn rf) s))). now < pd_deadline p"
    for now rf
    by (simp add: sock_next_def turn_def split_def)
  then show ?thesis
    using b c by (auto simp: closed_fine_def books_def waiting_def done_with_def ids_fine_def ac_simps)
qed

definition joined_sock :: sock where
  "joined_sock = (case play_sock (going_up @ join_events) transport_new of Some s \<Rightarrow> s | None \<Rightarrow> transport_new)"

lemmas play_defs = going_up_def join_events_def reads_def fine_def ready_frame_def joining_def joined_reply_def
  ended_frame_def

lemma joined_plays: "play_sock (going_up @ join_events) transport_new = Some joined_sock"
proof -
  have "play_sock (going_up @ join_events) transport_new \<noteq> None" by code_simp
  then show ?thesis by (auto simp: joined_sock_def)
qed

theorem commands_answered_once_witness: "distinct (map fst (so_pending joined_sock))"
  using commands_answered_once[OF play_sock_runs[OF joined_plays]] by blast

text \<open>
  C16. When a join is confirmed to a caller that still waits, the call's task gets
  the confirmation first and then, while it lives and its route stands, every call frame of that
  call the socket reads, in the order it reads them, across any other traffic, and across
  reconnections; and nothing else of that call.
\<close>

theorem call_frames_in_order:
  assumes "sock_runs frame_size transport_new evs0 s0" "so_running s0"
    and "map_of (so_pending s0) re = Some p" "pd_expect p = ''call.joined''" "pd_route p = Some r"
    and "jget_str ''re'' frame = Some re" "str_or_empty (jindex ''type'' frame) = ''call.joined''"
    and "\<not> gone (pd_reply p)"
    and "s1 = snd (sock_next frame_size (Turn now (TextTurn (Some frame) gone task_gone sent) rf) s0)"
    and "data = jindex ''data'' frame" "k = call_id_of data"
    and "sock_runs frame_size s1 evs s" "\<forall>ev \<in> set evs. undisturbed k r ev"
  shows "routed_for k s =
      routed_for k s0 @ map (Pair r) (\<lparr>cf_ty = ''call.joined'', cf_data = data\<rparr> # concat (map (frames_for k) evs))
    \<and> so_answers s1 = so_answers s0 @ [(pd_reply p, Inr \<lparr>cr_ty = ''call.joined'', cr_data = data\<rparr>)]"
proof -
  have b: "books s0" using books_runs[OF assms(1)] books_start by blast
  have i: "re \<in> fst ` set (so_pending s0)" using assms(3) by (metis domI dom_map_of_conv_image_fst)
  have "re \<noteq> ra_id x" if "so_reauth s0 = Some x" for x
    using b i that unfolding books_def ids_fine_def by metis
  then have n: "\<not> (so_reauth s0 \<noteq> None \<and> Some re = map_option ra_id (so_reauth s0))"
    by (cases "so_reauth s0") simp_all
  obtain v where j: "jget ''re'' frame = Some v"
    using assms(6) by (cases "jget ''re'' frame") (auto simp: jget_str_def)
  let ?s = "s0\<lparr>so_last_frame := now\<rparr>"
  have o: "on_text now (Some frame) gone task_gone sent ?s =
      (case handle_text gone task_gone (Some frame) ?s of
         (False, s) \<Rightarrow> (None, s)
       | (True, s) \<Rightarrow> reauth_if_rotated now sent (s\<lparr>so_ready := True\<rparr>))"
    unfolding on_text_def by (rule if_not_P) (use n assms(6) in auto)
  have s1: "so_routed s1 = so_routed s0 @ [(r, \<lparr>cf_ty = ''call.joined'', cf_data = data\<rparr>)]"
    "map_of (so_routes s1) k = Some r"
    "so_answers s1 = so_answers s0 @ [(pd_reply p, Inr \<lparr>cr_ty = ''call.joined'', cr_data = data\<rparr>)]"
    using assms(3-8,10,11) j
    by (simp_all add: assms(9) sock_next_def turn_def o handle_text_def Let_def take_reply_def
        reply_result_def map_of_assoc_put)
  have "sock_enabled s0 (Turn now (TextTurn (Some frame) gone task_gone sent) rf)"
    using assms(2) by (simp add: sock_enabled_def)
  then have "books s1" unfolding assms(9) by (rule books_next[OF b])
  then have "routed_for k s = routed_for k s1 @ map (Pair r) (concat (map (frames_for k) evs))"
    using route_view_runs[OF assms(12) s1(2) assms(13)] by (simp add: route_view_def)
  then show ?thesis using s1 assms(11) by (simp add: routed_for_def)
qed

theorem call_frames_in_order_witness:
  "(let s1 = snd (sock_next (\<lambda>_. 0) (reads 1 joined_reply) joined_sock);
        s = snd (sock_next (\<lambda>_. 0) (reads 2 ended_frame) s1)
    in map fst (routed_for ''k'' s) = [5, 5])"
proof -
  let ?s1 = "snd (sock_next (\<lambda>_. 0) (reads 1 joined_reply) joined_sock)"
  have p: "map_of (so_pending joined_sock) ''1-1'' =
      Some \<lparr>pd_expect = ''call.joined'', pd_reply = 3, pd_route = Some 5, pd_deadline = 10\<rparr>"
    "so_running joined_sock" "routed_for ''k'' joined_sock = []" "so_running ?s1"
    by code_simp+
  have "sock_runs (\<lambda>_. 0) ?s1 ([] @ [reads 2 ended_frame]) (snd (sock_next (\<lambda>_. 0) (reads 2 ended_frame) ?s1))"
    by (rule sock_runs.happens[OF sock_runs.begins]) (use p(4) in \<open>simp add: reads_def sock_enabled_def\<close>)
  then have "routed_for ''k'' (snd (sock_next (\<lambda>_. 0) (reads 2 ended_frame) ?s1)) =
      routed_for ''k'' joined_sock @ map (Pair 5)
        (\<lparr>cf_ty = ''call.joined'', cf_data = jindex ''data'' joined_reply\<rparr>
         # concat (map (frames_for ''k'') ([] @ [reads 2 ended_frame])))"
    by (intro call_frames_in_order[OF play_sock_runs[OF joined_plays] p(2) p(1),
          where frame = joined_reply and gone = "\<lambda>_. False" and task_gone = "\<lambda>_. False" and now = 1
            and sent = True and rf = fine and k = "''k''" and data = "jindex ''data'' joined_reply"
            and ?s1.0 = ?s1, THEN conjunct1])
      (simp_all add: reads_def joined_reply_def ended_frame_def jget_str_def jindex_def str_or_empty_def
        call_id_of_def undisturbed_def)
  then show ?thesis
    using p(3)
    by (simp add: reads_def ended_frame_def frames_for_def Let_def jget_str_def jindex_def str_or_empty_def
        call_id_of_def starts_with_def)
qed

text \<open>
  A command that is still queued when its connection ends is neither
  answered nor dropped then: whoever waits for it goes on waiting, and when nobody is signed in, for
  as long as nobody signs in, whatever else happens to the socket but the end of the task.
\<close>

definition stays_offline :: "sock_event \<Rightarrow> bool" where
  "stays_offline ev = (case ev of CellMoves _ _ t \<Rightarrow> t = None | TaskStops \<Rightarrow> False | _ \<Rightarrow> True)"

lemma offline_next:
  assumes "\<not> so_running s" "\<not> cn_ready (so_conn s)" "snd (snd (so_cell s)) = None" "sock_enabled s ev" "stays_offline ev"
  shows "so_queue (snd (sock_next frame_size ev s)) = so_queue s
    \<and> so_answers (snd (sock_next frame_size ev s)) = so_answers s \<and> so_skipped (snd (sock_next frame_size ev s)) = so_skipped s
    \<and> \<not> so_running (snd (sock_next frame_size ev s)) \<and> \<not> cn_ready (so_conn (snd (sock_next frame_size ev s)))
    \<and> snd (snd (so_cell (snd (sock_next frame_size ev s)))) = None"
  using assms
  by (cases ev) (auto simp: sock_enabled_def stays_offline_def sock_next_def connect_def submit_def split: prod.split)

lemma queued_command_waits_offline:
  assumes "so_running s0" "x \<in> set (so_queue s0)" "snd (snd (so_cell s0)) = None"
    and "fst (turn frame_size now t s0) = Some e" "\<forall>g sent. t \<noteq> CommandTurn g sent"
    and "s1 = snd (sock_next frame_size (Turn now t rf) s0)"
    and "sock_runs frame_size s1 evs s" "\<forall>ev \<in> set evs. stays_offline ev"
  shows "x \<in> set (so_queue s) \<and> so_answers s = so_answers s1 \<and> so_skipped s = so_skipped s1
    \<and> \<not> so_running s \<and> \<not> cn_ready (so_conn s)"
proof -
  have "calm (snd (turn frame_size now t s0)) = calm s0" using turn_calm[of frame_size now t s0] assms(5) by (cases t) simp_all
  then have q: "so_queue (snd (turn frame_size now t s0)) = so_queue s0" "so_cell (snd (turn frame_size now t s0)) = so_cell s0"
    by (simp_all add: calm_def)
  have s1: "s1 = snd (run_ended e rf (teardown (snd (turn frame_size now t s0))))"
    using assms(4) by (auto simp: assms(6) sock_next_def split_def split: option.split)
  have "x \<in> set (so_queue s) \<and> so_answers s = so_answers s1 \<and> so_skipped s = so_skipped s1
      \<and> \<not> so_running s \<and> \<not> cn_ready (so_conn s) \<and> snd (snd (so_cell s)) = None"
    using assms(7,8)
  proof (induction rule: sock_runs.induct)
    case begins
    then show ?case using q assms(2,3) by (simp add: s1)
  next
    case (happens evs s ev)
    then show ?case using offline_next[of s ev frame_size] by simp
  qed
  then show ?thesis by simp
qed

definition queued_sock :: sock where
  "queued_sock = (case play_sock (going_up @ [Submit joining, CellMoves 2 0 None, Publish 0]) transport_new of
     Some s \<Rightarrow> s | None \<Rightarrow> transport_new)"

lemma queued_command_waits_offline_witness:
  "joining \<in> set (so_queue (snd (sock_next (\<lambda>_. 0) (Connect 5 None fine)
     (snd (sock_next (\<lambda>_. 0) (Turn 1 (RevisionTurn True) fine) queued_sock)))))"
proof -
  let ?s1 = "snd (sock_next (\<lambda>_. 0) (Turn 1 (RevisionTurn True) fine) queued_sock)"
  have c: "so_running queued_sock" "so_queue queued_sock = [joining]" "snd (snd (so_cell queued_sock)) = None"
    "fst (turn (\<lambda>_. 0) 1 (RevisionTurn True) queued_sock) = Some (Inr SessionChanged)" "\<not> so_running ?s1" "\<not> so_stopped ?s1"
    by code_simp+
  have m: "joining \<in> set (so_queue queued_sock)" by (simp add: c(2))
  have "sock_runs (\<lambda>_. 0) ?s1 ([] @ [Connect 5 None fine]) (snd (sock_next (\<lambda>_. 0) (Connect 5 None fine) ?s1))"
    by (rule sock_runs.happens[OF sock_runs.begins]) (use c(5,6) in \<open>simp add: sock_enabled_def\<close>)
  from queued_command_waits_offline[OF c(1) m c(3,4) _ refl this]
  show ?thesis by (simp add: stays_offline_def)
qed

lemma reply_passes:
  assumes "jget_str ''re'' frame = Some i" "map_option ra_id (so_reauth s) \<noteq> Some i"
  shows "on_text now (Some frame) gone task_gone sent s =
      (case handle_text gone task_gone (Some frame) s of
         (False, s) \<Rightarrow> (None, s)
       | (True, s) \<Rightarrow> reauth_if_rotated now sent (s\<lparr>so_ready := True\<rparr>))"
  unfolding on_text_def by (rule if_not_P) (use assms in auto)

text \<open>
  C18. A join that takes the server longer than the reply timeout leaves a
  participant behind. The caller is told of the timeout and the command is forgotten; when the
  server's confirmation comes after all, whatever happened in between on that connection, it is
  dropped as the reply to an unknown command: nothing changes but the time of the last frame, and in
  particular no \<open>call.leave\<close> is written, so the user stays in the call on the server with nobody to
  take part. A caller that gave up by itself before the confirmation has the call left for it at once.
\<close>

theorem late_join_is_left_behind:
  assumes "sock_runs frame_size transport_new evs0 s0" "so_running s0"
    and "map_of (so_pending s0) i = Some p" "pd_expect p = ''call.joined''" "pd_deadline p \<le> now"
    and "\<forall>r. so_reauth s0 = Some r \<longrightarrow> now < ra_deadline r"
    and "s1 = snd (sock_next frame_size (Turn now TimerTurn rf) s0)"
    and "sock_runs frame_size s1 evs s" "\<forall>ev \<in> set evs. \<forall>n f rf. ev \<noteq> Connect n f rf"
    and "jget_str ''re'' frame = Some i" "str_or_empty (jindex ''type'' frame) = ''call.joined''"
  shows "(pd_reply p, Inl CmdTimeout) \<in> set (so_answers s1) \<and> so_running s1
    \<and> sock_next frame_size (Turn now' (TextTurn (Some frame) gone task_gone sent) rf') s = (None, s\<lparr>so_last_frame := now'\<rparr>)
    \<and> (gone (pd_reply p) \<longrightarrow>
         so_written (snd (sock_next frame_size (Turn now' (TextTurn (Some frame) gone task_gone sent) rf') s0)) =
           so_written s0 @ [leave_frame (frame_id (so_generation s0) (so_next_id s0 + 1)) (call_id_of (jindex ''data'' frame))])"
proof -
  have b: "books s0" using books_runs[OF assms(1)] books_start by blast
  have s1: "s1 = expire now s0"
    using assms(6) by (auto simp: assms(7) sock_next_def turn_def split: option.split)
  have b1: "books s1"
    unfolding assms(7) by (rule books_next[OF b]) (simp add: sock_enabled_def assms(2))
  have ip: "(i, p) \<in> set (so_pending s0)" using assms(3) by (rule map_of_SomeD)
  have f: "ids_fine (so_pending s0) (so_next_id s0) (so_reauth s0)" using b by (simp add: books_def)
  let ?ps = "filter (\<lambda>(i, p). now < pd_deadline p) (so_pending s0)"
  have "distinct (map fst ((i, p) # ?ps))"
  proof -
    have "q = p" if "(i, q) \<in> set (so_pending s0)" for q
      using f that assms(3) by (simp add: ids_fine_def)
    then have "i \<notin> fst ` set ?ps" using assms(5) by auto
    then show ?thesis using f by (simp add: ids_fine_def distinct_map_filter)
  qed
  moreover have "fst ` set ((i, p) # ?ps) \<subseteq> fst ` set (so_pending s0)" using ip by force
  ultimately have "ids_fine ((i, p) # ?ps) (so_next_id s0) (so_reauth s0)" by (rule ids_fine_sub[OF f])
  then have "spent i s1" unfolding spent_def s1 by (auto simp: expire_def)
  then have sp: "spent i s" by (rule spent_runs[OF assms(8) _ b1 assms(9)])
  then have n: "map_of (so_pending s) i = None" using spent_out[OF sp] by auto
  obtain v where j: "jget ''re'' frame = Some v" using assms(10) by (cases "jget ''re'' frame") (auto simp: jget_str_def)
  have late: "turn frame_size now' (TextTurn (Some frame) gone task_gone sent) s = (None, s\<lparr>so_last_frame := now'\<rparr>)"
  proof -
    let ?s = "s\<lparr>so_last_frame := now'\<rparr>"
    have "map_option ra_id (so_reauth ?s) \<noteq> Some i" using spent_out[OF sp] by auto
    then show ?thesis using n assms(10) j by (simp add: turn_def reply_passes handle_text_def Let_def)
  qed
  have n0: "map_option ra_id (so_reauth s0) \<noteq> Some i" using f ip by (force simp: ids_fine_def)
  have "so_written (snd (sock_next frame_size (Turn now' (TextTurn (Some frame) gone task_gone sent) rf') s0)) =
      so_written s0 @ [leave_frame (frame_id (so_generation s0) (so_next_id s0 + 1)) (call_id_of (jindex ''data'' frame))]"
    if "gone (pd_reply p)"
    using n0 assms(3,4,10,11) j that
    by (simp add: sock_next_def turn_def reply_passes handle_text_def Let_def take_reply_def reply_result_def hand_def)
  moreover have "(pd_reply p, Inl CmdTimeout) \<in> set (so_answers s1)" using ip assms(5) by (force simp: s1 expire_def)
  moreover have "so_running s1" using assms(2) by (simp add: s1 expire_def)
  ultimately show ?thesis using late by (simp add: sock_next_def)
qed

theorem late_join_is_left_behind_witness:
  "sock_next (\<lambda>_. 0) (reads 11 joined_reply) (snd (sock_next (\<lambda>_. 0) (Turn 10 TimerTurn fine) joined_sock)) =
     (None, (snd (sock_next (\<lambda>_. 0) (Turn 10 TimerTurn fine) joined_sock))\<lparr>so_last_frame := 11\<rparr>)"
proof -
  have p: "map_of (so_pending joined_sock) ''1-1'' =
      Some \<lparr>pd_expect = ''call.joined'', pd_reply = 3, pd_route = Some 5, pd_deadline = 10\<rparr>"
    "so_running joined_sock" "so_reauth joined_sock = None"
    "jget_str ''re'' joined_reply = Some ''1-1''" "str_or_empty (jindex ''type'' joined_reply) = ''call.joined''"
    by code_simp+
  show ?thesis unfolding reads_def
    by (rule late_join_is_left_behind[OF play_sock_runs[OF joined_plays] p(2) p(1) _ _ _ refl sock_runs.begins _ p(4,5),
        THEN conjunct2, THEN conjunct2, THEN conjunct1]) (simp_all add: p(3))
qed

section \<open>Credentials\<close>

text \<open>
  C15. However the tokens rotate while the socket connects, becomes ready or
  waits for an earlier re-authentication, no rotation is lost: as long as the session's revisions
  reach its watch in the order they were made, a ready socket that has nothing new to look at and
  no re-authentication in flight is on the session as it is, the same sign-in with its current
  credentials. In particular it never outlives a sign-out it has been told of.
\<close>

theorem rotation_reaches_socket:
  assumes "sock_runs frame_size transport_new evs s" "\<forall>ev \<in> set evs. in_order ev"
    and "so_running s" "so_ready s" "so_reauth s = None" "\<not> so_unseen s" "so_unsent s = []"
  shows "\<exists>token. so_cell s = (so_epoch s, so_auth_rev s, Some token)"
proof -
  have c: "on_credentials s" using on_credentials_runs[OF assms(1) on_credentials_start assms(2)] .
  then have w: "so_watch s = cell_rev s" using assms(7) by (simp add: on_credentials_def newest_def)
  then have e: "fst (so_cell s) = so_epoch s"
    using c assms(3,6,7) by (auto simp: on_credentials_def cell_rev_def)
  then have "snd (snd (so_cell s)) \<noteq> None" "fst (snd (so_cell s)) = so_auth_rev s"
    using c assms(3-6) w by (auto simp: on_credentials_def cell_rev_def)
  then show ?thesis using e by (cases "so_cell s") auto
qed

text \<open>A rotation before \<open>ready\<close>, and the answer to the re-authentication it caused.\<close>

definition reauthed :: "sock_event list" where
  "reauthed = [CellMoves 1 0 (Some ''t''), Publish 0, Connect 0 None fine, CellMoves 1 1 (Some ''u''), Publish 0,
     reads 1 ready_frame, Turn 1 (RevisionTurn True) fine,
     reads 2 (JObj [(''type'', JStr ''ready''), (''re'', JStr ''1-1'')])]"

theorem rotation_reaches_socket_witness:
  "(case play_sock reauthed transport_new of
      Some s \<Rightarrow> \<exists>token. so_cell s = (so_epoch s, so_auth_rev s, Some token) | None \<Rightarrow> False)"
proof (cases "play_sock reauthed transport_new")
  case None
  moreover have "play_sock reauthed transport_new \<noteq> None" by code_simp
  ultimately show ?thesis by simp
next
  case (Some s)
  have "case play_sock reauthed transport_new of Some s \<Rightarrow>
      so_running s \<and> so_ready s \<and> so_reauth s = None \<and> \<not> so_unseen s \<and> so_unsent s = [] | None \<Rightarrow> False"
    by code_simp
  then show ?thesis
    using rotation_reaches_socket[OF play_sock_runs[OF Some]] Some
    by (simp add: reauthed_def reads_def in_order_def)
qed

text \<open>
  C19. The store sends a revision on its watch after it let go of the cell,
  so two operations on different threads may send theirs in the other order. When a sign-out
  overtakes a token refresh that committed just before it, the refresh's revision is the last the
  watch shows: the socket finds its own epoch there and stays connected and ready after the
  sign-out, with nothing left to tell it of it, and goes on publishing what the server sends the
  signed-out user. In the order the operations were made the same events end the connection.
\<close>

theorem late_revision_keeps_socket:
  assumes "so_running s0" "so_ready s0" "so_reauth s0 = None" "so_unsent s0 = []"
    and "so_cell s0 = (so_epoch s0, r, Some token)" "r < r'" "r' \<noteq> so_auth_rev s0" "so_epoch s0 < e"
  shows "(\<exists>s. sock_runs frame_size s0
         [CellMoves (so_epoch s0) r' (Some token'), CellMoves e v None, Publish 1, Publish 0, Turn now (RevisionTurn sent) rf] s
      \<and> so_running s \<and> so_ready s \<and> so_conn s = so_conn s0 \<and> so_cell s = (e, v, None) \<and> \<not> so_unseen s \<and> so_unsent s = []
      \<and> (\<forall>frame ev now' gone task_gone sent'.
           jget ''re'' frame = None \<and> parse_typing (jindex ''data'' frame) = Some ev \<and> jget_str ''type'' frame = Some ''typing'' \<longrightarrow>
           (let s' = snd (sock_next frame_size (Turn now' (TextTurn (Some frame) gone task_gone sent') rf) s)
            in so_events s' = so_events s @ [case ev of (c, u, n) \<Rightarrow> Typing c u n] \<and> so_running s' \<and> so_conn s' = so_conn s0)))
    \<and> (\<exists>s. sock_runs frame_size s0
         [CellMoves (so_epoch s0) r' (Some token'), CellMoves e v None, Publish 0, Publish 0, Turn now (RevisionTurn sent) rf] s
      \<and> \<not> so_running s \<and> \<not> cn_ready (so_conn s))"
proof -
  note e = sock_runs.happens[OF sock_runs.begins, unfolded append_Nil]
  let ?n = "\<lambda>ev s. snd (sock_next frame_size ev s)"
  define a where "a = s0\<lparr>so_cell := (e, v, None), so_unsent := [(so_epoch s0, r'), (e, v)]\<rparr>"
  have "sock_runs frame_size s0 ([CellMoves (so_epoch s0) r' (Some token')] @ [CellMoves e v None]) a"
    by (rule sock_runs.happens[OF e, THEN back_subst[of "sock_runs frame_size s0 _"]])
      (use assms in \<open>simp_all add: sock_enabled_def sock_next_def a_def\<close>)
  then have ra: "sock_runs frame_size s0 [CellMoves (so_epoch s0) r' (Some token'), CellMoves e v None] a" by simp
  define b where "b = a\<lparr>so_unsent := [], so_watch := (so_epoch s0, r'), so_unseen := True\<rparr>"
  define c where "c = a\<lparr>so_unsent := [], so_watch := (e, v), so_unseen := True\<rparr>"
  have rb: "sock_runs frame_size s0 (([CellMoves (so_epoch s0) r' (Some token'), CellMoves e v None] @ [Publish 1]) @ [Publish 0]) b"
    by (rule sock_runs.happens[OF sock_runs.happens[OF ra], THEN back_subst[of "sock_runs frame_size s0 _"]])
      (simp_all add: sock_enabled_def sock_next_def a_def b_def)
  have rc: "sock_runs frame_size s0 (([CellMoves (so_epoch s0) r' (Some token'), CellMoves e v None] @ [Publish 0]) @ [Publish 0]) c"
    by (rule sock_runs.happens[OF sock_runs.happens[OF ra], THEN back_subst[of "sock_runs frame_size s0 _"]])
      (simp_all add: sock_enabled_def sock_next_def a_def c_def)
  have d: "sock_next frame_size (Turn now (RevisionTurn sent) rf) b = (None, b\<lparr>so_unseen := False\<rparr>)"
    using assms(2,3,7) by (simp add: sock_next_def turn_def reauth_if_rotated_def send_reauth_def b_def a_def)
  have f: "\<not> so_running (?n (Turn now (RevisionTurn sent) rf) c) \<and> \<not> cn_ready (so_conn (?n (Turn now (RevisionTurn sent) rf) c))"
    using assms(8) by (simp add: sock_next_def turn_def split_def c_def a_def)
  have 1: "sock_runs frame_size s0
      [CellMoves (so_epoch s0) r' (Some token'), CellMoves e v None, Publish 1, Publish 0, Turn now (RevisionTurn sent) rf]
      (b\<lparr>so_unseen := False\<rparr>)"
    using sock_runs.happens[OF rb, of "Turn now (RevisionTurn sent) rf"] d assms(1) by (simp add: sock_enabled_def b_def a_def)
  have 2: "sock_runs frame_size s0
      [CellMoves (so_epoch s0) r' (Some token'), CellMoves e v None, Publish 0, Publish 0, Turn now (RevisionTurn sent) rf]
      (?n (Turn now (RevisionTurn sent) rf) c)"
    using sock_runs.happens[OF rc, of "Turn now (RevisionTurn sent) rf"] assms(1) by (simp add: sock_enabled_def c_def a_def)
  have 3: "so_events s' = so_events s @ [case ev of (c, u, n) \<Rightarrow> Typing c u n] \<and> so_running s' \<and> so_conn s' = so_conn s"
    if "s' = ?n (Turn now' (TextTurn (Some frame) gone task_gone sent') rf) s" "so_running s" "so_reauth s = None"
      "jget ''re'' frame = None" "parse_typing (jindex ''data'' frame) = Some ev" "jget_str ''type'' frame = Some ''typing''"
    for s s' frame ev now' gone task_gone sent'
  proof -
    have "str_or_empty (jindex ''type'' frame) = ''typing''" using that(6)
      by (cases "jget ''type'' frame") (auto simp: jget_str_def jindex_def str_or_empty_def split: option.splits json.splits)
    moreover have "jget_str ''re'' frame = None" using that(4) by (simp add: jget_str_def)
    ultimately show ?thesis using that
      by (cases ev) (simp add: sock_next_def turn_def on_text_def handle_text_def Let_def dispatch_def starts_with_def)
  qed
  show ?thesis
    using 1 2 3[OF refl, of "b\<lparr>so_unseen := False\<rparr>"] f assms(1-3)
    by (intro conjI exI[of _ "b\<lparr>so_unseen := False\<rparr>"] exI[of _ "?n (Turn now (RevisionTurn sent) rf) c"])
      (simp_all add: b_def a_def Let_def)
qed

definition up_sock :: sock where
  "up_sock = (case play_sock going_up transport_new of Some s \<Rightarrow> s | None \<Rightarrow> transport_new)"

theorem late_revision_keeps_socket_witness:
  "\<exists>s. sock_runs (\<lambda>_. 0) up_sock
      [CellMoves 1 1 (Some ''u''), CellMoves 2 0 None, Publish 1, Publish 0, Turn 2 (RevisionTurn True) fine] s
    \<and> so_running s \<and> so_cell s = (2, 0, None)"
proof -
  have c: "so_running up_sock" "so_ready up_sock" "so_reauth up_sock = None" "so_unsent up_sock = []"
    "so_cell up_sock = (1, 0, Some ''t'')" "so_epoch up_sock = 1" "so_auth_rev up_sock = 0"
    by code_simp+
  have "so_cell up_sock = (so_epoch up_sock, 0, Some ''t'')" by (simp add: c(5,6))
  from late_revision_keeps_socket[OF c(1-4) this, of 1 2 "\<lambda>_. 0" "''u''" 0 2 True fine]
  show ?thesis unfolding c(6,7) by fastforce
qed

section \<open>Reconnecting\<close>

definition end_of :: "(json \<Rightarrow> nat) \<Rightarrow> sock_event \<Rightarrow> sock \<Rightarrow> (run_result \<times> (core_error + refresh_outcome)) option" where
  "end_of frame_size ev s =
     (case ev of
        Turn now t rf \<Rightarrow> map_option (\<lambda>e. (e, rf)) (fst (turn frame_size now t s))
      | Connect _ failed rf \<Rightarrow>
          (if snd (snd (so_cell s)) = None then None else map_option (\<lambda>e. (Inl e, rf)) failed)
      | _ \<Rightarrow> None)"

text \<open>
  C17. However often the connection ends, and however, the socket comes back at
  once only to a changed session, to fresh credentials after a connection that had been up, or to
  no session at all; else it waits what a refresh was told to wait, or backs off: at least a second,
  at most 30, but from 5 to 60 seconds after the server closed for rate limiting, and exactly one
  second after a connection that had been ready.
\<close>

theorem reconnects_are_paced:
  assumes "sock_runs frame_size transport_new evs s" "end_of frame_size ev s = Some (e, rf)"
  shows "\<exists>p. fst (sock_next frame_size ev s) = Some p
    \<and> (case p of
         BackOff n \<Rightarrow> 1 \<le> n \<and> (if \<exists>x. e = Inr (RunLimited x) then 5 \<le> n \<and> n \<le> 60 else n \<le> 30)
                      \<and> (e = Inr (RunClosed True) \<longrightarrow> n = 1)
       | AsAsked n \<Rightarrow> rf = Inr (RefreshLimited n) \<and> (\<exists>x. e = Inr (AuthRejected x))
       | AtOnce \<Rightarrow> e = Inr SessionChanged
           \<or> e = Inr (AuthRejected True) \<and> rf \<in> {Inr RefreshCommitted, Inr RefreshDiscarded}
           \<or> (\<exists>x. e = Inr (AuthRejected x)) \<and> rf \<in> {Inr RefreshRejected, Inr NoSession})"
proof -
  have b0: "1 \<le> so_backoff s" "so_backoff s \<le> 60"
    using backoff_runs[OF assms(1)] by (simp_all add: transport_new_def)
  have bk: "so_backoff (snd (turn frame_size now t s)) = so_backoff s" for now t
    by (rule turn_backoff)
  have p: "\<exists>n. fst (sock_next frame_size ev s) = Some (fst (after_end e rf (so_backoff s)))"
    using assms(2) bk
    by (auto simp: end_of_def sock_next_def connect_def split_def split: sock_event.splits option.splits if_splits)
  have w: "\<And>n. fst (after_end e rf (so_backoff s)) = BackOff n \<Longrightarrow> 1 \<le> n
      \<and> (if \<exists>x. e = Inr (RunLimited x) then 5 \<le> n \<and> n \<le> 60 else n \<le> 30)"
    by (rule after_end_wait[OF b0, unfolded rate_limit_backoff_def])
  show ?thesis
    using p w after_end_kind[of e rf "so_backoff s"]
    by (cases "fst (after_end e rf (so_backoff s))") simp_all
qed

theorem reconnects_are_paced_witness:
  "\<exists>p. fst (sock_next (\<lambda>_. 0) (Turn 1 EndTurn fine) joined_sock) = Some p"
proof -
  have "end_of (\<lambda>_. 0) (Turn 1 EndTurn fine) joined_sock = Some (Inr (RunClosed (so_ready joined_sock)), fine)"
    by (simp add: end_of_def turn_def)
  from reconnects_are_paced[OF play_sock_runs[OF joined_plays] this] show ?thesis
    by (elim exE conjE) (rule exI)
qed

end
