(* ===== verification/Spec2Isabelle.thy ===== *)
theory Spec2Isabelle
  imports Sync_Properties Cache_Properties Transfer_Properties File_Properties Outbox_Properties Call_Properties Session_Properties Socket_Properties
begin

text \<open>
  \<^bold>\<open>Brook's client core.\<close> Brook is a chat and calls server with native clients; all clients
  share one Rust library, \<open>src/core\<close>. This development models that library's logic: the offline
  cache and its synchronisation, the outbox, file transfers, the cache of files, calls, the session with
  its stored copy, and the realtime socket. Each theory names the source file it translates; the definitions keep the
  source's names and order.

  \<^bold>\<open>How the parts interact.\<close> The facade (\<open>client.rs\<close>) owns a session store, one socket task, one
  cache and one outbox per signed-in user. The socket (\<open>ws.rs\<close>) authenticates with the session's
  token, publishes events, and carries the commands of the calls (\<open>call.rs\<close>). Every raw event reaches
  the cache (\<open>cache.rs\<close>), which merges it (\<open>apply.rs\<close>) or asks for a sync (\<open>sync.rs\<close>); pages of
  history extend what the cache knows to be complete (\<open>coverage.rs\<close>). The outbox (\<open>outbox.rs\<close>) sends
  queued messages one by one, uploads their files first (\<open>transfer.rs\<close>), and hands the server's answer
  to the cache before it drops the row; its attachments lie sealed on disk until then (\<open>snapshot.rs\<close>), and so
  do the files kept for offline use (\<open>files.rs\<close>), whose rows go with the messages that list them. The session store (\<open>session_store.rs\<close>, \<open>persist.rs\<close>) says who is
  signed in; a revision of it ends a connection, a sync or a send that belongs to somebody else.

  \<^bold>\<open>Vocabulary.\<close>
  \<^item> \<open>Brook_Prelude\<close>: strings as UTF-8 bytes (a \<open>char\<close> is a byte), tables as lists of rows with what the
    SQL statements do to them (\<open>sel\<close>, \<open>upsert\<close>, keyed deletes), the collection \<open>row_simps\<close>, and the
    locale \<open>seq_guard\<close> for rows that only a newer version replaces.
  \<^item> \<open>Json_Value\<close>: \<open>serde_json::Value\<close>, the accessors and the field readers of the derived parsers, and
    SQLite's JSON functions at the paths that occur.
  \<^item> \<open>Core_Types\<close>, \<open>Chat_Wire\<close>: errors (\<open>error.rs\<close>), sessions, sign-in states, channels and messages with
    their rules, their parsers and printers (\<open>chat.rs\<close>, \<open>session.rs\<close>, \<open>state.rs\<close>).

  \<^bold>\<open>The cache.\<close>
  \<^item> \<open>Cache_Tables\<close>, \<open>File_Rows\<close>, \<open>Apply\<close>: the tables of \<open>cache.db\<close>, the index of cached files, and
    \<open>apply\<close>, statement by statement; \<open>apply_batch\<close> is one transaction. \<open>Apply_Facts\<close> interprets the guard
    for channels, members and messages and frames every step; \<open>Apply_Invariants\<close> has the keys, the removal
    fences and the versions; \<open>Apply_Content\<close> the quotes of deleted messages and the owners of files;
    \<open>Apply_Replay\<close> the replay of a page.
  \<^item> \<open>Coverage\<close>: the range per channel the cache claims to hold. \<open>Cache_Front\<close> and
    \<open>Cache_Front_Facts\<close>: what the apps call (reads, history pages, live events, acknowledgements); the
    claim that a range has no gap is stated against the server's history, an argument.
  \<^item> \<open>Sync_Loop\<close>: the parse of a page and of an event, and the loop over pages, driven by a script of
    answers and of what other tasks do in between; a run refines a walk over the server's pages, each
    the answer to the \<open>next\<close> of the one before and committed whole and once.
  \<^item> \<open>Cache_Syncing\<close>: one run, its notices, resets and retries. \<open>Single_Flight\<close>: any number of concurrent
    callers of \<open>sync_now\<close>, and \<open>close\<close> with the tasks it aborts, as a step relation.
  \<^item> \<open>Sidebar_Order\<close>: labels and the order of the conversations, a locale of comparisons.

  \<^bold>\<open>Transfers and the outbox.\<close>
  \<^item> \<open>Uploads\<close>, \<open>Download\<close>, \<open>Transfer_Facts\<close>: the upload and download loops over a script of answers; the
    download's sink is a locale, interpreted by the file sink. Digests are an argument.
  \<^item> \<open>Outbox_Tables\<close>, \<open>Outbox_Calls\<close>, \<open>Outbox_Sender\<close>: the tables, what the apps call, and one attempt of the
    sender with every outcome. \<open>Outbox_Facts\<close>, \<open>Outbox_Kept\<close>, \<open>Outbox_Delivery\<close> and \<open>Outbox_Order\<close> show, by a
    relation between the states before and after that composes, that no row is lost or overtaken.

  \<^bold>\<open>Files on disk.\<close>
  \<^item> \<open>Snapshot\<close>, \<open>Snapshot_Facts\<close>: the layout of a sealed file, its writer, the sealer of a download, the check
    and the decrypting reader; the writer and the sealer make the same file (\<open>sealed_file\<close>), which is exactly
    what the check takes and the reader gives back. The cipher is a parameter with two laws (\<open>tidy\<close>).
  \<^item> \<open>File_Cache\<close>, \<open>File_Cache_Facts\<close>, \<open>File_Kept\<close>: rows and blobs, pins, eviction, the sink a download
    writes through, the journal and its sweep, and the reopening after a crash, as events in any order. The
    invariant \<open>files_fit\<close> says what a row's blob holds; a blob is an inode, durable or not, so that what
    a crash may take is explicit.

  \<^bold>\<open>Calls.\<close>
  \<^item> \<open>Call_Types\<close>, \<open>Call_Task\<close>: the wire types and the task of one call, a state machine with two peer
    connections; what it does outside goes to a log, what the media engine and the command queue answer
    is any function of what happened. \<open>Call_Views\<close> says which fields each method leaves alone,
    \<open>Call_Facts\<close> carries the invariant, \<open>Call_Log\<close> has a locale for invariants of the log with two
    interpretations, \<open>Call_Order\<close> the orders of candidates and offers.

  \<^bold>\<open>The session.\<close>
  \<^item> \<open>Session_Store\<close>, \<open>Session_Flows\<close>, \<open>Session_Facts\<close>: the store's methods, each atomic under its lock, the
    slot that any number of clients share, and the flows (login, second factor, restore, refresh,
    sign-out, password change) as steps that interleave freely; a token let go of is revoked by a step of
    its own, which comes whenever its task runs.

  \<^bold>\<open>The socket.\<close>
  \<^item> \<open>Socket\<close>, \<open>Socket_Facts\<close>: \<open>run_once\<close>'s loop as one function per arm of its \<open>select!\<close>, \<open>run\<close>'s
    reconnect loop, the end of the task, and a run of turns, commands and session changes in any order. The facts are the
    callers' books, the credentials the socket is on, the routes of the calls and the waits.

  \<^bold>\<open>What is shown.\<close> \<open>Sync_Properties\<close>, \<open>Cache_Properties\<close>, \<open>Transfer_Properties\<close>,
  \<open>File_Properties\<close>, \<open>Outbox_Properties\<close>, \<open>Call_Properties\<close>, \<open>Session_Properties\<close> and \<open>Socket_Properties\<close> hold the claims,
  each with a run at which its hypotheses hold. Six describe what the code should not do: an unreadable
  row of a full history page makes the cache claim the whole history; a server that answers 416 is asked
  without end; a late resume reports a dead call connected; a client that lost the slot at the wrong
  moment has a token of the stored login revoked; a join confirmed after its timeout is not left; and a
  sign-out overtaken by a token refresh leaves the socket connected. Three lemmas beside them do the same:
  \<open>queued_command_waits_offline\<close> (an accepted command outlives its connection in the queue),
  \<open>pin_spoils_running_download\<close> and \<open>late_starter_discards_finished_file\<close>.

  \<^bold>\<open>Conventions and bounds.\<close> A result is \<open>error + value\<close>, a missing value an option. A store transaction is
  a function of the database, dropped when a statement fails. What the code awaits is a script or an
  event: network answers, refusals of the key store and the file system, what other tasks do meanwhile;
  the theorems quantify over all of them. Loops over a script end with it, so no fuel is a bound on what
  the code does: a script that ends early stands for a process that stops there, and the theorems on
  termination (downloads, uploads) say how long a script the loop can use up. Integers that the code
  bounds keep the bound (\<open>retry_delay\<close> on 64-bit words, \<open>u32\<close> fields by range); revisions, generations and
  ordinals, which only count up by one, are natural numbers. Times are milliseconds or seconds as natural
  numbers. Message ids are UUIDv7 strings, compared as strings, as the code does.

  \<^bold>\<open>Not modelled.\<close> The clients (GTK, KDE, Apple) and the bindings, which are user interface and generated
  glue; the media library, a binding to GStreamer; the Python server, whose answers are arguments here.
  Of the core: TLS, HTTP and WebSocket framing (third-party crates), building of requests that carry no
  decision, SQLCipher and the key store beyond their refusals (\<open>store.rs\<close>, \<open>keyslot.rs\<close>), AES-GCM and SHA-256
  (the \<open>ring\<close> crate), and of \<open>files.rs\<close> the schedule of the background fetcher, the progress of the callers
  who share a download, and the copies made to open a file; previews (\<open>preview.rs\<close>).
\<close>

end
